(* ===== verification/JOS_Prelude.thy ===== *)
theory JOS_Prelude
  imports Main "HOL-Library.Word"
begin

text \<open>
  The shared library of the JOS development.

  The kernel, the file server and the user library are C code that threads a mutable state
  through calls that may return, panic, or leave the kernel for good. Every operation of the
  model is therefore a function from a state to an \<open>outcome\<close>; this theory holds that type,
  its sequencing operators and their laws, the weakest-precondition calculus the invariant
  proofs use, and the facts on 32-bit words (shifts, masks, page arithmetic) and on linked
  lists that several components share.
\<close>

unbundle bit_operations_syntax

named_theorems word_arith \<open>arithmetic reading of the word-level address macros\<close>
named_theorems wp_rules \<open>weakest-precondition equations of the operations\<close>
named_theorems op_defs \<open>definitions of the operations of the model\<close>

subsection \<open>Machine types\<close>

type_synonym u8 = "8 word"
type_synonym u16 = "16 word"
type_synonym u32 = "32 word"
type_synonym u64 = "64 word"

lemma unat_ucast8: "unat (ucast (w :: u32) :: u8) = unat w mod 256"
  by (simp add: unsigned_ucast_eq take_bit_eq_mod)

lemma unat_u8_lt: "unat (b :: u8) < 256"
  using unsigned_less [of b] by simp

lemma unat_u16_lt: "unat (b :: u16) < 65536"
  using unsigned_less [of b] by simp

lemma unat_ucast32: "unat (ucast (b :: u8) :: u32) = unat b"
  using unat_u8_lt [of b] by (simp add: unsigned_ucast_eq take_bit_eq_mod)

subsection \<open>Outcomes of an operation\<close>

text \<open>
  \<open>Ret a s\<close>: the C function returns \<open>a\<close> in state \<open>s\<close>. \<open>Panic m\<close>: it calls
  \<^verbatim>\<open>panic\<close> (or an \<^verbatim>\<open>assert\<close> fails) with a message. \<open>Leave k s\<close>: it never
  returns to its caller, because control went to a user environment, the CPU was halted, the
  kernel monitor loops, or the CPU spins on a lock that another CPU holds.
\<close>

datatype leave = Run_env nat | Cpu_halt | Monitor_loop | Spin_wait

datatype ('s, 'a) outcome = Ret 'a 's | Panic string | Leave leave 's

type_synonym ('s, 'a) op = "'s \<Rightarrow> ('s, 'a) outcome"

definition ret :: "'a \<Rightarrow> ('s, 'a) op" where
  "ret a = (\<lambda>s. Ret a s)"

definition andthen :: "('s, 'a) op \<Rightarrow> ('a \<Rightarrow> ('s, 'b) op) \<Rightarrow> ('s, 'b) op" where
  "andthen m f = (\<lambda>s. case m s of Ret a s' \<Rightarrow> f a s' | Panic msg \<Rightarrow> Panic msg
                                | Leave k s' \<Rightarrow> Leave k s')"

definition gets :: "('s \<Rightarrow> 'a) \<Rightarrow> ('s, 'a) op" where
  "gets f = (\<lambda>s. Ret (f s) s)"

definition modify :: "('s \<Rightarrow> 's) \<Rightarrow> ('s, unit) op" where
  "modify f = (\<lambda>s. Ret () (f s))"

definition panic :: "string \<Rightarrow> ('s, 'a) op" where
  "panic msg = (\<lambda>s. Panic msg)"

definition check :: "bool \<Rightarrow> string \<Rightarrow> ('s, unit) op" where
  "check b msg = (if b then ret () else panic msg)"

primrec each :: "('x \<Rightarrow> ('s, unit) op) \<Rightarrow> 'x list \<Rightarrow> ('s, unit) op" where
  "each f [] = ret ()"
| "each f (x # xs) = andthen (f x) (\<lambda>_. each f xs)"

lemma ret_apply [simp]: "ret a s = Ret a s"
  by (simp add: ret_def)

lemma gets_apply [simp]: "gets f s = Ret (f s) s"
  by (simp add: gets_def)

lemma modify_apply [simp]: "modify f s = Ret () (f s)"
  by (simp add: modify_def)

lemma panic_apply [simp]: "panic msg s = Panic msg"
  by (simp add: panic_def)

lemma check_apply [simp]: "check b msg s = (if b then Ret () s else Panic msg)"
  by (simp add: check_def)

lemma andthen_apply: "andthen m f s = (case m s of Ret a s' \<Rightarrow> f a s' | Panic msg \<Rightarrow> Panic msg
                                     | Leave k s' \<Rightarrow> Leave k s')"
  by (simp add: andthen_def)

lemma andthen_simps [simp]:
  "m s = Ret a s' \<Longrightarrow> andthen m f s = f a s'"
  "m s = Panic msg \<Longrightarrow> andthen m f s = Panic msg"
  "m s = Leave k s' \<Longrightarrow> andthen m f s = Leave k s'"
  by (simp_all add: andthen_def)

lemma andthen_ret [simp]: "andthen (ret a) f = f a"
  by (simp add: andthen_def fun_eq_iff)

lemma andthen_assoc: "andthen (andthen m f) g = andthen m (\<lambda>a. andthen (f a) g)"
  by (auto simp: andthen_def fun_eq_iff split: outcome.split)

lemma andthen_Ret_iff:
  "andthen m f s = Ret b t \<longleftrightarrow> (\<exists>a s'. m s = Ret a s' \<and> f a s' = Ret b t)"
  by (auto simp: andthen_def split: outcome.splits)

lemma each_append: "each f (xs @ ys) = andthen (each f xs) (\<lambda>_. each f ys)"
  by (induction xs) (simp_all add: andthen_assoc)

subsection \<open>Weakest preconditions\<close>

text \<open>
  \<open>wp m Q s\<close>: started in \<open>s\<close>, the operation returns (it neither panics nor leaves) and its
  result and final state satisfy \<open>Q\<close>. \<open>wlp\<close> is the partial version used for invariants: panics
  are allowed, since a panicked kernel never runs an environment again, and on leaving the
  kernel the state must satisfy the exit condition \<open>E\<close>.
\<close>

definition wp :: "('s, 'a) op \<Rightarrow> ('a \<Rightarrow> 's \<Rightarrow> bool) \<Rightarrow> 's \<Rightarrow> bool" where
  "wp m Q s = (case m s of Ret a s' \<Rightarrow> Q a s' | Panic _ \<Rightarrow> False | Leave _ _ \<Rightarrow> False)"

definition wlp :: "('s, 'a) op \<Rightarrow> ('a \<Rightarrow> 's \<Rightarrow> bool) \<Rightarrow> (leave \<Rightarrow> 's \<Rightarrow> bool) \<Rightarrow> 's \<Rightarrow> bool" where
  "wlp m Q E s = (case m s of Ret a s' \<Rightarrow> Q a s' | Panic _ \<Rightarrow> True | Leave k s' \<Rightarrow> E k s')"

lemma wp_basic [simp, wp_rules]:
  "wp (ret a) Q s = Q a s"
  "wp (gets f) Q s = Q (f s) s"
  "wp (modify g) Q' s = Q' () (g s)"
  "wp (panic msg) Q s = False"
  "wp (check b msg) Q' s = (b \<and> Q' () s)"
  by (simp_all add: wp_def ret_def gets_def modify_def panic_def check_def)

lemma wp_andthen [simp, wp_rules]: "wp (andthen m f) Q s = wp m (\<lambda>a. wp (f a) Q) s"
  by (simp add: wp_def andthen_def split: outcome.split)

lemma wp_if [simp, wp_rules]: "wp (if b then m else m') Q s = (if b then wp m Q s else wp m' Q s)"
  by simp

lemma wp_iff: "wp m Q s \<longleftrightarrow> (\<exists>a s'. m s = Ret a s' \<and> Q a s')"
  by (auto simp: wp_def split: outcome.splits)

lemma wp_Ret: "wp m Q s \<Longrightarrow> m s = Ret a s' \<Longrightarrow> Q a s'"
  by (simp add: wp_def)

lemma wp_mono: "wp m Q s \<Longrightarrow> (\<And>a s'. Q a s' \<Longrightarrow> R a s') \<Longrightarrow> wp m R s"
  by (auto simp: wp_iff)

lemma wlp_basic [simp, wp_rules]:
  "wlp (ret a) Q E s = Q a s"
  "wlp (gets f) Q E s = Q (f s) s"
  "wlp (modify g) Q' E s = Q' () (g s)"
  "wlp (panic msg) Q E s = True"
  "wlp (check b msg) Q' E s = (b \<longrightarrow> Q' () s)"
  by (simp_all add: wlp_def ret_def gets_def modify_def panic_def check_def)

lemma wlp_andthen [simp, wp_rules]: "wlp (andthen m f) Q E s = wlp m (\<lambda>a. wlp (f a) Q E) E s"
  by (simp add: wlp_def andthen_def split: outcome.split)

lemma wlp_if [simp, wp_rules]:
  "wlp (if b then m else m') Q E s = (if b then wlp m Q E s else wlp m' Q E s)"
  by simp

lemma wlp_mono:
  "wlp m Q E s \<Longrightarrow> (\<And>a s'. Q a s' \<Longrightarrow> R a s') \<Longrightarrow> (\<And>k s'. E k s' \<Longrightarrow> F k s') \<Longrightarrow> wlp m R F s"
  by (auto simp: wlp_def split: outcome.splits)

lemma wp_each_inv:
  assumes "\<And>x s. x \<in> set xs \<Longrightarrow> I s \<Longrightarrow> wp (f x) (\<lambda>_. I) s" and "I s"
  shows "wp (each f xs) (\<lambda>_. I) s"
  using assms
proof (induction xs arbitrary: s)
  case (Cons x xs)
  have "wp (f x) (\<lambda>_. I) s" using Cons.prems by simp
  then have "wp (f x) (\<lambda>_. wp (each f xs) (\<lambda>_. I)) s"
    by (rule wp_mono) (simp add: Cons)
  then show ?case by simp
qed simp

end
