(* ===== verification/JOS_Types.thy ===== *)
theory JOS_Types
  imports JOS_Prelude
begin

text \<open>
  The constants and macros of \<^verbatim>\<open>inc/types.h\<close>, \<^verbatim>\<open>inc/mmu.h\<close>,
  \<^verbatim>\<open>inc/memlayout.h\<close>, \<^verbatim>\<open>inc/error.h\<close>, \<^verbatim>\<open>inc/env.h\<close> and
  \<^verbatim>\<open>inc/trap.h\<close>: page arithmetic on 32-bit linear addresses, page-table entry flags,
  the virtual memory map and the error codes. The lemmas give the arithmetic reading of each
  macro (\<open>word_arith\<close>) and show that the three-part decomposition of a linear address is a
  bijection.
\<close>

subsection \<open>Rounding (inc/types.h)\<close>

definition ROUNDDOWN :: "u32 \<Rightarrow> u32 \<Rightarrow> u32" where
  "ROUNDDOWN a n = a - a mod n"

definition ROUNDUP :: "u32 \<Rightarrow> u32 \<Rightarrow> u32" where
  "ROUNDUP a n = ROUNDDOWN (a + n - 1) n"

subsection \<open>Linear addresses (inc/mmu.h)\<close>

definition PGSIZE :: u32 where "PGSIZE = 4096"
definition NPDENTRIES :: nat where "NPDENTRIES = 1024"
definition NPTENTRIES :: nat where "NPTENTRIES = 1024"
definition PTSIZE :: u32 where "PTSIZE = PGSIZE * 1024"

definition PGNUM :: "u32 \<Rightarrow> u32" where
  "PGNUM la = drop_bit 12 la"

definition PDX :: "u32 \<Rightarrow> u32" where
  "PDX la = drop_bit 22 la AND 0x3FF"

definition PTX :: "u32 \<Rightarrow> u32" where
  "PTX la = drop_bit 12 la AND 0x3FF"

definition PGOFF :: "u32 \<Rightarrow> u32" where
  "PGOFF la = la AND 0xFFF"

definition PGADDR :: "u32 \<Rightarrow> u32 \<Rightarrow> u32 \<Rightarrow> u32" where
  "PGADDR d t o' = (push_bit 22 d OR push_bit 12 t) OR o'"

definition PTE_P :: u32 where "PTE_P = 0x001"
definition PTE_W :: u32 where "PTE_W = 0x002"
definition PTE_U :: u32 where "PTE_U = 0x004"
definition PTE_PWT :: u32 where "PTE_PWT = 0x008"
definition PTE_PCD :: u32 where "PTE_PCD = 0x010"
definition PTE_AVAIL :: u32 where "PTE_AVAIL = 0xE00"

definition PTE_SYSCALL :: u32 where
  "PTE_SYSCALL = ((PTE_AVAIL OR PTE_P) OR PTE_W) OR PTE_U"

definition PTE_SHARE :: u32 where "PTE_SHARE = 0x400"

definition PTE_ADDR :: "u32 \<Rightarrow> u32" where
  "PTE_ADDR pte = pte AND NOT 0xFFF"

definition FL_IF :: u32 where "FL_IF = 0x00000200"
definition FL_IOPL_MASK :: u32 where "FL_IOPL_MASK = 0x00003000"

subsection \<open>Virtual memory map (inc/memlayout.h)\<close>

definition GD_KT :: u16 where "GD_KT = 0x08"
definition GD_KD :: u16 where "GD_KD = 0x10"
definition GD_UT :: u16 where "GD_UT = 0x18"
definition GD_UD :: u16 where "GD_UD = 0x20"

definition KERNBASE :: u32 where "KERNBASE = 0xF0000000"
definition KSTACKTOP :: u32 where "KSTACKTOP = KERNBASE"
definition KSTKSIZE :: u32 where "KSTKSIZE = 8 * PGSIZE"
definition KSTKGAP :: u32 where "KSTKGAP = 8 * PGSIZE"
definition IOPHYSMEM :: u32 where "IOPHYSMEM = 0x0A0000"
definition EXTPHYSMEM :: u32 where "EXTPHYSMEM = 0x100000"
definition MMIOLIM :: u32 where "MMIOLIM = KSTACKTOP - PTSIZE"
definition MMIOBASE :: u32 where "MMIOBASE = MMIOLIM - PTSIZE"
definition ULIM :: u32 where "ULIM = MMIOBASE"
definition UVPT :: u32 where "UVPT = ULIM - PTSIZE"
definition UPAGES :: u32 where "UPAGES = UVPT - PTSIZE"
definition UENVS :: u32 where "UENVS = UPAGES - PTSIZE"
definition UTOP :: u32 where "UTOP = UENVS"
definition UXSTACKTOP :: u32 where "UXSTACKTOP = UTOP"
definition USTACKTOP :: u32 where "USTACKTOP = UTOP - 2 * PGSIZE"
definition UTEXT :: u32 where "UTEXT = 2 * PTSIZE"
definition UTEMP :: u32 where "UTEMP = PTSIZE"
definition PFTEMP :: u32 where "PFTEMP = UTEMP + PTSIZE - PGSIZE"
definition MPENTRY_PADDR :: u32 where "MPENTRY_PADDR = 0x7000"

lemmas layout_defs =
  PGSIZE_def PTSIZE_def KERNBASE_def KSTACKTOP_def KSTKSIZE_def KSTKGAP_def IOPHYSMEM_def
  EXTPHYSMEM_def MMIOLIM_def MMIOBASE_def ULIM_def UVPT_def UPAGES_def UENVS_def UTOP_def
  UXSTACKTOP_def USTACKTOP_def UTEXT_def UTEMP_def PFTEMP_def MPENTRY_PADDR_def

lemmas pte_defs = PTE_P_def PTE_W_def PTE_U_def PTE_PWT_def PTE_PCD_def PTE_AVAIL_def
  PTE_SYSCALL_def

subsection \<open>Error codes (inc/error.h)\<close>

datatype error =
    E_UNSPECIFIED | E_BAD_ENV | E_INVAL | E_NO_MEM | E_NO_FREE_ENV | E_FAULT
  | E_IPC_NOT_RECV | E_EOF | E_NO_DISK | E_MAX_OPEN | E_NOT_FOUND | E_BAD_PATH
  | E_FILE_EXISTS | E_NOT_EXEC | E_NOT_SUPP

fun error_code :: "error \<Rightarrow> u32" where
  "error_code E_UNSPECIFIED = 1"
| "error_code E_BAD_ENV = 2"
| "error_code E_INVAL = 3"
| "error_code E_NO_MEM = 4"
| "error_code E_NO_FREE_ENV = 5"
| "error_code E_FAULT = 6"
| "error_code E_IPC_NOT_RECV = 7"
| "error_code E_EOF = 8"
| "error_code E_NO_DISK = 9"
| "error_code E_MAX_OPEN = 10"
| "error_code E_NOT_FOUND = 11"
| "error_code E_BAD_PATH = 12"
| "error_code E_FILE_EXISTS = 13"
| "error_code E_NOT_EXEC = 14"
| "error_code E_NOT_SUPP = 15"

text \<open>\<open>- E_INVAL\<close> and its kin, as the 32-bit value a C function returns.\<close>

definition err :: "error \<Rightarrow> u32" where
  "err e = - error_code e"

subsection \<open>Arithmetic reading of the macros\<close>

lemma unat_lt_4G: "unat (w::u32) < 4294967296"
proof -
  have "unat w < 2 ^ LENGTH(32)" by (rule unsigned_less)
  then show ?thesis by simp
qed

lemma and_mask_mod: "unat ((w::u32) AND mask n) = unat w mod 2 ^ n"
  by (simp add: take_bit_eq_mask [symmetric] unsigned_take_bit_eq)
    (simp add: take_bit_eq_mod)

lemma unat_PGNUM [word_arith]: "unat (PGNUM la) = unat la div 4096"
  by (simp add: PGNUM_def drop_bit_eq_div unat_div)

lemma unat_PDX [word_arith]: "unat (PDX la) = unat la div 4194304"
proof -
  have "unat (PDX la) = unat (drop_bit 22 la) mod 2 ^ 10"
    unfolding PDX_def using and_mask_mod [of "drop_bit 22 la" 10] by (simp add: mask_eq_exp_minus_1)
  then show ?thesis
    using unat_lt_4G [of la] by (simp add: drop_bit_eq_div unat_div)
qed

lemma unat_PTX [word_arith]: "unat (PTX la) = unat la div 4096 mod 1024"
proof -
  have "unat (PTX la) = unat (drop_bit 12 la) mod 2 ^ 10"
    unfolding PTX_def using and_mask_mod [of "drop_bit 12 la" 10] by (simp add: mask_eq_exp_minus_1)
  then show ?thesis
    by (simp add: drop_bit_eq_div unat_div)
qed

lemma unat_PGOFF [word_arith]: "unat (PGOFF la) = unat la mod 4096"
  unfolding PGOFF_def using and_mask_mod [of la 12] by (simp add: mask_eq_exp_minus_1)

lemma unat_ROUNDDOWN: "unat (ROUNDDOWN a n) = unat a - unat a mod unat n"
  unfolding ROUNDDOWN_def by (subst unat_sub) (auto simp: unat_mod word_le_nat_alt)

lemma unat_ROUNDDOWN_page [word_arith]: "unat (ROUNDDOWN a PGSIZE) = unat a div 4096 * 4096"
  by (simp add: unat_ROUNDDOWN PGSIZE_def minus_mod_eq_div_mult)

lemma page_ceil:
  fixes n m :: nat
  shows "n \<le> (n + 4095) div 4096 * 4096" and "(n + 4095) div 4096 * 4096 < n + 4096"
    and "n \<le> m * 4096 \<Longrightarrow> (n + 4095) div 4096 * 4096 \<le> m * 4096"
proof -
  have d: "(n + 4095) div 4096 * 4096 + (n + 4095) mod 4096 = n + 4095" by (rule div_mult_mod_eq)
  have r: "(n + 4095) mod 4096 < 4096" by simp
  show "n \<le> (n + 4095) div 4096 * 4096" "(n + 4095) div 4096 * 4096 < n + 4096"
    using d r by linarith+
  assume "n \<le> m * 4096"
  then have "(n + 4095) div 4096 < m + 1" by (simp add: div_less_iff_less_mult)
  then show "(n + 4095) div 4096 * 4096 \<le> m * 4096" by simp
qed

lemma unat_ROUNDUP_page:
  assumes "unat a + 4095 < 4294967296"
  shows "unat (ROUNDUP a PGSIZE) = (unat a + 4095) div 4096 * 4096"
proof -
  have "unat (a + PGSIZE - 1) = unat a + 4095"
    using assms by (simp add: PGSIZE_def unat_word_ariths)
  then show ?thesis unfolding ROUNDUP_def by (simp add: unat_ROUNDDOWN_page)
qed

lemma PTE_ADDR_split: "pte = PTE_ADDR pte + PGOFF pte"
proof -
  let ?m = "mask 12 :: u32"
  have "(pte AND NOT ?m) AND (pte AND ?m) = 0" and "(pte AND NOT ?m) OR (pte AND ?m) = pte"
    by (rule bit_eqI; auto simp: bit_simps)+
  then have "(pte AND NOT ?m) + (pte AND ?m) = pte"
    using word_plus_and_or [of "pte AND NOT ?m" "pte AND ?m"] by simp
  then show ?thesis by (simp add: PTE_ADDR_def PGOFF_def mask_eq_exp_minus_1)
qed

lemma unat_PTE_ADDR [word_arith]: "unat (PTE_ADDR pte) = unat pte div 4096 * 4096"
proof -
  have "PTE_ADDR pte = ROUNDDOWN pte PGSIZE"
  proof -
    have "PTE_ADDR pte = pte - PGOFF pte" using PTE_ADDR_split [of pte] by (simp add: algebra_simps)
    moreover have "PGOFF pte = pte mod PGSIZE"
      by (simp add: word_arith PGSIZE_def unat_mod word_unat_eq_iff)
    ultimately show ?thesis by (simp add: ROUNDDOWN_def)
  qed
  then show ?thesis by (simp add: unat_ROUNDDOWN_page)
qed

lemma PGNUM_PTE_ADDR [simp]: "PGNUM (PTE_ADDR pte) = PGNUM pte"
  by (simp add: word_arith word_unat_eq_iff)

lemma or_disjoint_add: "a AND b = 0 \<Longrightarrow> a OR b = a + (b::u32)"
  using word_plus_and_or [of a b] by simp

text \<open>Flags ored onto a page-aligned address do not reach its page number.\<close>

lemma aligned_and_flags:
  assumes "unat a mod 4096 = 0" and "unat (f::u32) < 4096"
  shows "a AND f = 0"
proof -
  have a: "PGOFF a = 0" using assms(1) by (simp add: word_arith unat_eq_zero [symmetric])
  have f: "PGOFF f = f" using assms(2) by (simp add: word_arith word_unat_eq_iff)
  have "a AND f = a AND (0xFFF AND f)" using f by (simp add: PGOFF_def and.commute)
  also have "\<dots> = PGOFF a AND f" by (simp only: PGOFF_def and.assoc)
  finally show ?thesis by (simp add: a)
qed

lemma unat_aligned_or:
  assumes "unat a mod 4096 = 0" and "unat (f::u32) < 4096"
  shows "unat (a OR f) = unat a + unat f"
proof -
  have "unat a = unat a div 4096 * 4096" and "unat a div 4096 < 1048576"
    using assms(1) unat_lt_4G [of a] by (auto simp: div_less_iff_less_mult)
  then have "unat a + unat f < 4294967296" using assms(2) by linarith
  then show ?thesis
    using or_disjoint_add [OF aligned_and_flags [OF assms]] by (simp add: unat_word_ariths)
qed

subsection \<open>The decomposition of a linear address\<close>

lemma unat_PGADDR:
  assumes "unat d < 1024" and "unat t < 1024" and "unat o' < 4096"
  shows "unat (PGADDR d t o') = unat d * 4194304 + unat t * 4096 + unat o'"
proof -
  have d: "unat (push_bit 22 d) = unat d * 4194304" and t: "unat (push_bit 12 t) = unat t * 4096"
    using assms by (simp_all add: push_bit_eq_mult unat_word_ariths)
  have "push_bit 22 d AND push_bit 12 t = (0::u32)"
  proof (rule bit_eqI)
    fix n
    have "t = take_bit 10 t" using assms(2)
      by (simp add: word_unat_eq_iff take_bit_eq_mod unsigned_take_bit_eq unat_mod)
    then have "bit t k \<Longrightarrow> k < 10" for k by (metis bit_take_bit_iff)
    then show "bit (push_bit 22 d AND push_bit 12 t) n = bit 0 n"
      by (fastforce simp: bit_simps)
  qed
  then have dt: "unat (push_bit 22 d OR push_bit 12 t) = unat d * 4194304 + unat t * 4096"
    using or_disjoint_add [of "push_bit 22 d" "push_bit 12 t"] d t assms
    by (simp add: unat_word_ariths)
  then show ?thesis
    unfolding PGADDR_def by (subst unat_aligned_or) (use assms(3) in \<open>simp_all add: dt\<close>)
qed

lemma div_4M: "(n::nat) div 4194304 = n div 4096 div 1024"
  by (simp add: div_mult2_eq [symmetric])

lemma split_4M: "(n::nat) div 4194304 * 4194304 + n div 4096 mod 1024 * 4096 + n mod 4096 = n"
proof -
  have "n div 4096 div 1024 * 1024 + n div 4096 mod 1024 = n div 4096"
    and "n div 4096 * 4096 + n mod 4096 = n"
    by (rule div_mult_mod_eq)+
  then show ?thesis unfolding div_4M by linarith
qed

lemma PGADDR_PDX_PTX_PGOFF: "PGADDR (PDX la) (PTX la) (PGOFF la) = la"
proof -
  have "unat la div 4194304 < 1024" using unat_lt_4G [of la] by (simp add: div_less_iff_less_mult)
  then have "unat (PGADDR (PDX la) (PTX la) (PGOFF la))
      = unat la div 4194304 * 4194304 + unat la div 4096 mod 1024 * 4096 + unat la mod 4096"
    by (subst unat_PGADDR) (simp_all add: word_arith)
  then show ?thesis unfolding split_4M by (simp add: word_unat_eq_iff)
qed

lemma same_page_iff: "PDX a = PDX b \<and> PTX a = PTX b \<longleftrightarrow> PGNUM a = PGNUM b"
proof -
  have "unat a div 4096 = unat b div 4096 \<longleftrightarrow>
      unat a div 4096 div 1024 = unat b div 4096 div 1024 \<and>
      unat a div 4096 mod 1024 = unat b div 4096 mod 1024"
    by (metis div_mult_mod_eq)
  then show ?thesis by (auto simp: word_unat_eq_iff word_arith div_4M)
qed

text \<open>Permission bits stay below the page boundary.\<close>

lemma flags_lt_iff: "unat (f :: u32) < 4096 \<longleftrightarrow> f AND 0xFFF = f"
proof -
  have "unat (f AND 0xFFF) = unat f mod 4096" using and_mask_mod [of f 12] by (simp add: mask_eq_exp_minus_1)
  then show ?thesis by (metis mod_less mod_less_divisor unsigned_word_eqI zero_less_numeral)
qed

lemma and_flags_lt: "unat (f AND 0xFFF :: u32) < 4096"
  by (simp add: flags_lt_iff and.assoc)

lemma or_flags_lt: "unat (f :: u32) < 4096 \<Longrightarrow> unat g < 4096 \<Longrightarrow> unat (f OR g) < 4096"
  by (simp add: flags_lt_iff bit.conj_disj_distrib2)

text \<open>16-bit reference counts.\<close>

lemma unat_inc16:
  fixes r :: u16
  assumes "r \<noteq> 0xFFFF"
  shows "unat (r + 1) = unat r + 1"
proof -
  have "r + 1 \<noteq> 0"
  proof
    assume "r + 1 = 0"
    then have "r = - 1" by (simp add: eq_neg_iff_add_eq_0)
    then show False using assms by simp
  qed
  then show ?thesis using unatSuc [of r] by (simp add: add.commute)
qed

text \<open>Splitting a word at a bit position.\<close>

lemma unat_and_not_mask: "unat ((w::u32) AND NOT (mask n)) = unat w - unat w mod 2 ^ n"
proof -
  have "(w AND NOT (mask n)) AND (w AND mask n) = 0" "(w AND NOT (mask n)) OR (w AND mask n) = w"
    by (rule bit_eqI; auto simp: bit_simps)+
  then have "w = (w AND NOT (mask n)) + (w AND mask n)" using or_disjoint_add by metis
  then have "w AND NOT (mask n) = w - (w AND mask n)" by (simp add: algebra_simps)
  moreover have "w AND mask n \<le> w" by (simp add: word_le_nat_alt and_mask_mod)
  ultimately show ?thesis by (simp add: unat_sub and_mask_mod)
qed

lemma and_low_disjoint:
  assumes "unat a mod 2 ^ n = 0" and "unat (b::u32) < 2 ^ n"
  shows "a AND b = 0"
proof -
  have "a AND NOT (mask n) = a" using assms(1) by (simp add: word_unat_eq_iff unat_and_not_mask)
  moreover have "b AND mask n = b" using assms(2) by (simp add: word_unat_eq_iff and_mask_mod)
  ultimately have "a AND b = (a AND NOT (mask n)) AND (b AND mask n)" by simp
  also have "\<dots> = 0" by (rule bit_eqI) (auto simp: bit_simps)
  finally show ?thesis .
qed

lemma unat_or_low:
  assumes "unat a mod 2 ^ n = 0" and "unat (b::u32) < 2 ^ n" and "n \<le> 32"
  shows "unat (a OR b) = unat a + unat b"
proof -
  have "unat a div 2 ^ n * 2 ^ n + unat b < 2 ^ 32"
  proof -
    have "unat a div 2 ^ n < 2 ^ (32 - n)"
      using unat_lt_4G [of a] assms(3)
      by (simp add: div_less_iff_less_mult power_add [symmetric])
    then have "(unat a div 2 ^ n + 1) * 2 ^ n \<le> 2 ^ (32 - n) * 2 ^ n" by (intro mult_right_mono) auto
    also have "\<dots> = (2 ^ 32 :: nat)" using assms(3) by (simp add: power_add [symmetric])
    finally show ?thesis using assms(2) by simp
  qed
  moreover have "unat a div 2 ^ n * 2 ^ n = unat a"
    using div_mult_mod_eq [of "unat a" "2 ^ n"] assms(1) by simp
  ultimately have "unat (a + b) = unat a + unat b" by (simp add: unat_word_ariths)
  then show ?thesis using or_disjoint_add [OF and_low_disjoint [OF assms(1,2)]] by simp
qed

text \<open>Reading a 32-bit word as a signed number.\<close>

lemma sint_unat:
  "sint (w::u32) = (if unat w < 2147483648 then int (unat w) else int (unat w) - 4294967296)"
proof -
  let ?u = "int (unat w)"
  have lt: "?u < 4294967296" using unat_lt_4G [of w] by linarith
  have s: "sint w = (?u + 2147483648) mod 4294967296 - 2147483648"
    by (simp add: sint_uint signed_take_bit_eq_take_bit_shift take_bit_eq_mod)
  show ?thesis
  proof (cases "unat w < 2147483648")
    case True
    then have "(?u + 2147483648) mod 4294967296 = ?u + 2147483648" by (intro mod_pos_pos_trivial) linarith+
    then show ?thesis using True s by (simp del: of_nat_unat)
  next
    case False
    have "(?u + 2147483648) mod 4294967296 = (?u + 2147483648 - 4294967296) mod 4294967296"
      by (rule minus_mod_self2 [symmetric])
    also have "\<dots> = ?u + 2147483648 - 4294967296" using False lt by (intro mod_pos_pos_trivial) linarith+
    finally show ?thesis using False s by (simp del: of_nat_unat)
  qed
qed

lemma sint_pos_iff: "0 < sint (w::u32) \<longleftrightarrow> 0 < unat w \<and> unat w < 2147483648"
  using unat_lt_4G [of w] by (auto simp: sint_unat simp del: of_nat_unat)

lemma sint_neg_iff: "sint (w::u32) < 0 \<longleftrightarrow> 2147483648 \<le> unat w"
  using unat_lt_4G [of w] by (auto simp: sint_unat simp del: of_nat_unat)

lemma err_neg [simp]: "sint (err e) < 0"
  by (cases e) (simp_all add: err_def)

end
