(* ===== verification/Ring_Buffers.thy ===== *)
theory Ring_Buffers
  imports JOS_Prelude
begin

text \<open>
  Circular byte buffers. The console input buffer and pipes keep their characters in an array that
  is written at one position and read at another, both modulo the size. \<open>ring\<close> lists the
  contents of both; the locale \<open>fifo\<close> is the interface of a buffer whose puts and gets are atomic: what one
  put appends and one get removes. Order and completeness of whole transfers are proved once, inside it.
\<close>

subsection \<open>Contents of a circular array\<close>

definition ring :: "nat \<Rightarrow> (nat \<Rightarrow> 'a) \<Rightarrow> nat \<Rightarrow> nat \<Rightarrow> 'a list" where
  "ring N buf r n = map (\<lambda>i. buf ((r + i) mod N)) [0 ..< n]"

lemma length_ring [simp]: "length (ring N buf r n) = n"
  by (simp add: ring_def)

lemma ring_0 [simp]: "ring N buf r 0 = []"
  by (simp add: ring_def)

lemma ring_put:
  assumes "n < N"
  shows "ring N (buf((r + n) mod N := x)) r (Suc n) = ring N buf r n @ [x]"
proof -
  have "(r + i) mod N \<noteq> (r + n) mod N" if "i < n" for i
  proof
    assume "(r + i) mod N = (r + n) mod N"
    then have "N dvd (r + n) - (r + i)" using that by (subst mod_eq_dvd_iff_nat [symmetric]) auto
    then have "N \<le> n - i" using that by (auto intro: dvd_imp_le)
    then show False using assms that by linarith
  qed
  then show ?thesis by (auto simp: ring_def)
qed

lemma ring_get:
  assumes "0 < n"
  shows "ring N buf r n = buf (r mod N) # ring N buf (Suc r) (n - 1)"
proof -
  have "[0 ..< n] = 0 # map Suc [0 ..< n - 1]"
    using assms map_Suc_upt [of 0 "n - 1"] upt_conv_Cons [of 0 n] by simp
  then show ?thesis by (simp add: ring_def comp_def)
qed

lemma ring_mod: "ring N buf (r mod N) n = ring N buf r n"
  by (simp add: ring_def mod_add_left_eq)

subsection \<open>The interface of a bounded queue\<close>

locale fifo =
  fixes ok :: "'s \<Rightarrow> bool"
    and contents :: "'s \<Rightarrow> 'a list"
    and cap :: nat
    and put :: "'a \<Rightarrow> 's \<Rightarrow> 's"
    and get :: "'s \<Rightarrow> 'a \<times> 's"
  assumes put_ok: "ok s \<Longrightarrow> length (contents s) < cap \<Longrightarrow> ok (put x s)"
    and put_contents: "ok s \<Longrightarrow> length (contents s) < cap \<Longrightarrow> contents (put x s) = contents s @ [x]"
    and get_ok: "ok s \<Longrightarrow> contents s \<noteq> [] \<Longrightarrow> ok (snd (get s))"
    and get_contents: "ok s \<Longrightarrow> contents s = x # xs \<Longrightarrow> fst (get s) = x \<and> contents (snd (get s)) = xs"
begin

primrec puts :: "'a list \<Rightarrow> 's \<Rightarrow> 's" where
  "puts [] s = s"
| "puts (x # xs) s = puts xs (put x s)"

primrec getn :: "nat \<Rightarrow> 's \<Rightarrow> 'a list \<times> 's" where
  "getn 0 s = ([], s)"
| "getn (Suc n) s = (let (x, t) = get s; (xs, u) = getn n t in (x # xs, u))"

lemma puts_contents:
  "ok s \<Longrightarrow> length (contents s) + length xs \<le> cap \<Longrightarrow> ok (puts xs s) \<and> contents (puts xs s) = contents s @ xs"
proof (induction xs arbitrary: s)
  case (Cons x xs)
  then show ?case using put_ok [of s x] put_contents [of s x] by simp
qed simp

lemma getn_contents:
  "ok s \<Longrightarrow> n \<le> length (contents s) \<Longrightarrow>
     ok (snd (getn n s)) \<and> fst (getn n s) = take n (contents s) \<and> contents (snd (getn n s)) = drop n (contents s)"
proof (induction n arbitrary: s)
  case (Suc n)
  then obtain x xs where c: "contents s = x # xs" by (cases "contents s") auto
  note g = get_contents [OF Suc.prems(1) c] and o = get_ok [OF Suc.prems(1)]
  have "ok (snd (getn n (snd (get s)))) \<and> fst (getn n (snd (get s))) = take n xs \<and>
      contents (snd (getn n (snd (get s)))) = drop n xs"
    using Suc.IH [of "snd (get s)"] Suc.prems g o c by auto
  then show ?case using g c by (auto simp: split_beta Let_def)
qed simp

lemma transfer:
  assumes "ok s" and "contents s = []" and "length xs \<le> cap"
  shows "fst (getn (length xs) (puts xs s)) = xs" and "contents (snd (getn (length xs) (puts xs s))) = []"
  using puts_contents [of s xs] getn_contents [of "puts xs s" "length xs"] assms by auto

end

end
