(* ===== verification/Kern_Console.thy ===== *)
theory Kern_Console
  imports JOS_Types Ring_Buffers
begin

text \<open>
  The console (\<^verbatim>\<open>kern/console.c\<close>) and the interrupt controller it programs
  (\<^verbatim>\<open>kern/picirq.c\<close>). The devices are part of the state: the bytes that wait in the serial port
  and in the keyboard controller (with the flag that marks mouse data), the video memory, and the log
  of all port writes. Waiting for a transmitter has no effect on the state; both wait loops give up
  after 12800 rounds and send anyway.
\<close>

record console =
  port_log :: "(u16 \<times> u8) list"
  irq_mask_8259A :: u16
  didinit :: bool
  serial_in :: "u8 list"
  kbd_in :: "(bool \<times> u8) list"
  serial_exists :: bool
  addr_6845 :: u16
  crt_base :: u32
  crt_buf :: "nat \<Rightarrow> u16"
  crt_pos :: u16
  shift :: u32
  cons_buf :: "nat \<Rightarrow> u8"
  cons_rpos :: u32
  cons_wpos :: u32

definition outb :: "u16 \<Rightarrow> u8 \<Rightarrow> console \<Rightarrow> console" where
  "outb port v s = s\<lparr>port_log := (port, v) # port_log s\<rparr>"

primrec outbs :: "(u16 \<times> u8) list \<Rightarrow> console \<Rightarrow> console" where
  "outbs [] s = s"
| "outbs (p # ps) s = outbs ps (outb (fst p) (snd p) s)"

subsection \<open>The 8259A interrupt controllers\<close>

definition IO_PIC1 :: u16 where "IO_PIC1 = 0x20"
definition IO_PIC2 :: u16 where "IO_PIC2 = 0xA0"
definition IRQ_SLAVE :: nat where "IRQ_SLAVE = 2"
definition IRQ_OFFSET :: u32 where "IRQ_OFFSET = 32"
definition IRQ_TIMER :: u32 where "IRQ_TIMER = 0"
definition IRQ_KBD :: u32 where "IRQ_KBD = 1"
definition IRQ_SERIAL :: u32 where "IRQ_SERIAL = 4"
definition IRQ_SPURIOUS :: u32 where "IRQ_SPURIOUS = 7"

definition irq_setmask_8259A :: "u16 \<Rightarrow> console \<Rightarrow> console" where
  "irq_setmask_8259A msk s =
     (let s1 = s\<lparr>irq_mask_8259A := msk\<rparr>
      in if \<not> didinit s then s1
         else outbs [(IO_PIC1 + 1, ucast msk), (IO_PIC2 + 1, ucast (drop_bit 8 msk))] s1)"

definition pic_init :: "console \<Rightarrow> console" where
  "pic_init s =
     (let s1 = outbs
        [(IO_PIC1 + 1, 0xFF), (IO_PIC2 + 1, 0xFF),
         (IO_PIC1, 0x11), (IO_PIC1 + 1, ucast IRQ_OFFSET), (IO_PIC1 + 1, push_bit IRQ_SLAVE 1),
         (IO_PIC1 + 1, 0x3),
         (IO_PIC2, 0x11), (IO_PIC2 + 1, ucast IRQ_OFFSET + 8), (IO_PIC2 + 1, word_of_nat IRQ_SLAVE),
         (IO_PIC2 + 1, 0x01),
         (IO_PIC1, 0x68), (IO_PIC1, 0x0A), (IO_PIC2, 0x68), (IO_PIC2, 0x0A)] (s\<lparr>didinit := True\<rparr>)
      in if irq_mask_8259A s1 \<noteq> 0xFFFF then irq_setmask_8259A (irq_mask_8259A s1) s1 else s1)"

definition irq_eoi :: "console \<Rightarrow> console" where
  "irq_eoi s = outbs [(IO_PIC1, 0x20), (IO_PIC2, 0x20)] s"

subsection \<open>Serial and parallel port\<close>

definition COM1 :: u16 where "COM1 = 0x3F8"
definition COM_RX :: u16 where "COM_RX = 0"
definition COM_TX :: u16 where "COM_TX = 0"
definition COM_DLL :: u16 where "COM_DLL = 0"
definition COM_DLM :: u16 where "COM_DLM = 1"
definition COM_IER :: u16 where "COM_IER = 1"
definition COM_IER_RDI :: u8 where "COM_IER_RDI = 0x01"
definition COM_FCR :: u16 where "COM_FCR = 2"
definition COM_LCR :: u16 where "COM_LCR = 3"
definition COM_LCR_DLAB :: u8 where "COM_LCR_DLAB = 0x80"
definition COM_LCR_WLEN8 :: u8 where "COM_LCR_WLEN8 = 0x03"
definition COM_MCR :: u16 where "COM_MCR = 4"

text \<open>
  \<open>serial_proc_data\<close> and \<open>kbd_proc_data\<close> return -1 when the device has nothing. The receive
  buffer is read only when the line status says data is available, i.e. when a byte waits.
\<close>

definition serial_proc_data :: "console \<Rightarrow> u32 \<times> console" where
  "serial_proc_data s = (case serial_in s of
       [] \<Rightarrow> (-1, s)
     | b # bs \<Rightarrow> (ucast b, s\<lparr>serial_in := bs\<rparr>))"

definition serial_putc :: "u32 \<Rightarrow> console \<Rightarrow> console" where
  "serial_putc c s = outb (COM1 + COM_TX) (ucast c) s"

text \<open>
  \<^verbatim>\<open>serial_init\<close>: \<open>lsr\<close> is what the line status register reads, 0xFF if there is no port. The
  final dummy read of the receive buffer drops a waiting byte.
\<close>

definition serial_init :: "u8 \<Rightarrow> console \<Rightarrow> console" where
  "serial_init lsr s =
     (let s1 = outbs
        [(COM1 + COM_FCR, 0), (COM1 + COM_LCR, COM_LCR_DLAB), (COM1 + COM_DLL, 115200 div 9600),
         (COM1 + COM_DLM, 0), (COM1 + COM_LCR, COM_LCR_WLEN8 AND NOT COM_LCR_DLAB),
         (COM1 + COM_MCR, 0), (COM1 + COM_IER, COM_IER_RDI)] s;
          s2 = s1\<lparr>serial_exists := lsr \<noteq> 0xFF, serial_in := drop 1 (serial_in s1)\<rparr>
      in if serial_exists s2
         then irq_setmask_8259A (irq_mask_8259A s2 AND NOT (push_bit (unat IRQ_SERIAL) 1)) s2
         else s2)"

definition lpt_putc :: "u32 \<Rightarrow> console \<Rightarrow> console" where
  "lpt_putc c s = outbs [(0x378 + 0, ucast c), (0x378 + 2, 0x08 OR 0x04 OR 0x01), (0x378 + 2, 0x08)] s"

subsection \<open>The display\<close>

definition MONO_BASE :: u16 where "MONO_BASE = 0x3B4"
definition MONO_BUF :: u32 where "MONO_BUF = 0xB0000"
definition CGA_BASE :: u16 where "CGA_BASE = 0x3D4"
definition CGA_BUF :: u32 where "CGA_BUF = 0xB8000"
definition CRT_ROWS :: nat where "CRT_ROWS = 25"
definition CRT_COLS :: nat where "CRT_COLS = 80"
definition CRT_SIZE :: nat where "CRT_SIZE = CRT_ROWS * CRT_COLS"

text \<open>
  \<open>cga\<close>: whether colour video memory is present, so that the test word can be read back.
  \<open>hi\<close> and \<open>lo\<close>: the cursor position registers.
\<close>

definition cga_init :: "bool \<Rightarrow> u8 \<Rightarrow> u8 \<Rightarrow> console \<Rightarrow> console" where
  "cga_init cga hi lo s =
     (let s1 = (if cga then s\<lparr>crt_base := KERNBASE + CGA_BUF, addr_6845 := CGA_BASE\<rparr>
                else s\<lparr>crt_base := KERNBASE + MONO_BUF, addr_6845 := MONO_BASE\<rparr>);
          s2 = outbs [(addr_6845 s1, 14), (addr_6845 s1, 15)] s1;
          pos = push_bit 8 (ucast hi) OR (ucast lo :: u32)
      in s2\<lparr>crt_pos := ucast pos\<rparr>)"

definition cga_scroll :: "console \<Rightarrow> console" where
  "cga_scroll s =
     (if CRT_SIZE \<le> unat (crt_pos s)
      then s\<lparr>crt_buf := (\<lambda>i. if i < CRT_SIZE - CRT_COLS then crt_buf s (i + CRT_COLS)
                            else if i < CRT_SIZE then 0x0700 OR 0x20 else crt_buf s i),
             crt_pos := crt_pos s - word_of_nat CRT_COLS\<rparr>
      else s)"

definition cga_cursor :: "console \<Rightarrow> console" where
  "cga_cursor s =
     outbs [(addr_6845 s, 14), (addr_6845 s + 1, ucast (drop_bit 8 (crt_pos s))),
            (addr_6845 s, 15), (addr_6845 s + 1, ucast (crt_pos s))] s"

text \<open>
  The characters of the \<^verbatim>\<open>switch\<close> of \<^verbatim>\<open>cga_putc\<close> other than the tab, which calls back into
  \<^verbatim>\<open>cons_putc\<close>.
\<close>

definition with_attr :: "u32 \<Rightarrow> u32" where
  "with_attr c = (if c AND NOT 0xFF = 0 then c OR 0x0700 else c)"

definition cga_char :: "u32 \<Rightarrow> console \<Rightarrow> console" where
  "cga_char c s =
     (if c AND 0xFF = 8 then
        (if 0 < crt_pos s
         then s\<lparr>crt_pos := crt_pos s - 1,
                crt_buf := (crt_buf s)(unat (crt_pos s - 1) := ucast ((c AND NOT 0xFF) OR 0x20))\<rparr>
         else s)
      else if c AND 0xFF = 10 then
        (let p = crt_pos s + word_of_nat CRT_COLS in s\<lparr>crt_pos := p - p mod word_of_nat CRT_COLS\<rparr>)
      else if c AND 0xFF = 13 then
        s\<lparr>crt_pos := crt_pos s - crt_pos s mod word_of_nat CRT_COLS\<rparr>
      else s\<lparr>crt_buf := (crt_buf s)(unat (crt_pos s) := ucast c), crt_pos := crt_pos s + 1\<rparr>)"

function cga_putc :: "u32 \<Rightarrow> console \<Rightarrow> console" and cons_putc :: "u32 \<Rightarrow> console \<Rightarrow> console" where
  "cga_putc c s =
     (let s1 = (if with_attr c AND 0xFF = 9
                then cons_putc 0x20 (cons_putc 0x20 (cons_putc 0x20 (cons_putc 0x20 (cons_putc 0x20 s))))
                else cga_char (with_attr c) s)
      in cga_cursor (cga_scroll s1))"
| "cons_putc c s = cga_putc c (lpt_putc c (serial_putc c s))"
  by pat_completeness auto
termination
  by (relation "measure (\<lambda>x. case x of Inl (c, s) \<Rightarrow> if with_attr c AND 0xFF = 9 then 2 else 0
                                    | Inr (c, s) \<Rightarrow> if with_attr c AND 0xFF = 9 then 3 else 1)")
     (auto simp: with_attr_def)

declare cga_putc.simps [simp del] cons_putc.simps [simp del]

subsection \<open>The keyboard\<close>

definition SHIFT :: u32 where "SHIFT = push_bit 0 1"
definition CTL :: u32 where "CTL = push_bit 1 1"
definition ALT :: u32 where "ALT = push_bit 2 1"
definition CAPSLOCK :: u32 where "CAPSLOCK = push_bit 3 1"
definition NUMLOCK :: u32 where "NUMLOCK = push_bit 4 1"
definition SCROLLLOCK :: u32 where "SCROLLLOCK = push_bit 5 1"
definition E0ESC :: u32 where "E0ESC = push_bit 6 1"

definition KEY_HOME :: u8 where "KEY_HOME = 0xE0"
definition KEY_END :: u8 where "KEY_END = 0xE1"
definition KEY_UP :: u8 where "KEY_UP = 0xE2"
definition KEY_DN :: u8 where "KEY_DN = 0xE3"
definition KEY_LF :: u8 where "KEY_LF = 0xE4"
definition KEY_RT :: u8 where "KEY_RT = 0xE5"
definition KEY_PGUP :: u8 where "KEY_PGUP = 0xE6"
definition KEY_PGDN :: u8 where "KEY_PGDN = 0xE7"
definition KEY_INS :: u8 where "KEY_INS = 0xE8"
definition KEY_DEL :: u8 where "KEY_DEL = 0xE9"

text \<open>
  A 256-byte table written as its leading entries and a list of designated ones; every other
  entry is 0.
\<close>

definition table256 :: "u8 list \<Rightarrow> (u8 \<times> u8) list \<Rightarrow> u8 \<Rightarrow> u8" where
  "table256 pre des i = (case map_of des i of
       Some v \<Rightarrow> v
     | None \<Rightarrow> if unat i < length pre then pre ! unat i else 0)"

definition chars :: "string \<Rightarrow> u8 list" where
  "chars cs = map of_char cs"

definition shiftcode :: "u8 \<Rightarrow> u8" where
  "shiftcode = table256 []
     [(0x1D, ucast CTL), (0x2A, ucast SHIFT), (0x36, ucast SHIFT), (0x38, ucast ALT),
      (0x9D, ucast CTL), (0xB8, ucast ALT)]"

definition togglecode :: "u8 \<Rightarrow> u8" where
  "togglecode = table256 [] [(0x3A, ucast CAPSLOCK), (0x45, ucast NUMLOCK), (0x46, ucast SCROLLLOCK)]"

definition keypad :: "u8 list" where
  "keypad = chars ''789-456+1230.''"

definition extended_keys :: "(u8 \<times> u8) list" where
  "extended_keys =
     [(0xC8, KEY_UP), (0xC9, KEY_PGUP), (0xCB, KEY_LF), (0xCD, KEY_RT), (0xCF, KEY_END),
      (0xD0, KEY_DN), (0xD1, KEY_PGDN), (0xD2, KEY_INS), (0xD3, KEY_DEL)]"

definition normalmap :: "u8 \<Rightarrow> u8" where
  "normalmap = table256
     ([0, 0x1B] @ chars ''1234567890-='' @ [8, 9] @ chars ''qwertyuiop[]'' @ [10, 0] @
      chars ''asdfghjkl;'' @ [0x27, 0x60, 0, 0x5C] @ chars ''zxcvbnm,./'' @ [0] @ chars ''*'' @
      [0] @ chars '' '' @ replicate 13 0 @ keypad @ [0, 0, 0, 0])
     ([(0xC7, KEY_HOME), (0x9C, 10), (0xB5, 0x2F)] @ extended_keys)"

definition shiftmap :: "u8 \<Rightarrow> u8" where
  "shiftmap = table256
     ([0, 0x1B] @ chars ''!@#$%^&*()_+'' @ [8, 9] @ chars ''QWERTYUIOP{}'' @ [10, 0] @
      chars ''ASDFGHJKL:'' @ [0x22, 0x7E, 0, 0x7C] @ chars ''ZXCVBNM<>?'' @ [0] @ chars ''*'' @
      [0] @ chars '' '' @ replicate 13 0 @ keypad @ [0, 0, 0, 0])
     ([(0xC7, KEY_HOME), (0x9C, 10), (0xB5, 0x2F)] @ extended_keys)"

text \<open>\<^verbatim>\<open>C(x)\<close> of the source.\<close>

definition ctl :: "u8 list \<Rightarrow> u8 list" where
  "ctl cs = map (\<lambda>c. c - 0x40) cs"

definition ctlmap :: "u8 \<Rightarrow> u8" where
  "ctlmap = table256
     (replicate 16 0 @ ctl (chars ''QWERTYUIOP'') @ [0, 0, 13, 0] @ ctl (chars ''ASDFGHJKL'') @
      [0, 0, 0, 0] @ ctl [0x5C] @ ctl (chars ''ZXCVBNM'') @ [0, 0] @ ctl [0x2F] @ [0, 0])
     ([(0x97, KEY_HOME), (0xB5, 0x2F - 0x40)] @ extended_keys)"

definition charcode :: "u32 \<Rightarrow> u8 \<Rightarrow> u8" where
  "charcode i = (if i = 0 then normalmap else if i = 1 then shiftmap else ctlmap)"

definition caps :: "u32 \<Rightarrow> u32" where
  "caps c = (if 0x61 \<le> c \<and> c \<le> 0x7A then c - 0x20
             else if 0x41 \<le> c \<and> c \<le> 0x5A then c + 0x20 else c)"

definition kbd_key :: "u8 \<Rightarrow> console \<Rightarrow> u32 \<times> console" where
  "kbd_key data0 s =
     (let esc = (shift s AND E0ESC \<noteq> 0);
          data = (if esc then data0 OR 0x80 else data0);
          sh1 = (if esc then shift s AND NOT E0ESC else shift s);
          sh2 = (sh1 OR ucast (shiftcode data)) XOR ucast (togglecode data);
          c0 = (ucast (charcode (sh2 AND (CTL OR SHIFT)) data) :: u32);
          c = (if sh2 AND CAPSLOCK \<noteq> 0 then caps c0 else c0);
          s1 = s\<lparr>shift := sh2\<rparr>
      in (c, if NOT sh2 AND (CTL OR ALT) = 0 \<and> c = ucast KEY_DEL then outb 0x92 0x3 s1 else s1))"

definition kbd_proc_data :: "console \<Rightarrow> u32 \<times> console" where
  "kbd_proc_data s = (case kbd_in s of
       [] \<Rightarrow> (-1, s)
     | (terr, data) # rest \<Rightarrow>
         if terr then (-1, s)
         else
           let s1 = s\<lparr>kbd_in := rest\<rparr>
           in if data = 0xE0 then (0, s1\<lparr>shift := shift s1 OR E0ESC\<rparr>)
              else if data AND 0x80 \<noteq> 0 then
                (let d = (if shift s1 AND E0ESC \<noteq> 0 then data else data AND 0x7F)
                 in (0, s1\<lparr>shift := shift s1 AND NOT (ucast (shiftcode d) OR E0ESC)\<rparr>))
              else kbd_key data s1)"

subsection \<open>The input buffer\<close>

definition CONSBUFSIZE :: nat where "CONSBUFSIZE = 512"

definition cons_put :: "u8 \<Rightarrow> console \<Rightarrow> console" where
  "cons_put c s =
     (let w = cons_wpos s + 1
      in s\<lparr>cons_buf := (cons_buf s)(unat (cons_wpos s) := c),
           cons_wpos := if w = word_of_nat CONSBUFSIZE then 0 else w\<rparr>)"

text \<open>
  The loop ends when the device runs dry, which the theorems below show; a loop that never ends
  would be \<open>None\<close>.
\<close>

partial_function (option) cons_intr ::
    "(console \<Rightarrow> u32 \<times> console) \<Rightarrow> console \<Rightarrow> console option" where
  "cons_intr proc s =
     (case proc s of (c, s1) \<Rightarrow>
        if c = -1 then Some s1
        else if c = 0 then cons_intr proc s1
        else cons_intr proc (cons_put (ucast c) s1))"

definition serial_intr :: "console \<Rightarrow> console option" where
  "serial_intr s = (if serial_exists s then cons_intr serial_proc_data s else Some s)"

definition kbd_intr :: "console \<Rightarrow> console option" where
  "kbd_intr s = cons_intr kbd_proc_data s"

definition kbd_init :: "console \<Rightarrow> console option" where
  "kbd_init s = (case kbd_intr s of
       None \<Rightarrow> None
     | Some s1 \<Rightarrow> Some (irq_setmask_8259A (irq_mask_8259A s1 AND NOT (push_bit (unat IRQ_KBD) 1)) s1))"

definition cons_take :: "console \<Rightarrow> u8 \<times> console" where
  "cons_take s =
     (let r = cons_rpos s + 1
      in (cons_buf s (unat (cons_rpos s)),
          s\<lparr>cons_rpos := if r = word_of_nat CONSBUFSIZE then 0 else r\<rparr>))"

definition cons_getc :: "console \<Rightarrow> (u32 \<times> console) option" where
  "cons_getc s = (case serial_intr s of None \<Rightarrow> None | Some s1 \<Rightarrow>
     (case kbd_intr s1 of None \<Rightarrow> None | Some s2 \<Rightarrow>
        if cons_rpos s2 \<noteq> cons_wpos s2
        then (case cons_take s2 of (c, s3) \<Rightarrow> Some (ucast c, s3))
        else Some (0, s2)))"

definition cons_init :: "bool \<Rightarrow> u8 \<Rightarrow> u8 \<Rightarrow> u8 \<Rightarrow> console \<Rightarrow> console option" where
  "cons_init cga hi lo lsr s = (case kbd_init (cga_init cga hi lo s) of
       None \<Rightarrow> None
     | Some s1 \<Rightarrow> Some (serial_init lsr s1))"

definition cputchar :: "u32 \<Rightarrow> console \<Rightarrow> console" where
  "cputchar c s = cons_putc c s"

partial_function (option) getchar :: "console \<Rightarrow> (u32 \<times> console) option" where
  "getchar s = (case cons_getc s of None \<Rightarrow> None | Some (c, s1) \<Rightarrow>
     if c = 0 then getchar s1 else Some (c, s1))"

declare cons_intr.simps [code] getchar.simps [code]

subsection \<open>The input buffer is a queue\<close>

definition cons_ok :: "console \<Rightarrow> bool" where
  "cons_ok s \<longleftrightarrow> unat (cons_rpos s) < CONSBUFSIZE \<and> unat (cons_wpos s) < CONSBUFSIZE"

definition pending :: "console \<Rightarrow> u8 list" where
  "pending s = ring CONSBUFSIZE (cons_buf s) (unat (cons_rpos s))
     ((unat (cons_wpos s) + CONSBUFSIZE - unat (cons_rpos s)) mod CONSBUFSIZE)"

lemma wrap_inc:
  assumes "unat (x :: u32) < CONSBUFSIZE"
  shows "unat (if x + 1 = word_of_nat CONSBUFSIZE then 0 else x + 1) = Suc (unat x) mod CONSBUFSIZE"
proof -
  have x: "unat x < 512" using assms by (simp add: CONSBUFSIZE_def)
  have u: "unat (x + 1) = Suc (unat x)" using x by (simp add: unat_word_ariths)
  have "(x + 1 = word_of_nat CONSBUFSIZE) = (Suc (unat x) = 512)"
    unfolding word_unat_eq_iff u by (simp add: CONSBUFSIZE_def)
  then show ?thesis using x u by (auto simp: CONSBUFSIZE_def)
qed

lemma ring_distance:
  assumes "r < N" "w < N" and "(w + N - r) mod N = n"
  shows "(r + n) mod N = w" and "n < N" and "Suc n < N \<Longrightarrow> (Suc w mod N + N - r) mod N = Suc n"
    and "Suc n = N \<Longrightarrow> Suc w mod N = r" and "0 < n \<Longrightarrow> (w + N - Suc r mod N) mod N = n - 1"
    and "n = 0 \<longleftrightarrow> w = r"
proof -
  have "n = (if r \<le> w then w - r else w + N - r)"
    using assms by (auto simp: mod_if)
  note n = this
  show "(r + n) mod N = w" "n < N" using assms n by (auto simp: mod_if split: if_splits)
  show "Suc n < N \<Longrightarrow> (Suc w mod N + N - r) mod N = Suc n" "Suc n = N \<Longrightarrow> Suc w mod N = r"
    "0 < n \<Longrightarrow> (w + N - Suc r mod N) mod N = n - 1" "n = 0 \<longleftrightarrow> w = r"
    using assms n by (auto simp: mod_if split: if_splits)
qed

lemma cons_put_fields:
  assumes "cons_ok s"
  shows "unat (cons_wpos (cons_put c s)) = Suc (unat (cons_wpos s)) mod CONSBUFSIZE"
    "cons_rpos (cons_put c s) = cons_rpos s"
    "cons_buf (cons_put c s) = (cons_buf s)(unat (cons_wpos s) := c)"
    "serial_in (cons_put c s) = serial_in s" "kbd_in (cons_put c s) = kbd_in s"
    "serial_exists (cons_put c s) = serial_exists s" "cons_ok (cons_put c s)" "shift (cons_put c s) = shift s"
  using assms wrap_inc [of "cons_wpos s"]
  by (simp_all add: cons_put_def Let_def cons_ok_def CONSBUFSIZE_def)

lemma pending_put:
  assumes ok: "cons_ok s" and len: "length (pending s) < 511"
  shows "pending (cons_put c s) = pending s @ [c]"
proof -
  let ?r = "unat (cons_rpos s)" and ?w = "unat (cons_wpos s)"
  let ?n = "(?w + CONSBUFSIZE - ?r) mod CONSBUFSIZE"
  have b: "?r < CONSBUFSIZE" "?w < CONSBUFSIZE" using ok by (auto simp: cons_ok_def)
  note D = ring_distance [OF b refl]
  have n: "Suc ?n < CONSBUFSIZE" using len by (simp add: pending_def CONSBUFSIZE_def)
  show ?thesis
    using ring_put [OF D(2), of "cons_buf s" ?r c]
    by (simp add: pending_def cons_put_fields [OF ok] D(1) D(3) [OF n])
qed

lemma pending_take:
  assumes ok: "cons_ok s" and p: "pending s = x # xs"
  shows "fst (cons_take s) = x" and "pending (snd (cons_take s)) = xs" and "cons_ok (snd (cons_take s))"
proof -
  let ?r = "unat (cons_rpos s)" and ?w = "unat (cons_wpos s)"
  let ?n = "(?w + CONSBUFSIZE - ?r) mod CONSBUFSIZE"
  have b: "?r < CONSBUFSIZE" "?w < CONSBUFSIZE" using ok by (auto simp: cons_ok_def)
  note D = ring_distance [OF b refl]
  have n: "0 < ?n" using p by (cases "?n = 0") (simp_all add: pending_def)
  have f: "unat (cons_rpos (snd (cons_take s))) = Suc ?r mod CONSBUFSIZE"
    "cons_wpos (snd (cons_take s)) = cons_wpos s" "cons_buf (snd (cons_take s)) = cons_buf s"
    using wrap_inc [OF b(1)] by (simp_all add: cons_take_def Let_def)
  have "pending s = cons_buf s ?r # pending (snd (cons_take s))"
    using ring_get [OF n, of CONSBUFSIZE "cons_buf s" ?r] b(1)
    by (simp add: pending_def f D(5) [OF n] ring_mod)
  then show "fst (cons_take s) = x" "pending (snd (cons_take s)) = xs"
    using p by (auto simp: cons_take_def Let_def)
  show "cons_ok (snd (cons_take s))" using b by (simp add: cons_ok_def f CONSBUFSIZE_def)
qed

interpretation cb: fifo cons_ok pending 511 cons_put cons_take
proof
  fix s :: console and x :: u8 and xs
  show "cons_ok s \<Longrightarrow> length (pending s) < 511 \<Longrightarrow> cons_ok (cons_put x s)" by (simp add: cons_put_fields)
  show "cons_ok s \<Longrightarrow> length (pending s) < 511 \<Longrightarrow> pending (cons_put x s) = pending s @ [x]" by (rule pending_put)
  show "cons_ok s \<Longrightarrow> pending s \<noteq> [] \<Longrightarrow> cons_ok (snd (cons_take s))"
    by (cases "pending s") (auto dest: pending_take(3))
  show "cons_ok s \<Longrightarrow> pending s = x # xs \<Longrightarrow> fst (cons_take s) = x \<and> pending (snd (cons_take s)) = xs"
    using pending_take by blast
qed

subsection \<open>What the keyboard means\<close>

text \<open>
  A description of the keyboard without the bits of \<^verbatim>\<open>shift\<close>: which modifier keys are held, which
  locks are on, and whether the previous byte was the escape 0xE0. A byte with bit 7 set releases a
  key, any other presses one; after the escape the key is one of the second half of the tables.
\<close>

record keys =
  shift_held :: bool
  ctl_held :: bool
  alt_held :: bool
  caps_on :: bool
  num_on :: bool
  scroll_on :: bool
  escaped :: bool

definition hold_key :: "bool \<Rightarrow> u8 \<Rightarrow> keys \<Rightarrow> keys" where
  "hold_key b d k = k\<lparr>shift_held := (if d \<in> {0x2A, 0x36} then b else shift_held k),
     ctl_held := (if d \<in> {0x1D, 0x9D} then b else ctl_held k),
     alt_held := (if d \<in> {0x38, 0xB8} then b else alt_held k)\<rparr>"

definition lock_key :: "u8 \<Rightarrow> keys \<Rightarrow> keys" where
  "lock_key d k = k\<lparr>caps_on := (caps_on k \<noteq> (d = 0x3A)), num_on := (num_on k \<noteq> (d = 0x45)),
     scroll_on := (scroll_on k \<noteq> (d = 0x46))\<rparr>"

definition swap_case :: "u8 \<Rightarrow> u8" where
  "swap_case c = (if c \<in> set (chars ''abcdefghijklmnopqrstuvwxyz'') then c - 0x20
     else if c \<in> set (chars ''ABCDEFGHIJKLMNOPQRSTUVWXYZ'') then c + 0x20 else c)"

definition key_char :: "u8 \<Rightarrow> keys \<Rightarrow> u8" where
  "key_char d k =
     (let c = (if ctl_held k then ctlmap else if shift_held k then shiftmap else normalmap) d
      in if caps_on k then swap_case c else c)"

definition scan_key :: "u8 \<Rightarrow> keys \<Rightarrow> u8 \<times> keys" where
  "scan_key d k =
     (if d = 0xE0 then (0, k\<lparr>escaped := True\<rparr>)
      else if bit d 7 then (0, (hold_key False (if escaped k then d else d AND 0x7F) k)\<lparr>escaped := False\<rparr>)
      else let d' = (if escaped k then d OR 0x80 else d);
               k' = lock_key d' (hold_key True d' (k\<lparr>escaped := False\<rparr>))
           in (key_char d' k', k'))"

text \<open>The characters that a sequence of bytes from the keyboard stands for; most bytes give none.\<close>

primrec typed :: "u8 list \<Rightarrow> keys \<Rightarrow> u8 list" where
  "typed [] k = []"
| "typed (d # ds) k =
     (case scan_key d k of (c, k') \<Rightarrow> (if c = 0 then [] else [c]) @ typed ds k')"

text \<open>The bits of \<^verbatim>\<open>shift\<close> as such a description.\<close>

definition keys_of :: "u32 \<Rightarrow> keys" where
  "keys_of w = \<lparr>shift_held = bit w 0, ctl_held = bit w 1, alt_held = bit w 2, caps_on = bit w 3,
     num_on = bit w 4, scroll_on = bit w 5, escaped = bit w 6\<rparr>"

named_theorems shift_bits \<open>single bits of the shift word\<close>

lemma flag_bits [shift_bits]:
  "\<not> bit E0ESC 0" "\<not> bit E0ESC (Suc 0)" "\<not> bit E0ESC 2" "\<not> bit E0ESC 3" "\<not> bit E0ESC 4" "\<not> bit E0ESC 5" "bit E0ESC 6"
  by (simp_all add: E0ESC_def)

lemma flag_tests [shift_bits]: "w AND E0ESC = 0 \<longleftrightarrow> \<not> bit w 6" "w AND CAPSLOCK = 0 \<longleftrightarrow> \<not> bit w 3"
proof -
  have "E0ESC = 2 ^ 6" "CAPSLOCK = 2 ^ 3" by (simp_all add: E0ESC_def CAPSLOCK_def)
  then show "w AND E0ESC = 0 \<longleftrightarrow> \<not> bit w 6" "w AND CAPSLOCK = 0 \<longleftrightarrow> \<not> bit w 3"
    using and_exp_eq_0_iff_not_bit [of w 6] and_exp_eq_0_iff_not_bit [of w 3] by simp_all
qed

lemma shiftcode_cases:
  "shiftcode d = (if d \<in> {0x2A, 0x36} then 1 else if d \<in> {0x1D, 0x9D} then 2 else if d \<in> {0x38, 0xB8} then 4 else 0)"
  "togglecode d = (if d = 0x3A then 8 else if d = 0x45 then 16 else if d = 0x46 then 32 else 0)"
  by (auto simp: shiftcode_def togglecode_def table256_def CTL_def SHIFT_def ALT_def CAPSLOCK_def NUMLOCK_def
      SCROLLLOCK_def)

lemma code_bits [shift_bits]:
  "bit (ucast (shiftcode d) :: u32) 0 \<longleftrightarrow> d \<in> {0x2A, 0x36}" "bit (ucast (shiftcode d) :: u32) (Suc 0) \<longleftrightarrow> d \<in> {0x1D, 0x9D}"
  "bit (ucast (shiftcode d) :: u32) 2 \<longleftrightarrow> d \<in> {0x38, 0xB8}" "\<not> bit (ucast (shiftcode d) :: u32) 3"
  "\<not> bit (ucast (shiftcode d) :: u32) 4" "\<not> bit (ucast (shiftcode d) :: u32) 5" "\<not> bit (ucast (shiftcode d) :: u32) 6"
  "\<not> bit (ucast (togglecode d) :: u32) 0" "\<not> bit (ucast (togglecode d) :: u32) (Suc 0)"
  "\<not> bit (ucast (togglecode d) :: u32) 2" "bit (ucast (togglecode d) :: u32) 3 \<longleftrightarrow> d = 0x3A"
  "bit (ucast (togglecode d) :: u32) 4 \<longleftrightarrow> d = 0x45" "bit (ucast (togglecode d) :: u32) 5 \<longleftrightarrow> d = 0x46"
  "\<not> bit (ucast (togglecode d) :: u32) 6"
  by (auto simp: shiftcode_cases)

lemma charcode_bits [shift_bits]:
  "charcode (w AND (CTL OR SHIFT)) = (if bit w 1 then ctlmap else if bit w 0 then shiftmap else normalmap)"
proof -
  have "w AND (CTL OR SHIFT) = take_bit 2 w" by (simp add: CTL_def SHIFT_def take_bit_eq_mask mask_eq_exp_minus_1)
  also have "\<dots> = 2 * of_bool (bit w 1) + of_bool (bit w 0)"
    by (simp add: numeral_2_eq_2 take_bit_Suc mod_2_eq_odd bit_Suc bit_0)
  finally show ?thesis by (simp add: charcode_def)
qed

lemma caps_swap_case: "caps (ucast c) = ucast (swap_case c)"
proof -
  have l: "c \<in> set (chars ''abcdefghijklmnopqrstuvwxyz'') \<longleftrightarrow> 0x61 \<le> unat c \<and> unat c \<le> 0x7A"
    "c \<in> set (chars ''ABCDEFGHIJKLMNOPQRSTUVWXYZ'') \<longleftrightarrow> 0x41 \<le> unat c \<and> unat c \<le> 0x5A"
    by (simp add: chars_def word_unat_eq_iff, arith)+
  have u: "unat (ucast c :: u32) = unat c" by (rule unat_ucast32)
  have "unat (ucast c - 0x20 :: u32) = unat c - 32" "unat (c - 0x20) = unat c - 32" if "0x61 \<le> unat c"
    using that by (simp_all add: unat_sub word_le_nat_alt u)
  moreover have "unat (ucast c + 0x20 :: u32) = unat c + 32" "unat (c + 0x20) = unat c + 32" if "unat c \<le> 0x5A"
    using that by (simp_all add: unat_word_ariths u)
  ultimately show ?thesis
    unfolding caps_def swap_case_def l by (auto simp: word_unat_eq_iff word_le_nat_alt u unat_ucast32)
qed

lemma keys_of_steps:
  "keys_of (w OR E0ESC) = (keys_of w)\<lparr>escaped := True\<rparr>"
  "keys_of (w AND NOT E0ESC) = (keys_of w)\<lparr>escaped := False\<rparr>"
  "keys_of (w AND NOT (ucast (shiftcode d)) AND NOT E0ESC) = (hold_key False d (keys_of w))\<lparr>escaped := False\<rparr>"
  "keys_of ((w OR ucast (shiftcode d)) XOR ucast (togglecode d)) = lock_key d (hold_key True d (keys_of w))"
  by (simp_all add: keys_of_def hold_key_def lock_key_def shift_bits bit_or_iff bit_and_iff bit_xor_iff bit_not_iff)

lemma key_char_keys_of:
  "(if w AND CAPSLOCK \<noteq> 0 then caps (ucast (charcode (w AND (CTL OR SHIFT)) d))
    else ucast (charcode (w AND (CTL OR SHIFT)) d)) = (ucast (key_char d (keys_of w)) :: u32)"
  by (simp add: key_char_def keys_of_def shift_bits Let_def caps_swap_case)

lemma kbd_key_scan:
  assumes "d \<noteq> 0xE0" and "\<not> bit d 7"
  shows "fst (kbd_key d s) = ucast (fst (scan_key d (keys_of (shift s))))"
    and "keys_of (shift (snd (kbd_key d s))) = snd (scan_key d (keys_of (shift s)))"
proof -
  define d' where "d' = (if shift s AND E0ESC \<noteq> 0 then d OR 0x80 else d)"
  define w where "w = (if shift s AND E0ESC \<noteq> 0 then shift s AND NOT E0ESC else shift s)"
  define v where "v = (w OR ucast (shiftcode d')) XOR ucast (togglecode d')"
  have e: "escaped (keys_of (shift s)) \<longleftrightarrow> shift s AND E0ESC \<noteq> 0" by (simp add: keys_of_def shift_bits)
  then have "keys_of w = (keys_of (shift s))\<lparr>escaped := False\<rparr>"
    by (auto simp: w_def keys_of_steps)
  then have v: "keys_of v = lock_key d' (hold_key True d' ((keys_of (shift s))\<lparr>escaped := False\<rparr>))"
    by (simp add: v_def keys_of_steps)
  have k: "fst (kbd_key d s) = ucast (key_char d' (keys_of v))" "shift (snd (kbd_key d s)) = v"
    unfolding key_char_keys_of [symmetric] by (simp_all add: kbd_key_def Let_def d'_def w_def v_def outb_def)
  have "scan_key d (keys_of (shift s)) = (key_char d' (keys_of v), keys_of v)"
    using assms e by (simp add: scan_key_def Let_def v d'_def)
  then show "fst (kbd_key d s) = ucast (fst (scan_key d (keys_of (shift s))))"
    "keys_of (shift (snd (kbd_key d s))) = snd (scan_key d (keys_of (shift s)))" using k by simp_all
qed

text \<open>One byte: \<^verbatim>\<open>kbd_proc_data\<close> does what the description says.\<close>

lemma kbd_proc_data_scan:
  assumes i: "kbd_in s = (False, d) # rest"
  shows "fst (kbd_proc_data s) = ucast (fst (scan_key d (keys_of (shift s))))"
    and "keys_of (shift (snd (kbd_proc_data s))) = snd (scan_key d (keys_of (shift s)))"
    and "kbd_in (snd (kbd_proc_data s)) = rest"
    and "cons_buf (snd (kbd_proc_data s)) = cons_buf s" "cons_rpos (snd (kbd_proc_data s)) = cons_rpos s"
      "cons_wpos (snd (kbd_proc_data s)) = cons_wpos s"
proof -
  have d: "d AND 0x80 = 0 \<longleftrightarrow> \<not> bit d 7" using and_exp_eq_0_iff_not_bit [of d 7] by simp
  have e: "escaped (keys_of (shift s)) \<longleftrightarrow> shift s AND E0ESC \<noteq> 0" by (simp add: keys_of_def shift_bits)
  consider (esc) "d = 0xE0" | (up) "d \<noteq> 0xE0" "bit d 7" | (down) "d \<noteq> 0xE0" "\<not> bit d 7" by blast
  then have "fst (kbd_proc_data s) = ucast (fst (scan_key d (keys_of (shift s)))) \<and>
      keys_of (shift (snd (kbd_proc_data s))) = snd (scan_key d (keys_of (shift s)))"
  proof cases
    case esc
    then show ?thesis using i by (simp add: kbd_proc_data_def scan_key_def Let_def keys_of_steps)
  next
    case up
    then show ?thesis using i d e by (simp add: kbd_proc_data_def scan_key_def Let_def keys_of_steps)
  next
    case down
    have "kbd_proc_data s = kbd_key d (s\<lparr>kbd_in := rest\<rparr>)" using i d down by (simp add: kbd_proc_data_def Let_def)
    then show ?thesis using kbd_key_scan [OF down, of "s\<lparr>kbd_in := rest\<rparr>"] by simp
  qed
  then show "fst (kbd_proc_data s) = ucast (fst (scan_key d (keys_of (shift s))))"
    "keys_of (shift (snd (kbd_proc_data s))) = snd (scan_key d (keys_of (shift s)))" by simp_all
  show "kbd_in (snd (kbd_proc_data s)) = rest" "cons_buf (snd (kbd_proc_data s)) = cons_buf s"
    "cons_rpos (snd (kbd_proc_data s)) = cons_rpos s" "cons_wpos (snd (kbd_proc_data s)) = cons_wpos s"
    using i by (simp_all add: kbd_proc_data_def kbd_key_def Let_def outb_def)
qed

subsection \<open>Interrupts drain their device\<close>

lemma ucast_u8:
  fixes b :: u8
  shows "(ucast b :: u32) \<noteq> -1" "(ucast b :: u32) = 0 \<longleftrightarrow> b = 0" "(ucast (ucast b :: u32) :: u8) = b"
proof -
  note ub = unat_ucast32 [of b]
  show "(ucast b :: u32) \<noteq> -1"
  proof
    assume "(ucast b :: u32) = -1"
    then have "unat (ucast b :: u32) = unat (-1 :: u32)" by simp
    then show False using unat_u8_lt [of b] by (simp add: ub unsigned_minus_1_eq_mask mask_eq_exp_minus_1)
  qed
  show "(ucast b :: u32) = 0 \<longleftrightarrow> b = 0" by (simp add: word_unat_eq_iff ub)
  show "(ucast (ucast b :: u32) :: u8) = b" by (simp add: word_unat_eq_iff unat_ucast8 ub unat_u8_lt)
qed

text \<open>A character that a device hands over goes to the end of the queue, a zero nowhere.\<close>

lemma cons_intr_step:
  assumes p: "proc s = (ucast b, s1)"
    and f: "cons_buf s1 = cons_buf s" "cons_rpos s1 = cons_rpos s" "cons_wpos s1 = cons_wpos s"
    and ok: "cons_ok s" and len: "length (pending s) < 511"
  obtains s2 where "cons_intr proc s = cons_intr proc s2" "cons_ok s2"
    "pending s2 = pending s @ (if b = 0 then [] else [b])"
    "kbd_in s2 = kbd_in s1" "serial_in s2 = serial_in s1" "shift s2 = shift s1"
proof -
  have ok1: "cons_ok s1" and pe: "pending s1 = pending s" using ok f by (simp_all add: cons_ok_def pending_def)
  show thesis
  proof (cases "b = 0")
    case True
    then have "cons_intr proc s = cons_intr proc s1" using p ucast_u8 [of b] by (subst cons_intr.simps) simp
    then show thesis using that [of s1] ok1 pe True by simp
  next
    case False
    then have "cons_intr proc s = cons_intr proc (cons_put b s1)"
      using p ucast_u8 [of b] by (subst cons_intr.simps) simp
    then show thesis using that [of "cons_put b s1"] cons_put_fields [OF ok1, of b] pending_put [OF ok1, of b] len pe False
      by simp
  qed
qed

lemma serial_drain:
  assumes "cons_ok s" and "length (pending s) + length (serial_in s) \<le> 511"
  shows "\<exists>s'. cons_intr serial_proc_data s = Some s' \<and> cons_ok s' \<and>
    pending s' = pending s @ filter (\<lambda>b. b \<noteq> 0) (serial_in s) \<and> kbd_in s' = kbd_in s \<and> serial_in s' = [] \<and>
    shift s' = shift s"
  using assms
proof (induction "serial_in s" arbitrary: s)
  case Nil
  then show ?case by (subst cons_intr.simps) (simp add: serial_proc_data_def)
next
  case (Cons b bs)
  have p: "serial_proc_data s = (ucast b, s\<lparr>serial_in := bs\<rparr>)" by (simp add: serial_proc_data_def flip: Cons.hyps(2))
  have len: "length (pending s) + length bs < 511" using Cons.prems(2) by (simp flip: Cons.hyps(2))
  obtain s2 where s2: "cons_intr serial_proc_data s = cons_intr serial_proc_data s2" "cons_ok s2"
    "pending s2 = pending s @ (if b = 0 then [] else [b])" "kbd_in s2 = kbd_in s" "serial_in s2 = bs" "shift s2 = shift s"
    by (rule cons_intr_step [of serial_proc_data s b, OF p]) (use Cons.prems(1) len in simp_all)
  then show ?case using Cons.hyps(1) [of s2] len by (auto simp flip: Cons.hyps(2))
qed

text \<open>
  The keyboard is read up to the first byte that comes from the mouse, which stops the loop and stays.
\<close>

definition kbd_bytes :: "console \<Rightarrow> u8 list" where
  "kbd_bytes s = map snd (takeWhile (\<lambda>x. \<not> fst x) (kbd_in s))"

lemma kbd_drain:
  assumes "cons_ok s" and "length (pending s) + length (kbd_bytes s) \<le> 511"
  shows "\<exists>s'. cons_intr kbd_proc_data s = Some s' \<and> cons_ok s' \<and>
    pending s' = pending s @ typed (kbd_bytes s) (keys_of (shift s)) \<and>
    kbd_in s' = dropWhile (\<lambda>x. \<not> fst x) (kbd_in s)"
  using assms
proof (induction "kbd_bytes s" arbitrary: s)
  case Nil
  then have "kbd_in s = [] \<or> fst (hd (kbd_in s))" "kbd_bytes s = []" by (cases "kbd_in s"; auto simp: kbd_bytes_def split: if_splits)+
  then show ?case using Nil.prems by (subst cons_intr.simps) (cases "kbd_in s", auto simp: kbd_proc_data_def kbd_bytes_def)
next
  case (Cons d ds)
  obtain rest where r: "kbd_in s = (False, d) # rest" "ds = map snd (takeWhile (\<lambda>x. \<not> fst x) rest)"
    using Cons.hyps(2) by (cases "kbd_in s") (auto simp: kbd_bytes_def split: if_splits)
  obtain c k where ck: "scan_key d (keys_of (shift s)) = (c, k)" by force
  note K = kbd_proc_data_scan [OF r(1), unfolded ck fst_conv snd_conv]
  have p: "kbd_proc_data s = (ucast c, snd (kbd_proc_data s))" using K(1) by (simp add: prod_eq_iff)
  have len: "length (pending s) + length ds < 511" using Cons.prems(2) by (simp flip: Cons.hyps(2))
  obtain s2 where s2: "cons_intr kbd_proc_data s = cons_intr kbd_proc_data s2" "cons_ok s2"
    "pending s2 = pending s @ (if c = 0 then [] else [c])" "kbd_in s2 = rest" "keys_of (shift s2) = k"
    by (rule cons_intr_step [of kbd_proc_data s c, OF p K(4-6) Cons.prems(1)]) (use K(2,3) len in simp_all)
  have ds: "kbd_bytes s2 = ds" using s2(4) r(2) by (simp add: kbd_bytes_def)
  then have "length (pending s2) + length (kbd_bytes s2) \<le> 511" using s2(3) len by simp
  from Cons.hyps(1) [OF ds [symmetric] s2(2) this] obtain s' where "cons_intr kbd_proc_data s2 = Some s'" "cons_ok s'"
    "pending s' = pending s2 @ typed ds k" "kbd_in s' = dropWhile (\<lambda>x. \<not> fst x) rest"
    using s2(4,5) ds by auto
  then show ?case using s2(1,3) ck r(1) by (simp flip: Cons.hyps(2))
qed

text \<open>
  \<^bold>\<open>C39.\<close> Console input is a queue. \<^verbatim>\<open>cons_getc\<close> always returns; as long as the buffer has room
  for what waits in the devices it first appends the serial port's bytes other than 0, in order, then
  the characters that the bytes waiting in the keyboard stand for, in order, up to the first byte from
  the mouse, and hands out the oldest character, or 0 if there is none. Which characters these are is
  given by \<open>typed\<close>, which follows which of the shift, control and alt keys are held, which locks are on
  and the escape byte, and looks the key up in the table for that state.
\<close>

theorem cons_getc_fifo:
  assumes ok: "cons_ok s" and len: "length (pending s) + length (serial_in s) + length (kbd_in s) \<le> 511"
  shows "\<exists>s'. cons_ok s' \<and>
    (let q = pending s @ (if serial_exists s then filter (\<lambda>b. b \<noteq> 0) (serial_in s) else []) @
             typed (kbd_bytes s) (keys_of (shift s))
     in cons_getc s = Some (if q = [] then 0 else ucast (hd q), s') \<and> pending s' = tl q)"
proof -
  let ?q0 = "if serial_exists s then filter (\<lambda>b. b \<noteq> 0) (serial_in s) else []" and ?ks = "typed (kbd_bytes s) (keys_of (shift s))"
  have l0: "length ?q0 \<le> length (serial_in s)" "length (kbd_bytes s) \<le> length (kbd_in s)"
    by (simp_all add: kbd_bytes_def length_takeWhile_le)
  obtain s1 where 1: "serial_intr s = Some s1" "cons_ok s1" "pending s1 = pending s @ ?q0" "kbd_in s1 = kbd_in s" "shift s1 = shift s"
    using serial_drain [OF ok] ok len unfolding serial_intr_def by (cases "serial_exists s") auto
  have b1: "kbd_bytes s1 = kbd_bytes s" using 1(4) by (simp add: kbd_bytes_def)
  have "length (pending s1) + length (kbd_bytes s1) \<le> 511" using 1(3) l0 len unfolding b1 by simp
  from kbd_drain [OF 1(2) this] obtain s2 where 2: "kbd_intr s1 = Some s2" "cons_ok s2" "pending s2 = pending s1 @ ?ks"
    unfolding kbd_intr_def b1 1(5) by auto
  have e: "cons_rpos s2 = cons_wpos s2 \<longleftrightarrow> pending s2 = []"
  proof -
    have b: "unat (cons_rpos s2) < CONSBUFSIZE" "unat (cons_wpos s2) < CONSBUFSIZE"
      using 2(2) by (auto simp: cons_ok_def)
    have "pending s2 = [] \<longleftrightarrow> length (pending s2) = 0" by simp
    then show ?thesis using ring_distance(6) [OF b refl] by (auto simp: pending_def word_unat_eq_iff)
  qed
  have q: "pending s2 = pending s @ ?q0 @ ?ks" using 1(3) 2(3) by simp
  show ?thesis
  proof (cases "pending s2")
    case Nil
    then show ?thesis using 1(1) 2(1,2) e unfolding q [symmetric]
      by (intro exI [of _ s2]) (auto simp: cons_getc_def Let_def)
  next
    case (Cons c cs)
    note T = pending_take [OF 2(2) Cons]
    have "cons_getc s = Some (ucast c, snd (cons_take s2))"
      using 1(1) 2(1) e T(1) Cons by (auto simp: cons_getc_def split_beta)
    then show ?thesis using T(2,3) unfolding q [symmetric] Cons
      by (intro exI [of _ "snd (cons_take s2)"]) (simp only: Let_def list.sel list.distinct if_False simp_thms)
  qed
qed

text \<open>
  The buffer has no overflow check: the character after 511 unread ones makes it look
  empty, so all 512 are lost.
\<close>

theorem cons_put_overflow:
  assumes "cons_ok s" and "length (pending s) = 511"
  shows "pending (cons_put c s) = []"
proof -
  have b: "unat (cons_rpos s) < CONSBUFSIZE" "unat (cons_wpos s) < CONSBUFSIZE"
    using assms(1) by (auto simp: cons_ok_def)
  have "Suc (length (pending s)) = CONSBUFSIZE" using assms(2) by (simp add: CONSBUFSIZE_def)
  then show ?thesis using ring_distance(4) [OF b refl] b(1)
    by (simp add: pending_def cons_put_fields [OF assms(1)])
qed

definition fresh_console :: console where
  "fresh_console = \<lparr>port_log = [], irq_mask_8259A = 0xFFFF AND NOT (push_bit IRQ_SLAVE 1), didinit = False,
     serial_in = [], kbd_in = [], serial_exists = False, addr_6845 = 0, crt_base = 0, crt_buf = (\<lambda>_. 0),
     crt_pos = 0, shift = 0, cons_buf = (\<lambda>_. 0), cons_rpos = 0, cons_wpos = 0\<rparr>"

text \<open>The serial port has sent \<^verbatim>\<open>A\<close>, a zero and \<^verbatim>\<open>B\<close>; shift is pressed, then the key for \<^verbatim>\<open>a\<close>.\<close>

theorem cons_getc_fifo_witness:
  "\<exists>s'. cons_getc (fresh_console\<lparr>serial_exists := True, serial_in := [0x41, 0, 0x42],
        kbd_in := [(False, 0x2A), (False, 0x1E)]\<rparr>) = Some (0x41, s') \<and> pending s' = [0x42, 0x41]"
proof -
  let ?s = "fresh_console\<lparr>serial_exists := True, serial_in := [0x41, 0, 0x42], kbd_in := [(False, 0x2A), (False, 0x1E)]\<rparr>"
  have "typed [0x2A, 0x1E] (keys_of 0) = [0x41]" by code_simp
  then have "typed (kbd_bytes ?s) (keys_of (shift ?s)) = [0x41]" by (simp add: kbd_bytes_def fresh_console_def)
  moreover have "cons_ok ?s" "length (pending ?s) + length (serial_in ?s) + length (kbd_in ?s) \<le> 511" "pending ?s = []"
    by (simp_all add: fresh_console_def cons_ok_def pending_def CONSBUFSIZE_def)
  ultimately show ?thesis using cons_getc_fifo [of ?s] by (auto simp: fresh_console_def)
qed

theorem cons_put_overflow_witness:
  "pending (fresh_console\<lparr>cons_wpos := 511\<rparr>) \<noteq> [] \<and> pending (cons_put 0x41 (fresh_console\<lparr>cons_wpos := 511\<rparr>)) = []"
proof -
  let ?s = "fresh_console\<lparr>cons_wpos := 511\<rparr>"
  have "cons_ok ?s" "length (pending ?s) = 511"
    by (simp_all add: fresh_console_def cons_ok_def pending_def CONSBUFSIZE_def)
  then show ?thesis using cons_put_overflow [of ?s "0x41"] by auto
qed

subsection \<open>The cursor stays on the screen\<close>

definition on_screen :: "console \<Rightarrow> bool" where
  "on_screen s \<longleftrightarrow> unat (crt_pos s) < CRT_SIZE"

definition below_screen_kept :: "console \<Rightarrow> console \<Rightarrow> bool" where
  "below_screen_kept s s' \<longleftrightarrow> (\<forall>i. CRT_SIZE \<le> i \<longrightarrow> crt_buf s' i = crt_buf s i)"

lemma crt_sizes [simp]: "CRT_SIZE = 2000" "CRT_COLS = 80"
  by (simp_all add: CRT_SIZE_def CRT_ROWS_def CRT_COLS_def)

lemma outbs_crt [simp]:
  "crt_pos (outbs ps s) = crt_pos s" "crt_buf (outbs ps s) = crt_buf s"
  by (induction ps arbitrary: s) (simp_all add: outb_def)

lemma cga_cursor_crt [simp]: "crt_pos (cga_cursor s) = crt_pos s" "crt_buf (cga_cursor s) = crt_buf s"
  by (simp_all add: cga_cursor_def del: outbs.simps)

lemma unat_sub_mod: "unat (p - p mod (80 :: u16)) = unat p - unat p mod 80"
  by (subst unat_sub) (simp_all add: word_le_nat_alt unat_mod)

lemma cga_char_screen:
  assumes "on_screen s"
  shows "unat (crt_pos (cga_char c s)) \<le> 2000" and "below_screen_kept s (cga_char c s)"
proof -
  let ?p = "crt_pos s"
  have p: "unat ?p < 2000" using assms by (simp add: on_screen_def)
  have u: "unat (?p + 1) = unat ?p + 1" "unat (?p + 80) = unat ?p + 80"
    using p by (simp_all add: unat_word_ariths)
  have d: "unat (?p - 1) = unat ?p - 1" if "0 < ?p"
    using that by (subst unat_sub) (simp_all add: word_le_nat_alt word_less_nat_alt)
  have q: "unat ?p + 80 - (unat ?p + 80) mod 80 \<le> 2000"
  proof -
    have "unat ?p div 80 < 25" using p by (intro less_mult_imp_div_less) simp
    moreover have "unat ?p = 80 * (unat ?p div 80) + unat ?p mod 80" "(unat ?p + 80) mod 80 = unat ?p mod 80"
      by simp_all
    ultimately show ?thesis by linarith
  qed
  show "unat (crt_pos (cga_char c s)) \<le> 2000"
    using p u d q by (auto simp: cga_char_def Let_def unat_sub_mod)
  show "below_screen_kept s (cga_char c s)"
    using p d by (auto simp: cga_char_def Let_def below_screen_kept_def)
qed

lemma cga_scroll_screen:
  assumes "unat (crt_pos s) \<le> 2000"
  shows "on_screen (cga_scroll s)" and "below_screen_kept s (cga_scroll s)"
proof -
  have "unat (crt_pos s - 80) = unat (crt_pos s) - 80" if "2000 \<le> unat (crt_pos s)"
    using that by (subst unat_sub) (simp_all add: word_le_nat_alt)
  then show "on_screen (cga_scroll s)" using assms by (auto simp: cga_scroll_def on_screen_def)
  show "below_screen_kept s (cga_scroll s)" by (auto simp: cga_scroll_def below_screen_kept_def)
qed

lemma cons_putc_char:
  assumes "on_screen s" and "with_attr c AND 0xFF \<noteq> 9"
  shows "on_screen (cons_putc c s) \<and> below_screen_kept s (cons_putc c s)"
proof -
  let ?s = "lpt_putc c (serial_putc c s)"
  have f: "crt_pos ?s = crt_pos s" "crt_buf ?s = crt_buf s" by (simp_all add: lpt_putc_def serial_putc_def outb_def)
  then have "on_screen ?s" using assms(1) by (simp add: on_screen_def)
  note A = cga_char_screen [OF this, of "with_attr c"]
  note B = cga_scroll_screen [OF A(1)]
  have "cons_putc c s = cga_cursor (cga_scroll (cga_char (with_attr c) ?s))"
    using assms(2) by (simp add: cons_putc.simps cga_putc.simps)
  then show ?thesis using A B f by (simp add: on_screen_def below_screen_kept_def)
qed

lemma cons_putc_screen:
  assumes "on_screen s"
  shows "on_screen (cons_putc c s) \<and> (\<forall>i. CRT_SIZE \<le> i \<longrightarrow> crt_buf (cons_putc c s) i = crt_buf s i)"
proof (cases "with_attr c AND 0xFF = 9")
  case False
  then show ?thesis using cons_putc_char [OF assms] by (simp add: below_screen_kept_def)
next
  case True
  let ?s = "lpt_putc c (serial_putc c s)" and ?b = "cons_putc 0x20"
  have f: "crt_pos ?s = crt_pos s" "crt_buf ?s = crt_buf s" by (simp_all add: lpt_putc_def serial_putc_def outb_def)
  have b: "on_screen (?b t) \<and> below_screen_kept t (?b t)" if "on_screen t" for t
    using cons_putc_char [OF that, of "0x20"] by (simp add: with_attr_def)
  have o: "on_screen ?s" using assms f by (simp add: on_screen_def)
  note o1 = conjunct1 [OF b [OF o]] note o2 = conjunct1 [OF b [OF o1]] note o3 = conjunct1 [OF b [OF o2]]
  note o4 = conjunct1 [OF b [OF o3]] note o5 = conjunct1 [OF b [OF o4]]
  have "below_screen_kept ?s (?b (?b (?b (?b (?b ?s)))))"
    using b [OF o] b [OF o1] b [OF o2] b [OF o3] b [OF o4] by (simp add: below_screen_kept_def)
  moreover have "unat (crt_pos (?b (?b (?b (?b (?b ?s)))))) \<le> 2000" using o5 by (simp add: on_screen_def)
  ultimately show ?thesis
    using cga_scroll_screen [of "?b (?b (?b (?b (?b ?s))))"] True f
    by (subst (1 2) cons_putc.simps, subst (1 2) cga_putc.simps)
       (simp add: on_screen_def below_screen_kept_def)
qed

text \<open>
  \<^bold>\<open>C40.\<close> Printing any character, control characters and tabs included, leaves the cursor on the
  screen and writes no video memory outside it.
\<close>

theorem cons_putc_on_screen:
  assumes "on_screen s"
  shows "on_screen (cons_putc c s) \<and> (\<forall>i. CRT_SIZE \<le> i \<longrightarrow> crt_buf (cons_putc c s) i = crt_buf s i)"
  by (rule cons_putc_screen [OF assms])

theorem cons_putc_on_screen_witness: "on_screen (cons_putc 9 (fresh_console\<lparr>crt_pos := 1999\<rparr>))"
  using cons_putc_on_screen [of "fresh_console\<lparr>crt_pos := 1999\<rparr>" 9] by (simp add: on_screen_def fresh_console_def)

end
