(* ===== verification/Kern_State.thy ===== *)
theory Kern_State
  imports Kern_Console
begin

text \<open>
  The kernel's data: the structures of \<^verbatim>\<open>inc/memlayout.h\<close>, \<^verbatim>\<open>inc/trap.h\<close>,
  \<^verbatim>\<open>inc/env.h\<close>, \<^verbatim>\<open>kern/cpu.h\<close> and \<^verbatim>\<open>kern/spinlock.h\<close> as records, and the
  kernel's global variables as one state record.

  A \<^verbatim>\<open>struct PageInfo *\<close> is the index of its entry in \<^verbatim>\<open>pages[]\<close>, a
  \<^verbatim>\<open>struct Env *\<close> the index in \<^verbatim>\<open>envs[]\<close>, \<^verbatim>\<open>NULL\<close> is \<open>None\<close>. Page
  directories and page tables are not abstracted: they are words of physical memory, reached
  through kernel virtual addresses exactly as the C code reaches them. Physical memory is
  addressed by 32-bit words: word \<open>i\<close> holds the bytes \<open>4 * i\<close> to \<open>4 * i + 3\<close>.
\<close>

subsection \<open>Saved registers (inc/trap.h)\<close>

record PushRegs =
  reg_edi :: u32
  reg_esi :: u32
  reg_ebp :: u32
  reg_oesp :: u32
  reg_ebx :: u32
  reg_edx :: u32
  reg_ecx :: u32
  reg_eax :: u32

record Trapframe =
  tf_regs :: PushRegs
  tf_es :: u16
  tf_padding1 :: u16
  tf_ds :: u16
  tf_padding2 :: u16
  tf_trapno :: u32
  tf_err :: u32
  tf_eip :: u32
  tf_cs :: u16
  tf_padding3 :: u16
  tf_eflags :: u32
  tf_esp :: u32
  tf_ss :: u16
  tf_padding4 :: u16

record UTrapframe =
  utf_fault_va :: u32
  utf_err :: u32
  utf_regs :: PushRegs
  utf_eip :: u32
  utf_eflags :: u32
  utf_esp :: u32

definition zero_regs :: PushRegs where
  "zero_regs = \<lparr>reg_edi = 0, reg_esi = 0, reg_ebp = 0, reg_oesp = 0,
                reg_ebx = 0, reg_edx = 0, reg_ecx = 0, reg_eax = 0\<rparr>"

definition zero_tf :: Trapframe where
  "zero_tf = \<lparr>tf_regs = zero_regs, tf_es = 0, tf_padding1 = 0, tf_ds = 0, tf_padding2 = 0,
              tf_trapno = 0, tf_err = 0, tf_eip = 0, tf_cs = 0, tf_padding3 = 0,
              tf_eflags = 0, tf_esp = 0, tf_ss = 0, tf_padding4 = 0\<rparr>"

subsection \<open>Environments (inc/env.h)\<close>

datatype env_status = ENV_FREE | ENV_DYING | ENV_RUNNABLE | ENV_RUNNING | ENV_NOT_RUNNABLE

datatype EnvType = ENV_TYPE_USER | ENV_TYPE_FS | ENV_TYPE_NS

definition NENV :: nat where "NENV = 1024"

definition ENVX :: "u32 \<Rightarrow> nat" where
  "ENVX envid = unat (envid AND 0x3FF)"

record Env =
  env_tf :: Trapframe
  env_link :: "nat option"
  env_id :: u32
  env_parent_id :: u32
  env_type :: EnvType
  env_status :: env_status
  env_runs :: u32
  env_cpunum :: nat
  env_pgdir :: u32
  env_pgfault_upcall :: u32
  env_ipc_recving :: bool
  env_ipc_dstva :: u32
  env_ipc_value :: u32
  env_ipc_from :: u32
  env_ipc_perm :: u32

definition zero_env :: Env where
  "zero_env = \<lparr>env_tf = zero_tf, env_link = None, env_id = 0, env_parent_id = 0,
               env_type = ENV_TYPE_USER, env_status = ENV_FREE, env_runs = 0, env_cpunum = 0,
               env_pgdir = 0, env_pgfault_upcall = 0, env_ipc_recving = False,
               env_ipc_dstva = 0, env_ipc_value = 0, env_ipc_from = 0, env_ipc_perm = 0\<rparr>"

subsection \<open>Pages, CPUs and the big kernel lock\<close>

record PageInfo =
  pp_link :: "nat option"
  pp_ref :: u16

definition zero_page :: PageInfo where
  "zero_page = \<lparr>pp_link = None, pp_ref = 0\<rparr>"

definition NCPU :: nat where "NCPU = 8"

datatype cpu_status = CPU_UNUSED | CPU_STARTED | CPU_HALTED

record CpuInfo =
  cpu_id :: u8
  cpu_status :: cpu_status
  cpu_env :: "nat option"

record spinlock =
  locked :: u32
  lock_cpu :: "nat option"

subsection \<open>The kernel state\<close>

text \<open>
  \<open>this_cpu\<close> is what \<^verbatim>\<open>cpunum()\<close> returns on the CPU that runs the operation,
  \<open>cr0\<close>, \<open>cr2\<close> and \<open>cr3\<close> that CPU's control registers and \<open>invlpg_log\<close> the addresses it has
  invalidated in its TLB. \<open>nextfree\<close> and \<open>mmio_base\<close> are the static variables of
  \<^verbatim>\<open>boot_alloc\<close> and \<^verbatim>\<open>mmio_map_region\<close>. \<open>kcons\<close> is the console, \<open>panicstr\<close> whether some CPU
  has panicked, \<open>lapic\<close> the address of the local interrupt controller's registers and \<open>lapic_log\<close> the
  writes to them. The kernel's own diagnostic messages are not recorded.
\<close>

record kstate =
  npages :: u32
  npages_basemem :: u32
  kern_pgdir :: u32
  pages_kva :: u32
  envs_kva :: u32
  nextfree :: u32
  mmio_base :: u32
  user_mem_check_addr :: u32
  mem :: "nat \<Rightarrow> u32"
  pages :: "nat \<Rightarrow> PageInfo"
  page_free_list :: "nat option"
  envs :: "nat \<Rightarrow> Env"
  env_free_list :: "nat option"
  cpus :: "nat \<Rightarrow> CpuInfo"
  this_cpu :: nat
  cr0 :: u32
  cr3 :: u32
  invlpg_log :: "u32 list"
  kernel_lock :: spinlock
  ticks :: u32
  kcons :: console
  cr2 :: u32
  panicstr :: bool
  lapic :: u32
  lapic_log :: "(nat \<times> u32) list"

definition curenv :: "kstate \<Rightarrow> nat option" where
  "curenv s = cpu_env (cpus s (this_cpu s))"

definition set_curenv :: "nat option \<Rightarrow> kstate \<Rightarrow> kstate" where
  "set_curenv e s =
     s\<lparr>cpus := (cpus s)(this_cpu s := (cpus s (this_cpu s))\<lparr>cpu_env := e\<rparr>)\<rparr>"

definition upd_page :: "nat \<Rightarrow> (PageInfo \<Rightarrow> PageInfo) \<Rightarrow> kstate \<Rightarrow> kstate" where
  "upd_page i f s = s\<lparr>pages := (pages s)(i := f (pages s i))\<rparr>"

definition upd_env :: "nat \<Rightarrow> (Env \<Rightarrow> Env) \<Rightarrow> kstate \<Rightarrow> kstate" where
  "upd_env i f s = s\<lparr>envs := (envs s)(i := f (envs s i))\<rparr>"

subsection \<open>Kernel virtual addresses (kern/pmap.h)\<close>

definition PADDR :: "u32 \<Rightarrow> (kstate, u32) op" where
  "PADDR kva = (if kva < KERNBASE then panic ''PADDR called with invalid kva''
                else ret (kva - KERNBASE))"

definition KADDR :: "u32 \<Rightarrow> (kstate, u32) op" where
  "KADDR pa = (\<lambda>s. if npages s \<le> PGNUM pa then Panic ''KADDR called with invalid pa''
                   else Ret (pa + KERNBASE) s)"

definition page2pa :: "nat \<Rightarrow> u32" where
  "page2pa pp = push_bit 12 (word_of_nat pp)"

definition pa2page :: "u32 \<Rightarrow> (kstate, nat) op" where
  "pa2page pa = (\<lambda>s. if npages s \<le> PGNUM pa then Panic ''pa2page called with invalid pa''
                     else Ret (unat (PGNUM pa)) s)"

definition page2kva :: "nat \<Rightarrow> (kstate, u32) op" where
  "page2kva pp = KADDR (page2pa pp)"

text \<open>
  Loads and stores of aligned 32-bit words through kernel virtual addresses, which the kernel
  maps linearly onto physical memory from \<open>KERNBASE\<close> on.
\<close>

definition kidx :: "u32 \<Rightarrow> nat" where
  "kidx kva = unat (kva - KERNBASE) div 4"

definition kload :: "u32 \<Rightarrow> (kstate, u32) op" where
  "kload kva = gets (\<lambda>s. mem s (kidx kva))"

definition kstore :: "u32 \<Rightarrow> u32 \<Rightarrow> (kstate, unit) op" where
  "kstore kva v = modify (\<lambda>s. s\<lparr>mem := (mem s)(kidx kva := v)\<rparr>)"

text \<open>
  \<^verbatim>\<open>memset\<close> on an aligned kernel address and a length divisible by four: the branch of
  \<^verbatim>\<open>lib/string.c\<close> that stores the byte replicated into a word.
\<close>

definition fill_words :: "nat \<Rightarrow> nat \<Rightarrow> u32 \<Rightarrow> (nat \<Rightarrow> u32) \<Rightarrow> nat \<Rightarrow> u32" where
  "fill_words base n w m = (\<lambda>i. if base \<le> i \<and> i < base + n then w else m i)"

definition kmemset :: "u32 \<Rightarrow> u8 \<Rightarrow> nat \<Rightarrow> (kstate, unit) op" where
  "kmemset kva c n =
     modify (\<lambda>s. s\<lparr>mem := fill_words (kidx kva) (n div 4) (ucast c * 0x01010101) (mem s)\<rparr>)"

subsection \<open>Addresses of pages\<close>

lemma unat_page2pa:
  assumes "pp < 1048576"
  shows "unat (page2pa pp) = pp * 4096"
  using assms by (simp add: page2pa_def push_bit_eq_mult unat_word_ariths unat_of_nat)

lemma PGNUM_page2pa: "pp < 1048576 \<Longrightarrow> unat (PGNUM (page2pa pp)) = pp"
  by (simp add: word_arith unat_page2pa)

lemma unat_page2pa_or:
  assumes "pp < 1048576" and "unat f < 4096"
  shows "unat (page2pa pp OR f) = pp * 4096 + unat f"
  using assms by (subst unat_aligned_or) (simp_all add: unat_page2pa)

lemma PGNUM_page2pa_or: "pp < 1048576 \<Longrightarrow> unat f < 4096 \<Longrightarrow> unat (PGNUM (page2pa pp OR f)) = pp"
  by (simp add: word_arith unat_page2pa_or)

lemma PTE_ADDR_page2pa_or:
  "pp < 1048576 \<Longrightarrow> unat f < 4096 \<Longrightarrow> PTE_ADDR (page2pa pp OR f) = page2pa pp"
  by (simp add: word_unat_eq_iff word_arith unat_page2pa_or unat_page2pa)

lemma page2pa_inj: "p < 1048576 \<Longrightarrow> q < 1048576 \<Longrightarrow> page2pa p = page2pa q \<Longrightarrow> p = q"
  using PGNUM_page2pa by metis

lemma kidx_entry:
  assumes "pn < 1048576" and "unat i < 1024"
  shows "kidx (page2pa pn + KERNBASE + 4 * i) = pn * 1024 + unat i"
proof -
  have "page2pa pn + KERNBASE + 4 * i - KERNBASE = page2pa pn + 4 * i" by simp
  moreover have "unat (page2pa pn + 4 * i) = pn * 4096 + 4 * unat i"
    using assms by (simp add: unat_word_ariths unat_page2pa)
  ultimately show ?thesis by (simp add: kidx_def)
qed

lemma kidx_page: "pn < 1048576 \<Longrightarrow> kidx (page2pa pn + KERNBASE) = pn * 1024"
  using kidx_entry [of pn 0] by simp

lemma PTE_ADDR_eq_page2pa: "PTE_ADDR e = page2pa (unat (PGNUM e))"
proof -
  have "unat e div 4096 < 1048576" using unat_lt_4G [of e] by (simp add: div_less_iff_less_mult)
  then show ?thesis by (simp add: word_unat_eq_iff word_arith unat_page2pa)
qed

subsection \<open>Address translation\<close>

text \<open>
  What the processor does with a virtual address in supervisor mode with \<^verbatim>\<open>CR0_WP\<close> set: the
  two-level walk from \<^verbatim>\<open>cr3\<close>, where both entries must be present and, for a store, writable.
  Stale TLB entries are not modelled; \<open>invlpg_log\<close> records the invalidations instead. An access the
  tables do not allow is a page fault in kernel mode, on which the trap handler panics.
\<close>

definition mmu_translate :: "kstate \<Rightarrow> bool \<Rightarrow> u32 \<Rightarrow> u32 option" where
  "mmu_translate s wr va =
     (let pde = mem s (unat (PGNUM (cr3 s)) * 1024 + unat (PDX va));
          pte = mem s (unat (PGNUM pde) * 1024 + unat (PTX va))
      in if pde AND PTE_P = 0 \<or> (wr \<and> pde AND PTE_W = 0) then None
         else if pte AND PTE_P = 0 \<or> (wr \<and> pte AND PTE_W = 0) then None
         else Some (PTE_ADDR pte OR PGOFF va))"

definition vload :: "u32 \<Rightarrow> (kstate, u32) op" where
  "vload va = (\<lambda>s. case mmu_translate s False va of
       None \<Rightarrow> Panic ''page fault in kernel mode''
     | Some pa \<Rightarrow> Ret (mem s (unat pa div 4)) s)"

definition vstore :: "u32 \<Rightarrow> u32 \<Rightarrow> (kstate, unit) op" where
  "vstore va v = (\<lambda>s. case mmu_translate s True va of
       None \<Rightarrow> Panic ''page fault in kernel mode''
     | Some pa \<Rightarrow> Ret () (s\<lparr>mem := (mem s)(unat pa div 4 := v)\<rparr>))"

definition lcr3 :: "u32 \<Rightarrow> (kstate, unit) op" where
  "lcr3 pa = modify (\<lambda>s. s\<lparr>cr3 := pa\<rparr>)"

definition kbyte :: "kstate \<Rightarrow> u32 \<Rightarrow> u8" where
  "kbyte s kva = ucast (drop_bit (8 * (unat kva mod 4)) (mem s (kidx kva)))"

end
