(* ===== verification/Kern_Pmap.thy ===== *)
theory Kern_Pmap
  imports Kern_State
begin

text \<open>
  Physical and virtual memory management (\<^verbatim>\<open>kern/pmap.c\<close>): memory detection, the boot-time
  allocator, the page allocator with its free list and reference counts, and the two-level page
  tables. This theory holds the operations; their free-list and page-table theorems are in
  \<open>Kern_Pmap_List\<close> and \<open>Kern_Pmap_VM\<close>.

  Values the sources take from elsewhere are parameters: \<open>cmos\<close> is what reading a CMOS register
  returns, \<open>end_sym\<close> the linker symbol \<^verbatim>\<open>end\<close>, and \<open>bootstack\<close>, \<open>percpu_kstacks\<close> the
  addresses of the kernel stacks.
\<close>

subsection \<open>Detecting memory\<close>

definition NVRAM_BASELO :: u32 where "NVRAM_BASELO = 0x15"
definition NVRAM_EXTLO :: u32 where "NVRAM_EXTLO = 0x17"
definition NVRAM_EXT16LO :: u32 where "NVRAM_EXT16LO = 0x34"

definition nvram_read :: "(u32 \<Rightarrow> u8) \<Rightarrow> u32 \<Rightarrow> u32" where
  "nvram_read cmos r = ucast (cmos r) OR push_bit 8 (ucast (cmos (r + 1)))"

definition i386_detect_memory :: "(u32 \<Rightarrow> u8) \<Rightarrow> (kstate, unit) op" where
  "i386_detect_memory cmos =
     (let basemem = nvram_read cmos NVRAM_BASELO;
          extmem = nvram_read cmos NVRAM_EXTLO;
          ext16mem = nvram_read cmos NVRAM_EXT16LO * 64;
          totalmem = (if ext16mem \<noteq> 0 then 16 * 1024 + ext16mem
                      else if extmem \<noteq> 0 then 1 * 1024 + extmem
                      else basemem)
      in modify (\<lambda>s. s\<lparr>npages := totalmem div (PGSIZE div 1024),
                       npages_basemem := basemem div (PGSIZE div 1024)\<rparr>))"

subsection \<open>The boot-time allocator\<close>

definition boot_alloc :: "u32 \<Rightarrow> u32 \<Rightarrow> (kstate, u32) op" where
  "boot_alloc end_sym n = (\<lambda>s.
     let nf = (if nextfree s = 0 then ROUNDUP end_sym PGSIZE else nextfree s);
         s1 = s\<lparr>nextfree := nf\<rparr>
     in if n = 0 then Ret nf s1
        else let nf' = ROUNDUP (nf + n) PGSIZE
             in if npages s * PGSIZE < nf' - KERNBASE then Panic ''Out of memory!''
                else Ret nf (s1\<lparr>nextfree := nf'\<rparr>))"

subsection \<open>Tracking of physical pages\<close>

definition page_init_page :: "u32 \<Rightarrow> nat \<Rightarrow> (kstate, unit) op" where
  "page_init_page kernel_end_page i = (\<lambda>s.
     let mpentry = MPENTRY_PADDR div PGSIZE in
     if npages_basemem s \<le> word_of_nat i \<and> word_of_nat i < kernel_end_page then
       Ret () (upd_page i (\<lambda>p. p\<lparr>pp_ref := 1, pp_link := None\<rparr>) s)
     else if word_of_nat i = mpentry then
       Ret () (upd_page i (\<lambda>p. p\<lparr>pp_ref := 1, pp_link := None\<rparr>) s)
     else
       Ret () ((upd_page i (\<lambda>p. p\<lparr>pp_ref := 0, pp_link := page_free_list s\<rparr>) s)
               \<lparr>page_free_list := Some i\<rparr>))"

definition page_init :: "u32 \<Rightarrow> (kstate, unit) op" where
  "page_init end_sym =
     andthen (modify (upd_page 0 (\<lambda>p. p\<lparr>pp_ref := 1, pp_link := None\<rparr>))) (\<lambda>_.
     andthen (boot_alloc end_sym 0) (\<lambda>kva.
     andthen (PADDR kva) (\<lambda>pa.
     andthen (gets npages) (\<lambda>np.
     each (page_init_page (pa div PGSIZE)) [1 ..< unat np]))))"

definition page_alloc :: "bool \<Rightarrow> (kstate, nat option) op" where
  "page_alloc alloc_zero = (\<lambda>s.
     case page_free_list s of
       None \<Rightarrow> Ret None s
     | Some res \<Rightarrow>
         let s1 = s\<lparr>page_free_list := pp_link (pages s res)\<rparr>;
             s2 = upd_page res (\<lambda>p. p\<lparr>pp_link := None\<rparr>) s1
         in (if alloc_zero
             then andthen (page2kva res) (\<lambda>kva.
                  andthen (kmemset kva 0 4096) (\<lambda>_.
                  ret (Some res)))
             else ret (Some res)) s2)"

definition page_free :: "nat \<Rightarrow> (kstate, unit) op" where
  "page_free pp = (\<lambda>s.
     if pp_link (pages s pp) \<noteq> None \<or> pp_ref (pages s pp) \<noteq> 0
     then Panic ''pp->pp_link is not NULL or pp->pp_ref is not zero''
     else Ret () ((upd_page pp (\<lambda>p. p\<lparr>pp_link := page_free_list s\<rparr>) s)
                  \<lparr>page_free_list := Some pp\<rparr>))"

definition page_decref :: "nat \<Rightarrow> (kstate, unit) op" where
  "page_decref pp =
     andthen (modify (upd_page pp (\<lambda>p. p\<lparr>pp_ref := pp_ref p - 1\<rparr>))) (\<lambda>_.
     andthen (gets (\<lambda>s. pp_ref (pages s pp))) (\<lambda>r.
     if r = 0 then page_free pp else ret ()))"

subsection \<open>Page tables\<close>

definition pgdir_walk :: "u32 \<Rightarrow> u32 \<Rightarrow> bool \<Rightarrow> (kstate, u32 option) op" where
  "pgdir_walk pgdir va create =
     (let va_dir_entry = pgdir + 4 * PDX va;
          finish = andthen (kload va_dir_entry) (\<lambda>pde.
                   andthen (KADDR (PTE_ADDR pde)) (\<lambda>pt.
                   ret (Some (pt + 4 * PTX va))))
      in andthen (kload va_dir_entry) (\<lambda>pde.
         if pde AND PTE_P = 0 then
           (if \<not> create then ret None
            else andthen (page_alloc True) (\<lambda>r.
                 case r of
                   None \<Rightarrow> ret None
                 | Some pp \<Rightarrow>
                     andthen (modify (upd_page pp (\<lambda>p. p\<lparr>pp_ref := pp_ref p + 1\<rparr>))) (\<lambda>_.
                     andthen (kstore va_dir_entry (page2pa pp OR PTE_U OR PTE_P OR PTE_W)) (\<lambda>_.
                     finish))))
         else finish))"

primrec boot_map_pages :: "u32 \<Rightarrow> u32 \<Rightarrow> nat \<Rightarrow> u32 \<Rightarrow> u32 \<Rightarrow> (kstate, unit) op" where
  "boot_map_pages pgdir va 0 pa perm = ret ()"
| "boot_map_pages pgdir va (Suc n) pa perm =
     andthen (pgdir_walk pgdir va True) (\<lambda>r.
     case r of
       None \<Rightarrow> panic ''no enough memory to allocate for page!''
     | Some pg_table_entry \<Rightarrow>
         andthen (kstore pg_table_entry (pa OR perm OR PTE_P)) (\<lambda>_.
         boot_map_pages pgdir (va + PGSIZE) n (pa + PGSIZE) perm))"

definition boot_map_region :: "u32 \<Rightarrow> u32 \<Rightarrow> u32 \<Rightarrow> u32 \<Rightarrow> u32 \<Rightarrow> (kstate, unit) op" where
  "boot_map_region pgdir va sz pa perm =
     (let pgs = (if sz mod PGSIZE \<noteq> 0 then sz div PGSIZE + 1 else sz div PGSIZE)
      in boot_map_pages pgdir va (unat pgs) pa perm)"

text \<open>
  \<open>page_lookup\<close> returns the page together with the address of its page-table entry, which the C
  function stores through \<^verbatim>\<open>pte_store\<close>.
\<close>

definition page_lookup :: "u32 \<Rightarrow> u32 \<Rightarrow> (kstate, (nat \<times> u32) option) op" where
  "page_lookup pgdir va =
     andthen (pgdir_walk pgdir va False) (\<lambda>r.
     case r of
       None \<Rightarrow> ret None
     | Some va_table_entry \<Rightarrow>
         andthen (kload va_table_entry) (\<lambda>pte.
         if pte AND PTE_P = 0 then ret None
         else andthen (pa2page (PTE_ADDR pte)) (\<lambda>pp.
              ret (Some (pp, va_table_entry)))))"

definition tlb_invalidate :: "u32 \<Rightarrow> u32 \<Rightarrow> (kstate, unit) op" where
  "tlb_invalidate pgdir va = (\<lambda>s.
     if (case curenv s of None \<Rightarrow> True | Some e \<Rightarrow> env_pgdir (envs s e) = pgdir)
     then Ret () (s\<lparr>invlpg_log := va # invlpg_log s\<rparr>)
     else Ret () s)"

definition page_remove :: "u32 \<Rightarrow> u32 \<Rightarrow> (kstate, unit) op" where
  "page_remove pgdir va =
     andthen (page_lookup pgdir va) (\<lambda>r.
     case r of
       None \<Rightarrow> ret ()
     | Some (pp, va_table_entry) \<Rightarrow>
         andthen (page_decref pp) (\<lambda>_.
         andthen (tlb_invalidate pgdir va) (\<lambda>_.
         kstore va_table_entry 0)))"

definition page_insert :: "u32 \<Rightarrow> nat \<Rightarrow> u32 \<Rightarrow> u32 \<Rightarrow> (kstate, u32) op" where
  "page_insert pgdir pp va perm =
     andthen (pgdir_walk pgdir va True) (\<lambda>r.
     case r of
       None \<Rightarrow> ret (err E_NO_MEM)
     | Some va_table_entry \<Rightarrow>
         (let finish =
            andthen (modify (upd_page pp (\<lambda>p. p\<lparr>pp_ref := pp_ref p + 1\<rparr>))) (\<lambda>_.
            andthen (kstore va_table_entry (page2pa pp OR PTE_P OR perm)) (\<lambda>_.
            andthen (kload (pgdir + 4 * PDX va)) (\<lambda>pde.
            andthen (kstore (pgdir + 4 * PDX va) (pde OR perm)) (\<lambda>_.
            ret 0))))
          in andthen (kload va_table_entry) (\<lambda>pte.
             if pte AND PTE_P \<noteq> 0 then
               (if PTE_ADDR pte = page2pa pp then
                  andthen (kstore va_table_entry (page2pa pp OR perm OR PTE_P)) (\<lambda>_.
                  ret 0)
                else andthen (page_remove pgdir va) (\<lambda>_. finish))
             else finish)))"

subsection \<open>Device memory\<close>

definition mmio_map_region :: "u32 \<Rightarrow> u32 \<Rightarrow> (kstate, u32) op" where
  "mmio_map_region pa sz0 = (\<lambda>s.
     let start = mmio_base s;
         sz = ROUNDUP sz0 PGSIZE
     in if MMIOLIM \<le> start + sz \<or> start + sz < start
        then Panic ''mmio_map_region failed: size is too big!''
        else andthen (boot_map_region (kern_pgdir s) start sz pa (PTE_W OR PTE_PCD OR PTE_PWT)) (\<lambda>_.
             andthen (modify (\<lambda>t. t\<lparr>mmio_base := mmio_base t + sz\<rparr>)) (\<lambda>_.
             ret start)) s)"

subsection \<open>Checking user pointers\<close>

text \<open>
  The loop of \<^verbatim>\<open>user_mem_check\<close>. Its bounds are page-aligned words with
  \<open>start < end\<close>, so \<^verbatim>\<open>start += PGSIZE\<close> never wraps and the loop variable is kept as a natural
  number; the wrap-around of \<^verbatim>\<open>va + len\<close> and of the rounding is in \<open>user_mem_check\<close>.
\<close>

function user_mem_scan :: "u32 \<Rightarrow> u32 \<Rightarrow> u32 \<Rightarrow> nat \<Rightarrow> nat \<Rightarrow> (kstate, u32) op" where
  "user_mem_scan pgdir va perm start end_va =
     (if start < end_va then
        andthen (pgdir_walk pgdir (word_of_nat start) False) (\<lambda>r.
        andthen (case r of None \<Rightarrow> ret 0 | Some p \<Rightarrow> kload p) (\<lambda>pte.
        if ULIM \<le> word_of_nat start \<or> r = None \<or> pte AND PTE_P = 0 \<or> pte AND perm \<noteq> perm
        then andthen (modify (\<lambda>s. s\<lparr>user_mem_check_addr :=
                        (if va < word_of_nat start then word_of_nat start else va)\<rparr>)) (\<lambda>_.
             ret (err E_FAULT))
        else user_mem_scan pgdir va perm (start + 4096) end_va))
      else ret 0)"
  by pat_completeness auto
termination
  by (relation "measure (\<lambda>(_, _, _, start, end_va). end_va - start)") auto

definition user_mem_check :: "nat \<Rightarrow> u32 \<Rightarrow> u32 \<Rightarrow> u32 \<Rightarrow> (kstate, u32) op" where
  "user_mem_check env va len perm = (\<lambda>s.
     user_mem_scan (env_pgdir (envs s env)) va perm
       (unat (ROUNDDOWN va PGSIZE)) (unat (ROUNDUP (va + len) PGSIZE)) s)"

declare user_mem_scan.simps [simp del]

lemmas pmap_ops = page_init_page_def page_init_def boot_alloc_def
  pgdir_walk_def boot_map_region_def page_lookup_def page_remove_def page_insert_def
  tlb_invalidate_def mmio_map_region_def

declare pmap_ops [op_defs]

subsection \<open>Building the kernel's address space\<close>

definition sizeof_PageInfo :: u32 where "sizeof_PageInfo = 8"
definition sizeof_Env :: u32 where "sizeof_Env = 124"

definition mem_init_mp :: "(nat \<Rightarrow> u32) \<Rightarrow> (kstate, unit) op" where
  "mem_init_mp percpu_kstacks =
     each (\<lambda>i.
       let kstacktop_i = KSTACKTOP - word_of_nat i * (KSTKGAP + KSTKSIZE) in
       andthen (PADDR (percpu_kstacks i)) (\<lambda>pa.
       andthen (gets kern_pgdir) (\<lambda>pgdir.
       boot_map_region pgdir (kstacktop_i - KSTKSIZE) KSTKSIZE pa PTE_W)))
     [0 ..< NCPU]"

end
