(* ===== verification/Linked_Lists.thy ===== *)
theory Linked_Lists
  imports JOS_Prelude
begin

text \<open>
  Free lists threaded through an array of structures, as the kernel keeps them for pages
  (\<^verbatim>\<open>pp_link\<close>) and environments (\<^verbatim>\<open>env_link\<close>). \<open>linked next h xs\<close> says that following
  \<open>next\<close> from the head \<open>h\<close> visits exactly \<open>xs\<close> and ends in \<^verbatim>\<open>NULL\<close>. The locale
  \<open>intrusive_list\<close> is the interface both components provide, with the effect of pushing and
  popping proved once.
\<close>

primrec linked :: "(nat \<Rightarrow> nat option) \<Rightarrow> nat option \<Rightarrow> nat list \<Rightarrow> bool" where
  "linked nxt h [] = (h = None)"
| "linked nxt h (x # xs) = (h = Some x \<and> linked nxt (nxt x) xs)"

lemma linked_None [simp]: "linked nxt None xs \<longleftrightarrow> xs = []"
  by (cases xs) auto

lemma linked_Some: "linked nxt (Some x) xs \<longleftrightarrow> (\<exists>ys. xs = x # ys \<and> linked nxt (nxt x) ys)"
  by (cases xs) auto

lemma linked_cong: "(\<And>x. x \<in> set xs \<Longrightarrow> f x = g x) \<Longrightarrow> linked f h xs = linked g h xs"
  by (induction xs arbitrary: h) auto

lemma linked_upd [simp]: "i \<notin> set xs \<Longrightarrow> linked (f(i := v)) h xs = linked f h xs"
  by (rule linked_cong) auto

lemma linked_unique: "linked nxt h xs \<Longrightarrow> linked nxt h ys \<Longrightarrow> xs = ys"
proof (induction xs arbitrary: h ys)
  case Nil
  then show ?case by (cases ys) auto
next
  case (Cons x xs)
  then show ?case by (cases ys) auto
qed

lemma linked_suffix: "linked nxt h (xs @ x # ys) \<Longrightarrow> linked nxt (Some x) (x # ys)"
  by (induction xs arbitrary: h) auto

lemma linked_distinct: "linked nxt h xs \<Longrightarrow> distinct xs"
proof (induction xs arbitrary: h)
  case (Cons x xs)
  have "x \<notin> set xs"
  proof
    assume "x \<in> set xs"
    then obtain as bs where xs: "xs = as @ x # bs" by (auto simp: in_set_conv_decomp)
    have "linked nxt (Some x) (x # xs)" using Cons.prems by simp
    moreover have "linked nxt (Some x) (x # bs)"
      using linked_suffix [of nxt h "x # as" x bs] Cons.prems xs by simp
    ultimately have "x # xs = x # bs" by (rule linked_unique)
    then have "length xs = length bs" by simp
    then show False by (simp add: xs)
  qed
  then show ?case using Cons by auto
qed simp

text \<open>Following the links with a bound on the number of steps; \<open>None\<close> if the bound is too small.\<close>

primrec traverse :: "nat \<Rightarrow> (nat \<Rightarrow> nat option) \<Rightarrow> nat option \<Rightarrow> nat list option" where
  "traverse 0 nxt h = (if h = None then Some [] else None)"
| "traverse (Suc n) nxt h =
     (case h of None \<Rightarrow> Some []
      | Some x \<Rightarrow> (case traverse n nxt (nxt x) of None \<Rightarrow> None | Some xs \<Rightarrow> Some (x # xs)))"

lemma traverse_sound: "traverse n nxt h = Some xs \<Longrightarrow> linked nxt h xs"
  by (induction n arbitrary: h xs) (auto split: option.splits if_splits)

lemma traverse_complete: "linked nxt h xs \<Longrightarrow> length xs \<le> n \<Longrightarrow> traverse n nxt h = Some xs"
proof (induction n arbitrary: h xs)
  case (Suc n)
  then show ?case by (cases xs) auto
qed simp

lemma linked_bounded_length:
  assumes "linked nxt h xs" and "\<forall>x \<in> set xs. x < n"
  shows "length xs \<le> n"
proof -
  have "card (set xs) \<le> card {..< n}" by (rule card_mono) (use assms in auto)
  then show ?thesis using distinct_card [OF linked_distinct [OF assms(1)]] by simp
qed

subsection \<open>The interface of a structure with an embedded free list\<close>

locale intrusive_list =
  fixes next_of :: "'s \<Rightarrow> nat \<Rightarrow> nat option"
    and head_of :: "'s \<Rightarrow> nat option"
    and set_next :: "nat \<Rightarrow> nat option \<Rightarrow> 's \<Rightarrow> 's"
    and set_head :: "nat option \<Rightarrow> 's \<Rightarrow> 's"
  assumes next_set_next: "next_of (set_next i v s) = (next_of s)(i := v)"
    and head_set_next: "head_of (set_next i v s) = head_of s"
    and next_set_head: "next_of (set_head h s) = next_of s"
    and head_set_head: "head_of (set_head h s) = h"
begin

definition is_list :: "'s \<Rightarrow> nat list \<Rightarrow> bool" where
  "is_list s xs = linked (next_of s) (head_of s) xs"

definition push :: "nat \<Rightarrow> 's \<Rightarrow> 's" where
  "push i s = set_head (Some i) (set_next i (head_of s) s)"

definition pop :: "nat \<Rightarrow> 's \<Rightarrow> 's" where
  "pop i s = set_next i None (set_head (next_of s i) s)"

lemmas list_laws = next_set_next head_set_next next_set_head head_set_head

lemma is_list_push: "is_list s xs \<Longrightarrow> i \<notin> set xs \<Longrightarrow> is_list (push i s) (i # xs)"
  unfolding is_list_def push_def by (simp add: list_laws)

lemma is_list_pop:
  assumes "is_list s (x # xs)"
  shows "head_of s = Some x" and "is_list (pop x s) xs"
proof -
  show "head_of s = Some x" using assms by (simp add: is_list_def)
  have "x \<notin> set xs" using linked_distinct assms unfolding is_list_def by fastforce
  then show "is_list (pop x s) xs"
    using assms unfolding is_list_def pop_def by (simp add: list_laws del: fun_upd_apply)
qed

lemma pop_push: "is_list s xs \<Longrightarrow> i \<notin> set xs \<Longrightarrow> is_list (pop i (push i s)) xs"
  using is_list_pop(2) is_list_push by blast

lemma is_list_head: "is_list s xs \<Longrightarrow> head_of s = (case xs of [] \<Rightarrow> None | x # _ \<Rightarrow> Some x)"
  unfolding is_list_def by (cases xs) auto

lemma is_list_unique: "is_list s xs \<Longrightarrow> is_list s ys \<Longrightarrow> xs = ys"
  unfolding is_list_def by (rule linked_unique)

end

end
