(* ===== verification/Kern_Pmap_Check.thy ===== *)
theory Kern_Pmap_Check
  imports Kern_Pmap Linked_Lists
begin

text \<open>
  The boot-time self tests of \<^verbatim>\<open>kern/pmap.c\<close> and \<^verbatim>\<open>mem_init\<close>, which runs them. An
  \<^verbatim>\<open>assert\<close> that fails is a panic. A free list with more than \<open>npages\<close> links has a cycle; the
  C loops over it would not end, and \<open>free_list\<close> reports that as a panic as well.
\<close>

definition assert_that :: "(kstate \<Rightarrow> bool) \<Rightarrow> (kstate, unit) op" where
  "assert_that b = andthen (gets b) (\<lambda>ok. check ok ''assertion failed'')"

definition assert_alloc :: "bool \<Rightarrow> (kstate, nat) op" where
  "assert_alloc z = andthen (page_alloc z) (\<lambda>r.
     case r of None \<Rightarrow> panic ''assertion failed'' | Some pp \<Rightarrow> ret pp)"

definition assert_no_page :: "(kstate, unit) op" where
  "assert_no_page = andthen (page_alloc False) (\<lambda>r. check (r = None) ''assertion failed'')"

definition walk_pte :: "u32 \<Rightarrow> u32 \<Rightarrow> (kstate, u32) op" where
  "walk_pte pgdir va = andthen (pgdir_walk pgdir va False) (\<lambda>r.
     case r of None \<Rightarrow> panic ''null dereference'' | Some p \<Rightarrow> ret p)"

definition free_list :: "(kstate, nat list) op" where
  "free_list = (\<lambda>s. case traverse (unat (npages s)) (\<lambda>i. pp_link (pages s i)) (page_free_list s) of
      None \<Rightarrow> Panic ''free list does not end'' | Some xs \<Rightarrow> Ret xs s)"

subsection \<open>check_page_free_list\<close>

text \<open>
  The relinking loop keeps two tail pointers \<^verbatim>\<open>tp[0]\<close>, \<^verbatim>\<open>tp[1]\<close>: initially the addresses of
  the locals \<^verbatim>\<open>pp1\<close>, \<^verbatim>\<open>pp2\<close> (here \<open>None\<close>), later of the link field of some page.
\<close>

record tails =
  tl_pp1 :: "nat option"
  tl_pp2 :: "nat option"
  tl_tp0 :: "nat option"
  tl_tp1 :: "nat option"

definition store_tail0 :: "nat option \<Rightarrow> tails \<Rightarrow> (kstate, tails) op" where
  "store_tail0 v t = (case tl_tp0 t of
      None \<Rightarrow> ret (t\<lparr>tl_pp1 := v\<rparr>)
    | Some q \<Rightarrow> andthen (modify (upd_page q (\<lambda>p. p\<lparr>pp_link := v\<rparr>))) (\<lambda>_. ret t))"

definition store_tail1 :: "nat option \<Rightarrow> tails \<Rightarrow> (kstate, tails) op" where
  "store_tail1 v t = (case tl_tp1 t of
      None \<Rightarrow> ret (t\<lparr>tl_pp2 := v\<rparr>)
    | Some q \<Rightarrow> andthen (modify (upd_page q (\<lambda>p. p\<lparr>pp_link := v\<rparr>))) (\<lambda>_. ret t))"

primrec split_free_list :: "nat \<Rightarrow> u32 \<Rightarrow> nat option \<Rightarrow> tails \<Rightarrow> (kstate, tails) op" where
  "split_free_list 0 pdx_limit pp t =
     (if pp = None then ret t else panic ''free list does not end'')"
| "split_free_list (Suc n) pdx_limit pp t =
     (case pp of
        None \<Rightarrow> ret t
      | Some p \<Rightarrow>
          andthen (if pdx_limit \<le> PDX (page2pa p)
                   then andthen (store_tail1 (Some p) t) (\<lambda>t. ret (t\<lparr>tl_tp1 := Some p\<rparr>))
                   else andthen (store_tail0 (Some p) t) (\<lambda>t. ret (t\<lparr>tl_tp0 := Some p\<rparr>))) (\<lambda>t.
          andthen (gets (\<lambda>s. pp_link (pages s p))) (\<lambda>nxt.
          split_free_list n pdx_limit nxt t)))"

definition low_memory_first :: "(kstate, unit) op" where
  "low_memory_first = (\<lambda>s.
     (andthen (split_free_list (unat (npages s)) 1 (page_free_list s)
                \<lparr>tl_pp1 = None, tl_pp2 = None, tl_tp0 = None, tl_tp1 = None\<rparr>) (\<lambda>t.
      andthen (store_tail1 None t) (\<lambda>t.
      andthen (store_tail0 (tl_pp2 t) t) (\<lambda>t.
      modify (\<lambda>s. s\<lparr>page_free_list := tl_pp1 t\<rparr>))))) s)"

definition check_free_page :: "u32 \<Rightarrow> nat \<Rightarrow> (kstate, unit) op" where
  "check_free_page first_free_page pp =
     andthen (assert_that (\<lambda>s. pp < unat (npages s))) (\<lambda>_.
     andthen (assert_that (\<lambda>s. page2pa pp \<noteq> 0)) (\<lambda>_.
     andthen (assert_that (\<lambda>s. page2pa pp \<noteq> IOPHYSMEM)) (\<lambda>_.
     andthen (assert_that (\<lambda>s. page2pa pp \<noteq> EXTPHYSMEM - PGSIZE)) (\<lambda>_.
     andthen (assert_that (\<lambda>s. page2pa pp \<noteq> EXTPHYSMEM)) (\<lambda>_.
     andthen (if page2pa pp < EXTPHYSMEM then ret ()
              else andthen (page2kva pp) (\<lambda>kva. check (first_free_page \<le> kva) ''assertion failed'')) (\<lambda>_.
     assert_that (\<lambda>s. page2pa pp \<noteq> MPENTRY_PADDR)))))))"

definition check_page_free_list :: "u32 \<Rightarrow> bool \<Rightarrow> (kstate, unit) op" where
  "check_page_free_list end_sym only_low_memory =
     (let pdx_limit = (if only_low_memory then 1 else word_of_nat NPDENTRIES) in
      andthen (gets page_free_list) (\<lambda>h.
      if h = None then panic ''page_free_list is a null pointer!'' else
      andthen (if only_low_memory then low_memory_first else ret ()) (\<lambda>_.
      andthen free_list (\<lambda>xs.
      andthen (each (\<lambda>pp. if PDX (page2pa pp) < pdx_limit
                          then andthen (page2kva pp) (\<lambda>kva. kmemset kva 0x97 128)
                          else ret ()) xs) (\<lambda>_.
      andthen (boot_alloc end_sym 0) (\<lambda>first_free_page.
      andthen (each (check_free_page first_free_page) xs) (\<lambda>_.
      andthen (check (\<exists>pp \<in> set xs. page2pa pp < EXTPHYSMEM) ''assertion failed'') (\<lambda>_.
      check (\<exists>pp \<in> set xs. \<not> page2pa pp < EXTPHYSMEM) ''assertion failed''))))))))"

subsection \<open>check_page_alloc\<close>

definition check_page_alloc :: "(kstate, unit) op" where
  "check_page_alloc =
     andthen (assert_that (\<lambda>s. pages_kva s \<noteq> 0)) (\<lambda>_.
     andthen free_list (\<lambda>xs.
     andthen (assert_alloc False) (\<lambda>pp0.
     andthen (assert_alloc False) (\<lambda>pp1.
     andthen (assert_alloc False) (\<lambda>pp2.
     andthen (check (pp1 \<noteq> pp0 \<and> pp2 \<noteq> pp1 \<and> pp2 \<noteq> pp0) ''assertion failed'') (\<lambda>_.
     andthen (assert_that (\<lambda>s. page2pa pp0 < npages s * PGSIZE)) (\<lambda>_.
     andthen (assert_that (\<lambda>s. page2pa pp1 < npages s * PGSIZE)) (\<lambda>_.
     andthen (assert_that (\<lambda>s. page2pa pp2 < npages s * PGSIZE)) (\<lambda>_.
     andthen (gets page_free_list) (\<lambda>fl.
     andthen (modify (\<lambda>s. s\<lparr>page_free_list := None\<rparr>)) (\<lambda>_.
     andthen assert_no_page (\<lambda>_.
     andthen (page_free pp0) (\<lambda>_.
     andthen (page_free pp1) (\<lambda>_.
     andthen (page_free pp2) (\<lambda>_.
     andthen (assert_alloc False) (\<lambda>pp0.
     andthen (assert_alloc False) (\<lambda>pp1.
     andthen (assert_alloc False) (\<lambda>pp2.
     andthen (check (pp1 \<noteq> pp0 \<and> pp2 \<noteq> pp1 \<and> pp2 \<noteq> pp0) ''assertion failed'') (\<lambda>_.
     andthen assert_no_page (\<lambda>_.
     andthen (page2kva pp0) (\<lambda>kva.
     andthen (kmemset kva 1 4096) (\<lambda>_.
     andthen (page_free pp0) (\<lambda>_.
     andthen (assert_alloc True) (\<lambda>pp.
     andthen (check (pp0 = pp) ''assertion failed'') (\<lambda>_.
     andthen (page2kva pp) (\<lambda>c.
     andthen (each (\<lambda>i. assert_that (\<lambda>s. kbyte s (c + word_of_nat i) = 0)) [0 ..< 4096]) (\<lambda>_.
     andthen (modify (\<lambda>s. s\<lparr>page_free_list := fl\<rparr>)) (\<lambda>_.
     andthen (page_free pp0) (\<lambda>_.
     andthen (page_free pp1) (\<lambda>_.
     andthen (page_free pp2) (\<lambda>_.
     andthen free_list (\<lambda>ys.
     check (length ys = length xs) ''assertion failed''))))))))))))))))))))))))))))))))"

subsection \<open>check_va2pa and check_kern_pgdir\<close>

definition check_va2pa :: "u32 \<Rightarrow> u32 \<Rightarrow> (kstate, u32) op" where
  "check_va2pa pgdir va =
     andthen (kload (pgdir + 4 * PDX va)) (\<lambda>pde.
     if pde AND PTE_P = 0 then ret (NOT 0)
     else andthen (KADDR (PTE_ADDR pde)) (\<lambda>p.
          andthen (kload (p + 4 * PTX va)) (\<lambda>pte.
          if pte AND PTE_P = 0 then ret (NOT 0) else ret (PTE_ADDR pte))))"

definition assert_va2pa :: "u32 \<Rightarrow> u32 \<Rightarrow> u32 \<Rightarrow> (kstate, unit) op" where
  "assert_va2pa pgdir va pa = andthen (check_va2pa pgdir va) (\<lambda>r. check (r = pa) ''assertion failed'')"

definition page_steps :: "u32 \<Rightarrow> u32 list" where
  "page_steps n = map (\<lambda>k. word_of_nat k * PGSIZE) [0 ..< (unat n + 4095) div 4096]"

definition check_kern_pde :: "u32 \<Rightarrow> nat \<Rightarrow> (kstate, unit) op" where
  "check_kern_pde pgdir i =
     andthen (kload (pgdir + 4 * word_of_nat i)) (\<lambda>pde.
     if word_of_nat i \<in> {PDX UVPT, PDX (KSTACKTOP - 1), PDX UPAGES, PDX UENVS, PDX MMIOBASE}
     then check (pde AND PTE_P \<noteq> 0) ''assertion failed''
     else if PDX KERNBASE \<le> word_of_nat i
     then andthen (check (pde AND PTE_P \<noteq> 0) ''assertion failed'') (\<lambda>_.
          check (pde AND PTE_W \<noteq> 0) ''assertion failed'')
     else check (pde = 0) ''assertion failed'')"

definition check_kern_pgdir :: "(nat \<Rightarrow> u32) \<Rightarrow> (kstate, unit) op" where
  "check_kern_pgdir percpu_kstacks = (\<lambda>s.
     (let pgdir = kern_pgdir s;
          n = ROUNDUP (npages s * sizeof_PageInfo) PGSIZE
      in andthen (PADDR (pages_kva s)) (\<lambda>ppa.
         andthen (each (\<lambda>i. assert_va2pa pgdir (UPAGES + i) (ppa + i)) (page_steps n)) (\<lambda>_.
         andthen (each (\<lambda>i. assert_va2pa pgdir (KERNBASE + i) i) (page_steps (npages s * PGSIZE))) (\<lambda>_.
         andthen (each (\<lambda>k.
            let base = KSTACKTOP - (KSTKSIZE + KSTKGAP) * (word_of_nat k + 1) in
            andthen (PADDR (percpu_kstacks k)) (\<lambda>pa.
            andthen (each (\<lambda>i. assert_va2pa pgdir (base + KSTKGAP + i) (pa + i)) (page_steps KSTKSIZE)) (\<lambda>_.
            each (\<lambda>i. assert_va2pa pgdir (base + i) (NOT 0)) (page_steps KSTKGAP)))) [0 ..< NCPU]) (\<lambda>_.
         each (check_kern_pde pgdir) [0 ..< 1024])))) ) s)"

subsection \<open>check_page\<close>

definition check_walk_pointer :: "u32 \<Rightarrow> u32 \<Rightarrow> bool \<Rightarrow> (kstate, unit) op" where
  "check_walk_pointer pgdir va create =
     andthen (pgdir_walk pgdir va create) (\<lambda>ptep.
     andthen (kload (pgdir + 4 * PDX va)) (\<lambda>pde.
     andthen (KADDR (PTE_ADDR pde)) (\<lambda>ptep1.
     check (ptep = Some (ptep1 + 4 * PTX va)) ''assertion failed'')))"

text \<open>``forcibly take pp0 back'': the first directory entry points to \<open>pp0\<close>; both are reset.\<close>

definition take_back :: "u32 \<Rightarrow> nat \<Rightarrow> (kstate, unit) op" where
  "take_back pgdir pp0 =
     andthen (kload pgdir) (\<lambda>e.
     andthen (check (PTE_ADDR e = page2pa pp0) ''assertion failed'') (\<lambda>_.
     andthen (kstore pgdir 0) (\<lambda>_.
     andthen (assert_that (\<lambda>s. pp_ref (pages s pp0) = 1)) (\<lambda>_.
     modify (upd_page pp0 (\<lambda>p. p\<lparr>pp_ref := 0\<rparr>))))))"

definition check_mmio :: "u32 \<Rightarrow> (kstate, unit) op" where
  "check_mmio pgdir =
     andthen (mmio_map_region 0 4097) (\<lambda>mm1.
     andthen (mmio_map_region 0 4096) (\<lambda>mm2.
     andthen (check (MMIOBASE \<le> mm1 \<and> mm1 + 8192 < MMIOLIM) ''assertion failed'') (\<lambda>_.
     andthen (check (MMIOBASE \<le> mm2 \<and> mm2 + 8192 < MMIOLIM) ''assertion failed'') (\<lambda>_.
     andthen (check (mm1 mod PGSIZE = 0 \<and> mm2 mod PGSIZE = 0) ''assertion failed'') (\<lambda>_.
     andthen (check (mm1 + 8192 \<le> mm2) ''assertion failed'') (\<lambda>_.
     andthen (assert_va2pa pgdir mm1 0) (\<lambda>_.
     andthen (assert_va2pa pgdir (mm1 + PGSIZE) PGSIZE) (\<lambda>_.
     andthen (assert_va2pa pgdir mm2 0) (\<lambda>_.
     andthen (assert_va2pa pgdir (mm2 + PGSIZE) (NOT 0)) (\<lambda>_.
     andthen (andthen (walk_pte pgdir mm1) (\<lambda>p. andthen (kload p) (\<lambda>e. check (e AND (PTE_W OR PTE_PWT OR PTE_PCD) \<noteq> 0) ''assertion failed''))) (\<lambda>_.
     andthen (andthen (walk_pte pgdir mm1) (\<lambda>p. andthen (kload p) (\<lambda>e. check (e AND PTE_U = 0) ''assertion failed''))) (\<lambda>_.
     andthen (andthen (walk_pte pgdir mm1) (\<lambda>p. kstore p 0)) (\<lambda>_.
     andthen (andthen (walk_pte pgdir (mm1 + PGSIZE)) (\<lambda>p. kstore p 0)) (\<lambda>_.
     andthen (walk_pte pgdir mm2) (\<lambda>p. kstore p 0)))))))))))))))"

definition check_page_tables :: "u32 \<Rightarrow> nat \<Rightarrow> nat \<Rightarrow> nat \<Rightarrow> nat option \<Rightarrow> (kstate, unit) op" where
  "check_page_tables pgdir pp0 pp1 pp2 fl =
     andthen (page_free pp0) (\<lambda>_.
     andthen (check_walk_pointer pgdir (PGSIZE * word_of_nat NPDENTRIES + PGSIZE) True) (\<lambda>_.
     andthen (kstore (pgdir + 4 * PDX (PGSIZE * word_of_nat NPDENTRIES + PGSIZE)) 0) (\<lambda>_.
     andthen (modify (\<lambda>s. upd_page pp0 (\<lambda>p. p\<lparr>pp_ref := 0\<rparr>) s)) (\<lambda>_.
     andthen (page2kva pp0) (\<lambda>kva.
     andthen (kmemset kva 0xFF 4096) (\<lambda>_.
     andthen (page_free pp0) (\<lambda>_.
     andthen (pgdir_walk pgdir 0 True) (\<lambda>_.
     andthen (each (\<lambda>i. andthen (kload (kva + 4 * word_of_nat i)) (\<lambda>e. check (e AND PTE_P = 0) ''assertion failed'')) [0 ..< NPTENTRIES]) (\<lambda>_.
     andthen (kstore pgdir 0) (\<lambda>_.
     andthen (modify (\<lambda>s. upd_page pp0 (\<lambda>p. p\<lparr>pp_ref := 0\<rparr>) s)) (\<lambda>_.
     andthen (modify (\<lambda>s. s\<lparr>page_free_list := fl\<rparr>)) (\<lambda>_.
     andthen (page_free pp0) (\<lambda>_.
     andthen (page_free pp1) (\<lambda>_.
     andthen (page_free pp2) (\<lambda>_.
     check_mmio pgdir)))))))))))))))"

definition check_page :: "(kstate, unit) op" where
  "check_page =
     andthen (gets kern_pgdir) (\<lambda>pgdir.
     andthen (assert_alloc False) (\<lambda>pp0.
     andthen (assert_alloc False) (\<lambda>pp1.
     andthen (assert_alloc False) (\<lambda>pp2.
     andthen (check (pp1 \<noteq> pp0 \<and> pp2 \<noteq> pp1 \<and> pp2 \<noteq> pp0) ''assertion failed'') (\<lambda>_.
     andthen (gets page_free_list) (\<lambda>fl.
     andthen (modify (\<lambda>s. s\<lparr>page_free_list := None\<rparr>)) (\<lambda>_.
     andthen (assert_no_page) (\<lambda>_.
     andthen (andthen (page_lookup pgdir 0) (\<lambda>r. check (r = None) ''assertion failed'')) (\<lambda>_.
     andthen (andthen (page_insert pgdir pp1 0 PTE_W) (\<lambda>r. check (sint r < 0) ''assertion failed'')) (\<lambda>_.
     andthen (page_free pp0) (\<lambda>_.
     andthen (andthen (page_insert pgdir pp1 0 PTE_W) (\<lambda>r. check (r = 0) ''assertion failed'')) (\<lambda>_.
     andthen (andthen (kload pgdir) (\<lambda>e. check (PTE_ADDR e = page2pa pp0) ''assertion failed'')) (\<lambda>_.
     andthen (assert_va2pa pgdir 0 (page2pa pp1)) (\<lambda>_.
     andthen (assert_that (\<lambda>s. pp_ref (pages s pp1) = 1)) (\<lambda>_.
     andthen (assert_that (\<lambda>s. pp_ref (pages s pp0) = 1)) (\<lambda>_.
     andthen (andthen (page_insert pgdir pp2 PGSIZE PTE_W) (\<lambda>r. check (r = 0) ''assertion failed'')) (\<lambda>_.
     andthen (assert_va2pa pgdir PGSIZE (page2pa pp2)) (\<lambda>_.
     andthen (assert_that (\<lambda>s. pp_ref (pages s pp2) = 1)) (\<lambda>_.
     andthen (assert_no_page) (\<lambda>_.
     andthen (andthen (page_insert pgdir pp2 PGSIZE PTE_W) (\<lambda>r. check (r = 0) ''assertion failed'')) (\<lambda>_.
     andthen (assert_va2pa pgdir PGSIZE (page2pa pp2)) (\<lambda>_.
     andthen (assert_that (\<lambda>s. pp_ref (pages s pp2) = 1)) (\<lambda>_.
     andthen (assert_no_page) (\<lambda>_.
     andthen (check_walk_pointer pgdir PGSIZE False) (\<lambda>_.
     andthen (andthen (page_insert pgdir pp2 PGSIZE (PTE_W OR PTE_U)) (\<lambda>r. check (r = 0) ''assertion failed'')) (\<lambda>_.
     andthen (assert_va2pa pgdir PGSIZE (page2pa pp2)) (\<lambda>_.
     andthen (assert_that (\<lambda>s. pp_ref (pages s pp2) = 1)) (\<lambda>_.
     andthen (andthen (walk_pte pgdir PGSIZE) (\<lambda>p. andthen (kload p) (\<lambda>e. check (e AND PTE_U \<noteq> 0) ''assertion failed''))) (\<lambda>_.
     andthen (andthen (kload pgdir) (\<lambda>e. check (e AND PTE_U \<noteq> 0) ''assertion failed'')) (\<lambda>_.
     andthen (andthen (page_insert pgdir pp2 PGSIZE PTE_W) (\<lambda>r. check (r = 0) ''assertion failed'')) (\<lambda>_.
     andthen (andthen (walk_pte pgdir PGSIZE) (\<lambda>p. andthen (kload p) (\<lambda>e. check (e AND PTE_W \<noteq> 0) ''assertion failed''))) (\<lambda>_.
     andthen (andthen (walk_pte pgdir PGSIZE) (\<lambda>p. andthen (kload p) (\<lambda>e. check (e AND PTE_U = 0) ''assertion failed''))) (\<lambda>_.
     andthen (andthen (page_insert pgdir pp0 PTSIZE PTE_W) (\<lambda>r. check (sint r < 0) ''assertion failed'')) (\<lambda>_.
     andthen (andthen (page_insert pgdir pp1 PGSIZE PTE_W) (\<lambda>r. check (r = 0) ''assertion failed'')) (\<lambda>_.
     andthen (andthen (walk_pte pgdir PGSIZE) (\<lambda>p. andthen (kload p) (\<lambda>e. check (e AND PTE_U = 0) ''assertion failed''))) (\<lambda>_.
     andthen (assert_va2pa pgdir 0 (page2pa pp1)) (\<lambda>_.
     andthen (assert_va2pa pgdir PGSIZE (page2pa pp1)) (\<lambda>_.
     andthen (assert_that (\<lambda>s. pp_ref (pages s pp1) = 2)) (\<lambda>_.
     andthen (assert_that (\<lambda>s. pp_ref (pages s pp2) = 0)) (\<lambda>_.
     andthen (andthen (assert_alloc False) (\<lambda>pp. check (pp = pp2) ''assertion failed'')) (\<lambda>_.
     andthen (page_remove pgdir 0) (\<lambda>_.
     andthen (assert_va2pa pgdir 0 (NOT 0)) (\<lambda>_.
     andthen (assert_va2pa pgdir PGSIZE (page2pa pp1)) (\<lambda>_.
     andthen (assert_that (\<lambda>s. pp_ref (pages s pp1) = 1)) (\<lambda>_.
     andthen (assert_that (\<lambda>s. pp_ref (pages s pp2) = 0)) (\<lambda>_.
     andthen (andthen (page_insert pgdir pp1 PGSIZE 0) (\<lambda>r. check (r = 0) ''assertion failed'')) (\<lambda>_.
     andthen (assert_that (\<lambda>s. pp_ref (pages s pp1) \<noteq> 0)) (\<lambda>_.
     andthen (assert_that (\<lambda>s. pp_link (pages s pp1) = None)) (\<lambda>_.
     andthen (page_remove pgdir PGSIZE) (\<lambda>_.
     andthen (assert_va2pa pgdir 0 (NOT 0)) (\<lambda>_.
     andthen (assert_va2pa pgdir PGSIZE (NOT 0)) (\<lambda>_.
     andthen (assert_that (\<lambda>s. pp_ref (pages s pp1) = 0)) (\<lambda>_.
     andthen (assert_that (\<lambda>s. pp_ref (pages s pp2) = 0)) (\<lambda>_.
     andthen (andthen (assert_alloc False) (\<lambda>pp. check (pp = pp1) ''assertion failed'')) (\<lambda>_.
     andthen (assert_no_page) (\<lambda>_.
     andthen (take_back pgdir pp0) (\<lambda>_.
     check_page_tables pgdir pp0 pp1 pp2 fl)))))))))))))))))))))))))))))))))))))))))))))))))))))))))"

subsection \<open>check_page_installed_pgdir\<close>

definition check_page_installed_pgdir :: "(kstate, unit) op" where
  "check_page_installed_pgdir =
     andthen (gets kern_pgdir) (\<lambda>pgdir.
     andthen (assert_alloc False) (\<lambda>pp0.
     andthen (assert_alloc False) (\<lambda>pp1.
     andthen (assert_alloc False) (\<lambda>pp2.
     andthen (page_free pp0) (\<lambda>_.
     andthen (andthen (page2kva pp1) (\<lambda>kva. kmemset kva 1 4096)) (\<lambda>_.
     andthen (andthen (page2kva pp2) (\<lambda>kva. kmemset kva 2 4096)) (\<lambda>_.
     andthen (page_insert pgdir pp1 PGSIZE PTE_W) (\<lambda>_.
     andthen (assert_that (\<lambda>s. pp_ref (pages s pp1) = 1)) (\<lambda>_.
     andthen (andthen (vload PGSIZE) (\<lambda>w. check (w = 0x01010101) ''assertion failed'')) (\<lambda>_.
     andthen (page_insert pgdir pp2 PGSIZE PTE_W) (\<lambda>_.
     andthen (andthen (vload PGSIZE) (\<lambda>w. check (w = 0x02020202) ''assertion failed'')) (\<lambda>_.
     andthen (assert_that (\<lambda>s. pp_ref (pages s pp2) = 1)) (\<lambda>_.
     andthen (assert_that (\<lambda>s. pp_ref (pages s pp1) = 0)) (\<lambda>_.
     andthen (vstore PGSIZE 0x03030303) (\<lambda>_.
     andthen (andthen (page2kva pp2) (\<lambda>kva. andthen (kload kva) (\<lambda>w. check (w = 0x03030303) ''assertion failed''))) (\<lambda>_.
     andthen (page_remove pgdir PGSIZE) (\<lambda>_.
     andthen (assert_that (\<lambda>s. pp_ref (pages s pp2) = 0)) (\<lambda>_.
     andthen (take_back pgdir pp0) (\<lambda>_.
     page_free pp0)))))))))))))))))))"

subsection \<open>mem_init\<close>

definition CR0_PE :: u32 where "CR0_PE = 0x00000001"
definition CR0_MP :: u32 where "CR0_MP = 0x00000002"
definition CR0_EM :: u32 where "CR0_EM = 0x00000004"
definition CR0_TS :: u32 where "CR0_TS = 0x00000008"
definition CR0_NE :: u32 where "CR0_NE = 0x00000020"
definition CR0_WP :: u32 where "CR0_WP = 0x00010000"
definition CR0_AM :: u32 where "CR0_AM = 0x00040000"
definition CR0_PG :: u32 where "CR0_PG = 0x80000000"

definition set_cr0_flags :: "u32 \<Rightarrow> u32" where
  "set_cr0_flags c = (c OR (CR0_PE OR CR0_PG OR CR0_AM OR CR0_WP OR CR0_NE OR CR0_MP))
                     AND NOT (CR0_TS OR CR0_EM)"

definition mem_init :: "(u32 \<Rightarrow> u8) \<Rightarrow> u32 \<Rightarrow> u32 \<Rightarrow> (nat \<Rightarrow> u32) \<Rightarrow> (kstate, unit) op" where
  "mem_init cmos end_sym bootstack percpu_kstacks =
     andthen (i386_detect_memory cmos) (\<lambda>_.
     andthen (boot_alloc end_sym PGSIZE) (\<lambda>pgdir.
     andthen (modify (\<lambda>s. s\<lparr>kern_pgdir := pgdir\<rparr>)) (\<lambda>_.
     andthen (kmemset pgdir 0 4096) (\<lambda>_.
     andthen (PADDR pgdir) (\<lambda>pgdir_pa.
     andthen (kstore (pgdir + 4 * PDX UVPT) (pgdir_pa OR PTE_U OR PTE_P)) (\<lambda>_.
     andthen (gets npages) (\<lambda>np.
     andthen (boot_alloc end_sym (sizeof_PageInfo * np)) (\<lambda>pages_p.
     andthen (modify (\<lambda>s. s\<lparr>pages_kva := pages_p,
                pages := (\<lambda>i. if i < unat np then zero_page else pages s i)\<rparr>)) (\<lambda>_.
     andthen (boot_alloc end_sym (sizeof_Env * word_of_nat NENV)) (\<lambda>envs_p.
     andthen (modify (\<lambda>s. s\<lparr>envs_kva := envs_p,
                envs := (\<lambda>i. if i < NENV then zero_env else envs s i)\<rparr>)) (\<lambda>_.
     andthen (page_init end_sym) (\<lambda>_.
     andthen (check_page_free_list end_sym True) (\<lambda>_.
     andthen check_page_alloc (\<lambda>_.
     andthen check_page (\<lambda>_.
     andthen (PADDR pages_p) (\<lambda>pages_pa.
     andthen (boot_map_region pgdir UPAGES PTSIZE pages_pa PTE_U) (\<lambda>_.
     andthen (PADDR envs_p) (\<lambda>envs_pa.
     andthen (boot_map_region pgdir UENVS PTSIZE envs_pa PTE_U) (\<lambda>_.
     andthen (PADDR bootstack) (\<lambda>stack_pa.
     andthen (boot_map_region pgdir (KSTACKTOP - KSTKSIZE) KSTKSIZE stack_pa PTE_W) (\<lambda>_.
     andthen (boot_map_region pgdir KERNBASE (0xFFFFFFFF - KERNBASE) 0 PTE_W) (\<lambda>_.
     andthen (mem_init_mp percpu_kstacks) (\<lambda>_.
     andthen (check_kern_pgdir percpu_kstacks) (\<lambda>_.
     andthen (lcr3 pgdir_pa) (\<lambda>_.
     andthen (check_page_free_list end_sym False) (\<lambda>_.
     andthen (modify (\<lambda>s. s\<lparr>cr0 := set_cr0_flags (cr0 s)\<rparr>)) (\<lambda>_.
     check_page_installed_pgdir)))))))))))))))))))))))))))"

end
