(* ===== verification/Kern_Pmap_List.thy ===== *)
theory Kern_Pmap_List
  imports Kern_Pmap Linked_Lists
begin

text \<open>
  The page allocator of \<^verbatim>\<open>kern/pmap.c\<close>: its free list is an \<open>intrusive_list\<close>,
  \<open>page_inv s xs\<close> states that \<open>xs\<close> are the free pages in order and that the reference counts and
  links agree with it, and every operation of the allocator is shown to act on \<open>xs\<close> as on a stack.
\<close>

subsection \<open>The free list of pages\<close>

definition page_links :: "kstate \<Rightarrow> nat \<Rightarrow> nat option" where
  "page_links s = (\<lambda>i. pp_link (pages s i))"

definition set_page_link :: "nat \<Rightarrow> nat option \<Rightarrow> kstate \<Rightarrow> kstate" where
  "set_page_link i v s = upd_page i (\<lambda>p. p\<lparr>pp_link := v\<rparr>) s"

definition set_page_head :: "nat option \<Rightarrow> kstate \<Rightarrow> kstate" where
  "set_page_head h s = s\<lparr>page_free_list := h\<rparr>"

interpretation pl: intrusive_list page_links page_free_list set_page_link set_page_head
  by unfold_locales
    (auto simp: page_links_def set_page_link_def set_page_head_def upd_page_def fun_eq_iff)

definition page_inv :: "kstate \<Rightarrow> nat list \<Rightarrow> bool" where
  "page_inv s xs \<longleftrightarrow>
     pl.is_list s xs \<and> unat (npages s) \<le> 1048576 \<and>
     (\<forall>x \<in> set xs. x < unat (npages s) \<and> pp_ref (pages s x) = 0) \<and>
     (\<forall>x < unat (npages s). x \<notin> set xs \<longrightarrow> pp_link (pages s x) = None)"

lemma page_invD:
  assumes "page_inv s xs"
  shows "pl.is_list s xs" "unat (npages s) \<le> 1048576" "distinct xs"
    "\<And>x. x \<in> set xs \<Longrightarrow> x < unat (npages s)" "\<And>x. x \<in> set xs \<Longrightarrow> x < 1048576"
    "\<And>x. x \<in> set xs \<Longrightarrow> pp_ref (pages s x) = 0"
    "\<And>x. x < unat (npages s) \<Longrightarrow> x \<notin> set xs \<Longrightarrow> pp_link (pages s x) = None"
  using assms linked_distinct unfolding page_inv_def pl.is_list_def
  by (auto dest: order_less_le_trans)

lemma page_inv_unique: "page_inv s xs \<Longrightarrow> page_inv s ys \<Longrightarrow> xs = ys"
  unfolding page_inv_def using pl.is_list_unique by blast

lemma page_inv_cong:
  assumes "pages s = pages t" "page_free_list s = page_free_list t" "npages s = npages t"
  shows "page_inv s xs = page_inv t xs"
  using assms by (simp add: page_inv_def pl.is_list_def page_links_def)

text \<open>The states in which the allocator operations end.\<close>

definition page_pop :: "bool \<Rightarrow> nat \<Rightarrow> kstate \<Rightarrow> kstate" where
  "page_pop z x s = (let t = pl.pop x s in if z then t\<lparr>mem := fill_words (x * 1024) 1024 0 (mem s)\<rparr> else t)"

lemma pages_set_link [simp]:
  "pages (set_page_link i v s) = (pages s)(i := (pages s i)\<lparr>pp_link := v\<rparr>)"
  "pages (set_page_head h s) = pages s"
  "npages (set_page_link i v s) = npages s" "npages (set_page_head h s) = npages s"
  "mem (set_page_link i v s) = mem s" "mem (set_page_head h s) = mem s"
  "page_free_list (set_page_link i v s) = page_free_list s"
  "page_free_list (set_page_head h s) = h"
  by (simp_all add: set_page_link_def set_page_head_def upd_page_def)

lemma page_push_fields [simp]:
  "pages (pl.push x s) = (pages s)(x := (pages s x)\<lparr>pp_link := page_free_list s\<rparr>)"
  "npages (pl.push x s) = npages s" "mem (pl.push x s) = mem s"
  "page_free_list (pl.push x s) = Some x"
  by (simp_all add: pl.push_def)

lemma page_pop_fields [simp]:
  "pages (page_pop z x s) = (pages s)(x := (pages s x)\<lparr>pp_link := None\<rparr>)"
  "npages (page_pop z x s) = npages s"
  "mem (page_pop z x s) = (if z then fill_words (x * 1024) 1024 0 (mem s) else mem s)"
  "page_free_list (page_pop z x s) = pp_link (pages s x)"
  by (simp_all add: page_pop_def pl.pop_def Let_def page_links_def)

lemma pop_noop [simp]: "curenv (page_pop z x s) = curenv s" "envs (page_pop z x s) = envs s"
  "kern_pgdir (page_pop z x s) = kern_pgdir s" "cr3 (page_pop z x s) = cr3 s"
  "mmio_base (page_pop z x s) = mmio_base s" "cpus (page_pop z x s) = cpus s"
  "this_cpu (page_pop z x s) = this_cpu s" "invlpg_log (page_pop z x s) = invlpg_log s"
  "env_free_list (page_pop z x s) = env_free_list s"
  by (simp_all add: page_pop_def pl.pop_def Let_def set_page_link_def set_page_head_def
        upd_page_def curenv_def)

subsection \<open>Allocation and release\<close>

lemma page_alloc_None: "page_inv s [] \<Longrightarrow> page_alloc z s = Ret None s"
  by (simp add: page_inv_def pl.is_list_def page_alloc_def)

lemma kmemset_zero: "kmemset kva 0 n s = Ret () (s\<lparr>mem := fill_words (kidx kva) (n div 4) 0 (mem s)\<rparr>)"
  by (simp add: kmemset_def)

lemma KADDR_page2pa:
  "pp < 1048576 \<Longrightarrow> pp < unat (npages s) \<Longrightarrow> KADDR (page2pa pp) s = Ret (page2pa pp + KERNBASE) s"
  by (simp add: KADDR_def word_le_nat_alt PGNUM_page2pa)

lemma page_alloc_Some:
  assumes "page_inv s (x # xs)"
  shows "page_alloc z s = Ret (Some x) (page_pop z x s)"
proof -
  have h: "page_free_list s = Some x" and x: "x < 1048576" "x < unat (npages s)"
    using assms page_invD [OF assms] pl.is_list_pop(1) by auto
  let ?t = "(pl.pop x s)"
  have t: "?t = upd_page x (\<lambda>p. p\<lparr>pp_link := None\<rparr>) (s\<lparr>page_free_list := pp_link (pages s x)\<rparr>)"
    by (simp add: pl.pop_def set_page_link_def set_page_head_def page_links_def)
  have np: "npages ?t = npages s" by (simp add: pl.pop_def)
  have m: "mem ?t = mem s" by (simp add: pl.pop_def)
  show ?thesis
  proof (cases z)
    case True
    have "KADDR (page2pa x) ?t = Ret (page2pa x + KERNBASE) ?t"
      using x np by (simp add: KADDR_page2pa)
    then show ?thesis using h True x
      by (simp add: page_alloc_def Let_def page2kva_def kmemset_zero kidx_page page_pop_def t [symmetric] m)
  next
    case False
    then show ?thesis using h by (simp add: page_alloc_def Let_def page_pop_def t)
  qed
qed

lemma page_inv_pop:
  assumes "page_inv s (x # xs)"
  shows "page_inv (page_pop z x s) xs"
proof -
  have l: "pl.is_list (pl.pop x s) xs"
    using assms pl.is_list_pop(2) unfolding page_inv_def by blast
  have "x \<notin> set xs" using page_invD(3) [OF assms] by simp
  then show ?thesis using assms l
    by (auto simp: page_inv_def page_pop_def Let_def pl.pop_def pl.is_list_def page_links_def)
qed

lemma page_free_Ret:
  assumes "page_inv s xs" and "pp < unat (npages s)" and "pp \<notin> set xs"
    and "pp_ref (pages s pp) = 0"
  shows "page_free pp s = Ret () (pl.push pp s)"
  using page_invD(7) [OF assms(1)] assms
  by (simp add: page_free_def pl.push_def set_page_link_def set_page_head_def)

lemma page_inv_push:
  assumes "page_inv s xs" and "pp < unat (npages s)" and "pp \<notin> set xs"
    and "pp_ref (pages s pp) = 0"
  shows "page_inv (pl.push pp s) (pp # xs)"
  using assms pl.is_list_push [of s xs pp] by (auto simp: page_inv_def)

lemma page_free_double:
  assumes "page_inv s xs" and "pp \<in> set (butlast xs)"
  shows "\<exists>m. page_free pp s = Panic m"
proof -
  obtain as bs where xs: "xs = as @ pp # bs" "bs \<noteq> []"
    using assms(2) by (metis append_butlast_last_id butlast.simps(1) in_set_conv_decomp
        append.assoc append_Cons list.distinct(1) append_is_Nil_conv)
  have "linked (page_links s) (page_free_list s) xs"
    using assms(1) by (simp add: page_inv_def pl.is_list_def)
  then have "linked (page_links s) (Some pp) (pp # bs)" using linked_suffix xs by blast
  then have "pp_link (pages s pp) \<noteq> None"
    using xs(2) by (cases bs) (auto simp: page_links_def)
  then show ?thesis by (simp add: page_free_def)
qed

subsection \<open>Reference counts\<close>

definition set_ref :: "nat \<Rightarrow> u16 \<Rightarrow> kstate \<Rightarrow> kstate" where
  "set_ref pp r s = upd_page pp (\<lambda>p. p\<lparr>pp_ref := r\<rparr>) s"

lemma set_ref_fields [simp]:
  "pages (set_ref pp r s) = (pages s)(pp := (pages s pp)\<lparr>pp_ref := r\<rparr>)"
  "npages (set_ref pp r s) = npages s" "mem (set_ref pp r s) = mem s"
  "page_free_list (set_ref pp r s) = page_free_list s"
  "curenv (set_ref pp r s) = curenv s" "envs (set_ref pp r s) = envs s"
  by (simp_all add: set_ref_def upd_page_def curenv_def)

lemma page_links_set_ref [simp]: "page_links (set_ref pp r s) = page_links s"
  by (simp add: page_links_def fun_eq_iff)

lemma page_inv_set_ref: "page_inv s xs \<Longrightarrow> pp \<notin> set xs \<Longrightarrow> page_inv (set_ref pp r s) xs"
  by (auto simp: page_inv_def pl.is_list_def)

lemma page_decref_shared:
  assumes "pp_ref (pages s pp) \<noteq> 1"
  shows "page_decref pp s = Ret () (set_ref pp (pp_ref (pages s pp) - 1) s)"
  using assms by (simp add: page_decref_def set_ref_def upd_page_def)

lemma page_decref_last:
  assumes "page_inv s xs" and "pp < unat (npages s)" and "pp_ref (pages s pp) = 1"
  shows "page_decref pp s = Ret () (pl.push pp (set_ref pp 0 s))"
    and "page_inv (pl.push pp (set_ref pp 0 s)) (pp # xs)"
proof -
  have pp: "pp \<notin> set xs" using page_invD(6) [OF assms(1)] assms(3) by auto
  have i: "page_inv (set_ref pp 0 s) xs" using assms(1) pp by (rule page_inv_set_ref)
  show "page_decref pp s = Ret () (pl.push pp (set_ref pp 0 s))"
    using page_free_Ret [OF i] assms pp
    by (simp add: page_decref_def set_ref_def upd_page_def)
  show "page_inv (pl.push pp (set_ref pp 0 s)) (pp # xs)"
    using page_inv_push [OF i] assms pp by simp
qed

subsection \<open>Setting up the free list\<close>

text \<open>The pages \<^verbatim>\<open>page_init\<close> leaves free: neither in \<open>[npages_basemem, kernel_end)\<close> nor the
  page the other processors boot from.\<close>

definition init_free :: "kstate \<Rightarrow> u32 \<Rightarrow> nat \<Rightarrow> bool" where
  "init_free s kernel_end i \<longleftrightarrow>
     \<not> (unat (npages_basemem s) \<le> i \<and> i < unat kernel_end) \<and> i \<noteq> 7"

lemma init_free_word:
  assumes "i < 1048576"
  shows "init_free s ke i \<longleftrightarrow>
    \<not> (npages_basemem s \<le> word_of_nat i \<and> word_of_nat i < ke) \<and>
    word_of_nat i \<noteq> MPENTRY_PADDR div PGSIZE"
proof -
  have "unat (word_of_nat i :: u32) = i" using assms by (simp add: unat_of_nat)
  moreover have "unat (MPENTRY_PADDR div PGSIZE) = 7"
    by (simp add: MPENTRY_PADDR_def PGSIZE_def unat_div)
  ultimately show ?thesis
    by (simp add: init_free_def word_le_nat_alt word_less_nat_alt word_unat_eq_iff)
qed

definition init_step :: "u32 \<Rightarrow> nat \<Rightarrow> kstate \<Rightarrow> kstate" where
  "init_step ke i s = (if init_free s ke i then pl.push i (set_ref i 0 s)
     else upd_page i (\<lambda>p. p\<lparr>pp_ref := 1, pp_link := None\<rparr>) s)"

lemma page_init_page_Ret:
  "i < 1048576 \<Longrightarrow> page_init_page ke i s = Ret () (init_step ke i s)"
  by (auto simp: page_init_page_def init_free_word init_step_def pl.push_def set_page_link_def
      set_page_head_def set_ref_def upd_page_def Let_def)

lemma init_step_fields:
  "npages (init_step ke i s) = npages s" "npages_basemem (init_step ke i s) = npages_basemem s"
  "mem (init_step ke i s) = mem s"
  "j \<noteq> i \<Longrightarrow> pages (init_step ke i s) j = pages s j"
  "pp_ref (pages (init_step ke i s) i) = (if init_free s ke i then 0 else 1)"
  by (simp_all add: init_step_def upd_page_def pl.push_def set_page_link_def set_page_head_def
      set_ref_def)

lemma page_inv_fix:
  assumes "page_inv s xs" and "i \<notin> set xs"
  shows "page_inv (upd_page i (\<lambda>p. p\<lparr>pp_ref := r, pp_link := None\<rparr>) s) xs"
proof -
  have "upd_page i (\<lambda>p. p\<lparr>pp_ref := r, pp_link := None\<rparr>) s = set_page_link i None (set_ref i r s)"
    by (simp add: upd_page_def set_page_link_def set_ref_def)
  moreover have "pl.is_list (set_page_link i None (set_ref i r s)) xs"
    using assms pl.list_laws by (simp add: page_inv_def pl.is_list_def)
  ultimately show ?thesis using assms by (auto simp: page_inv_def)
qed

lemma page_inv_init_step:
  assumes "page_inv s xs" and "i < unat (npages s)" and "i \<notin> set xs"
  shows "page_inv (init_step ke i s) (if init_free s ke i then i # xs else xs)"
  using page_inv_fix [OF assms(1,3)] page_inv_push [OF page_inv_set_ref [OF assms(1,3), of 0]] assms
  by (simp add: init_step_def)

lemma page_init_loop:
  assumes "page_inv s xs" and "distinct js" and "set js \<inter> set xs = {}"
    and "\<forall>i \<in> set js. i < unat (npages s)"
  shows "\<exists>s'. each (page_init_page ke) js s = Ret () s' \<and>
     page_inv s' (rev (filter (init_free s ke) js) @ xs) \<and>
     npages s' = npages s \<and> npages_basemem s' = npages_basemem s \<and> mem s' = mem s \<and>
     (\<forall>i. pp_ref (pages s' i) =
        (if i \<in> set js then if init_free s ke i then 0 else 1 else pp_ref (pages s i)))"
  using assms
proof (induction js arbitrary: s xs)
  case (Cons i js)
  have i: "i < unat (npages s)" "i \<notin> set xs" "i \<notin> set js" using Cons.prems by auto
  then have i20: "i < 1048576" using page_invD(2) [OF Cons.prems(1)] by simp
  let ?s = "init_step ke i s" and ?xs = "if init_free s ke i then i # xs else xs"
  have f: "init_free ?s ke = init_free s ke" by (simp add: init_free_def init_step_fields fun_eq_iff)
  have "page_inv ?s ?xs" using page_inv_init_step [OF Cons.prems(1) i(1,2)] .
  moreover have "set js \<inter> set ?xs = {}" using Cons.prems i(3) by auto
  ultimately obtain s' where s': "each (page_init_page ke) js ?s = Ret () s'"
    "page_inv s' (rev (filter (init_free s ke) js) @ ?xs)" "npages s' = npages s"
    "npages_basemem s' = npages_basemem s" "mem s' = mem s"
    "\<forall>j. pp_ref (pages s' j) =
        (if j \<in> set js then if init_free s ke j then 0 else 1 else pp_ref (pages ?s j))"
    using Cons.IH [of ?s ?xs] Cons.prems(2,4) by (auto simp: init_step_fields f)
  have "each (page_init_page ke) (i # js) s = Ret () s'"
    using s'(1) page_init_page_Ret [OF i20] by simp
  moreover have "page_inv s' (rev (filter (init_free s ke) (i # js)) @ xs)" using s'(2) by (simp split: if_splits)
  moreover have "\<forall>j. pp_ref (pages s' j) =
      (if j \<in> set (i # js) then if init_free s ke j then 0 else 1 else pp_ref (pages s j))"
    using s'(6) i(3) by (auto simp: init_step_fields)
  ultimately show ?case using s'(3-5) by blast
qed simp

lemma boot_alloc_query:
  "nextfree s \<noteq> 0 \<Longrightarrow> boot_alloc e 0 s = Ret (nextfree s) s"
  by (simp add: boot_alloc_def Let_def)

lemma page_init_Ret:
  assumes "unat (npages s) \<le> 1048576" and "0 < npages s" and "page_free_list s = None"
    and "\<forall>i < unat (npages s). pages s i = zero_page" and "KERNBASE \<le> nextfree s"
  defines "ke \<equiv> (nextfree s - KERNBASE) div PGSIZE"
  shows "\<exists>s'. page_init e s = Ret () s' \<and>
     page_inv s' (rev (filter (init_free s ke) [1 ..< unat (npages s)])) \<and>
     npages s' = npages s \<and> mem s' = mem s \<and>
     (\<forall>i < unat (npages s). pp_ref (pages s' i) = (if i \<noteq> 0 \<and> init_free s ke i then 0 else 1))"
proof -
  let ?s = "upd_page 0 (\<lambda>p. p\<lparr>pp_ref := 1, pp_link := None\<rparr>) s"
  have nf: "nextfree s \<noteq> 0" using assms(5) by (auto simp: KERNBASE_def)
  have "page_inv s []" using assms by (auto simp: page_inv_def pl.is_list_def zero_page_def)
  then have i: "page_inv ?s []" by (rule page_inv_fix) simp
  have f: "npages ?s = npages s" "npages_basemem ?s = npages_basemem s" "nextfree ?s = nextfree s"
    "mem ?s = mem s" by (simp_all add: upd_page_def)
  have g: "init_free ?s ke = init_free s ke" by (simp add: init_free_def fun_eq_iff f)
  obtain s' where s': "each (page_init_page ke) [1 ..< unat (npages s)] ?s = Ret () s'"
    "page_inv s' (rev (filter (init_free s ke) [1 ..< unat (npages s)]))"
    "npages s' = npages s" "mem s' = mem s"
    "\<forall>i. pp_ref (pages s' i) = (if i \<in> set [1 ..< unat (npages s)]
        then if init_free s ke i then 0 else 1 else pp_ref (pages ?s i))"
    using page_init_loop [OF i, of "[1 ..< unat (npages s)]" ke] by (auto simp: f g)
  have ba: "boot_alloc e 0 ?s = Ret (nextfree s) ?s" using boot_alloc_query [of ?s] nf f(3) by simp
  have "page_init e s = Ret () s'"
    using s'(1) assms(5) ba
    by (simp add: page_init_def f PADDR_def ke_def not_less [symmetric])
  moreover have "pp_ref (pages s' i) = (if i \<noteq> 0 \<and> init_free s ke i then 0 else 1)"
    if "i < unat (npages s)" for i
    using s'(5) that by (cases "i = 0") (simp_all add: upd_page_def)
  ultimately show ?thesis using s'(2-4) by blast
qed

subsection \<open>The boot-time allocator\<close>

lemma unat_KERNBASE: "unat KERNBASE = 4026531840" by (simp add: KERNBASE_def)

text \<open>A request that neither wraps the address space nor exceeds memory returns the old break, and
  the break moves to the next page boundary at or after the end of the chunk.\<close>

lemma boot_alloc_Ret:
  assumes nf: "nextfree s \<noteq> 0" and n: "0 < n"
    and nowrap: "unat (nextfree s) + unat n + 4095 < 2 ^ 32"
    and k: "KERNBASE \<le> nextfree s"
    and np: "unat (npages s) * 4096 < 2 ^ 32"
    and room: "unat (nextfree s) + unat n \<le> unat KERNBASE + unat (npages s) * 4096"
  shows "\<exists>s'. boot_alloc e n s = Ret (nextfree s) s' \<and> unat (nextfree s') mod 4096 = 0 \<and>
      unat (nextfree s) + unat n \<le> unat (nextfree s') \<and>
      unat (nextfree s') < unat (nextfree s) + unat n + 4096 \<and>
      s' = s\<lparr>nextfree := nextfree s'\<rparr>"
proof -
  let ?nf = "ROUNDUP (nextfree s + n) PGSIZE"
  have add: "unat (nextfree s + n) = unat (nextfree s) + unat n"
    using nowrap by (simp add: unat_word_ariths)
  have u: "unat ?nf = (unat (nextfree s) + unat n + 4095) div 4096 * 4096"
    using unat_ROUNDUP_page [of "nextfree s + n"] nowrap add by simp
  have bounds: "unat (nextfree s) + unat n \<le> unat ?nf"
    "unat ?nf < unat (nextfree s) + unat n + 4096"
    unfolding u by (rule page_ceil)+
  have "KERNBASE \<le> ?nf" using bounds(1) k by (simp add: word_le_nat_alt)
  then have sub: "unat (?nf - KERNBASE) = unat ?nf - 4026531840"
    by (simp add: unat_sub unat_KERNBASE)
  have "unat (npages s * PGSIZE) = unat (npages s) * 4096"
    using np by (simp add: unat_word_ariths PGSIZE_def)
  moreover have "unat ?nf \<le> 4026531840 + unat (npages s) * 4096"
    using page_ceil(3) [of "unat (nextfree s) + unat n" "983040 + unat (npages s)"] room u
    by (simp add: unat_KERNBASE)
  ultimately have "\<not> npages s * PGSIZE < ?nf - KERNBASE"
    by (simp add: word_less_nat_alt sub not_less)
  then have "boot_alloc e n s = Ret (nextfree s) (s\<lparr>nextfree := ?nf\<rparr>)"
    using nf n by (simp add: boot_alloc_def Let_def)
  then show ?thesis using bounds u by simp
qed

end
