(* ===== verification/Kern_Pmap_VM.thy ===== *)
theory Kern_Pmap_VM
  imports Kern_Pmap_List
begin

text \<open>
  The page tables of \<^verbatim>\<open>kern/pmap.c\<close>. \<open>pte_at m P v\<close> reads, from the raw words of physical
  memory, the page-table entry the directory in page \<open>P\<close> holds for virtual page \<open>v\<close>;
  \<open>vm_inv s D xs\<close> is the invariant that keeps the address spaces of a set \<open>D\<close> of page directories
  apart from each other, from the kernel's tables and from the free list \<open>xs\<close>, and accounts for
  every user mapping in the reference counts. Against that invariant the operations are shown to
  update exactly one entry.
\<close>

subsection \<open>Reading page tables from memory\<close>

definition page_kva :: "nat \<Rightarrow> u32" where
  "page_kva P = page2pa P + KERNBASE"

definition pde_at :: "(nat \<Rightarrow> u32) \<Rightarrow> nat \<Rightarrow> nat \<Rightarrow> u32" where
  "pde_at m P x = m (P * 1024 + x)"

definition pte_page :: "u32 \<Rightarrow> nat option" where
  "pte_page e = (if e AND PTE_P = 0 then None else Some (unat (PGNUM e)))"

definition table :: "(nat \<Rightarrow> u32) \<Rightarrow> nat \<Rightarrow> nat \<Rightarrow> nat option" where
  "table m P x = pte_page (pde_at m P x)"

definition pte_at :: "(nat \<Rightarrow> u32) \<Rightarrow> nat \<Rightarrow> nat \<Rightarrow> u32" where
  "pte_at m P v = (case table m P (v div 1024) of None \<Rightarrow> 0 | Some T \<Rightarrow> m (T * 1024 + v mod 1024))"

definition mapped :: "(nat \<Rightarrow> u32) \<Rightarrow> nat \<Rightarrow> nat \<Rightarrow> nat option" where
  "mapped m P v = pte_page (pte_at m P v)"

definition vpn :: "u32 \<Rightarrow> nat" where "vpn va = unat (PGNUM va)"

text \<open>The user part of the address space: page-directory entries below \<open>PDX UTOP = 955\<close>.\<close>

abbreviation user_pdes :: nat where "user_pdes \<equiv> 955"
abbreviation user_vpns :: nat where "user_vpns \<equiv> 977920"

lemma PDX_UTOP: "unat (PDX UTOP) = user_pdes" and PDX_UVPT: "unat (PDX UVPT) = 957"
  by (simp_all add: word_arith layout_defs)

lemma vpn_split: "vpn va div 1024 = unat (PDX va)" "vpn va mod 1024 = unat (PTX va)"
  by (simp_all add: vpn_def word_arith div_mult2_eq [symmetric])

lemma vpn_lt: "vpn va < 1048576"
  using unat_lt_4G [of va] by (simp add: vpn_def word_arith div_less_iff_less_mult)

lemma PDX_lt: "unat (PDX va) < 1024" and PTX_lt: "unat (PTX va) < 1024"
  using vpn_split [of va] vpn_lt [of va] by (auto simp: less_mult_imp_div_less)

lemma vpn_user: "va < UTOP \<Longrightarrow> vpn va < user_vpns"
  by (simp add: vpn_def word_arith word_less_nat_alt layout_defs div_less_iff_less_mult)

lemma user_vpn_pdx: "v < user_vpns \<longleftrightarrow> v div 1024 < user_pdes"
  by (simp add: div_less_iff_less_mult)

lemma kidx_pde: "P < 1048576 \<Longrightarrow> kidx (page_kva P + 4 * PDX va) = P * 1024 + unat (PDX va)"
  unfolding page_kva_def by (rule kidx_entry [OF _ PDX_lt])

lemma kidx_pte: "T < 1048576 \<Longrightarrow> kidx (page_kva T + 4 * PTX va) = T * 1024 + unat (PTX va)"
  unfolding page_kva_def by (rule kidx_entry [OF _ PTX_lt])

lemma slot_eq:
  fixes i j :: nat
  assumes "i < 1024" and "j < 1024"
  shows "(P * 1024 + i = Q * 1024 + j) \<longleftrightarrow> P = Q \<and> i = j"
proof
  assume eq: "P * 1024 + i = Q * 1024 + j"
  then have "(P * 1024 + i) div 1024 = (Q * 1024 + j) div 1024" by simp
  then have "P = Q" using assms by simp
  then show "P = Q \<and> i = j" using eq by simp
qed simp

lemma fill_page: "i < 1024 \<Longrightarrow>
    fill_words (p * 1024) 1024 w m (P * 1024 + i) = (if P = p then w else m (P * 1024 + i))"
proof -
  assume "i < 1024"
  then have "(p * 1024 \<le> P * 1024 + i \<and> P * 1024 + i < p * 1024 + 1024) \<longleftrightarrow> P = p" by auto
  then show ?thesis by (simp add: fill_words_def)
qed

subsection \<open>The invariant\<close>

text \<open>The pages that hold page directories of \<open>D\<close> or page tables reachable from them.\<close>

definition pt_pages :: "(nat \<Rightarrow> u32) \<Rightarrow> nat set \<Rightarrow> nat set" where
  "pt_pages m D = D \<union> {T. \<exists>P \<in> D. \<exists>x < 1024. table m P x = Some T}"

text \<open>
  User page tables are not shared: each is used by one directory entry only. Tables of the kernel
  part are shared by all directories but are never directories themselves, except through the
  self-mapping at \<open>UVPT\<close>.
\<close>

definition tables_ok :: "(nat \<Rightarrow> u32) \<Rightarrow> nat set \<Rightarrow> bool" where
  "tables_ok m D \<longleftrightarrow>
     (\<forall>P \<in> D. \<forall>x < user_pdes. \<forall>T. table m P x = Some T \<longrightarrow>
        T \<notin> D \<and> (\<forall>P' \<in> D. \<forall>x' < 1024. table m P' x' = Some T \<longrightarrow> P' = P \<and> x' = x)) \<and>
     (\<forall>P \<in> D. \<forall>x < 1024. user_pdes \<le> x \<and> x \<noteq> 957 \<longrightarrow> (\<forall>T. table m P x = Some T \<longrightarrow> T \<notin> D)) \<and>
     (\<forall>P \<in> D. \<forall>T. table m P 957 = Some T \<longrightarrow> T = P)"

definition uses :: "(nat \<Rightarrow> u32) \<Rightarrow> nat set \<Rightarrow> nat \<Rightarrow> (nat \<times> nat) set" where
  "uses m D p = {(P, v). P \<in> D \<and> v < user_vpns \<and> mapped m P v = Some p}"

definition vm_inv :: "kstate \<Rightarrow> nat set \<Rightarrow> nat list \<Rightarrow> bool" where
  "vm_inv s D xs \<longleftrightarrow>
     page_inv s xs \<and> finite D \<and> tables_ok (mem s) D \<and>
     (\<forall>p \<in> pt_pages (mem s) D. p < unat (npages s) \<and> p \<notin> set xs) \<and>
     (\<forall>P \<in> D. pp_ref (pages s P) = 1) \<and>
     (\<forall>P \<in> D. \<forall>x < user_pdes. \<forall>T. table (mem s) P x = Some T \<longrightarrow> pp_ref (pages s T) = 1) \<and>
     (\<forall>P \<in> D. \<forall>v < user_vpns. \<forall>p. mapped (mem s) P v = Some p \<longrightarrow>
        p < unat (npages s) \<and> p \<notin> pt_pages (mem s) D) \<and>
     (\<forall>p. card (uses (mem s) D p) \<le> unat (pp_ref (pages s p)))"

lemma tables_okD:
  assumes "tables_ok m D" and "P \<in> D" and "x < user_pdes" and "table m P x = Some T"
  shows "T \<notin> D" and "P' \<in> D \<Longrightarrow> x' < 1024 \<Longrightarrow> table m P' x' = Some T \<longleftrightarrow> P' = P \<and> x' = x"
  using assms unfolding tables_ok_def by blast+

lemma tables_okI:
  assumes "\<And>P x T. P \<in> D \<Longrightarrow> x < 1024 \<Longrightarrow> x \<noteq> 957 \<Longrightarrow> table m P x = Some T \<Longrightarrow> T \<notin> D"
    and "\<And>P x T P' x'. P \<in> D \<Longrightarrow> x < user_pdes \<Longrightarrow> table m P x = Some T \<Longrightarrow>
      P' \<in> D \<Longrightarrow> x' < 1024 \<Longrightarrow> table m P' x' = Some T \<Longrightarrow> P' = P \<and> x' = x"
    and "\<And>P T. P \<in> D \<Longrightarrow> table m P 957 = Some T \<Longrightarrow> T = P"
  shows "tables_ok m D"
  unfolding tables_ok_def
proof (intro conjI ballI allI impI)
  fix P x T assume "P \<in> D" "x < user_pdes" "table m P x = Some T"
  moreover from this(2) have "x < 1024" "x \<noteq> 957" by linarith+
  ultimately show "T \<notin> D" using assms(1) by blast
qed (use assms in blast)+

lemma table_self: "tables_ok m D \<Longrightarrow> P \<in> D \<Longrightarrow> table m P 957 = Some T \<Longrightarrow> T = P"
  unfolding tables_ok_def by blast

lemma table_not_dir:
  assumes ok: "tables_ok m D" and Q: "Q \<in> D" and x: "x < 1024" "x \<noteq> 957" and T: "table m Q x = Some T"
  shows "T \<notin> D"
proof (cases "x < user_pdes")
  case True
  then show ?thesis by (rule tables_okD(1) [OF ok Q _ T])
next
  case False
  then have "user_pdes \<le> x \<and> x \<noteq> 957" using x(2) by linarith
  then show ?thesis using ok Q x(1) T unfolding tables_ok_def by blast
qed

lemma vm_invD:
  assumes "vm_inv s D xs"
  shows "page_inv s xs" "finite D" "tables_ok (mem s) D"
    "\<And>p. p \<in> pt_pages (mem s) D \<Longrightarrow> p < unat (npages s)"
    "\<And>p. p \<in> pt_pages (mem s) D \<Longrightarrow> p \<notin> set xs"
    "\<And>P. P \<in> D \<Longrightarrow> pp_ref (pages s P) = 1"
    "\<And>P x T. P \<in> D \<Longrightarrow> x < user_pdes \<Longrightarrow> table (mem s) P x = Some T \<Longrightarrow> pp_ref (pages s T) = 1"
    "\<And>P v p. P \<in> D \<Longrightarrow> v < user_vpns \<Longrightarrow> mapped (mem s) P v = Some p \<Longrightarrow>
       p < unat (npages s) \<and> p \<notin> pt_pages (mem s) D"
    "\<And>p. card (uses (mem s) D p) \<le> unat (pp_ref (pages s p))"
    "unat (npages s) \<le> 1048576"
    "\<And>p. p \<in> pt_pages (mem s) D \<Longrightarrow> p < 1048576"
proof -
  show np: "unat (npages s) \<le> 1048576" using assms page_invD(2) unfolding vm_inv_def by blast
  show "\<And>p. p \<in> pt_pages (mem s) D \<Longrightarrow> p < 1048576"
    using assms np unfolding vm_inv_def by fastforce
qed (use assms in \<open>auto simp: vm_inv_def\<close>)

lemma pt_pagesI:
  "P \<in> D \<Longrightarrow> P \<in> pt_pages m D"
  "P \<in> D \<Longrightarrow> x < 1024 \<Longrightarrow> table m P x = Some T \<Longrightarrow> T \<in> pt_pages m D"
  unfolding pt_pages_def by blast+

lemma finite_uses: "finite D \<Longrightarrow> finite (uses m D p)"
  by (rule finite_subset [of _ "D \<times> {..< user_vpns}"]) (auto simp: uses_def)

lemma mapped_ref:
  assumes "vm_inv s D xs" and "P \<in> D" and "v < user_vpns" and "mapped (mem s) P v = Some p"
  shows "pp_ref (pages s p) \<noteq> 0" and "p \<notin> set xs"
proof -
  have "(P, v) \<in> uses (mem s) D p" using assms by (simp add: uses_def)
  then have "0 < card (uses (mem s) D p)"
    using finite_uses [OF vm_invD(2) [OF assms(1)]] card_gt_0_iff by blast
  then show r: "pp_ref (pages s p) \<noteq> 0"
    using vm_invD(9) [OF assms(1), of p] by auto
  then show "p \<notin> set xs" using page_invD(6) [OF vm_invD(1) [OF assms(1)]] by blast
qed

subsection \<open>Updates of the tables\<close>

text \<open>Writing one entry of a user page table changes that entry only.\<close>

lemma pte_write:
  fixes e :: u32
  assumes ok: "tables_ok m D" and P: "P \<in> D" and v: "v < user_vpns"
    and T: "table m P (v div 1024) = Some T"
  defines "m' \<equiv> m(T * 1024 + v mod 1024 := e)"
  shows "Q \<in> D \<Longrightarrow> x < 1024 \<Longrightarrow> table m' Q x = table m Q x"
    and "Q \<in> D \<Longrightarrow> w < 1048576 \<Longrightarrow> pte_at m' Q w = (if Q = P \<and> w = v then e else pte_at m Q w)"
proof -
  have x: "v div 1024 < user_pdes" using v by (simp add: user_vpn_pdx)
  note own = tables_okD [OF ok P x T]
  show t: "table m' Q x = table m Q x" if "Q \<in> D" "x < 1024" for Q x
    using own(1) that by (auto simp: table_def pde_at_def m'_def slot_eq)
  assume Q: "Q \<in> D" and w: "w < 1048576"
  then have wx: "w div 1024 < 1024" by (simp add: div_less_iff_less_mult)
  have eq: "(w div 1024 = v div 1024 \<and> w mod 1024 = v mod 1024) \<longleftrightarrow> w = v"
    by (metis div_mult_mod_eq)
  show "pte_at m' Q w = (if Q = P \<and> w = v then e else pte_at m Q w)"
  proof (cases "table m Q (w div 1024)")
    case None
    then show ?thesis using T t [OF Q wx] by (auto simp: pte_at_def)
  next
    case (Some T')
    have "T' = T \<longleftrightarrow> Q = P \<and> w div 1024 = v div 1024"
      using own(2) [OF Q wx] Some T by auto
    then show ?thesis using Some t [OF Q wx] eq
      by (auto simp: pte_at_def m'_def slot_eq)
  qed
qed

text \<open>Changing the permission bits of a directory entry changes no user mapping.\<close>

lemma pde_flags_write:
  assumes ok: "tables_ok m D" and P: "P \<in> D" and x: "x < user_pdes"
    and e: "pte_page e = pte_page (pde_at m P x)"
  defines "m' \<equiv> m(P * 1024 + x := e)"
  shows "Q \<in> D \<Longrightarrow> y < 1024 \<Longrightarrow> table m' Q y = table m Q y"
    and "Q \<in> D \<Longrightarrow> w < 1048576 \<Longrightarrow> w div 1024 \<noteq> 957 \<Longrightarrow> pte_at m' Q w = pte_at m Q w"
proof -
  show t: "table m' Q y = table m Q y" if "Q \<in> D" "y < 1024" for Q y
    using e x that by (auto simp: table_def pde_at_def m'_def slot_eq)
  assume Q: "Q \<in> D" and w: "w < 1048576" and self: "w div 1024 \<noteq> 957"
  then have wx: "w div 1024 < 1024" by (simp add: div_less_iff_less_mult)
  have "T \<noteq> P" if "table m Q (w div 1024) = Some T" for T
    using table_not_dir [OF ok Q wx self that] P by blast
  then show "pte_at m' Q w = pte_at m Q w"
    using t [OF Q wx] x by (auto simp: pte_at_def m'_def slot_eq split: option.split)
qed

text \<open>Overwriting a page that holds no table changes no mapping.\<close>

lemma page_write:
  assumes "p \<notin> pt_pages m D" and m': "\<And>P i. i < 1024 \<Longrightarrow> P \<noteq> p \<Longrightarrow> m' (P * 1024 + i) = m (P * 1024 + i)"
  shows "Q \<in> D \<Longrightarrow> x < 1024 \<Longrightarrow> table m' Q x = table m Q x"
    and "Q \<in> D \<Longrightarrow> w < 1048576 \<Longrightarrow> pte_at m' Q w = pte_at m Q w"
proof -
  show t: "table m' Q x = table m Q x" if "Q \<in> D" "x < 1024" for Q x
  proof -
    have "Q \<noteq> p" using assms(1) that(1) pt_pagesI(1) by blast
    then show ?thesis using m' that(2) by (simp add: table_def pde_at_def)
  qed
  assume Q: "Q \<in> D" and w: "w < 1048576"
  then have wx: "w div 1024 < 1024" by (simp add: div_less_iff_less_mult)
  have "T \<noteq> p" if "table m Q (w div 1024) = Some T" for T
    using assms(1) pt_pagesI(2) [OF Q wx that] by auto
  then show "pte_at m' Q w = pte_at m Q w"
    using t [OF Q wx] m' by (auto simp: pte_at_def split: option.split)
qed

text \<open>Hooking a zeroed page into an absent directory entry adds a table and no mapping.\<close>

lemma table_install:
  assumes ok: "tables_ok m D" and P: "P \<in> D" and x: "x < user_pdes"
    and pp: "pp \<notin> pt_pages m D" and absent: "table m P x = None" and e: "pte_page e = Some pp"
  defines "m' \<equiv> (fill_words (pp * 1024) 1024 0 m)(P * 1024 + x := e)"
  shows "Q \<in> D \<Longrightarrow> y < 1024 \<Longrightarrow>
      table m' Q y = (if Q = P \<and> y = x then Some pp else table m Q y)"
    and "Q \<in> D \<Longrightarrow> w < 1048576 \<Longrightarrow> w div 1024 \<noteq> 957 \<Longrightarrow> pte_at m' Q w = pte_at m Q w"
proof -
  have ppP: "pp \<noteq> P" using pp P pt_pagesI(1) by blast
  show t: "table m' Q y = (if Q = P \<and> y = x then Some pp else table m Q y)"
    if "Q \<in> D" "y < 1024" for Q y
  proof -
    have "Q \<noteq> pp" using pp that(1) pt_pagesI(1) by blast
    then show ?thesis using that x e by (auto simp: table_def pde_at_def m'_def slot_eq fill_page)
  qed
  assume Q: "Q \<in> D" and w: "w < 1048576" and self: "w div 1024 \<noteq> 957"
  then have wx: "w div 1024 < 1024" by (simp add: div_less_iff_less_mult)
  have "T \<noteq> P" if "table m Q (w div 1024) = Some T" for T
    using table_not_dir [OF ok Q wx self that] P by blast
  moreover have "T \<noteq> pp" if "table m Q (w div 1024) = Some T" for T
    using pp pt_pagesI(2) [OF Q wx that] by auto
  ultimately show "pte_at m' Q w = pte_at m Q w"
    using t [OF Q wx] x absent ppP
    by (auto simp: pte_at_def m'_def slot_eq fill_page split: option.split)
qed

end
