(* ===== verification/Kern_Pmap_Walk.thy ===== *)
theory Kern_Pmap_Walk
  imports Kern_Pmap_VM
begin

text \<open>
  What \<^verbatim>\<open>pgdir_walk\<close>, \<^verbatim>\<open>page_lookup\<close>, \<^verbatim>\<open>page_remove\<close> and
  \<^verbatim>\<open>page_insert\<close> do, branch by branch, in states that satisfy \<open>vm_inv\<close>.
\<close>

subsection \<open>Walking\<close>

lemma kload_Ret: "kload a s = Ret (mem s (kidx a)) s"
  by (simp add: kload_def)

lemma kstore_Ret: "kstore a v s = Ret () (s\<lparr>mem := (mem s)(kidx a := v)\<rparr>)"
  by (simp add: kstore_def)

lemma pde_load:
  "P < 1048576 \<Longrightarrow> kload (page_kva P + 4 * PDX va) s = Ret (pde_at (mem s) P (unat (PDX va))) s"
  by (simp add: kload_Ret kidx_pde pde_at_def)

lemma pte_page_None: "pte_page e = None \<longleftrightarrow> e AND PTE_P = 0"
  by (simp add: pte_page_def)

lemma pte_page_Some: "pte_page e = Some T \<longleftrightarrow> e AND PTE_P \<noteq> 0 \<and> T = unat (PGNUM e)"
  by (auto simp: pte_page_def)

lemma present_bit: "e AND PTE_P = 0 \<longleftrightarrow> \<not> bit e 0"
  by (simp add: PTE_P_def and_one_eq bit_0 even_iff_mod_2_eq_zero)

lemma pte_page_zero [simp]: "pte_page 0 = None"
  by (simp add: pte_page_def)

lemma KADDR_PTE_ADDR:
  assumes "pte_page e = Some T" and "T < unat (npages s)"
  shows "KADDR (PTE_ADDR e) s = Ret (page_kva T) s"
  using assms vpn_lt [of e]
  by (simp add: pte_page_Some KADDR_def word_le_nat_alt page_kva_def PTE_ADDR_eq_page2pa
      PGNUM_page2pa vpn_def)

lemma walk_present:
  assumes "P < 1048576" and "table (mem s) P (unat (PDX va)) = Some T" and "T < unat (npages s)"
  shows "pgdir_walk (page_kva P) va c s = Ret (Some (page_kva T + 4 * PTX va)) s"
  using assms KADDR_PTE_ADDR [OF assms(2) [unfolded table_def] assms(3)]
  by (simp add: pgdir_walk_def Let_def pde_load table_def pte_page_Some)

lemma walk_absent:
  assumes "P < 1048576" and "table (mem s) P (unat (PDX va)) = None"
  shows "pgdir_walk (page_kva P) va False s = Ret None s"
  using assms by (simp add: pgdir_walk_def Let_def pde_load table_def pte_page_None)

lemma walk_no_mem:
  assumes "P < 1048576" and "table (mem s) P (unat (PDX va)) = None" and "page_inv s []"
  shows "pgdir_walk (page_kva P) va True s = Ret None s"
  using assms by (simp add: pgdir_walk_def Let_def pde_load table_def pte_page_None page_alloc_None)

definition new_pde :: "nat \<Rightarrow> u32" where
  "new_pde pp = page2pa pp OR PTE_U OR PTE_P OR PTE_W"

definition walk_install :: "nat \<Rightarrow> nat \<Rightarrow> nat \<Rightarrow> kstate \<Rightarrow> kstate" where
  "walk_install P x pp s =
     (let t = set_ref pp (pp_ref (pages s pp) + 1) (page_pop True pp s)
      in t\<lparr>mem := (mem t)(P * 1024 + x := new_pde pp)\<rparr>)"

lemma page2pa_flags:
  assumes "pp < 1048576" and "unat f < 4096" and "f AND PTE_P \<noteq> 0"
  shows "pte_page (page2pa pp OR f) = Some pp"
  using assms by (simp add: pte_page_Some PGNUM_page2pa_or present_bit bit_or_iff)

lemma new_pde_page: "pp < 1048576 \<Longrightarrow> pte_page (new_pde pp) = Some pp"
  using page2pa_flags [of pp "PTE_U OR PTE_P OR PTE_W"]
  by (simp add: new_pde_def pte_defs or.assoc)

lemma walk_create:
  assumes P: "P < 1048576" and t: "table (mem s) P (unat (PDX va)) = None"
    and i: "page_inv s (pp # xs)"
  shows "pgdir_walk (page_kva P) va True s =
     Ret (Some (page_kva pp + 4 * PTX va)) (walk_install P (unat (PDX va)) pp s)"
proof -
  let ?x = "unat (PDX va)" and ?a = "page_kva P + 4 * PDX va"
  let ?s1 = "set_ref pp (pp_ref (pages s pp) + 1) (page_pop True pp s)"
  let ?s2 = "walk_install P ?x pp s"
  have pp: "pp < 1048576" "pp < unat (npages s)" using page_invD(4,5) [OF i] by auto
  have st: "upd_page pp (\<lambda>p. p\<lparr>pp_ref := pp_ref p + 1\<rparr>) (page_pop True pp s) = ?s1"
    by (simp add: set_ref_def upd_page_def)
  have store: "kstore ?a (new_pde pp) ?s1 = Ret () ?s2"
    by (simp add: kstore_Ret kidx_pde P walk_install_def Let_def)
  have np: "npages ?s2 = npages s" by (simp add: walk_install_def Let_def)
  have load: "kload ?a ?s2 = Ret (new_pde pp) ?s2"
    by (simp add: kload_Ret kidx_pde P walk_install_def Let_def)
  have "KADDR (PTE_ADDR (new_pde pp)) ?s2 = Ret (page_kva pp) ?s2"
    using KADDR_PTE_ADDR [OF new_pde_page] pp np by simp
  then show ?thesis using P t page_alloc_Some [OF i, of True]
    by (simp add: pgdir_walk_def Let_def pde_load table_def pte_page_None st store load
        new_pde_def [symmetric])
qed

subsection \<open>Installing a page table keeps the invariant\<close>

lemma walk_install_fields [simp]:
  "npages (walk_install P x pp s) = npages s"
  "mem (walk_install P x pp s) = (fill_words (pp * 1024) 1024 0 (mem s))(P * 1024 + x := new_pde pp)"
  "pages (walk_install P x pp s) =
     (pages s)(pp := (pages s pp)\<lparr>pp_link := None, pp_ref := pp_ref (pages s pp) + 1\<rparr>)"
  "curenv (walk_install P x pp s) = curenv s" "envs (walk_install P x pp s) = envs s"
  by (simp_all add: walk_install_def Let_def curenv_def set_ref_def upd_page_def fun_eq_iff)

lemma page_inv_walk_install:
  assumes "page_inv s (pp # xs)"
  shows "page_inv (walk_install P x pp s) xs"
proof -
  let ?t = "set_ref pp (pp_ref (pages s pp) + 1) (page_pop True pp s)"
  have "pp \<notin> set xs" using page_invD(3) [OF assms] by simp
  then have "page_inv ?t xs" by (rule page_inv_set_ref [OF page_inv_pop [OF assms]])
  then show ?thesis
    by (simp add: page_inv_def pl.is_list_def page_links_def walk_install_def Let_def)
qed

lemma uses_cong:
  "(\<And>P v. P \<in> D \<Longrightarrow> v < user_vpns \<Longrightarrow> pte_at m' P v = pte_at m P v) \<Longrightarrow> uses m' D p = uses m D p"
  by (auto simp: uses_def mapped_def)

lemma pt_pages_insert:
  assumes P: "P \<in> D" and x: "x < 1024" and absent: "table m P x = None"
    and T: "\<And>Q y. Q \<in> D \<Longrightarrow> y < 1024 \<Longrightarrow> table m' Q y = (if Q = P \<and> y = x then Some pp else table m Q y)"
  shows "pt_pages m' D = insert pp (pt_pages m D)"
proof -
  have new: "table m' P x = Some pp" using T [OF P x] by simp
  have old: "table m' Q y = Some p" if "Q \<in> D" "y < 1024" "table m Q y = Some p" for Q y p
    using T [OF that(1,2)] that(3) absent by auto
  have inv: "p = pp \<or> table m Q y = Some p" if "Q \<in> D" "y < 1024" "table m' Q y = Some p" for Q y p
    using T [OF that(1,2)] that(3) by (auto split: if_splits)
  show ?thesis unfolding pt_pages_def using P x new old inv by blast
qed

lemma tables_ok_insert:
  assumes ok: "tables_ok m D" and P: "P \<in> D" and x: "x < user_pdes" and pp: "pp \<notin> pt_pages m D"
    and T: "\<And>Q y. Q \<in> D \<Longrightarrow> y < 1024 \<Longrightarrow> table m' Q y = (if Q = P \<and> y = x then Some pp else table m Q y)"
  shows "tables_ok m' D"
proof (rule tables_okI)
  have ppD: "pp \<notin> D" "\<And>Q y. Q \<in> D \<Longrightarrow> y < 1024 \<Longrightarrow> table m Q y \<noteq> Some pp"
    using pp pt_pagesI by blast+
  fix Q y T' assume Q: "Q \<in> D"
  { assume y: "y < 1024" "y \<noteq> 957" and t: "table m' Q y = Some T'"
    show "T' \<notin> D"
    proof (cases "Q = P \<and> y = x")
      case True then show ?thesis using T [OF Q y(1)] t ppD(1) by simp
    next
      case False then show ?thesis using T [OF Q y(1)] t table_not_dir [OF ok Q y, of T'] by (auto split: if_splits)
    qed }
  { fix Q' y' assume y: "y < user_pdes" and t: "table m' Q y = Some T'"
      and Q': "Q' \<in> D" "y' < 1024" and t': "table m' Q' y' = Some T'"
    have y1: "y < 1024" using y by linarith
    show "Q' = Q \<and> y' = y"
    proof (cases "Q = P \<and> y = x")
      case True
      then have "T' = pp" using T [OF Q y1] t by simp
      then have "Q' = P \<and> y' = x" using T [OF Q'] t' ppD(2) [OF Q'] by presburger
      then show ?thesis using True by simp
    next
      case False
      then have m: "table m Q y = Some T'" using T [OF Q y1] t by presburger
      then have "\<not> (Q' = P \<and> y' = x)" using T [OF Q'] t' ppD(2) [OF Q y1] by force
      then have "table m Q' y' = Some T'" using T [OF Q'] t' by presburger
      then show ?thesis using tables_okD(2) [OF ok Q y m Q'] by blast
    qed }
  { assume t: "table m' Q 957 = Some T'"
    have "table m Q 957 = Some T'" using T [OF Q, of 957] t x by (simp split: if_splits)
    then show "T' = Q" by (rule table_self [OF ok Q]) }
qed

lemma vm_inv_walk_install:
  assumes inv: "vm_inv s D (pp # xs)" and P: "P \<in> D" and x: "x < user_pdes"
    and absent: "table (mem s) P x = None"
  defines "s' \<equiv> walk_install P x pp s"
  shows "vm_inv s' D xs"
    and "Q \<in> D \<Longrightarrow> v < user_vpns \<Longrightarrow> pte_at (mem s') Q v = pte_at (mem s) Q v"
    and "Q \<in> D \<Longrightarrow> y < 1024 \<Longrightarrow>
      table (mem s') Q y = (if Q = P \<and> y = x then Some pp else table (mem s) Q y)"
proof -
  note I = vm_invD [OF inv]
  have pp: "pp \<notin> pt_pages (mem s) D" "pp < 1048576" "pp < unat (npages s)" "pp_ref (pages s pp) = 0"
    using I(5) page_invD(4-6) [OF I(1)] by fastforce+
  note ins = table_install [OF I(3) P x pp(1) absent new_pde_page [OF pp(2)]]
  show T: "table (mem s') Q y = (if Q = P \<and> y = x then Some pp else table (mem s) Q y)"
    if "Q \<in> D" "y < 1024" for Q y
    using ins(1) [OF that] by (simp add: s'_def)
  show E: "pte_at (mem s') Q v = pte_at (mem s) Q v" if "Q \<in> D" "v < user_vpns" for Q v
  proof -
    have "v < 1048576" "v div 1024 \<noteq> 957" using that(2) by auto
    then show ?thesis using ins(2) that(1) by (simp add: s'_def)
  qed
  have M: "mapped (mem s') Q v = mapped (mem s) Q v" if "Q \<in> D" "v < user_vpns" for Q v
    using E [OF that] by (simp add: mapped_def)
  have pt: "pt_pages (mem s') D = insert pp (pt_pages (mem s) D)"
    by (rule pt_pages_insert [OF P _ absent T]) (use x in simp_all)
  have tok: "tables_ok (mem s') D"
    using I(3) P x pp(1) T by (rule tables_ok_insert)
  have mp: "p < unat (npages s) \<and> p \<notin> pt_pages (mem s') D"
    if "Q \<in> D" "v < user_vpns" "mapped (mem s') Q v = Some p" for Q v p
    using I(8) [of Q v p] mapped_ref(2) [OF inv, of Q v p] M that pt by auto
  have u: "uses (mem s') D p = uses (mem s) D p" for p using E by (rule uses_cong)
  have r: "pp_ref (pages s' p) = (if p = pp then 1 else pp_ref (pages s p))" for p
    using pp(4) by (simp add: s'_def)
  have c: "card (uses (mem s') D p) \<le> unat (pp_ref (pages s' p))" for p
    using I(9) [of p] pp(4) by (auto simp: u r)
  have notfree: "p < unat (npages s) \<and> p \<notin> set xs" if "p \<in> pt_pages (mem s') D" for p
    using that I(4,5) page_invD(3) [OF I(1)] pp pt by auto
  have tr: "pp_ref (pages s' T') = 1" if "Q \<in> D" "y < user_pdes" "table (mem s') Q y = Some T'" for Q y T'
    using that T [of Q y] I(7) [of Q y T'] by (auto simp: r split: if_splits)
  show "vm_inv s' D xs"
    unfolding vm_inv_def
    using page_inv_walk_install [OF I(1)] I(2) tok notfree I(6) tr mp c r
    by (auto simp: s'_def)
qed

subsection \<open>Looking up\<close>

lemma pte_load:
  "T < 1048576 \<Longrightarrow> table (mem s) P (unat (PDX va)) = Some T \<Longrightarrow>
   kload (page_kva T + 4 * PTX va) s = Ret (pte_at (mem s) P (vpn va)) s"
  by (simp add: kload_Ret kidx_pte pte_at_def vpn_split)

lemma lookup_None:
  assumes P: "P < 1048576" and m: "mapped (mem s) P (vpn va) = None"
    and T: "\<And>T. table (mem s) P (unat (PDX va)) = Some T \<Longrightarrow> T < unat (npages s) \<and> T < 1048576"
  shows "page_lookup (page_kva P) va s = Ret None s"
proof (cases "table (mem s) P (unat (PDX va))")
  case None
  then show ?thesis using walk_absent [OF P None] by (simp add: page_lookup_def)
next
  case (Some T')
  then show ?thesis using m walk_present [OF P Some] pte_load [OF _ Some] T [OF Some]
    by (simp add: page_lookup_def mapped_def pte_page_None)
qed

lemma mapped_table:
  assumes "mapped m P v = Some p"
  obtains T where "table m P (v div 1024) = Some T" "m (T * 1024 + v mod 1024) = pte_at m P v"
  using assms by (auto simp: mapped_def pte_at_def split: option.splits)

lemma lookup_Some:
  assumes P: "P < 1048576" and m: "mapped (mem s) P (vpn va) = Some p" and p: "p < unat (npages s)"
    and T: "table (mem s) P (unat (PDX va)) = Some T" "T < unat (npages s)" "T < 1048576"
  shows "page_lookup (page_kva P) va s = Ret (Some (p, page_kva T + 4 * PTX va)) s"
proof -
  have "pa2page (PTE_ADDR (pte_at (mem s) P (vpn va))) s = Ret p s"
    using m p by (simp add: pa2page_def mapped_def pte_page_Some word_le_nat_alt)
  then show ?thesis using m walk_present [OF P T(1,2)] pte_load [OF T(3,1)]
    by (simp add: page_lookup_def mapped_def pte_page_Some)
qed

subsection \<open>Changing one entry\<close>

text \<open>The effect of one page-table store on the set of uses of a page.\<close>

lemma uses_pte_write:
  assumes "\<And>Q w. Q \<in> D \<Longrightarrow> w < user_vpns \<Longrightarrow>
      pte_at m' Q w = (if Q = P \<and> w = v then e else pte_at m Q w)"
    and "P \<in> D" and "v < user_vpns"
  shows "uses m' D p = (if pte_page e = Some p then insert (P, v) (uses m D p)
                        else uses m D p - {(P, v)})"
  using assms by (auto simp: uses_def mapped_def split: if_splits)

lemma pt_pages_cong:
  "(\<And>Q x. Q \<in> D \<Longrightarrow> x < 1024 \<Longrightarrow> table m' Q x = table m Q x) \<Longrightarrow> pt_pages m' D = pt_pages m D"
  unfolding pt_pages_def by (rule arg_cong [where f = "(\<union>) D"]) (auto intro!: bexI)

lemma tables_ok_cong:
  assumes "\<And>Q x. Q \<in> D \<Longrightarrow> x < 1024 \<Longrightarrow> table m' Q x = table m Q x" and "tables_ok m D"
  shows "tables_ok m' D"
proof (rule tables_okI)
  fix P x T assume P: "P \<in> D"
  { assume "x < 1024" "x \<noteq> 957" "table m' P x = Some T"
    then show "T \<notin> D" using table_not_dir [OF assms(2) P] assms(1) [OF P] by simp }
  { fix P' x' assume x: "x < user_pdes" and t: "table m' P x = Some T"
      and P': "P' \<in> D" "x' < 1024" and t': "table m' P' x' = Some T"
    have x1: "x < 1024" using x by linarith
    have m: "table m P x = Some T" using assms(1) [OF P x1] t by simp
    have "table m P' x' = Some T" using assms(1) [OF P'] t' by simp
    then show "P' = P \<and> x' = x" using tables_okD(2) [OF assms(2) P x m P'] by blast }
  { assume "table m' P 957 = Some T"
    then show "T = P" using table_self [OF assms(2) P] assms(1) [OF P, of 957] by simp }
qed

lemma vm_inv_same_tables:
  assumes inv: "vm_inv s D xs"
    and T: "\<And>Q x. Q \<in> D \<Longrightarrow> x < 1024 \<Longrightarrow> table (mem s') Q x = table (mem s) Q x"
    and np: "npages s' = npages s" and pi: "page_inv s' xs'"
    and fr: "\<And>p. p \<in> pt_pages (mem s) D \<Longrightarrow> p \<notin> set xs' \<and> pp_ref (pages s' p) = pp_ref (pages s p)"
    and mp: "\<And>P v p. P \<in> D \<Longrightarrow> v < user_vpns \<Longrightarrow> mapped (mem s') P v = Some p \<Longrightarrow>
        p < unat (npages s) \<and> p \<notin> pt_pages (mem s) D"
    and us: "\<And>p. card (uses (mem s') D p) \<le> unat (pp_ref (pages s' p))"
  shows "vm_inv s' D xs'"
proof -
  note I = vm_invD [OF inv]
  have pt: "pt_pages (mem s') D = pt_pages (mem s) D" using T by (rule pt_pages_cong)
  have tr: "pp_ref (pages s' T') = 1" if "P \<in> D" "x < user_pdes" "table (mem s') P x = Some T'" for P x T'
  proof -
    have x: "x < 1024" using that(2) by linarith
    then have "table (mem s) P x = Some T'" using T that by simp
    then show ?thesis using fr [of T'] pt_pagesI(2) [OF that(1) x] I(7) [OF that(1,2)] by simp
  qed
  show ?thesis unfolding vm_inv_def pt np
  proof (intro conjI)
    show "\<forall>P \<in> D. pp_ref (pages s' P) = 1" using fr I(6) pt_pagesI(1) by metis
    show "\<forall>p \<in> pt_pages (mem s) D. p < unat (npages s) \<and> p \<notin> set xs'" using I(4) fr by blast
  qed (use pi I(2) tables_ok_cong [OF T I(3)] tr mp us in blast)+
qed

subsection \<open>What the page operations leave alone\<close>

definition vm_frame :: "kstate \<Rightarrow> kstate \<Rightarrow> bool" where
  "vm_frame s s' \<longleftrightarrow> s' = s\<lparr>mem := mem s', pages := pages s', page_free_list := page_free_list s',
                           invlpg_log := invlpg_log s'\<rparr>"

lemma vm_frame_refl [simp, intro]: "vm_frame s s"
  by (simp add: vm_frame_def)

lemma vm_frame_trans: "vm_frame s t \<Longrightarrow> vm_frame t u \<Longrightarrow> vm_frame s u"
  unfolding vm_frame_def by (cases s; cases t; cases u) simp

lemma vm_frameD:
  assumes "vm_frame s s'"
  shows "npages s' = npages s" "npages_basemem s' = npages_basemem s" "kern_pgdir s' = kern_pgdir s"
    "nextfree s' = nextfree s" "mmio_base s' = mmio_base s" "pages_kva s' = pages_kva s"
    "envs_kva s' = envs_kva s"
    "user_mem_check_addr s' = user_mem_check_addr s" "envs s' = envs s"
    "env_free_list s' = env_free_list s" "cpus s' = cpus s" "this_cpu s' = this_cpu s"
    "cr0 s' = cr0 s" "cr3 s' = cr3 s" "kernel_lock s' = kernel_lock s" "ticks s' = ticks s" "curenv s' = curenv s"
  using assms unfolding vm_frame_def curenv_def
  by (cases s; cases s'; simp)+

lemma vm_frame_simps [simp]:
  "vm_frame s (set_ref p r s)" "vm_frame s (pl.push p s)" "vm_frame s (page_pop z p s)"
  "vm_frame s (walk_install P x p s)" "vm_frame s (s\<lparr>mem := m\<rparr>)"
  "vm_frame s (s\<lparr>invlpg_log := l\<rparr>)"
  by (simp_all add: vm_frame_def set_ref_def upd_page_def pl.push_def pl.pop_def page_pop_def
      set_page_link_def set_page_head_def walk_install_def Let_def)

text \<open>Pages that hold no page table keep their contents.\<close>

definition data_frame :: "nat set \<Rightarrow> kstate \<Rightarrow> kstate \<Rightarrow> bool" where
  "data_frame D s s' \<longleftrightarrow>
     (\<forall>p i. p \<notin> pt_pages (mem s') D \<longrightarrow> i < 1024 \<longrightarrow> mem s' (p * 1024 + i) = mem s (p * 1024 + i))"

lemma data_frame_refl [simp]: "data_frame D s s"
  by (simp add: data_frame_def)

lemma data_frame_trans:
  "data_frame D s t \<Longrightarrow> data_frame D t u \<Longrightarrow> pt_pages (mem t) D \<subseteq> pt_pages (mem u) D \<Longrightarrow> data_frame D s u"
  unfolding data_frame_def by (metis subset_iff)

lemma data_frame_write:
  "Q \<in> pt_pages (mem s') D \<Longrightarrow> j < 1024 \<Longrightarrow> mem s' = (mem s)(Q * 1024 + j := e) \<Longrightarrow> data_frame D s s'"
  by (auto simp: data_frame_def slot_eq)

lemma data_frame_install:
  assumes "P \<in> D" and "pp \<in> pt_pages (mem (walk_install P x pp s)) D" and "x < 1024"
  shows "data_frame D s (walk_install P x pp s)"
  unfolding data_frame_def
proof (intro allI impI)
  fix p i :: nat
  assume p: "p \<notin> pt_pages (mem (walk_install P x pp s)) D" and i: "i < 1024"
  then have "p \<noteq> P" "p \<noteq> pp" using assms(1,2) pt_pagesI(1) by blast+
  then show "mem (walk_install P x pp s) (p * 1024 + i) = mem s (p * 1024 + i)"
    using i assms(3) by (simp add: slot_eq fill_page)
qed

definition tlb_log :: "u32 \<Rightarrow> u32 \<Rightarrow> kstate \<Rightarrow> u32 list" where
  "tlb_log pgdir va s =
     (if (case curenv s of None \<Rightarrow> True | Some e \<Rightarrow> env_pgdir (envs s e) = pgdir)
      then va # invlpg_log s else invlpg_log s)"

lemma tlb_invalidate_Ret:
  "tlb_invalidate pgdir va s = Ret () (s\<lparr>invlpg_log := tlb_log pgdir va s\<rparr>)"
  by (simp add: tlb_invalidate_def tlb_log_def)

subsection \<open>Unmapping\<close>

definition decref_state :: "nat \<Rightarrow> kstate \<Rightarrow> kstate" where
  "decref_state p s = (if pp_ref (pages s p) = 1 then pl.push p (set_ref p 0 s)
                       else set_ref p (pp_ref (pages s p) - 1) s)"

definition decref_list :: "nat \<Rightarrow> kstate \<Rightarrow> nat list \<Rightarrow> nat list" where
  "decref_list p s xs = (if pp_ref (pages s p) = 1 then p # xs else xs)"

lemma page_decref_Ret:
  assumes "page_inv s xs" and "p < unat (npages s)" and "pp_ref (pages s p) \<noteq> 0"
  shows "page_decref p s = Ret () (decref_state p s)"
    and "page_inv (decref_state p s) (decref_list p s xs)"
proof -
  have "p \<notin> set xs" using page_invD(6) [OF assms(1)] assms(3) by blast
  then show "page_decref p s = Ret () (decref_state p s)"
    and "page_inv (decref_state p s) (decref_list p s xs)"
    using page_decref_last [OF assms(1,2)] page_decref_shared [of s p] page_inv_set_ref [OF assms(1)]
    by (auto simp: decref_state_def decref_list_def)
qed

lemma decref_state_fields [simp]:
  "npages (decref_state p s) = npages s" "mem (decref_state p s) = mem s"
  "pp_ref (pages (decref_state p s) q) =
     (if q = p then pp_ref (pages s p) - 1 else pp_ref (pages s q))"
  "vm_frame s (decref_state p s)"
  "tlb_log d va (decref_state p s) = tlb_log d va s"
  by (auto simp: decref_state_def intro: vm_frame_trans [OF vm_frame_simps(1) vm_frame_simps(2)])
    (auto simp: tlb_log_def pl.push_def set_page_link_def set_page_head_def set_ref_def
      upd_page_def curenv_def split: option.split)

text \<open>
  The page-table state after one entry has changed: \<open>pte_step D P v e s s'\<close> says that \<open>s'\<close> differs
  from \<open>s\<close>, in the user mappings of the directories \<open>D\<close>, in the entry for virtual page \<open>v\<close> of \<open>P\<close>
  only.
\<close>

definition pte_step :: "nat set \<Rightarrow> nat \<Rightarrow> nat \<Rightarrow> u32 \<Rightarrow> kstate \<Rightarrow> kstate \<Rightarrow> bool" where
  "pte_step D P v e s s' \<longleftrightarrow>
     (\<forall>Q \<in> D. \<forall>w < user_vpns. pte_at (mem s') Q w = (if Q = P \<and> w = v then e else pte_at (mem s) Q w))"

lemma vm_invD_table:
  assumes "vm_inv s D xs" and "P \<in> D" and "x < 1024" and "table (mem s) P x = Some T"
  shows "T < unat (npages s)" and "T < 1048576" and "T \<in> pt_pages (mem s) D"
  using vm_invD(4,11) [OF assms(1)] pt_pagesI(2) [OF assms(2-4)] by blast+

lemma page_remove_None:
  assumes inv: "vm_inv s D xs" and P: "P \<in> D" and m: "mapped (mem s) P (vpn va) = None"
  shows "page_remove (page_kva P) va s = Ret () s"
proof -
  have "P < 1048576" using vm_invD(11) [OF inv] pt_pagesI(1) [OF P] by blast
  then have "page_lookup (page_kva P) va s = Ret None s"
    using lookup_None m vm_invD_table(1,2) [OF inv P PDX_lt] by blast
  then show ?thesis by (simp add: page_remove_def)
qed

lemma card_uses_remove:
  assumes inv: "vm_inv s D xs" and P: "P \<in> D" and v: "v < user_vpns"
    and m: "mapped (mem s) P v = Some p"
  shows "card (uses (mem s) D q - {(P, v)}) \<le>
    unat (if q = p then pp_ref (pages s p) - 1 else pp_ref (pages s q))"
proof -
  note I = vm_invD [OF inv]
  have fin: "finite (uses (mem s) D q)" using I(2) by (rule finite_uses)
  show ?thesis
  proof (cases "q = p")
    case True
    have "(P, v) \<in> uses (mem s) D q" using P v m True by (simp add: uses_def)
    then have "card (uses (mem s) D q - {(P, v)}) = card (uses (mem s) D q) - 1" using fin by simp
    moreover have "unat (pp_ref (pages s p) - 1) = unat (pp_ref (pages s p)) - 1"
      using mapped_ref(1) [OF inv P v m] by (simp add: unat_minus_one)
    ultimately show ?thesis using I(9) [of p] True by simp
  next
    case False
    then show ?thesis using I(9) [of q] card_mono [OF fin, of "uses (mem s) D q - {(P, v)}"] by fastforce
  qed
qed

lemma page_remove_Some:
  assumes inv: "vm_inv s D xs" and P: "P \<in> D" and v: "vpn va < user_vpns"
    and m: "mapped (mem s) P (vpn va) = Some p"
  shows "\<exists>s'. page_remove (page_kva P) va s = Ret () s' \<and>
     vm_inv s' D (decref_list p s xs) \<and> pte_step D P (vpn va) 0 s s' \<and>
     (\<forall>Q \<in> D. \<forall>x < 1024. table (mem s') Q x = table (mem s) Q x) \<and>
     (\<forall>q. pp_ref (pages s' q) = (if q = p then pp_ref (pages s p) - 1 else pp_ref (pages s q))) \<and>
     vm_frame s s' \<and> data_frame D s s' \<and>
     invlpg_log s' = tlb_log (page_kva P) va s"
proof -
  note I = vm_invD [OF inv]
  have P20: "P < 1048576" using I(11) pt_pagesI(1) [OF P] by blast
  obtain T where T: "table (mem s) P (unat (PDX va)) = Some T"
    using m by (rule mapped_table) (simp add: vpn_split)
  note TB = vm_invD_table [OF inv P PDX_lt T]
  have p: "p < unat (npages s)" "p \<notin> pt_pages (mem s) D" using I(8) [OF P v m] by auto
  have r: "pp_ref (pages s p) \<noteq> 0" using mapped_ref(1) [OF inv P v m] .
  let ?s1 = "decref_state p s"
  let ?s2 = "?s1\<lparr>invlpg_log := tlb_log (page_kva P) va s\<rparr>"
  let ?s' = "?s2\<lparr>mem := (mem s)(T * 1024 + vpn va mod 1024 := 0)\<rparr>"
  have op: "page_remove (page_kva P) va s = Ret () ?s'"
    using lookup_Some [OF P20 m p(1) T TB(1,2)] page_decref_Ret(1) [OF I(1) p(1) r]
    by (simp add: page_remove_def tlb_invalidate_Ret kstore_Ret kidx_pte TB(2) vpn_split)
  have v20: "v < 1048576" if "v < user_vpns" for v using that by linarith
  note W = pte_write [OF I(3) P v T [folded vpn_split], of _ _ 0]
  have E: "pte_step D P (vpn va) 0 s ?s'" using W(2) v20 by (simp add: pte_step_def)
  have TT: "table (mem ?s') Q x = table (mem s) Q x" if "Q \<in> D" "x < 1024" for Q x
    using W(1) that by simp
  have U: "uses (mem ?s') D q = uses (mem s) D q - {(P, vpn va)}" for q
    using uses_pte_write [OF _ P v, of "mem ?s'" 0 "mem s" q] E by (simp add: pte_step_def)
  have "vm_inv ?s' D (decref_list p s xs)"
  proof (rule vm_inv_same_tables [OF inv TT])
    show "page_inv ?s' (decref_list p s xs)"
      using page_decref_Ret(2) [OF I(1) p(1) r] by (simp add: page_inv_def pl.is_list_def page_links_def)
    show "q \<notin> set (decref_list p s xs) \<and> pp_ref (pages ?s' q) = pp_ref (pages s q)"
      if "q \<in> pt_pages (mem s) D" for q
      using that p(2) I(5) by (auto simp: decref_list_def)
    show "q < unat (npages s) \<and> q \<notin> pt_pages (mem s) D"
      if "Q \<in> D" "w < user_vpns" "mapped (mem ?s') Q w = Some q" for Q w q
      using that E I(8) [of Q w q] by (auto simp: pte_step_def mapped_def split: if_splits)
    show "card (uses (mem ?s') D q) \<le> unat (pp_ref (pages ?s' q))" for q
      unfolding U using card_uses_remove [OF inv P v m, of q] by simp
  qed simp_all
  moreover have "data_frame D s ?s'"
    by (rule data_frame_write [of T _ _ "vpn va mod 1024"]) (use TB(3) pt_pages_cong [OF TT] in auto)
  moreover have "vm_frame s ?s'"
    by (rule vm_frame_trans [OF decref_state_fields(4) vm_frame_trans [OF vm_frame_simps(6) vm_frame_simps(5)]])
  ultimately show ?thesis using op E TT by (intro exI [of _ ?s']) simp
qed

subsection \<open>Mapping\<close>

lemma flags_keep_page:
  assumes "pte_page e = Some T" and "unat f < 4096"
  shows "pte_page (e OR f) = Some T"
proof -
  have "PGNUM f = 0" using assms(2) by (simp add: word_unat_eq_iff word_arith)
  then have "PGNUM (e OR f) = PGNUM e" by (simp add: PGNUM_def drop_bit_or)
  then show ?thesis using assms(1) by (simp add: pte_page_Some present_bit bit_or_iff)
qed

text \<open>The final stores of \<^verbatim>\<open>page_insert\<close>: count the reference, write the entry, widen the
  directory entry's permissions.\<close>

definition insert_state :: "nat \<Rightarrow> nat \<Rightarrow> u32 \<Rightarrow> nat \<Rightarrow> u32 \<Rightarrow> kstate \<Rightarrow> kstate" where
  "insert_state P T va pp perm s =
     (let m1 = (mem s)(T * 1024 + vpn va mod 1024 := page2pa pp OR PTE_P OR perm);
          d = P * 1024 + unat (PDX va)
      in (set_ref pp (pp_ref (pages s pp) + 1) s)\<lparr>mem := m1(d := m1 d OR perm)\<rparr>)"

lemma insert_state_fields [simp]:
  "npages (insert_state P T va pp perm s) = npages s"
  "pages (insert_state P T va pp perm s) =
     (pages s)(pp := (pages s pp)\<lparr>pp_ref := pp_ref (pages s pp) + 1\<rparr>)"
  "page_free_list (insert_state P T va pp perm s) = page_free_list s"
  "invlpg_log (insert_state P T va pp perm s) = invlpg_log s"
  "vm_frame s (insert_state P T va pp perm s)"
  by (simp_all add: insert_state_def Let_def set_ref_def upd_page_def vm_frame_def)

lemma new_pte_page:
  assumes "pp < 1048576" and "unat perm < 4096"
  shows "pte_page (page2pa pp OR PTE_P OR perm) = Some pp"
proof -
  have "unat (PTE_P OR perm) < 4096" by (rule or_flags_lt) (use assms(2) in \<open>auto simp: PTE_P_def\<close>)
  then show ?thesis using page2pa_flags [OF assms(1), of "PTE_P OR perm"]
    by (simp add: or.assoc present_bit bit_or_iff PTE_P_def bit_1_iff)
qed

lemma insert_state_tables:
  fixes pp :: nat
  assumes inv: "vm_inv s D xs" and P: "P \<in> D" and v: "vpn va < user_vpns"
    and T: "table (mem s) P (unat (PDX va)) = Some T" and perm: "unat perm < 4096"
  defines "s' \<equiv> insert_state P T va pp perm s"
  shows "Q \<in> D \<Longrightarrow> x < 1024 \<Longrightarrow> table (mem s') Q x = table (mem s) Q x"
    and "pte_step D P (vpn va) (page2pa pp OR PTE_P OR perm) s s'"
    and "data_frame D s s'"
proof -
  note I = vm_invD [OF inv]
  let ?m1 = "(mem s)(T * 1024 + vpn va mod 1024 := page2pa pp OR PTE_P OR perm)"
  let ?d = "P * 1024 + unat (PDX va)"
  have x: "unat (PDX va) < user_pdes" using v by (simp add: vpn_split [symmetric] user_vpn_pdx)
  note W = pte_write [OF I(3) P v T [folded vpn_split], of _ _ "page2pa pp OR PTE_P OR perm"]
  have ok1: "tables_ok ?m1 D" using W(1) I(3) by (rule tables_ok_cong)
  have T1: "table ?m1 P (unat (PDX va)) = Some T" using W(1) [OF P PDX_lt] T by simp
  then have e: "pte_page (?m1 ?d OR perm) = pte_page (pde_at ?m1 P (unat (PDX va)))"
    using flags_keep_page [OF _ perm] by (simp add: table_def pde_at_def)
  note F = pde_flags_write [OF ok1 P x e]
  have m: "mem s' = ?m1(?d := ?m1 ?d OR perm)" by (simp add: s'_def insert_state_def Let_def)
  show TT: "table (mem s') Q x = table (mem s) Q x" if "Q \<in> D" "x < 1024" for Q x
    unfolding m using F(1) [OF that] W(1) [OF that] by simp
  show "pte_step D P (vpn va) (page2pa pp OR PTE_P OR perm) s s'"
    unfolding pte_step_def m
  proof (intro ballI allI impI)
    fix Q w assume Q: "Q \<in> D" and w: "w < user_vpns"
    then have "w < 1048576" "w div 1024 \<noteq> 957" by linarith+
    then show "pte_at (?m1(?d := ?m1 ?d OR perm)) Q w =
        (if Q = P \<and> w = vpn va then page2pa pp OR PTE_P OR perm else pte_at (mem s) Q w)"
      using F(2) [OF Q] W(2) [OF Q] by simp
  qed
  show "data_frame D s s'"
    unfolding data_frame_def
  proof (intro allI impI)
    fix p i :: nat assume p: "p \<notin> pt_pages (mem s') D" and i: "i < 1024"
    have "T \<in> pt_pages (mem s') D" "P \<in> pt_pages (mem s') D"
      using pt_pages_cong [OF TT] vm_invD_table(3) [OF inv P PDX_lt T] pt_pagesI(1) [OF P] by auto
    then have "p \<noteq> T" "p \<noteq> P" using p by auto
    then show "mem s' (p * 1024 + i) = mem s (p * 1024 + i)"
      unfolding m using i PDX_lt [of va] by (simp add: slot_eq)
  qed
qed

lemma vm_inv_insert_state:
  assumes inv: "vm_inv s D xs" and P: "P \<in> D" and v: "vpn va < user_vpns"
    and T: "table (mem s) P (unat (PDX va)) = Some T" and perm: "unat perm < 4096"
    and m: "mapped (mem s) P (vpn va) = None"
    and pp: "pp < unat (npages s)" "pp \<notin> pt_pages (mem s) D" "pp \<notin> set xs"
      "pp_ref (pages s pp) \<noteq> 0xFFFF"
  shows "vm_inv (insert_state P T va pp perm s) D xs"
proof -
  note I = vm_invD [OF inv]
  let ?s' = "insert_state P T va pp perm s" and ?e = "page2pa pp OR PTE_P OR perm"
  note S = insert_state_tables [OF inv P v T perm, where pp = pp]
  have pp20: "pp < 1048576" using pp(1) I(10) by simp
  note np = new_pte_page [OF pp20 perm]
  have U: "uses (mem ?s') D q = (if q = pp then insert (P, vpn va) (uses (mem s) D q)
      else uses (mem s) D q - {(P, vpn va)})" for q
    using uses_pte_write [OF _ P v, of "mem ?s'" ?e "mem s" q] S(2) np by (auto simp: pte_step_def)
  have fin: "finite (uses (mem s) D q)" for q using I(2) by (rule finite_uses)
  have new: "(P, vpn va) \<notin> uses (mem s) D q" for q using m by (simp add: uses_def)
  have inc: "unat (pp_ref (pages s pp) + 1) = unat (pp_ref (pages s pp)) + 1"
    using pp(4) by (rule unat_inc16)
  show ?thesis
  proof (rule vm_inv_same_tables [OF inv S(1)])
    show "page_inv ?s' xs" using page_inv_set_ref [OF I(1) pp(3), of "pp_ref (pages s pp) + 1"]
      by (simp add: page_inv_def pl.is_list_def page_links_def)
    show "q \<notin> set xs \<and> pp_ref (pages ?s' q) = pp_ref (pages s q)" if "q \<in> pt_pages (mem s) D" for q
      using that pp(2) I(5) by auto
    show "q < unat (npages s) \<and> q \<notin> pt_pages (mem s) D"
      if "Q \<in> D" "w < user_vpns" "mapped (mem ?s') Q w = Some q" for Q w q
      using that S(2) I(8) [of Q w q] np pp(1,2)
      by (auto simp: pte_step_def mapped_def split: if_splits)
    show "card (uses (mem ?s') D q) \<le> unat (pp_ref (pages ?s' q))" for q
      unfolding U using I(9) [of q] inc new [of q] fin [of q] by auto
  qed simp_all
qed

text \<open>Re-inserting the page that is already there only replaces the permission bits.\<close>

definition reinsert_state :: "nat \<Rightarrow> u32 \<Rightarrow> nat \<Rightarrow> u32 \<Rightarrow> kstate \<Rightarrow> kstate" where
  "reinsert_state T va pp perm s =
     s\<lparr>mem := (mem s)(T * 1024 + vpn va mod 1024 := page2pa pp OR PTE_P OR perm)\<rparr>"

lemma vm_inv_reinsert_state:
  assumes inv: "vm_inv s D xs" and P: "P \<in> D" and v: "vpn va < user_vpns"
    and T: "table (mem s) P (unat (PDX va)) = Some T" and perm: "unat perm < 4096"
    and m: "mapped (mem s) P (vpn va) = Some pp"
  defines "s' \<equiv> reinsert_state T va pp perm s"
  shows "vm_inv s' D xs" and "pte_step D P (vpn va) (page2pa pp OR PTE_P OR perm) s s'"
    and "Q \<in> D \<Longrightarrow> x < 1024 \<Longrightarrow> table (mem s') Q x = table (mem s) Q x" and "data_frame D s s'"
proof -
  note I = vm_invD [OF inv]
  let ?e = "page2pa pp OR PTE_P OR perm"
  note W = pte_write [OF I(3) P v T [folded vpn_split], of _ _ ?e]
  have pp: "pp < unat (npages s)" "pp \<notin> pt_pages (mem s) D" using I(8) [OF P v m] by auto
  have np: "pte_page ?e = Some pp" using new_pte_page [OF _ perm] pp(1) I(10) by simp
  have v20: "v < 1048576" if "v < user_vpns" for v using that by linarith
  show E: "pte_step D P (vpn va) ?e s s'"
    using W(2) v20 by (simp add: pte_step_def s'_def reinsert_state_def)
  show TT: "table (mem s') Q x = table (mem s) Q x" if "Q \<in> D" "x < 1024" for Q x
    using W(1) that by (simp add: s'_def reinsert_state_def)
  have M: "mapped (mem s') Q w = mapped (mem s) Q w" if "Q \<in> D" "w < user_vpns" for Q w
    using E that np m by (auto simp: pte_step_def mapped_def)
  then have U: "uses (mem s') D q = uses (mem s) D q" for q by (auto simp: uses_def)
  show "vm_inv s' D xs"
  proof (rule vm_inv_same_tables [OF inv TT])
    show "page_inv s' xs" using I(1)
      by (simp add: s'_def reinsert_state_def page_inv_def pl.is_list_def page_links_def)
  qed (use I(5,8,9) M U in \<open>auto simp: s'_def reinsert_state_def\<close>)
  show "data_frame D s s'"
    by (rule data_frame_write [of T _ _ "vpn va mod 1024"])
      (use vm_invD_table(3) [OF inv P PDX_lt T] pt_pages_cong [OF TT]
       in \<open>auto simp: s'_def reinsert_state_def\<close>)
qed

end
