(* ===== verification/Kern_Pmap_Map.thy ===== *)
theory Kern_Pmap_Map
  imports Kern_Pmap_Walk
begin

text \<open>
  \<^verbatim>\<open>page_insert\<close> as a whole, and the contract of the three mapping operations of
  \<^verbatim>\<open>kern/pmap.c\<close> against an abstract address space: a map from virtual page numbers to
  page-table entries.
\<close>

subsection \<open>page_insert\<close>

definition insert_refs :: "nat option \<Rightarrow> nat \<Rightarrow> (nat \<Rightarrow> u16) \<Rightarrow> nat \<Rightarrow> u16" where
  "insert_refs old pp r q =
     (if old = Some pp then r q else if q = pp then r q + 1 else if old = Some q then r q - 1 else r q)"

lemma insert_finish:
  assumes P: "P < 1048576" and T: "T < 1048576"
  shows "andthen (modify (upd_page pp (\<lambda>p. p\<lparr>pp_ref := pp_ref p + 1\<rparr>))) (\<lambda>_.
      andthen (kstore (page_kva T + 4 * PTX va) (page2pa pp OR PTE_P OR perm)) (\<lambda>_.
      andthen (kload (page_kva P + 4 * PDX va)) (\<lambda>pde.
      andthen (kstore (page_kva P + 4 * PDX va) (pde OR perm)) (\<lambda>_. ret 0)))) s =
    Ret 0 (insert_state P T va pp perm s)"
  by (simp add: kstore_Ret kload_Ret kidx_pde kidx_pte P T insert_state_def Let_def vpn_split
      set_ref_def upd_page_def)

lemma page_insert_present:
  assumes inv: "vm_inv s D xs" and P: "P \<in> D" and v: "vpn va < user_vpns"
    and T: "table (mem s) P (unat (PDX va)) = Some T" and perm: "unat perm < 4096"
    and pp: "pp < unat (npages s)" "pp \<notin> pt_pages (mem s) D" "pp \<notin> set xs"
      "pp_ref (pages s pp) \<noteq> 0xFFFF"
  shows "\<exists>s' xs'. page_insert (page_kva P) pp va perm s = Ret 0 s' \<and> vm_inv s' D xs' \<and>
     pte_step D P (vpn va) (page2pa pp OR PTE_P OR perm) s s' \<and> vm_frame s s' \<and> data_frame D s s' \<and>
     set xs' \<subseteq> set xs \<union> {q. mapped (mem s) P (vpn va) = Some q \<and> q \<noteq> pp} \<and>
     (\<forall>Q \<in> D. \<forall>x < 1024. table (mem s') Q x = table (mem s) Q x) \<and>
     (\<lambda>q. pp_ref (pages s' q)) =
       insert_refs (mapped (mem s) P (vpn va)) pp (\<lambda>q. pp_ref (pages s q)) \<and> length xs \<le> length xs'"
proof -
  note I = vm_invD [OF inv]
  have P20: "P < 1048576" using I(11) pt_pagesI(1) [OF P] by blast
  note TB = vm_invD_table [OF inv P PDX_lt T]
  have load: "kload (page_kva T + 4 * PTX va) s = Ret (pte_at (mem s) P (vpn va)) s"
    using pte_load [OF TB(2) T] .
  note walk = walk_present [OF P20 T TB(1)]
  show ?thesis
  proof (cases "mapped (mem s) P (vpn va)")
    case None
    note S = insert_state_tables [OF inv P v T perm, where pp = pp]
    have "page_insert (page_kva P) pp va perm s = Ret 0 (insert_state P T va pp perm s)"
      using None insert_finish [OF P20 TB(2)]
      by (simp add: page_insert_def Let_def walk load mapped_def pte_page_None)
    then show ?thesis
      using vm_inv_insert_state [OF inv P v T perm None pp] S None
      by (intro exI [of _ "insert_state P T va pp perm s"] exI [of _ xs])
        (auto simp: insert_refs_def fun_eq_iff)
  next
    case (Some q)
    have q: "pte_at (mem s) P (vpn va) AND PTE_P \<noteq> 0" "unat (PGNUM (pte_at (mem s) P (vpn va))) = q"
      using Some by (simp_all add: mapped_def pte_page_Some)
    have pp20: "pp < 1048576" "q < 1048576"
      using pp(1) I(10) I(8) [OF P v Some] by auto
    have addr: "PTE_ADDR (pte_at (mem s) P (vpn va)) = page2pa pp \<longleftrightarrow> q = pp"
      using q(2) page2pa_inj [OF pp20(2,1)] by (auto simp: PTE_ADDR_eq_page2pa)
    show ?thesis
    proof (cases "q = pp")
      case True
      note S = vm_inv_reinsert_state [OF inv P v T perm Some [unfolded True]]
      have "page_insert (page_kva P) pp va perm s = Ret 0 (reinsert_state T va pp perm s)"
        using q(1) addr True
        by (simp add: page_insert_def Let_def walk load kstore_Ret kidx_pte TB(2) reinsert_state_def
            vpn_split or.commute or.left_commute)
      then show ?thesis
        using S True Some
        by (intro exI [of _ "reinsert_state T va pp perm s"] exI [of _ xs])
          (auto simp: insert_refs_def fun_eq_iff reinsert_state_def)
    next
      case False
      obtain s1 where s1: "page_remove (page_kva P) va s = Ret () s1"
        "vm_inv s1 D (decref_list q s xs)" "pte_step D P (vpn va) 0 s s1"
        "\<forall>Q \<in> D. \<forall>x < 1024. table (mem s1) Q x = table (mem s) Q x"
        "\<forall>p. pp_ref (pages s1 p) = (if p = q then pp_ref (pages s q) - 1 else pp_ref (pages s p))"
        "vm_frame s s1" "data_frame D s s1"
        using page_remove_Some [OF inv P v Some] by blast
      have T1: "table (mem s1) P (unat (PDX va)) = Some T" using s1(4) P PDX_lt T by simp
      have m1: "mapped (mem s1) P (vpn va) = None"
        using s1(3) P v by (simp add: pte_step_def mapped_def)
      have pt: "pt_pages (mem s1) D = pt_pages (mem s) D" by (rule pt_pages_cong) (use s1(4) in blast)
      have np1: "npages s1 = npages s" using vm_frameD(1) [OF s1(6)] .
      let ?s' = "insert_state P T va pp perm s1"
      have op: "page_insert (page_kva P) pp va perm s = Ret 0 ?s'"
        using q(1) addr False s1(1) insert_finish [OF P20 TB(2)]
        by (simp add: page_insert_def Let_def walk load)
      have "vm_inv ?s' D (decref_list q s xs)"
        by (rule vm_inv_insert_state [OF s1(2) P v T1 perm m1])
          (use pp pt np1 s1(5) False in \<open>auto simp: decref_list_def\<close>)
      moreover note S = insert_state_tables [OF s1(2) P v T1 perm, where pp = pp]
      moreover have "pte_step D P (vpn va) (page2pa pp OR PTE_P OR perm) s ?s'"
        using S(2) s1(3) by (auto simp: pte_step_def)
      moreover have "data_frame D s ?s'"
        using data_frame_trans [OF s1(7) S(3)] pt_pages_cong [OF S(1)] by blast
      moreover have "vm_frame s ?s'" using vm_frame_trans [OF s1(6)] by simp
      moreover have "(\<lambda>p. pp_ref (pages ?s' p)) = insert_refs (Some q) pp (\<lambda>p. pp_ref (pages s p))"
        using s1(5) False by (auto simp: insert_refs_def fun_eq_iff)
      moreover have "set (decref_list q s xs) \<subseteq> set xs \<union> {q}" "length xs \<le> length (decref_list q s xs)"
        by (auto simp: decref_list_def)
      ultimately show ?thesis using op s1(4) Some False
        by (intro exI [of _ ?s'] exI [of _ "decref_list q s xs"]) auto
    qed
  qed
qed

lemma page_insert_no_mem:
  assumes inv: "vm_inv s D []" and P: "P \<in> D"
    and T: "table (mem s) P (unat (PDX va)) = None"
  shows "page_insert (page_kva P) pp va perm s = Ret (err E_NO_MEM) s"
proof -
  have "P < 1048576" using vm_invD(11) [OF inv] pt_pagesI(1) [OF P] by blast
  then show ?thesis using walk_no_mem [OF _ T vm_invD(1) [OF inv]] by (simp add: page_insert_def)
qed

text \<open>When the table is missing, \<^verbatim>\<open>page_insert\<close> behaves as if it had been there, empty.\<close>

lemma page_insert_install:
  assumes inv: "vm_inv s D (t # xs)" and P: "P \<in> D"
    and T: "table (mem s) P (unat (PDX va)) = None" and v: "vpn va < user_vpns"
  shows "page_insert (page_kva P) pp va perm s =
    page_insert (page_kva P) pp va perm (walk_install P (unat (PDX va)) t s)"
proof -
  note I = vm_invD [OF inv]
  have P20: "P < 1048576" using I(11) pt_pagesI(1) [OF P] by blast
  have t: "t < unat (npages s)" using page_invD(4) [OF I(1)] by simp
  have x: "unat (PDX va) < user_pdes" using v by (simp add: vpn_split [symmetric] user_vpn_pdx)
  have "table (mem (walk_install P (unat (PDX va)) t s)) P (unat (PDX va)) = Some t"
    using vm_inv_walk_install(3) [OF inv P x T P PDX_lt] by simp
  then have "pgdir_walk (page_kva P) va True (walk_install P (unat (PDX va)) t s) =
      Ret (Some (page_kva t + 4 * PTX va)) (walk_install P (unat (PDX va)) t s)"
    by (rule walk_present [OF P20]) (simp add: t)
  then show ?thesis using walk_create [OF P20 T I(1)] by (simp add: page_insert_def)
qed

lemma page_insert_ok:
  assumes inv: "vm_inv s D xs" and P: "P \<in> D" and v: "vpn va < user_vpns"
    and room: "table (mem s) P (unat (PDX va)) \<noteq> None \<or> xs \<noteq> []" and perm: "unat perm < 4096"
    and pp: "pp < unat (npages s)" "pp \<notin> pt_pages (mem s) D" "pp \<notin> set xs"
      "pp_ref (pages s pp) \<noteq> 0xFFFF"
  shows "\<exists>s' xs'. page_insert (page_kva P) pp va perm s = Ret 0 s' \<and> vm_inv s' D xs' \<and>
     pte_step D P (vpn va) (page2pa pp OR PTE_P OR perm) s s' \<and> vm_frame s s' \<and> data_frame D s s' \<and>
     pp \<notin> pt_pages (mem s') D \<and> pp \<notin> set xs' \<and>
     (\<forall>q. q \<notin> pt_pages (mem s') D \<longrightarrow> pp_ref (pages s' q) =
       insert_refs (mapped (mem s) P (vpn va)) pp (\<lambda>q. pp_ref (pages s q)) q) \<and> length xs \<le> Suc (length xs') \<and>
     (\<forall>Q \<in> D. \<forall>x < 1024. Q \<noteq> P \<or> x \<noteq> unat (PDX va) \<longrightarrow> table (mem s') Q x = table (mem s) Q x)"
proof (cases "table (mem s) P (unat (PDX va))")
  case (Some T)
  obtain s' xs' where s': "page_insert (page_kva P) pp va perm s = Ret 0 s'" "vm_inv s' D xs'"
    "pte_step D P (vpn va) (page2pa pp OR PTE_P OR perm) s s'" "vm_frame s s'" "data_frame D s s'"
    "set xs' \<subseteq> set xs \<union> {q. mapped (mem s) P (vpn va) = Some q \<and> q \<noteq> pp}"
    "\<forall>Q \<in> D. \<forall>x < 1024. table (mem s') Q x = table (mem s) Q x"
    "(\<lambda>q. pp_ref (pages s' q)) = insert_refs (mapped (mem s) P (vpn va)) pp (\<lambda>q. pp_ref (pages s q))" "length xs \<le> length xs'"
    using page_insert_present [OF inv P v Some perm pp] by blast
  have "pt_pages (mem s') D = pt_pages (mem s) D" by (rule pt_pages_cong) (use s'(7) in blast)
  then show ?thesis using s' pp(2,3) fun_cong [OF s'(8)]
    by (intro exI [of _ s'] exI [of _ xs']) auto
next
  case None
  then obtain t ys where xs: "xs = t # ys" using room by (cases xs) auto
  note inv' = inv [unfolded xs]
  have x: "unat (PDX va) < user_pdes" using v by (simp add: vpn_split [symmetric] user_vpn_pdx)
  let ?s1 = "walk_install P (unat (PDX va)) t s"
  note W = vm_inv_walk_install [OF inv' P x None]
  have T1: "table (mem ?s1) P (unat (PDX va)) = Some t" using W(3) [OF P PDX_lt] by simp
  have pt1: "pt_pages (mem ?s1) D = insert t (pt_pages (mem s) D)"
    by (rule pt_pages_insert [OF P PDX_lt None W(3)])
  have ppt: "pp \<noteq> t" "pp \<notin> set ys" using pp(3) xs by auto
  have m1: "mapped (mem ?s1) P (vpn va) = mapped (mem s) P (vpn va)"
    using W(2) [OF P v] by (simp add: mapped_def)
  obtain s' xs' where s': "page_insert (page_kva P) pp va perm ?s1 = Ret 0 s'" "vm_inv s' D xs'"
    "pte_step D P (vpn va) (page2pa pp OR PTE_P OR perm) ?s1 s'" "vm_frame ?s1 s'" "data_frame D ?s1 s'"
    "set xs' \<subseteq> set ys \<union> {q. mapped (mem s) P (vpn va) = Some q \<and> q \<noteq> pp}"
    "\<forall>Q \<in> D. \<forall>x < 1024. table (mem s') Q x = table (mem ?s1) Q x"
    "(\<lambda>q. pp_ref (pages s' q)) = insert_refs (mapped (mem s) P (vpn va)) pp (\<lambda>q. pp_ref (pages ?s1 q))" "length ys \<le> length xs'"
    using page_insert_present [OF W(1) P v T1 perm, of pp] pp pt1 ppt m1 by auto
  have pt: "pt_pages (mem s') D = insert t (pt_pages (mem s) D)"
    using pt_pages_cong [of D "mem s'" "mem ?s1"] s'(7) pt1 by simp
  have "data_frame D s s'"
    using data_frame_trans [OF data_frame_install [OF P _ PDX_lt] s'(5)] pt pt1 by simp
  moreover have "pte_step D P (vpn va) (page2pa pp OR PTE_P OR perm) s s'"
    using s'(3) W(2) by (simp add: pte_step_def)
  moreover have "vm_frame s s'" using vm_frame_trans [OF vm_frame_simps(4) s'(4)] .
  moreover have "pp_ref (pages s' q) =
      insert_refs (mapped (mem s) P (vpn va)) pp (\<lambda>q. pp_ref (pages s q)) q"
    if "q \<notin> pt_pages (mem s') D" for q
    using fun_cong [OF s'(8), of q] that pt by (simp add: insert_refs_def)
  moreover have "table (mem s') Q x = table (mem s) Q x" if "Q \<in> D" "x < 1024" "Q \<noteq> P \<or> x \<noteq> unat (PDX va)" for Q x
    using s'(7) W(3) that by auto
  ultimately show ?thesis using page_insert_install [OF inv' P None v] s'(1,2,6,9) pt pp(2) ppt xs
    by (intro exI [of _ s'] exI [of _ xs']) auto
qed

subsection \<open>The address space as a map\<close>

definition aspace :: "(nat \<Rightarrow> u32) \<Rightarrow> nat \<Rightarrow> nat \<rightharpoonup> u32" where
  "aspace m P = (\<lambda>v. if v < user_vpns \<and> pte_at m P v AND PTE_P \<noteq> 0 then Some (pte_at m P v) else None)"

lemma aspace_mapped:
  "v < user_vpns \<Longrightarrow> mapped m P v = map_option (\<lambda>e. unat (PGNUM e)) (aspace m P v)"
  by (simp add: mapped_def aspace_def pte_page_def)

lemma aspace_step:
  assumes "pte_step D P v e s s'" and "Q \<in> D" and "v < user_vpns"
  shows "aspace (mem s') Q =
     (if Q = P then (aspace (mem s) P)(v := (if e AND PTE_P = 0 then None else Some e))
      else aspace (mem s) Q)"
proof (rule ext)
  fix w
  have "pte_at (mem s') Q w = (if Q = P \<and> w = v then e else pte_at (mem s) Q w)" if "w < user_vpns"
    using assms that unfolding pte_step_def by blast
  then show "aspace (mem s') Q w =
     (if Q = P then (aspace (mem s) P)(v := (if e AND PTE_P = 0 then None else Some e))
      else aspace (mem s) Q) w"
    using assms(3) by (cases "w < user_vpns"; cases "w = v"; cases "Q = P") (simp_all add: aspace_def)
qed

lemma aspace_None_mapped: "v < user_vpns \<Longrightarrow> aspace m P v = None \<longleftrightarrow> mapped m P v = None"
  by (auto simp: aspace_mapped)

subsection \<open>A small machine\<close>

text \<open>
  A machine of 16 pages whose page 1 is an empty page directory and whose pages 2, 3 and 4 are free;
  the theorems below are instantiated on it.
\<close>

definition small_machine :: kstate where
  "small_machine = \<lparr>npages = 16, npages_basemem = 8, kern_pgdir = page_kva 1, pages_kva = 0,
     envs_kva = 0, nextfree = page_kva 5, mmio_base = MMIOBASE, user_mem_check_addr = 0,
     mem = (\<lambda>_. 0),
     pages = (\<lambda>i. \<lparr>pp_link = (if i = 2 then Some 3 else if i = 3 then Some 4 else None),
                    pp_ref = (if i = 1 then 1 else 0)\<rparr>),
     page_free_list = Some 2, envs = (\<lambda>_. zero_env), env_free_list = None,
     cpus = (\<lambda>_. \<lparr>cpu_id = 0, cpu_status = CPU_UNUSED, cpu_env = None\<rparr>), this_cpu = 0,
     cr0 = 0, cr3 = 0, invlpg_log = [], kernel_lock = \<lparr>locked = 0, lock_cpu = None\<rparr>, ticks = 0,
     kcons = fresh_console, cr2 = 0, panicstr = False, lapic = 0, lapic_log = []\<rparr>"

lemma table_zero [simp]: "table (\<lambda>_. 0) P x = None"
  by (simp add: table_def pde_at_def)

lemma pte_at_zero [simp]: "pte_at (\<lambda>_. 0) P v = 0"
  by (simp add: pte_at_def)

lemma mapped_zero [simp]: "mapped (\<lambda>_. 0) P v = None"
  by (simp add: mapped_def)

lemma pt_pages_zero [simp]: "pt_pages (\<lambda>_. 0) D = D"
  by (simp add: pt_pages_def)

lemma page_inv_small: "page_inv small_machine [2, 3, 4]"
  by (simp add: page_inv_def pl.is_list_def page_links_def small_machine_def)

lemma vm_inv_small: "vm_inv small_machine {1} [2, 3, 4]"
proof -
  have "mem small_machine = (\<lambda>_. 0)" "npages small_machine = 16"
    "pp_ref (pages small_machine 1) = 1"
    by (simp_all add: small_machine_def)
  then show ?thesis using page_inv_small
    by (simp add: vm_inv_def tables_ok_def uses_def)
qed

subsection \<open>Contracts\<close>

lemma page_insert_aspace:
  assumes "vm_inv s D xs" and "P \<in> D" and "va < UTOP"
    and "table (mem s) P (unat (PDX va)) \<noteq> None \<or> xs \<noteq> []" and "unat perm < 4096"
    and "pp < unat (npages s)" and "pp \<notin> pt_pages (mem s) D" and "pp \<notin> set xs"
    and "pp_ref (pages s pp) \<noteq> 0xFFFF"
  shows "\<exists>s' xs'. page_insert (page_kva P) pp va perm s = Ret 0 s' \<and> vm_inv s' D xs' \<and>
     (\<forall>Q \<in> D. aspace (mem s') Q =
        (if Q = P then (aspace (mem s) P)(vpn va \<mapsto> page2pa pp OR PTE_P OR perm)
         else aspace (mem s) Q)) \<and>
     (\<forall>q. q \<notin> pt_pages (mem s') D \<longrightarrow> pp_ref (pages s' q) =
        insert_refs (mapped (mem s) P (vpn va)) pp (\<lambda>q. pp_ref (pages s q)) q) \<and>
     vm_frame s s' \<and> data_frame D s s'"
proof -
  note v = vpn_user [OF assms(3)]
  have "pp < 1048576" using assms(6) vm_invD(10) [OF assms(1)] by simp
  then have e: "(page2pa pp OR PTE_P OR perm) AND PTE_P \<noteq> 0"
    using new_pte_page [OF _ assms(5)] by (simp add: pte_page_Some)
  from page_insert_ok [OF assms(1,2) v assms(4-9)] obtain s' xs'
    where "page_insert (page_kva P) pp va perm s = Ret 0 s'" "vm_inv s' D xs'"
      "pte_step D P (vpn va) (page2pa pp OR PTE_P OR perm) s s'" "vm_frame s s'" "data_frame D s s'"
      "\<forall>q. q \<notin> pt_pages (mem s') D \<longrightarrow> pp_ref (pages s' q) =
        insert_refs (mapped (mem s) P (vpn va)) pp (\<lambda>q. pp_ref (pages s q)) q"
    by blast
  then show ?thesis using aspace_step [OF _ _ v] e
    by (intro exI [of _ s'] exI [of _ xs']) auto
qed

text \<open>
  \<^bold>\<open>C3.\<close> \<^verbatim>\<open>page_insert\<close> of a page that is neither free nor a page table, at a user address of
  one of the page directories \<open>D\<close>, with room for a page table: it returns 0, keeps the memory invariant,
  and acts on the address spaces as the map update \<open>vpn va \<mapsto> page2pa pp | perm | PTE_P\<close> in that one
  directory; every other address space, every data page and all other kernel state is unchanged, and the
  reference counts move by exactly the new mapping and the mapping it replaces.
\<close>

theorem page_insert_refines:
  assumes "vm_inv s D xs" and "P \<in> D" and "va < UTOP"
    and "table (mem s) P (unat (PDX va)) \<noteq> None \<or> xs \<noteq> []" and "unat perm < 4096"
    and "pp < unat (npages s)" and "pp \<notin> pt_pages (mem s) D" and "pp \<notin> set xs"
    and "pp_ref (pages s pp) \<noteq> 0xFFFF"
  shows "\<exists>s' xs'. page_insert (page_kva P) pp va perm s = Ret 0 s' \<and> vm_inv s' D xs' \<and>
     (\<forall>Q \<in> D. aspace (mem s') Q =
        (if Q = P then (aspace (mem s) P)(vpn va \<mapsto> page2pa pp OR PTE_P OR perm)
         else aspace (mem s) Q)) \<and>
     (\<forall>q. q \<notin> pt_pages (mem s') D \<longrightarrow> pp_ref (pages s' q) =
        insert_refs (mapped (mem s) P (vpn va)) pp (\<lambda>q. pp_ref (pages s q)) q) \<and>
     vm_frame s s' \<and> data_frame D s s'"
  by (rule page_insert_aspace [OF assms])

theorem page_insert_refines_witness:
  "\<exists>s'. page_insert (page_kva 1) 5 0x1000 PTE_W small_machine = Ret 0 s' \<and>
     aspace (mem s') 1 = [1 \<mapsto> 0x5003] \<and> pp_ref (pages s' 5) = 1"
proof -
  have z: "aspace (mem small_machine) 1 = Map.empty" "mem small_machine = (\<lambda>_. 0)"
    "npages small_machine = 16" "pages small_machine 5 = \<lparr>pp_link = None, pp_ref = 0\<rparr>"
    by (auto simp: small_machine_def aspace_def)
  have w: "vpn 0x1000 = 1" "page2pa 5 OR PTE_P OR PTE_W = 0x5003"
    by (simp_all add: vpn_def word_arith page2pa_def pte_defs push_bit_eq_mult)
  obtain s' xs' where s': "page_insert (page_kva 1) 5 0x1000 PTE_W small_machine = Ret 0 s'"
    "vm_inv s' {1} xs'" "aspace (mem s') 1 = [1 \<mapsto> 0x5003]"
    "\<forall>q. q \<notin> pt_pages (mem s') {1} \<longrightarrow> pp_ref (pages s' q) = insert_refs None 5 (\<lambda>q. pp_ref (pages small_machine q)) q"
    using page_insert_refines [OF vm_inv_small, of 1 "0x1000" PTE_W 5] z w
    by (auto simp: pte_defs layout_defs)
  have "mapped (mem s') 1 1 = Some 5" using s'(3) by (simp add: aspace_mapped word_arith)
  then have "5 \<notin> pt_pages (mem s') {1}" using vm_invD(8) [OF s'(2), of 1 1] by simp
  then show ?thesis using s' z by (auto simp: insert_refs_def)
qed

lemma page_remove_aspace:
  assumes "vm_inv s D xs" and "P \<in> D" and "va < UTOP"
  shows "\<exists>s' xs'. page_remove (page_kva P) va s = Ret () s' \<and> vm_inv s' D xs' \<and>
     (\<forall>Q \<in> D. aspace (mem s') Q =
        (if Q = P then (aspace (mem s) P)(vpn va := None) else aspace (mem s) Q)) \<and>
     vm_frame s s' \<and> data_frame D s s' \<and>
     (case mapped (mem s) P (vpn va) of
        None \<Rightarrow> s' = s
      | Some p \<Rightarrow>
          (\<forall>q. pp_ref (pages s' q) = (if q = p then pp_ref (pages s p) - 1 else pp_ref (pages s q))) \<and>
          xs' = (if pp_ref (pages s p) = 1 then p # xs else xs) \<and>
          invlpg_log s' = tlb_log (page_kva P) va s)"
proof -
  note v = vpn_user [OF assms(3)]
  show ?thesis
  proof (cases "mapped (mem s) P (vpn va)")
    case None
    then have "aspace (mem s) P (vpn va) = None" using aspace_None_mapped [OF v] by blast
    then show ?thesis using page_remove_None [OF assms(1,2) None] assms(1) None
      by (intro exI [of _ s] exI [of _ xs]) (auto simp: fun_upd_idem)
  next
    case (Some p)
    obtain s' where s': "page_remove (page_kva P) va s = Ret () s'"
      "vm_inv s' D (decref_list p s xs)" "pte_step D P (vpn va) 0 s s'"
      "\<forall>q. pp_ref (pages s' q) = (if q = p then pp_ref (pages s p) - 1 else pp_ref (pages s q))"
      "vm_frame s s'" "data_frame D s s'" "invlpg_log s' = tlb_log (page_kva P) va s"
      using page_remove_Some [OF assms(1,2) v Some] by blast
    then show ?thesis using aspace_step [OF s'(3) _ v] Some
      by (intro exI [of _ s'] exI [of _ "decref_list p s xs"]) (auto simp: decref_list_def)
  qed
qed

text \<open>
  \<^bold>\<open>C4.\<close> \<^verbatim>\<open>page_remove\<close> at a user address always returns, keeps the memory invariant and
  deletes exactly that virtual page from that address space. A mapped page loses one reference and is
  on the free list afterwards if and only if that was its last one; the TLB entry is invalidated when
  the directory is the current one.
\<close>

theorem page_remove_refines:
  assumes "vm_inv s D xs" and "P \<in> D" and "va < UTOP"
  shows "\<exists>s' xs'. page_remove (page_kva P) va s = Ret () s' \<and> vm_inv s' D xs' \<and>
     (\<forall>Q \<in> D. aspace (mem s') Q =
        (if Q = P then (aspace (mem s) P)(vpn va := None) else aspace (mem s) Q)) \<and>
     vm_frame s s' \<and> data_frame D s s' \<and>
     (case mapped (mem s) P (vpn va) of
        None \<Rightarrow> s' = s
      | Some p \<Rightarrow>
          (\<forall>q. pp_ref (pages s' q) = (if q = p then pp_ref (pages s p) - 1 else pp_ref (pages s q))) \<and>
          xs' = (if pp_ref (pages s p) = 1 then p # xs else xs) \<and>
          invlpg_log s' = tlb_log (page_kva P) va s)"
  by (rule page_remove_aspace [OF assms])

theorem page_remove_refines_witness:
  "\<exists>s' xs'. page_remove (page_kva 1) 0x1000 small_machine = Ret () s' \<and> vm_inv s' {1} xs' \<and>
     aspace (mem s') 1 = Map.empty"
  using page_remove_refines [OF vm_inv_small, of 1 "0x1000"]
  by (auto simp: layout_defs small_machine_def aspace_def fun_eq_iff)

lemma page_lookup_aspace:
  assumes "vm_inv s D xs" and "P \<in> D" and "va < UTOP"
  shows "case aspace (mem s) P (vpn va) of
       None \<Rightarrow> page_lookup (page_kva P) va s = Ret None s
     | Some e \<Rightarrow> \<exists>ptr. page_lookup (page_kva P) va s = Ret (Some (unat (PGNUM e), ptr)) s \<and>
                 kload ptr s = Ret e s"
proof -
  note v = vpn_user [OF assms(3)]
  have P20: "P < 1048576" using vm_invD(11) [OF assms(1)] pt_pagesI(1) [OF assms(2)] by blast
  show ?thesis
  proof (cases "aspace (mem s) P (vpn va)")
    case None
    then have "mapped (mem s) P (vpn va) = None" using aspace_None_mapped [OF v] by blast
    then have "page_lookup (page_kva P) va s = Ret None s"
      using lookup_None [OF P20] vm_invD_table(1,2) [OF assms(1,2) PDX_lt] by blast
    then show ?thesis using None by simp
  next
    case (Some e)
    then have m: "mapped (mem s) P (vpn va) = Some (unat (PGNUM e))" and e: "pte_at (mem s) P (vpn va) = e"
      using v by (auto simp: aspace_mapped aspace_def split: if_splits)
    obtain T where T: "table (mem s) P (unat (PDX va)) = Some T"
      using m by (rule mapped_table) (simp add: vpn_split)
    note TB = vm_invD_table [OF assms(1,2) PDX_lt T]
    have "page_lookup (page_kva P) va s = Ret (Some (unat (PGNUM e), page_kva T + 4 * PTX va)) s"
      using lookup_Some [OF P20 m _ T TB(1,2)] vm_invD(8) [OF assms(1,2) v m] by blast
    then show ?thesis using Some pte_load [OF TB(2) T] e by simp
  qed
qed

text \<open>
  \<^bold>\<open>C5.\<close> \<^verbatim>\<open>page_lookup\<close> reads the address space: it changes nothing, returns \<open>NULL\<close> exactly for
  unmapped pages, and otherwise the page whose address the entry holds together with a kernel pointer
  through which that very entry is read.
\<close>

theorem page_lookup_refines:
  assumes "vm_inv s D xs" and "P \<in> D" and "va < UTOP"
  shows "case aspace (mem s) P (vpn va) of
       None \<Rightarrow> page_lookup (page_kva P) va s = Ret None s
     | Some e \<Rightarrow> \<exists>ptr. page_lookup (page_kva P) va s = Ret (Some (unat (PGNUM e), ptr)) s \<and>
                 kload ptr s = Ret e s"
  by (rule page_lookup_aspace [OF assms])

theorem page_lookup_refines_witness:
  "page_lookup (page_kva 1) 0x1000 small_machine = Ret None small_machine"
  using page_lookup_refines [OF vm_inv_small, of 1 "0x1000"]
  by (auto simp: layout_defs small_machine_def aspace_def fun_eq_iff)

text \<open>
  \<^bold>\<open>C6.\<close> When the page table is missing and no page is free, \<^verbatim>\<open>page_insert\<close> returns
  \<open>-E_NO_MEM\<close> and changes nothing at all.
\<close>

theorem page_insert_out_of_memory:
  assumes "vm_inv s D []" and "P \<in> D" and "table (mem s) P (unat (PDX va)) = None"
  shows "page_insert (page_kva P) pp va perm s = Ret (err E_NO_MEM) s"
  by (rule page_insert_no_mem [OF assms])

definition full_machine :: kstate where
  "full_machine = small_machine\<lparr>page_free_list := None, pages := (\<lambda>i. \<lparr>pp_link = None, pp_ref = 1\<rparr>)\<rparr>"

lemma vm_inv_full: "vm_inv full_machine {1} []"
proof -
  have "mem full_machine = (\<lambda>_. 0)" "npages full_machine = 16"
    "pages full_machine = (\<lambda>_. \<lparr>pp_link = None, pp_ref = 1\<rparr>)" "page_free_list full_machine = None"
    by (simp_all add: full_machine_def small_machine_def)
  then show ?thesis
    by (simp add: vm_inv_def tables_ok_def uses_def page_inv_def pl.is_list_def page_links_def)
qed

theorem page_insert_out_of_memory_witness:
  "page_insert (page_kva 1) 5 0x1000 PTE_W full_machine = Ret (err E_NO_MEM) full_machine"
  by (rule page_insert_out_of_memory [OF vm_inv_full]) (simp_all add: full_machine_def small_machine_def)

end
