(* ===== verification/Kern_Pmap_User.thy ===== *)
theory Kern_Pmap_User
  imports Kern_Pmap_Map
begin

text \<open>
  \<^verbatim>\<open>user_mem_check\<close>: which ranges of user memory it accepts, where it reports the first fault,
  and the ranges near the top of the address space for which its rounding wraps.
\<close>

definition page_ok :: "(nat \<Rightarrow> u32) \<Rightarrow> nat \<Rightarrow> u32 \<Rightarrow> nat \<Rightarrow> bool" where
  "page_ok m P perm v \<longleftrightarrow>
     word_of_nat (v * 4096) < ULIM \<and> pte_at m P v AND PTE_P \<noteq> 0 \<and> pte_at m P v AND perm = perm"

definition bad_pages :: "(nat \<Rightarrow> u32) \<Rightarrow> nat \<Rightarrow> u32 \<Rightarrow> nat \<Rightarrow> nat \<Rightarrow> nat list" where
  "bad_pages m P perm a b = filter (\<lambda>v. \<not> page_ok m P perm v) [a ..< b]"

text \<open>Every directory entry of \<open>P\<close> leads to memory the machine has.\<close>

definition walkable :: "kstate \<Rightarrow> nat \<Rightarrow> bool" where
  "walkable s P \<longleftrightarrow> P < 1048576 \<and>
     (\<forall>x < 1024. \<forall>T. table (mem s) P x = Some T \<longrightarrow> T < unat (npages s) \<and> T < 1048576)"

lemma walkable_vm_inv:
  assumes "vm_inv s D xs" and "P \<in> D"
  shows "walkable s P"
  unfolding walkable_def
proof (intro conjI allI impI)
  show "P < 1048576" using vm_invD(11) [OF assms(1)] pt_pagesI(1) [OF assms(2)] by blast
qed (rule vm_invD_table(1,2) [OF assms]; assumption)+

lemma vpn_of_nat: "v < 1048576 \<Longrightarrow> vpn (word_of_nat v * 4096) = v"
  by (simp add: vpn_def word_arith unat_of_nat unat_word_ariths)

lemma scan_step:
  assumes w: "walkable s P" and v: "v < b" "b \<le> 1048575"
  shows "user_mem_scan (page_kva P) va perm (v * 4096) (b * 4096) s =
    (if page_ok (mem s) P perm v then user_mem_scan (page_kva P) va perm (Suc v * 4096) (b * 4096) s
     else Ret (err E_FAULT) (s\<lparr>user_mem_check_addr :=
            (if va < word_of_nat (v * 4096) then word_of_nat (v * 4096) else va)\<rparr>))"
proof -
  let ?a = "word_of_nat (v * 4096) :: u32"
  have vp: "vpn ?a = v" using v by (simp add: vpn_of_nat)
  have P20: "P < 1048576" using w by (simp add: walkable_def)
  have suc: "Suc v * 4096 = v * 4096 + 4096" by simp
  show ?thesis
  proof (cases "table (mem s) P (unat (PDX ?a))")
    case None
    then have "pte_at (mem s) P v = 0" using vp by (simp add: pte_at_def vpn_split [symmetric])
    then have "\<not> page_ok (mem s) P perm v" by (simp add: page_ok_def)
    then show ?thesis using walk_absent [OF P20 None] v
      by (subst user_mem_scan.simps) simp
  next
    case (Some T)
    then have T: "T < unat (npages s)" "T < 1048576" using w PDX_lt by (auto simp: walkable_def)
    have "kload (page_kva T + 4 * PTX ?a) s = Ret (pte_at (mem s) P v) s"
      using pte_load [OF T(2) Some] vp by simp
    then show ?thesis using walk_present [OF P20 Some T(1)] v suc
      by (subst user_mem_scan.simps) (auto simp: page_ok_def not_le add.commute)
  qed
qed

lemma scan_result:
  assumes w: "walkable s P" and ab: "a \<le> b" "b \<le> 1048575"
  shows "user_mem_scan (page_kva P) va perm (a * 4096) (b * 4096) s =
    (case bad_pages (mem s) P perm a b of
       [] \<Rightarrow> Ret 0 s
     | v # _ \<Rightarrow> Ret (err E_FAULT) (s\<lparr>user_mem_check_addr :=
            (if va < word_of_nat (v * 4096) then word_of_nat (v * 4096) else va)\<rparr>))"
  using ab(1)
proof (induction "b - a" arbitrary: a)
  case 0
  then show ?case by (subst user_mem_scan.simps) (simp add: bad_pages_def)
next
  case (Suc n)
  then have a: "a < b" by simp
  then have split: "[a ..< b] = a # [Suc a ..< b]" by (rule upt_conv_Cons)
  show ?case
  proof (cases "page_ok (mem s) P perm a")
    case True
    then show ?thesis using Suc.hyps(1) [of "Suc a"] Suc.hyps(2) a scan_step [OF w a ab(2)]
      by (simp add: bad_pages_def split)
  next
    case False
    then show ?thesis using scan_step [OF w a ab(2)] by (simp add: bad_pages_def split)
  qed
qed

lemma ROUND_pages:
  assumes "unat va + unat len + 4095 < 2 ^ 32"
  shows "unat (ROUNDDOWN va PGSIZE) = vpn va * 4096"
    and "unat (ROUNDUP (va + len) PGSIZE) = (unat va + unat len + 4095) div 4096 * 4096"
proof -
  show "unat (ROUNDDOWN va PGSIZE) = vpn va * 4096"
    by (simp add: unat_ROUNDDOWN_page vpn_def word_arith)
  have "unat (va + len) = unat va + unat len" using assms by (simp add: unat_word_ariths)
  then show "unat (ROUNDUP (va + len) PGSIZE) = (unat va + unat len + 4095) div 4096 * 4096"
    using unat_ROUNDUP_page [of "va + len"] assms by simp
qed

lemma user_mem_check_pages:
  assumes "walkable s P" and "env_pgdir (envs s e) = page_kva P"
    and "unat va + unat len + 4095 < 2 ^ 32"
  shows "user_mem_check e va len perm s =
    (case bad_pages (mem s) P perm (unat va div 4096) ((unat va + unat len + 4095) div 4096) of
       [] \<Rightarrow> Ret 0 s
     | v # _ \<Rightarrow> Ret (err E_FAULT) (s\<lparr>user_mem_check_addr :=
            (if va < word_of_nat (v * 4096) then word_of_nat (v * 4096) else va)\<rparr>))"
proof -
  have "unat va div 4096 \<le> (unat va + unat len + 4095) div 4096" by (rule div_le_mono) simp
  moreover have "(unat va + unat len + 4095) div 4096 \<le> 1048575"
    using assms(3) by (simp add: div_le_mono less_Suc_eq_le [symmetric] div_less_iff_less_mult)
  ultimately show ?thesis
    using scan_result [OF assms(1)] ROUND_pages [OF assms(3)] assms(2)
    by (simp add: user_mem_check_def vpn_def word_arith)
qed

text \<open>
  \<^bold>\<open>C9.\<close> For a range that does not come within a page of the end of the address space,
  \<^verbatim>\<open>user_mem_check\<close> returns 0 exactly when every page that contains a byte of
  \<open>[va, va + len)\<close> lies below \<open>ULIM\<close>, is present and has all bits of \<open>perm\<close>; otherwise it returns
  \<open>-E_FAULT\<close> and leaves in \<^verbatim>\<open>user_mem_check_addr\<close> the first offending address of the range.
  (An empty range that starts in mid-page still has its page tested.)
\<close>

theorem user_mem_check_spec:
  assumes "walkable s P" and "env_pgdir (envs s e) = page_kva P"
    and "unat va + unat len + 4095 < 2 ^ 32"
  shows "user_mem_check e va len perm s =
    (case bad_pages (mem s) P perm (unat va div 4096) ((unat va + unat len + 4095) div 4096) of
       [] \<Rightarrow> Ret 0 s
     | v # _ \<Rightarrow> Ret (err E_FAULT) (s\<lparr>user_mem_check_addr :=
            (if va < word_of_nat (v * 4096) then word_of_nat (v * 4096) else va)\<rparr>))"
  using assms by (rule user_mem_check_pages)

theorem user_mem_check_spec_witness:
  "user_mem_check 0 0x1004 8 PTE_U (upd_env 0 (\<lambda>e. e\<lparr>env_pgdir := page_kva 1\<rparr>) small_machine) =
   Ret (err E_FAULT) ((upd_env 0 (\<lambda>e. e\<lparr>env_pgdir := page_kva 1\<rparr>) small_machine)
      \<lparr>user_mem_check_addr := 0x1004\<rparr>)"
proof -
  let ?s = "upd_env 0 (\<lambda>e. e\<lparr>env_pgdir := page_kva 1\<rparr>) small_machine"
  have m: "mem ?s = (\<lambda>_. 0)" by (simp add: upd_env_def small_machine_def)
  have "walkable ?s 1" unfolding walkable_def m by simp
  moreover have "env_pgdir (envs ?s 0) = page_kva 1" by (simp add: upd_env_def)
  moreover have "bad_pages (mem ?s) 1 PTE_U 1 2 = [1]"
    unfolding m by (simp add: bad_pages_def page_ok_def upt_rec)
  ultimately show ?thesis using user_mem_check_spec [of ?s 1 0 "0x1004" 8 PTE_U] by simp
qed

text \<open>
  The rounded end of a range that reaches the last page of the address space has wrapped; unless the
  range comes around to its own first page, it lies at or below the rounded start.
\<close>

lemma ROUNDUP_wrapped:
  assumes a: "2 ^ 32 \<le> unat va + unat len + 4095" and b: "unat va + unat len \<le> 2 ^ 32 + unat va div 4096 * 4096"
  shows "unat (ROUNDUP (va + len) PGSIZE) \<le> unat (ROUNDDOWN va PGSIZE)"
proof -
  let ?n = "unat va + unat len + 4095"
  have "unat (va + len + PGSIZE - 1) = ?n mod 2 ^ 32"
    by (simp add: PGSIZE_def unat_word_ariths mod_simps) (simp add: add.commute)
  also have "\<dots> = (?n - 2 ^ 32) mod 2 ^ 32" by (rule le_mod_geq [OF a])
  also have "\<dots> \<le> ?n - 2 ^ 32" by simp
  also have "\<dots> \<le> unat va div 4096 * 4096 + 4095" using a b by linarith
  finally have "unat (va + len + PGSIZE - 1) div 4096 \<le> unat va div 4096" by linarith
  then show ?thesis unfolding ROUNDUP_def unat_ROUNDDOWN_page by simp
qed

text \<open>
  \<^bold>\<open>C10.\<close> That hypothesis is needed: every range that does come within a page of the end of the
  address space, whatever it goes through on the way there and however far it wraps around, short of its
  own first page, is accepted for every environment and every permission and in every state. The end
  of the range, rounded up, wraps to an address at or below the start, and no page is tested. The
  kernel's own memory from \<^verbatim>\<open>KERNBASE\<close> to the end is such a range.
\<close>

theorem user_mem_check_wraps:
  assumes "2 ^ 32 \<le> unat va + unat len + 4095" and "unat va + unat len \<le> 2 ^ 32 + unat va div 4096 * 4096"
  shows "user_mem_check e va len perm s = Ret 0 s"
  using ROUNDUP_wrapped [OF assms] by (simp add: user_mem_check_def user_mem_scan.simps)

theorem user_mem_check_wraps_witness:
  "user_mem_check 0 KERNBASE 0x10000000 (PTE_U OR PTE_W) small_machine = Ret 0 small_machine"
  by (rule user_mem_check_wraps) (simp_all add: KERNBASE_def)

end
