(* ===== verification/Kern_Spinlock.thy ===== *)
theory Kern_Spinlock
  imports Kern_State
begin

text \<open>
  Spin locks (\<^verbatim>\<open>kern/spinlock.c\<close>, \<^verbatim>\<open>kern/spinlock.h\<close>). The first part is the lock as one
  CPU's kernel code uses it; the second runs any number of CPUs against one lock, one memory access
  at a time, and shows mutual exclusion.
\<close>

subsection \<open>The operations on the big kernel lock\<close>

definition holding :: "spinlock \<Rightarrow> nat \<Rightarrow> bool" where
  "holding lk cpu \<longleftrightarrow> locked lk \<noteq> 0 \<and> lock_cpu lk = Some cpu"

definition spin_initlock :: "spinlock \<Rightarrow> spinlock" where
  "spin_initlock lk = lk\<lparr>locked := 0, lock_cpu := None\<rparr>"

text \<open>
  \<^verbatim>\<open>xchg(&lk->locked, v)\<close>: the old value is returned, the new one stored.
\<close>

definition xchg_locked :: "u32 \<Rightarrow> spinlock \<Rightarrow> u32 \<times> spinlock" where
  "xchg_locked v lk = (locked lk, lk\<lparr>locked := v\<rparr>)"

definition lock_kernel :: "(kstate, unit) op" where
  "lock_kernel = (\<lambda>s.
     let lk = kernel_lock s; me = this_cpu s in
     if holding lk me then Panic ''cannot acquire: already holding''
     else case xchg_locked 1 lk of (old, lk') \<Rightarrow>
       if old \<noteq> 0 then Leave Spin_wait s
       else Ret () (s\<lparr>kernel_lock := lk'\<lparr>lock_cpu := Some me\<rparr>\<rparr>))"

definition unlock_kernel :: "(kstate, unit) op" where
  "unlock_kernel = (\<lambda>s.
     let lk = kernel_lock s in
     if \<not> holding lk (this_cpu s) then Panic ''spin_unlock''
     else Ret () (s\<lparr>kernel_lock := snd (xchg_locked 0 (lk\<lparr>lock_cpu := None\<rparr>))\<rparr>))"

lemma lock_unlock_kernel:
  assumes "locked (kernel_lock s) = 0"
  shows "\<exists>t. lock_kernel s = Ret () t \<and> holding (kernel_lock t) (this_cpu t) \<and>
    unlock_kernel t = Ret () (s\<lparr>kernel_lock := (kernel_lock s)\<lparr>lock_cpu := None\<rparr>\<rparr>)"
  using assms by (simp add: lock_kernel_def unlock_kernel_def xchg_locked_def Let_def holding_def)

subsection \<open>Several CPUs\<close>

text \<open>
  Where a CPU is in \<^verbatim>\<open>spin_lock\<close> or \<^verbatim>\<open>spin_unlock\<close>: between calls, about to exchange, about
  to record itself as owner, inside the critical section, about to clear the owner, about to
  exchange the lock free, or stopped by a panic.
\<close>

datatype lock_pc = Outside | Spinning | Recording | Critical | Clearing | Releasing | Panicked

record lock_sys =
  the_lock :: spinlock
  pc :: "nat \<Rightarrow> lock_pc"

inductive lock_step :: "lock_sys \<Rightarrow> lock_sys \<Rightarrow> bool" where
  lock_panic: "pc s i = Outside \<Longrightarrow> holding (the_lock s) i \<Longrightarrow>
    lock_step s (s\<lparr>pc := (pc s)(i := Panicked)\<rparr>)"
| lock_call: "pc s i = Outside \<Longrightarrow> \<not> holding (the_lock s) i \<Longrightarrow>
    lock_step s (s\<lparr>pc := (pc s)(i := Spinning)\<rparr>)"
| lock_xchg: "pc s i = Spinning \<Longrightarrow> xchg_locked 1 (the_lock s) = (old, lk) \<Longrightarrow>
    lock_step s (s\<lparr>the_lock := lk, pc := (pc s)(i := if old \<noteq> 0 then Spinning else Recording)\<rparr>)"
| lock_record: "pc s i = Recording \<Longrightarrow>
    lock_step s (s\<lparr>the_lock := (the_lock s)\<lparr>lock_cpu := Some i\<rparr>, pc := (pc s)(i := Critical)\<rparr>)"
| unlock_panic: "pc s i = Critical \<Longrightarrow> \<not> holding (the_lock s) i \<Longrightarrow>
    lock_step s (s\<lparr>pc := (pc s)(i := Panicked)\<rparr>)"
| unlock_call: "pc s i = Critical \<Longrightarrow> holding (the_lock s) i \<Longrightarrow>
    lock_step s (s\<lparr>pc := (pc s)(i := Clearing)\<rparr>)"
| unlock_clear: "pc s i = Clearing \<Longrightarrow>
    lock_step s (s\<lparr>the_lock := (the_lock s)\<lparr>lock_cpu := None\<rparr>, pc := (pc s)(i := Releasing)\<rparr>)"
| unlock_xchg: "pc s i = Releasing \<Longrightarrow>
    lock_step s (s\<lparr>the_lock := snd (xchg_locked 0 (the_lock s)), pc := (pc s)(i := Outside)\<rparr>)"

inductive_cases lock_stepE: "lock_step s t"

definition lock_start :: "lock_sys \<Rightarrow> bool" where
  "lock_start s \<longleftrightarrow> (\<exists>lk. the_lock s = spin_initlock lk) \<and> (\<forall>i. pc s i = Outside)"

definition owned :: "lock_pc \<Rightarrow> bool" where
  "owned p \<longleftrightarrow> p \<in> {Recording, Critical, Clearing, Releasing}"

text \<open>The invariant names the owner, if there is one.\<close>

definition lock_owner :: "lock_sys \<Rightarrow> nat option \<Rightarrow> bool" where
  "lock_owner s ow \<longleftrightarrow>
     (locked (the_lock s) \<noteq> 0 \<longleftrightarrow> ow \<noteq> None) \<and>
     (\<forall>i. owned (pc s i) \<longleftrightarrow> ow = Some i) \<and>
     (\<forall>i. pc s i \<in> {Critical, Clearing} \<longleftrightarrow> lock_cpu (the_lock s) = Some i) \<and>
     (\<forall>i. pc s i \<noteq> Panicked)"

definition lock_inv :: "lock_sys \<Rightarrow> bool" where
  "lock_inv s \<longleftrightarrow> (\<exists>ow. lock_owner s ow)"

lemma lock_ownerD:
  assumes "lock_owner s ow"
  shows "locked (the_lock s) \<noteq> 0 \<longleftrightarrow> ow \<noteq> None" "owned (pc s i) \<longleftrightarrow> ow = Some i"
    "pc s i \<in> {Critical, Clearing} \<longleftrightarrow> lock_cpu (the_lock s) = Some i" "pc s i \<noteq> Panicked"
  using assms unfolding lock_owner_def by blast+

lemma lock_inv_start: "lock_start s \<Longrightarrow> lock_inv s"
  unfolding lock_inv_def
  by (rule exI [of _ None]) (auto simp: lock_start_def lock_owner_def owned_def spin_initlock_def)

lemma lock_owner_upd:
  assumes s: "lock_owner s ow" and i: "owned p \<longleftrightarrow> ow' = Some i" "p \<noteq> Panicked"
    and others: "\<And>j. j \<noteq> i \<Longrightarrow> ow' = Some j \<longleftrightarrow> ow = Some j"
    and lk: "locked lk \<noteq> 0 \<longleftrightarrow> ow' \<noteq> None" "p \<in> {Critical, Clearing} \<longleftrightarrow> lock_cpu lk = Some i"
      "\<And>j. j \<noteq> i \<Longrightarrow> lock_cpu lk = Some j \<longleftrightarrow> lock_cpu (the_lock s) = Some j"
  shows "lock_owner (s\<lparr>the_lock := lk, pc := (pc s)(i := p)\<rparr>) ow'"
  unfolding lock_owner_def using i lk others lock_ownerD(2-4) [OF s] by simp

lemma lock_inv_step:
  assumes "lock_step s t" and "lock_inv s"
  shows "lock_inv t"
proof -
  obtain ow where ow: "lock_owner s ow" using assms(2) by (auto simp: lock_inv_def)
  note D = lock_ownerD [OF ow]
  have same: "s\<lparr>pc := f\<rparr> = s\<lparr>the_lock := the_lock s, pc := f\<rparr>" for f by simp
  from assms(1) show ?thesis
  proof cases
    case (lock_panic i)
    then show ?thesis using D(3) [of i] by (simp add: holding_def)
  next
    case (lock_call i)
    have "lock_owner t ow" unfolding lock_call(1) same
      using lock_call(2) D(1) D(2,3) [of i] by (intro lock_owner_upd [OF ow]) (auto simp: owned_def)
    then show ?thesis by (auto simp: lock_inv_def)
  next
    case (lock_xchg i old lk)
    have lk: "old = locked (the_lock s)" "lk = (the_lock s)\<lparr>locked := 1\<rparr>"
      using lock_xchg(3) by (simp_all add: xchg_locked_def)
    show ?thesis
    proof (cases "old = 0")
      case True
      then have "ow = None" using D(1) lk by auto
      then have "lock_owner t (Some i)" unfolding lock_xchg(1)
        using lock_xchg(2) True lk D(3) [of i] by (intro lock_owner_upd [OF ow]) (auto simp: owned_def)
      then show ?thesis by (auto simp: lock_inv_def)
    next
      case False
      then have "lock_owner t ow" unfolding lock_xchg(1)
        using lock_xchg(2) lk D(1) D(2,3) [of i] by (intro lock_owner_upd [OF ow]) (auto simp: owned_def)
      then show ?thesis by (auto simp: lock_inv_def)
    qed
  next
    case (lock_record i)
    then have "ow = Some i" using D(2) [of i] by (simp add: owned_def)
    moreover have "lock_cpu (the_lock s) \<noteq> Some j" if "j \<noteq> i" for j
      using D(2,3) [of j] calculation that by (auto simp: owned_def)
    ultimately have "lock_owner t ow" unfolding lock_record(1)
      using D(1) by (intro lock_owner_upd [OF ow]) (auto simp: owned_def)
    then show ?thesis by (auto simp: lock_inv_def)
  next
    case (unlock_panic i)
    then show ?thesis using D(1) D(2,3) [of i] by (simp add: holding_def owned_def)
  next
    case (unlock_call i)
    then have "lock_owner t ow" unfolding unlock_call(1) same
      using D(1) D(2,3) [of i] by (intro lock_owner_upd [OF ow]) (auto simp: owned_def)
    then show ?thesis by (auto simp: lock_inv_def)
  next
    case (unlock_clear i)
    then have "ow = Some i" "lock_cpu (the_lock s) = Some i" using D(2,3) [of i] by (simp_all add: owned_def)
    then have "lock_owner t ow" unfolding unlock_clear(1)
      using D(1) by (intro lock_owner_upd [OF ow]) (auto simp: owned_def)
    then show ?thesis by (auto simp: lock_inv_def)
  next
    case (unlock_xchg i)
    then have "ow = Some i" using D(2) [of i] by (simp add: owned_def)
    then have "lock_owner t None" unfolding unlock_xchg(1)
      using unlock_xchg(2) D(3) [of i] by (intro lock_owner_upd [OF ow]) (auto simp: owned_def xchg_locked_def)
    then show ?thesis by (auto simp: lock_inv_def)
  qed
qed

lemma lock_inv_reachable: "lock_step\<^sup>*\<^sup>* s t \<Longrightarrow> lock_inv s \<Longrightarrow> lock_inv t"
  by (induction rule: rtranclp_induct) (auto intro: lock_inv_step)

text \<open>
  \<^bold>\<open>C11.\<close> Mutual exclusion of the spin lock: from an initialised lock with no CPU inside, however the
  single memory accesses of \<^verbatim>\<open>spin_lock\<close> and \<^verbatim>\<open>spin_unlock\<close> of all CPUs interleave, at most
  one CPU is between a successful exchange and its release, and neither of the debug panics
  (``already holding'', releasing a lock not held) ever happens.
\<close>

theorem spinlock_mutual_exclusion:
  assumes "lock_start s" and "lock_step\<^sup>*\<^sup>* s t"
  shows "(owned (pc t i) \<and> owned (pc t j) \<longrightarrow> i = j) \<and> pc t i \<noteq> Panicked"
proof -
  have "lock_inv t" using lock_inv_reachable lock_inv_start assms by blast
  then obtain ow where ow: "lock_owner t ow" by (auto simp: lock_inv_def)
  then show ?thesis
    using lock_ownerD(2) [OF ow, of i] lock_ownerD(2) [OF ow, of j] lock_ownerD(4) [OF ow] by auto
qed

definition idle_lock :: lock_sys where
  "idle_lock = \<lparr>the_lock = \<lparr>locked = 0, lock_cpu = None\<rparr>, pc = (\<lambda>_. Outside)\<rparr>"

lemma idle_lock_start: "lock_start idle_lock"
  unfolding lock_start_def
  by (auto simp: idle_lock_def spin_initlock_def intro!: exI [of _ "\<lparr>locked = 0, lock_cpu = None\<rparr>"])

lemma idle_lock_steps:
  "lock_step\<^sup>*\<^sup>* idle_lock (idle_lock\<lparr>the_lock := \<lparr>locked = 1, lock_cpu = None\<rparr>,
     pc := (\<lambda>_. Outside)(0 := Recording)\<rparr>)"
proof -
  have "lock_step idle_lock (idle_lock\<lparr>pc := (pc idle_lock)(0 := Spinning)\<rparr>)"
    by (rule lock_call) (simp_all add: idle_lock_def holding_def)
  moreover have "lock_step (idle_lock\<lparr>pc := (pc idle_lock)(0 := Spinning)\<rparr>)
      (idle_lock\<lparr>the_lock := \<lparr>locked = 1, lock_cpu = None\<rparr>, pc := (\<lambda>_. Outside)(0 := Recording)\<rparr>)"
    using lock_xchg [of "idle_lock\<lparr>pc := (pc idle_lock)(0 := Spinning)\<rparr>" 0 0
        "\<lparr>locked = 1, lock_cpu = None\<rparr>"]
    by (simp add: idle_lock_def xchg_locked_def)
  ultimately show ?thesis by (metis converse_rtranclp_into_rtranclp rtranclp.rtrancl_refl)
qed

theorem spinlock_mutual_exclusion_witness:
  "owned (pc (idle_lock\<lparr>the_lock := \<lparr>locked = 1, lock_cpu = None\<rparr>,
     pc := (\<lambda>_. Outside)(0 := Recording)\<rparr>) 0) \<and>
   \<not> owned (pc (idle_lock\<lparr>the_lock := \<lparr>locked = 1, lock_cpu = None\<rparr>,
     pc := (\<lambda>_. Outside)(0 := Recording)\<rparr>) 1)"
  using spinlock_mutual_exclusion [OF idle_lock_start idle_lock_steps, of 0 1]
  by (simp add: owned_def)

subsection \<open>A waiting CPU can always still get the lock\<close>

lemma owner_releases:
  assumes "lock_owner s (Some j)"
  shows "\<exists>t. lock_step\<^sup>*\<^sup>* s t \<and> locked (the_lock t) = 0 \<and> (\<forall>i. i \<noteq> j \<longrightarrow> pc t i = pc s i)"
proof -
  have rel: "\<exists>t. lock_step\<^sup>*\<^sup>* u t \<and> locked (the_lock t) = 0 \<and> (\<forall>i. i \<noteq> j \<longrightarrow> pc t i = pc u i)"
    if "pc u j = Releasing" for u
    using unlock_xchg [OF that] by (intro exI conjI r_into_rtranclp) (auto simp: xchg_locked_def)
  have clear: "\<exists>t. lock_step\<^sup>*\<^sup>* u t \<and> locked (the_lock t) = 0 \<and> (\<forall>i. i \<noteq> j \<longrightarrow> pc t i = pc u i)"
    if "pc u j = Clearing" for u
    using unlock_clear [OF that] rel [of "u\<lparr>the_lock := (the_lock u)\<lparr>lock_cpu := None\<rparr>,
        pc := (pc u)(j := Releasing)\<rparr>"]
    by (auto intro: converse_rtranclp_into_rtranclp)
  have crit: "\<exists>t. lock_step\<^sup>*\<^sup>* u t \<and> locked (the_lock t) = 0 \<and> (\<forall>i. i \<noteq> j \<longrightarrow> pc t i = pc u i)"
    if "pc u j = Critical" "holding (the_lock u) j" for u
    using unlock_call [OF that] clear [of "u\<lparr>pc := (pc u)(j := Clearing)\<rparr>"]
    by (auto intro: converse_rtranclp_into_rtranclp)
  have rec: "\<exists>t. lock_step\<^sup>*\<^sup>* u t \<and> locked (the_lock t) = 0 \<and> (\<forall>i. i \<noteq> j \<longrightarrow> pc t i = pc u i)"
    if "pc u j = Recording" "locked (the_lock u) \<noteq> 0" for u
    using lock_record [OF that(1)] that crit [of "u\<lparr>the_lock := (the_lock u)\<lparr>lock_cpu := Some j\<rparr>,
        pc := (pc u)(j := Critical)\<rparr>"]
    by (auto simp: holding_def intro: converse_rtranclp_into_rtranclp)
  note D = lock_ownerD [OF assms]
  have "owned (pc s j)" using D(2) by simp
  then consider "pc s j = Recording" | "pc s j = Critical" | "pc s j = Clearing" | "pc s j = Releasing"
    by (auto simp: owned_def)
  then show ?thesis
  proof cases
    case 2
    then have "holding (the_lock s) j" using D(1) D(3) [of j] by (simp add: holding_def)
    then show ?thesis using crit 2 by blast
  qed (use rec clear rel D(1) in auto)
qed

text \<open>
  \<^bold>\<open>C12.\<close> The lock is never lost: in every reachable state a spinning CPU has a continuation of the
  system in which it acquires the lock.
\<close>

theorem spinlock_can_acquire:
  assumes "lock_start s" and "lock_step\<^sup>*\<^sup>* s t" and "pc t i = Spinning"
  shows "\<exists>u. lock_step\<^sup>*\<^sup>* t u \<and> pc u i = Recording"
proof -
  have "lock_inv t" using lock_inv_reachable lock_inv_start assms(1,2) by blast
  then obtain ow where ow: "lock_owner t ow" by (auto simp: lock_inv_def)
  obtain t' where t': "lock_step\<^sup>*\<^sup>* t t'" "locked (the_lock t') = 0" "pc t' i = Spinning"
  proof (cases ow)
    case None
    then show thesis using that [of t] lock_ownerD(1) [OF ow] assms(3) by auto
  next
    case (Some j)
    then have "i \<noteq> j" using lock_ownerD(2) [OF ow, of i] assms(3) by (auto simp: owned_def)
    then show thesis using that owner_releases [of t j] ow Some assms(3) by auto
  qed
  have "lock_step t' (t'\<lparr>the_lock := (the_lock t')\<lparr>locked := 1\<rparr>, pc := (pc t')(i := Recording)\<rparr>)"
    using lock_xchg [OF t'(3), of 0 "(the_lock t')\<lparr>locked := 1\<rparr>"] t'(2) by (simp add: xchg_locked_def)
  then have "lock_step\<^sup>*\<^sup>* t (t'\<lparr>the_lock := (the_lock t')\<lparr>locked := 1\<rparr>, pc := (pc t')(i := Recording)\<rparr>)"
    using t'(1) by (rule rtranclp.rtrancl_into_rtrancl [rotated])
  moreover have "pc (t'\<lparr>the_lock := (the_lock t')\<lparr>locked := 1\<rparr>, pc := (pc t')(i := Recording)\<rparr>) i = Recording"
    by simp
  ultimately show ?thesis by blast
qed

lemma idle_lock_spin:
  "lock_step\<^sup>*\<^sup>* idle_lock (idle_lock\<lparr>pc := (pc idle_lock)(1 := Spinning)\<rparr>)"
  by (rule r_into_rtranclp, rule lock_call) (simp_all add: idle_lock_def holding_def)

theorem spinlock_can_acquire_witness:
  "\<exists>u. lock_step\<^sup>*\<^sup>* (idle_lock\<lparr>pc := (pc idle_lock)(1 := Spinning)\<rparr>) u \<and> pc u 1 = Recording"
  by (rule spinlock_can_acquire [OF idle_lock_start idle_lock_spin]) simp

end
