(* ===== verification/Kern_Env.thy ===== *)
theory Kern_Env
  imports Kern_Pmap_User Kern_Spinlock
begin

text \<open>
  Environments (\<^verbatim>\<open>kern/env.c\<close>) and the scheduler (\<^verbatim>\<open>kern/sched.c\<close>), which call each other:
  identifiers, allocation, address-space set-up and tear-down, program loading, the context switch
  and the round-robin choice. The ELF images the kernel embeds are byte functions passed as
  parameters. \<^verbatim>\<open>iret\<close> into user mode is the outcome \<open>Leave (Run_env e)\<close>, halting is
  \<open>Leave Cpu_halt\<close>.
\<close>

subsection \<open>Segment descriptors (inc/mmu.h) and the GDT\<close>

record Segdesc =
  sd_lim_15_0 :: u32
  sd_base_15_0 :: u32
  sd_base_23_16 :: u32
  sd_type :: u32
  sd_s :: u32
  sd_dpl :: u32
  sd_p :: u32
  sd_lim_19_16 :: u32
  sd_avl :: u32
  sd_rsv1 :: u32
  sd_db :: u32
  sd_g :: u32
  sd_base_31_24 :: u32

definition SEG_NULL :: Segdesc where
  "SEG_NULL = \<lparr>sd_lim_15_0 = 0, sd_base_15_0 = 0, sd_base_23_16 = 0, sd_type = 0, sd_s = 0,
     sd_dpl = 0, sd_p = 0, sd_lim_19_16 = 0, sd_avl = 0, sd_rsv1 = 0, sd_db = 0, sd_g = 0,
     sd_base_31_24 = 0\<rparr>"

definition SEG :: "u32 \<Rightarrow> u32 \<Rightarrow> u32 \<Rightarrow> u32 \<Rightarrow> Segdesc" where
  "SEG type base lim dpl =
     \<lparr>sd_lim_15_0 = drop_bit 12 lim AND 0xFFFF, sd_base_15_0 = base AND 0xFFFF,
      sd_base_23_16 = drop_bit 16 base AND 0xFF, sd_type = type, sd_s = 1, sd_dpl = dpl, sd_p = 1,
      sd_lim_19_16 = drop_bit 28 lim, sd_avl = 0, sd_rsv1 = 0, sd_db = 1, sd_g = 1,
      sd_base_31_24 = drop_bit 24 base\<rparr>"

definition SEG16 :: "u32 \<Rightarrow> u32 \<Rightarrow> u32 \<Rightarrow> u32 \<Rightarrow> Segdesc" where
  "SEG16 type base lim dpl =
     \<lparr>sd_lim_15_0 = lim AND 0xFFFF, sd_base_15_0 = base AND 0xFFFF,
      sd_base_23_16 = drop_bit 16 base AND 0xFF, sd_type = type, sd_s = 1, sd_dpl = dpl, sd_p = 1,
      sd_lim_19_16 = drop_bit 16 lim, sd_avl = 0, sd_rsv1 = 0, sd_db = 1, sd_g = 0,
      sd_base_31_24 = drop_bit 24 base\<rparr>"

definition STA_X :: u32 where "STA_X = 0x8"
definition STA_W :: u32 where "STA_W = 0x2"
definition STA_R :: u32 where "STA_R = 0x2"

definition gdt :: "nat \<Rightarrow> Segdesc" where
  "gdt i =
     (if i = unat (drop_bit 3 GD_KT) then SEG (STA_X OR STA_R) 0x0 0xFFFFFFFF 0
      else if i = unat (drop_bit 3 GD_KD) then SEG STA_W 0x0 0xFFFFFFFF 0
      else if i = unat (drop_bit 3 GD_UT) then SEG (STA_X OR STA_R) 0x0 0xFFFFFFFF 3
      else if i = unat (drop_bit 3 GD_UD) then SEG STA_W 0x0 0xFFFFFFFF 3
      else SEG_NULL)"

subsection \<open>Environment identifiers\<close>

definition envid2env :: "u32 \<Rightarrow> bool \<Rightarrow> (kstate, u32 \<times> nat option) op" where
  "envid2env envid checkperm = (\<lambda>s.
     if envid = 0 then Ret (0, curenv s) s
     else
       let e = ENVX envid in
       if env_status (envs s e) = ENV_FREE \<or> env_id (envs s e) \<noteq> envid
       then Ret (err E_BAD_ENV, None) s
       else if checkperm \<and> Some e \<noteq> curenv s
       then (case curenv s of
               None \<Rightarrow> Panic ''null dereference''
             | Some c \<Rightarrow>
                 if env_parent_id (envs s e) \<noteq> env_id (envs s c)
                 then Ret (err E_BAD_ENV, None) s
                 else Ret (0, Some e) s)
       else Ret (0, Some e) s)"

subsection \<open>Initialisation\<close>

definition env_init_slot :: "nat \<Rightarrow> (kstate, unit) op" where
  "env_init_slot i = modify (\<lambda>s.
     (upd_env i (\<lambda>e. e\<lparr>env_id := 0, env_status := ENV_FREE, env_link := env_free_list s\<rparr>) s)
     \<lparr>env_free_list := Some i\<rparr>)"

definition env_init :: "(kstate, unit) op" where
  "env_init = andthen (modify (\<lambda>s. s\<lparr>env_free_list := None\<rparr>)) (\<lambda>_.
              each env_init_slot (rev [0 ..< NENV]))"

subsection \<open>Allocation\<close>

definition copy_pdes :: "u32 \<Rightarrow> u32 \<Rightarrow> nat \<Rightarrow> (kstate, unit) op" where
  "copy_pdes pgdir kpgdir i =
     andthen (kload (kpgdir + 4 * word_of_nat i)) (\<lambda>pde.
     kstore (pgdir + 4 * word_of_nat i) pde)"

definition env_setup_vm :: "nat \<Rightarrow> (kstate, u32) op" where
  "env_setup_vm e =
     andthen (page_alloc True) (\<lambda>r.
     case r of
       None \<Rightarrow> ret (err E_NO_MEM)
     | Some p \<Rightarrow>
         andthen (page2kva p) (\<lambda>pgdir.
         andthen (modify (upd_env e (\<lambda>x. x\<lparr>env_pgdir := pgdir\<rparr>))) (\<lambda>_.
         andthen (modify (upd_page p (\<lambda>x. x\<lparr>pp_ref := pp_ref x + 1\<rparr>))) (\<lambda>_.
         andthen (each (\<lambda>i. kstore (pgdir + 4 * word_of_nat i) 0) [0 ..< unat (PDX UTOP)]) (\<lambda>_.
         andthen (gets kern_pgdir) (\<lambda>kpgdir.
         andthen (each (copy_pdes pgdir kpgdir) [unat (PDX UTOP) ..< NPDENTRIES]) (\<lambda>_.
         andthen (PADDR pgdir) (\<lambda>pa.
         andthen (kstore (pgdir + 4 * PDX UVPT) (pa OR PTE_P OR PTE_U)) (\<lambda>_.
         ret 0)))))))))"

definition env_generation :: "u32 \<Rightarrow> u32" where
  "env_generation old =
     (let generation = (old + push_bit 12 1) AND NOT (word_of_nat NENV - 1)
      in if sint generation \<le> 0 then push_bit 12 1 else generation)"

definition new_env_id :: "u32 \<Rightarrow> nat \<Rightarrow> u32" where
  "new_env_id old e = env_generation old OR word_of_nat e"

definition new_trapframe :: Trapframe where
  "new_trapframe = zero_tf\<lparr>tf_ds := GD_UD OR 3, tf_es := GD_UD OR 3, tf_ss := GD_UD OR 3,
     tf_esp := USTACKTOP, tf_cs := GD_UT OR 3, tf_eflags := tf_eflags zero_tf OR FL_IF\<rparr>"

definition env_alloc :: "u32 \<Rightarrow> (kstate, u32 \<times> nat option) op" where
  "env_alloc parent_id =
     andthen (gets env_free_list) (\<lambda>h.
     case h of
       None \<Rightarrow> ret (err E_NO_FREE_ENV, None)
     | Some e \<Rightarrow>
         andthen (env_setup_vm e) (\<lambda>r.
         if sint r < 0 then ret (r, None)
         else andthen (modify (\<lambda>s. upd_env e (\<lambda>x. x\<lparr>
                env_id := new_env_id (env_id x) e,
                env_parent_id := parent_id, env_type := ENV_TYPE_USER,
                env_status := ENV_RUNNABLE, env_runs := 0, env_tf := new_trapframe,
                env_pgfault_upcall := 0, env_ipc_recving := False\<rparr>) s)) (\<lambda>_.
              andthen (modify (\<lambda>s. s\<lparr>env_free_list := env_link (envs s e)\<rparr>)) (\<lambda>_.
              ret (0, Some e)))))"

subsection \<open>Loading a program\<close>

text \<open>
  The loop of \<^verbatim>\<open>region_alloc\<close>; as in \<open>user_mem_check\<close> its bounds are page-aligned, so the
  addresses are counted as natural numbers. The result of \<^verbatim>\<open>page_insert\<close> is ignored, as in the
  source.
\<close>

function region_pages :: "nat \<Rightarrow> nat \<Rightarrow> nat \<Rightarrow> (kstate, unit) op" where
  "region_pages e start end_va =
     (if start < end_va then
        andthen (page_alloc False) (\<lambda>r.
        case r of
          None \<Rightarrow> panic ''page allocation failed!''
        | Some pg \<Rightarrow>
            andthen (gets (\<lambda>s. env_pgdir (envs s e))) (\<lambda>pgdir.
            andthen (page_insert pgdir pg (word_of_nat start) (PTE_W OR PTE_U)) (\<lambda>_.
            region_pages e (start + 4096) end_va)))
      else ret ())"
  by pat_completeness auto
termination
  by (relation "measure (\<lambda>(_, start, end_va). end_va - start)") auto

declare region_pages.simps [simp del]

definition region_alloc :: "nat \<Rightarrow> u32 \<Rightarrow> u32 \<Rightarrow> (kstate, unit) op" where
  "region_alloc e va len =
     region_pages e (unat (ROUNDDOWN va PGSIZE)) (unat (ROUNDUP (va + len) PGSIZE))"

text \<open>Byte stores through the current page directory.\<close>

definition set_byte :: "u32 \<Rightarrow> nat \<Rightarrow> u8 \<Rightarrow> u32" where
  "set_byte w k b = (w AND NOT (push_bit (8 * k) 0xFF)) OR push_bit (8 * k) (ucast b)"

definition vstore_byte :: "u32 \<Rightarrow> u8 \<Rightarrow> (kstate, unit) op" where
  "vstore_byte va b = (\<lambda>s. case mmu_translate s True va of
       None \<Rightarrow> Panic ''page fault in kernel mode''
     | Some pa \<Rightarrow> let i = unat pa div 4 in
         Ret () (s\<lparr>mem := (mem s)(i := set_byte (mem s i) (unat pa mod 4) b)\<rparr>))"

definition vmemset :: "u32 \<Rightarrow> u8 \<Rightarrow> u32 \<Rightarrow> (kstate, unit) op" where
  "vmemset va c n = each (\<lambda>i. vstore_byte (va + word_of_nat i) c) [0 ..< unat n]"

definition vmemcpy :: "u32 \<Rightarrow> (nat \<Rightarrow> u8) \<Rightarrow> u32 \<Rightarrow> (kstate, unit) op" where
  "vmemcpy va src n = each (\<lambda>i. vstore_byte (va + word_of_nat i) (src i)) [0 ..< unat n]"

definition le16 :: "(nat \<Rightarrow> u8) \<Rightarrow> nat \<Rightarrow> u32" where
  "le16 img o1 = ucast (img o1) OR push_bit 8 (ucast (img (o1 + 1)))"

definition le32 :: "(nat \<Rightarrow> u8) \<Rightarrow> nat \<Rightarrow> u32" where
  "le32 img o1 = le16 img o1 OR push_bit 16 (le16 img (o1 + 2))"

definition ELF_MAGIC :: u32 where "ELF_MAGIC = 0x464C457F"
definition ELF_PROG_LOAD :: u32 where "ELF_PROG_LOAD = 1"

record Proghdr =
  p_type :: u32
  p_offset :: u32
  p_va :: u32
  p_pa :: u32
  p_filesz :: u32
  p_memsz :: u32
  p_flags :: u32
  p_align :: u32

definition read_proghdr :: "(nat \<Rightarrow> u8) \<Rightarrow> nat \<Rightarrow> Proghdr" where
  "read_proghdr img o1 =
     \<lparr>p_type = le32 img o1, p_offset = le32 img (o1 + 4), p_va = le32 img (o1 + 8),
      p_pa = le32 img (o1 + 12), p_filesz = le32 img (o1 + 16), p_memsz = le32 img (o1 + 20),
      p_flags = le32 img (o1 + 24), p_align = le32 img (o1 + 28)\<rparr>"

definition elf_magic :: "(nat \<Rightarrow> u8) \<Rightarrow> u32" where "elf_magic img = le32 img 0"
definition elf_entry :: "(nat \<Rightarrow> u8) \<Rightarrow> u32" where "elf_entry img = le32 img 24"
definition elf_phoff :: "(nat \<Rightarrow> u8) \<Rightarrow> u32" where "elf_phoff img = le32 img 28"
definition elf_phnum :: "(nat \<Rightarrow> u8) \<Rightarrow> u32" where "elf_phnum img = le16 img 44"

definition load_segment :: "nat \<Rightarrow> (nat \<Rightarrow> u8) \<Rightarrow> Proghdr \<Rightarrow> (kstate, unit) op" where
  "load_segment e img ph =
     (if p_type ph = ELF_PROG_LOAD then
        (if p_memsz ph < p_filesz ph then panic ''load_icode failed:p_memsz<p_filesz.''
         else andthen (region_alloc e (p_va ph) (p_memsz ph)) (\<lambda>_.
              andthen (vmemset (p_va ph) 0 (p_memsz ph)) (\<lambda>_.
              vmemcpy (p_va ph) (\<lambda>i. img (unat (p_offset ph) + i)) (p_filesz ph))))
      else ret ())"

definition load_icode :: "nat \<Rightarrow> (nat \<Rightarrow> u8) \<Rightarrow> (kstate, unit) op" where
  "load_icode e binary =
     (if elf_magic binary \<noteq> ELF_MAGIC then panic ''load_icode failed:the binary is not elf.''
      else if elf_entry binary = 0 then panic ''load_icode failed:the elf can not be executed.''
      else
        andthen (modify (upd_env e (\<lambda>x. x\<lparr>env_tf := (env_tf x)\<lparr>tf_eip := elf_entry binary\<rparr>\<rparr>))) (\<lambda>_.
        andthen (gets (\<lambda>s. env_pgdir (envs s e))) (\<lambda>pgdir.
        andthen (PADDR pgdir) (\<lambda>pa.
        andthen (lcr3 pa) (\<lambda>_.
        andthen (each (\<lambda>i. load_segment e binary
                   (read_proghdr binary (unat (elf_phoff binary) + 32 * i)))
                 [0 ..< unat (elf_phnum binary)]) (\<lambda>_.
        andthen (gets kern_pgdir) (\<lambda>kpgdir.
        andthen (PADDR kpgdir) (\<lambda>kpa.
        andthen (lcr3 kpa) (\<lambda>_.
        region_alloc e (USTACKTOP - PGSIZE) PGSIZE)))))))))"

definition env_create :: "(nat \<Rightarrow> u8) \<Rightarrow> EnvType \<Rightarrow> (kstate, unit) op" where
  "env_create binary type =
     andthen (env_alloc 0) (\<lambda>(r, eo).
     case eo of
       None \<Rightarrow> panic ''env_create failed: env_alloc failed.''
     | Some e \<Rightarrow>
         if r \<noteq> 0 then panic ''env_create failed: env_alloc failed.''
         else andthen (load_icode e binary) (\<lambda>_.
              andthen (modify (upd_env e (\<lambda>x. x\<lparr>env_type := type\<rparr>))) (\<lambda>_.
              if type = ENV_TYPE_FS
              then modify (upd_env e (\<lambda>x. x\<lparr>env_tf :=
                     (env_tf x)\<lparr>tf_eflags := tf_eflags (env_tf x) OR FL_IOPL_MASK\<rparr>\<rparr>))
              else ret ())))"

subsection \<open>Release\<close>

definition free_pte :: "u32 \<Rightarrow> u32 \<Rightarrow> nat \<Rightarrow> nat \<Rightarrow> (kstate, unit) op" where
  "free_pte pgdir pt pdeno pteno =
     andthen (kload (pt + 4 * word_of_nat pteno)) (\<lambda>pte.
     if pte AND PTE_P \<noteq> 0
     then page_remove pgdir (PGADDR (word_of_nat pdeno) (word_of_nat pteno) 0)
     else ret ())"

definition free_pde :: "u32 \<Rightarrow> nat \<Rightarrow> (kstate, unit) op" where
  "free_pde pgdir pdeno =
     andthen (kload (pgdir + 4 * word_of_nat pdeno)) (\<lambda>pde.
     if pde AND PTE_P = 0 then ret ()
     else
       andthen (KADDR (PTE_ADDR pde)) (\<lambda>pt.
       andthen (each (free_pte pgdir pt pdeno) [0 ..< unat (PTX (NOT 0)) + 1]) (\<lambda>_.
       andthen (kstore (pgdir + 4 * word_of_nat pdeno) 0) (\<lambda>_.
       andthen (pa2page (PTE_ADDR pde)) (\<lambda>pp.
       page_decref pp)))))"

definition env_free :: "nat \<Rightarrow> (kstate, unit) op" where
  "env_free e =
     andthen (gets (\<lambda>s. (curenv s, kern_pgdir s))) (\<lambda>(cur, kpgdir).
     andthen (if cur = Some e then andthen (PADDR kpgdir) lcr3 else ret ()) (\<lambda>_.
     andthen (gets (\<lambda>s. env_pgdir (envs s e))) (\<lambda>pgdir.
     andthen (each (free_pde pgdir) [0 ..< unat (PDX UTOP)]) (\<lambda>_.
     andthen (PADDR pgdir) (\<lambda>pa.
     andthen (modify (upd_env e (\<lambda>x. x\<lparr>env_pgdir := 0\<rparr>))) (\<lambda>_.
     andthen (pa2page pa) (\<lambda>pp.
     andthen (page_decref pp) (\<lambda>_.
     modify (\<lambda>s. (upd_env e (\<lambda>x. x\<lparr>env_status := ENV_FREE, env_link := env_free_list s\<rparr>) s)
                 \<lparr>env_free_list := Some e\<rparr>)))))))))"

subsection \<open>Running\<close>

definition env_pop_tf :: "(kstate, unit) op" where
  "env_pop_tf = (\<lambda>s. case curenv s of
      None \<Rightarrow> Panic ''null dereference''
    | Some c \<Rightarrow> Leave (Run_env c) (upd_env c (\<lambda>x. x\<lparr>env_cpunum := this_cpu s\<rparr>) s))"

definition env_run :: "nat \<Rightarrow> (kstate, unit) op" where
  "env_run e =
     andthen (modify (\<lambda>s. case curenv s of
        None \<Rightarrow> s
      | Some c \<Rightarrow> if env_status (envs s c) = ENV_RUNNING
                 then upd_env c (\<lambda>x. x\<lparr>env_status := ENV_RUNNABLE\<rparr>) s else s)) (\<lambda>_.
     andthen (modify (set_curenv (Some e))) (\<lambda>_.
     andthen (modify (upd_env e (\<lambda>x. x\<lparr>env_status := ENV_RUNNING, env_runs := env_runs x + 1\<rparr>))) (\<lambda>_.
     andthen (gets (\<lambda>s. env_pgdir (envs s e))) (\<lambda>pgdir.
     andthen (PADDR pgdir) (\<lambda>pa.
     andthen (lcr3 pa) (\<lambda>_.
     andthen unlock_kernel (\<lambda>_.
     env_pop_tf)))))))"

subsection \<open>The scheduler (kern/sched.c)\<close>

definition sched_halt :: "(kstate, unit) op" where
  "sched_halt = (\<lambda>s.
     if \<not> (\<exists>i \<in> set [0 ..< NENV]. env_status (envs s i) \<in> {ENV_RUNNABLE, ENV_RUNNING, ENV_DYING})
     then Leave Monitor_loop s
     else
       (andthen (modify (set_curenv None)) (\<lambda>_.
        andthen (gets kern_pgdir) (\<lambda>kpgdir.
        andthen (PADDR kpgdir) (\<lambda>pa.
        andthen (lcr3 pa) (\<lambda>_.
        andthen (modify (\<lambda>s. s\<lparr>cpus := (cpus s)(this_cpu s :=
                   (cpus s (this_cpu s))\<lparr>cpu_status := CPU_HALTED\<rparr>)\<rparr>)) (\<lambda>_.
        andthen unlock_kernel (\<lambda>_ s.
        Leave Cpu_halt s)))))) s))"

text \<open>
  The search loop: \<open>n\<close> iterations are left and \<open>i\<close> is the slot looked at next. Since \<^verbatim>\<open>env_run\<close>
  does not return, the loop ends with the first runnable slot. The first index is
  \<^verbatim>\<open>ENVX(idle->env_id) + 1\<close>, which the source does not reduce modulo \<^verbatim>\<open>NENV\<close>.
\<close>

primrec sched_search :: "nat \<Rightarrow> nat \<Rightarrow> (kstate, unit) op \<Rightarrow> (kstate, unit) op" where
  "sched_search 0 i none = none"
| "sched_search (Suc n) i none = (\<lambda>s.
     if env_status (envs s i) = ENV_RUNNABLE
     then andthen (modify (upd_env i (\<lambda>x. x\<lparr>env_cpunum := this_cpu s\<rparr>))) (\<lambda>_.
          andthen (env_run i) (\<lambda>_.
          sched_search n ((i + 1) mod NENV) none)) s
     else sched_search n ((i + 1) mod NENV) none s)"

definition sched_start :: "kstate \<Rightarrow> nat" where
  "sched_start s = (case curenv s of None \<Rightarrow> 0 | Some c \<Rightarrow> ENVX (env_id (envs s c)) + 1)"

definition sched_yield :: "(kstate, unit) op" where
  "sched_yield = (\<lambda>s.
     sched_search NENV (sched_start s)
       (case curenv s of
          Some idle \<Rightarrow> (\<lambda>t.
            if env_status (envs t idle) = ENV_RUNNING
            then andthen (modify (\<lambda>t. case curenv t of
                   None \<Rightarrow> t | Some c \<Rightarrow> upd_env c (\<lambda>x. x\<lparr>env_cpunum := this_cpu t\<rparr>) t)) (\<lambda>_.
                 andthen (env_run idle) (\<lambda>_.
                 sched_halt)) t
            else sched_halt t)
        | None \<Rightarrow> sched_halt) s)"

definition env_destroy :: "nat \<Rightarrow> (kstate, unit) op" where
  "env_destroy e = (\<lambda>s.
     if env_status (envs s e) = ENV_RUNNING \<and> curenv s \<noteq> Some e
     then Ret () (upd_env e (\<lambda>x. x\<lparr>env_status := ENV_DYING\<rparr>) s)
     else andthen (env_free e) (\<lambda>_.
          andthen (gets curenv) (\<lambda>cur.
          if cur = Some e
          then andthen (modify (set_curenv None)) (\<lambda>_. sched_yield)
          else ret ())) s)"

definition user_mem_assert :: "nat \<Rightarrow> u32 \<Rightarrow> u32 \<Rightarrow> u32 \<Rightarrow> (kstate, unit) op" where
  "user_mem_assert env va len perm =
     andthen (user_mem_check env va len (perm OR PTE_U)) (\<lambda>r.
     if sint r < 0 then env_destroy env else ret ())"

end
