(* ===== verification/Kern_Env_Ids.thy ===== *)
theory Kern_Env_Ids
  imports Kern_Env
begin

text \<open>
  Environment identifiers and the list of free environments: \<^verbatim>\<open>env_init\<close>,
  \<^verbatim>\<open>envid2env\<close> and the generation numbers of \<^verbatim>\<open>env_alloc\<close>.
\<close>

subsection \<open>The free list of environments\<close>

definition env_links :: "kstate \<Rightarrow> nat \<Rightarrow> nat option" where
  "env_links s = (\<lambda>i. env_link (envs s i))"

definition set_env_link :: "nat \<Rightarrow> nat option \<Rightarrow> kstate \<Rightarrow> kstate" where
  "set_env_link i v s = upd_env i (\<lambda>e. e\<lparr>env_link := v\<rparr>) s"

definition set_env_head :: "nat option \<Rightarrow> kstate \<Rightarrow> kstate" where
  "set_env_head h s = s\<lparr>env_free_list := h\<rparr>"

interpretation el: intrusive_list env_links env_free_list set_env_link set_env_head
  by unfold_locales
    (auto simp: env_links_def set_env_link_def set_env_head_def upd_env_def fun_eq_iff)

definition env_inv :: "kstate \<Rightarrow> nat list \<Rightarrow> bool" where
  "env_inv s fl \<longleftrightarrow> el.is_list s fl \<and> set fl = {i. i < NENV \<and> env_status (envs s i) = ENV_FREE}"

lemma env_init_loop:
  assumes "el.is_list s fl" and "distinct js" and "set js \<inter> set fl = {}"
  shows "\<exists>s'. each env_init_slot js s = Ret () s' \<and> el.is_list s' (rev js @ fl) \<and>
    (\<forall>i. envs s' i = (if i \<in> set js then (envs s' i)\<lparr>env_id := 0, env_status := ENV_FREE\<rparr> else envs s i))"
  using assms
proof (induction js arbitrary: s fl)
  case (Cons j js)
  let ?s = "(upd_env j (\<lambda>e. e\<lparr>env_id := 0, env_status := ENV_FREE, env_link := env_free_list s\<rparr>) s)
     \<lparr>env_free_list := Some j\<rparr>"
  have push: "?s = el.push j (upd_env j (\<lambda>e. e\<lparr>env_id := 0, env_status := ENV_FREE\<rparr>) s)"
    by (simp add: el.push_def set_env_link_def set_env_head_def upd_env_def)
  have "env_links (upd_env j (\<lambda>e. e\<lparr>env_id := 0, env_status := ENV_FREE\<rparr>) s) = env_links s"
    by (auto simp: env_links_def upd_env_def fun_eq_iff)
  then have "el.is_list (upd_env j (\<lambda>e. e\<lparr>env_id := 0, env_status := ENV_FREE\<rparr>) s) fl"
    using Cons.prems(1) by (simp add: el.is_list_def) (simp add: upd_env_def)
  then have "el.is_list ?s (j # fl)" unfolding push using Cons.prems(3) by (intro el.is_list_push) auto
  moreover have "set js \<inter> set (j # fl) = {}" using Cons.prems by auto
  ultimately obtain s' where s': "each env_init_slot js ?s = Ret () s'" "el.is_list s' (rev js @ j # fl)"
    "\<forall>i. envs s' i = (if i \<in> set js then (envs s' i)\<lparr>env_id := 0, env_status := ENV_FREE\<rparr> else envs ?s i)"
    using Cons.IH [of ?s "j # fl"] Cons.prems(2) by auto
  have "each env_init_slot (j # js) s = Ret () s'" using s'(1) by (simp add: env_init_slot_def)
  moreover have "envs s' i = (if i \<in> set (j # js)
      then (envs s' i)\<lparr>env_id := 0, env_status := ENV_FREE\<rparr> else envs s i)" for i
    using spec [OF s'(3), of i] Cons.prems(2) by (auto simp: upd_env_def split: if_splits)
  ultimately show ?case using s'(2) by auto
qed simp

text \<open>
  \<^bold>\<open>C26.\<close> \<^verbatim>\<open>env_init\<close> puts all environments, and nothing else, on the free list in the order of
  the array, each free and with identifier 0.
\<close>

theorem env_init_order:
  "\<exists>s'. env_init s = Ret () s' \<and> env_inv s' [0 ..< NENV] \<and>
     (\<forall>i < NENV. env_id (envs s' i) = 0 \<and> env_status (envs s' i) = ENV_FREE)"
proof -
  let ?s = "s\<lparr>env_free_list := None\<rparr>"
  have "el.is_list ?s []" by (simp add: el.is_list_def)
  then obtain s' where s': "each env_init_slot (rev [0 ..< NENV]) ?s = Ret () s'"
    "el.is_list s' [0 ..< NENV]"
    "\<forall>i. envs s' i = (if i \<in> set (rev [0 ..< NENV]) then (envs s' i)\<lparr>env_id := 0, env_status := ENV_FREE\<rparr> else envs ?s i)"
    using env_init_loop [of ?s "[]" "rev [0 ..< NENV]"] by auto
  have f: "env_id (envs s' i) = 0 \<and> env_status (envs s' i) = ENV_FREE" if "i < NENV" for i
    using spec [OF s'(3), of i] that by (cases "envs s' i") auto
  then have "env_inv s' [0 ..< NENV]" using s'(2) by (auto simp: env_inv_def)
  then show ?thesis using s'(1) f by (auto simp: env_init_def)
qed

theorem env_init_order_witness:
  "\<exists>s'. env_init small_machine = Ret () s' \<and> env_inv s' [0 ..< NENV] \<and> env_id (envs s' 5) = 0"
  using env_init_order [of small_machine] by (auto simp: NENV_def)

subsection \<open>Identifiers\<close>

lemma aligned_lt_half:
  fixes n :: nat
  assumes "n < 2147483648" and "n mod 1024 = 0" and "e < 1024"
  shows "n + e < 2147483648"
proof -
  have "n = n div 1024 * 1024" using assms(2) div_mult_mod_eq [of n 1024] by simp
  moreover have "n div 1024 < 2097152" using assms(1) by (simp add: div_less_iff_less_mult)
  ultimately show ?thesis using assms(3) by linarith
qed

lemma NENV_mask: "word_of_nat NENV - 1 = (mask 10 :: u32)"
  by (simp add: NENV_def mask_eq_exp_minus_1)

lemma unat_ENVX: "ENVX envid = unat envid mod 1024"
  using and_mask_mod [of envid 10] by (simp add: ENVX_def mask_eq_exp_minus_1)

lemma ENVX_lt: "ENVX envid < NENV"
  by (simp add: unat_ENVX NENV_def)

lemma gen_mask: "(w AND NOT (word_of_nat NENV - 1) :: u32) = w AND NOT (mask 10)"
  by (simp add: NENV_mask)

lemma unat_and_not_mask10: "unat (w AND NOT (mask 10) :: u32) mod 1024 = 0"
  using unat_and_not_mask [of w 10] by (simp add: minus_mod_eq_mult_div)

lemma and_not_mask_add: "(w + 0x1000) AND NOT (mask 10) = (w AND NOT (mask 10)) + (0x1000 :: u32)"
proof -
  let ?a = "(w AND NOT (mask 10)) + 0x1000" and ?b = "w AND mask 10"
  have "unat ?a = (unat (w AND NOT (mask 10)) + 4096) mod 4294967296"
    by (simp add: unat_word_ariths)
  moreover have "1024 dvd unat (w AND NOT (mask 10)) + 4096"
    using unat_and_not_mask10 [of w] by (intro dvd_add) (simp_all add: mod_eq_0_iff_dvd)
  ultimately have "1024 dvd unat ?a" by (simp add: dvd_mod)
  then have a: "unat ?a mod 2 ^ 10 = 0" by (simp add: mod_eq_0_iff_dvd)
  have b: "unat ?b < 2 ^ 10" by (simp add: and_mask_mod)
  have "(w AND NOT (mask 10)) AND ?b = 0" "(w AND NOT (mask 10)) OR ?b = w"
    by (rule bit_eqI; auto simp: bit_simps)+
  then have "w = (w AND NOT (mask 10)) + ?b" using or_disjoint_add by metis
  then have "w + 0x1000 = ?a + ?b" by (simp add: algebra_simps)
  also have "\<dots> = ?a OR ?b" using or_disjoint_add [OF and_low_disjoint [OF a b]] by simp
  finally have "(w + 0x1000) AND NOT (mask 10) = (?a OR ?b) AND NOT (mask 10)" by simp
  also have "\<dots> = ?a AND NOT (mask 10)" by (rule bit_eqI) (auto simp: bit_simps)
  also have "\<dots> = ?a" using a by (simp add: word_unat_eq_iff unat_and_not_mask)
  finally show ?thesis .
qed

lemma env_generation_props:
  shows "0 < sint (env_generation old)" and "unat (env_generation old) mod 1024 = 0"
    and "env_generation old \<noteq> old AND NOT (mask 10)"
proof -
  let ?g = "(old + push_bit 12 1) AND NOT (mask 10) :: u32"
  have g: "env_generation old = (if sint ?g \<le> 0 then 0x1000 else ?g)"
    by (simp add: env_generation_def gen_mask)
  show "0 < sint (env_generation old)" by (simp add: g)
  show "unat (env_generation old) mod 1024 = 0" by (simp add: g unat_and_not_mask10)
  have step: "?g = (old AND NOT (mask 10)) + 0x1000" by (simp add: and_not_mask_add)
  show "env_generation old \<noteq> old AND NOT (mask 10)"
  proof (cases "sint ?g \<le> 0")
    case True
    show ?thesis
    proof
      assume "env_generation old = old AND NOT (mask 10)"
      then have "?g = 0x2000" using step g True by simp
      then show False using True by simp
    qed
  next
    case False
    then show ?thesis using g step by simp
  qed
qed

lemma unat_new_env_id:
  assumes "e < NENV"
  shows "unat (new_env_id old e) = unat (env_generation old) + e"
proof -
  have e: "unat (word_of_nat e :: u32) = e" using assms by (simp add: NENV_def unat_of_nat)
  then show ?thesis
    using unat_or_low [of "env_generation old" 10 "word_of_nat e"] env_generation_props(2) assms
    by (simp add: new_env_id_def NENV_def)
qed

lemma new_env_id_props:
  assumes "e < NENV"
  shows "ENVX (new_env_id old e) = e" and "0 < sint (new_env_id old e)"
    and "old = 0 \<or> ENVX old = e \<Longrightarrow> new_env_id old e \<noteq> old"
proof -
  note u = unat_new_env_id [OF assms]
  have e: "e < 1024" using assms by (simp add: NENV_def)
  show "ENVX (new_env_id old e) = e"
    using e env_generation_props(2) [of old] mod_add_left_eq [of "unat (env_generation old)" 1024 e]
    by (simp add: unat_ENVX u)
  have pos: "0 < unat (env_generation old)" "unat (env_generation old) < 2147483648"
    using env_generation_props(1) [of old] by (auto simp: sint_pos_iff)
  have "unat (env_generation old) + e < 2147483648"
    using pos(2) env_generation_props(2) [of old] e by (rule aligned_lt_half)
  then show "0 < sint (new_env_id old e)" using pos(1) u by (simp add: sint_pos_iff)
  show "new_env_id old e \<noteq> old" if "old = 0 \<or> ENVX old = e"
  proof
    assume eq: "new_env_id old e = old"
    have "unat old = unat (env_generation old) + e" using u [of old] unfolding eq .
    then have "unat old - unat old mod 1024 = unat (env_generation old)"
      using e env_generation_props(2) [of old] mod_add_left_eq [of "unat (env_generation old)" 1024 e]
      by simp
    then have "old AND NOT (mask 10) = env_generation old"
      using unat_and_not_mask [of old 10] by (simp add: word_unat_eq_iff)
    then show False using env_generation_props(3) [of old] by simp
  qed
qed

text \<open>
  \<^bold>\<open>C27.\<close> The identifier \<^verbatim>\<open>env_alloc\<close> gives slot \<open>e\<close>: \<^verbatim>\<open>ENVX\<close> of it is \<open>e\<close>, it is positive as a
  signed number (never 0, which means ``the current environment'', never an error code), and it
  differs from the slot's previous identifier, so references to the previous occupant are stale.
\<close>

theorem new_env_id_fresh:
  assumes "e < NENV"
  shows "ENVX (new_env_id old e) = e \<and> 0 < sint (new_env_id old e) \<and> new_env_id old e \<noteq> 0 \<and>
    (old = 0 \<or> ENVX old = e \<longrightarrow> new_env_id old e \<noteq> old)"
  using new_env_id_props [OF assms, of old] by auto

theorem new_env_id_fresh_witness: "ENVX (new_env_id 0x1005 5) = 5 \<and> new_env_id 0x1005 5 \<noteq> 0x1005"
  using new_env_id_fresh [of 5 "0x1005"] by (simp add: NENV_def unat_ENVX)

end
