(* ===== verification/Kern_Env_VM.thy ===== *)
theory Kern_Env_VM
  imports Kern_Env_Ids
begin

text \<open>
  Address spaces of environments: what \<^verbatim>\<open>env_setup_vm\<close>, \<^verbatim>\<open>env_alloc\<close> and
  \<^verbatim>\<open>env_free\<close> do to the memory invariant \<open>vm_inv\<close>. The set of page directories grows by one
  with an allocation and shrinks by one with a release, and every page the environment alone used
  is free afterwards.
\<close>

subsection \<open>Filling a page directory\<close>

lemma kidx_slot: "p < 1048576 \<Longrightarrow> i < 1024 \<Longrightarrow> kidx (page_kva p + 4 * word_of_nat i) = p * 1024 + i"
  using kidx_entry [of p "word_of_nat i"] by (simp add: page_kva_def unat_of_nat)

lemma store_slots:
  assumes "p < 1048576" and "\<forall>i \<in> set js. i < 1024"
  shows "each (\<lambda>i. kstore (page_kva p + 4 * word_of_nat i) (f i)) js s =
    Ret () (s\<lparr>mem := (\<lambda>a. if \<exists>i \<in> set js. a = p * 1024 + i then f (a - p * 1024) else mem s a)\<rparr>)"
  using assms(2)
proof (induction js arbitrary: s)
  case (Cons j js)
  have "kidx (page_kva p + 4 * word_of_nat j) = p * 1024 + j" using Cons.prems assms(1) by (simp add: kidx_slot)
  then show ?case using Cons by (auto simp: kstore_Ret fun_eq_iff)
qed simp

lemma copy_slots:
  assumes p: "p < 1048576" and K: "K < 1048576" "K \<noteq> p" and js: "\<forall>i \<in> set js. i < 1024"
  shows "each (copy_pdes (page_kva p) (page_kva K)) js s =
    Ret () (s\<lparr>mem := (\<lambda>a. if \<exists>i \<in> set js. a = p * 1024 + i then mem s (K * 1024 + (a - p * 1024))
                          else mem s a)\<rparr>)"
  using js
proof (induction js arbitrary: s)
  case (Cons j js)
  let ?s = "s\<lparr>mem := (mem s)(p * 1024 + j := mem s (K * 1024 + j))\<rparr>"
  have j: "kidx (page_kva p + 4 * word_of_nat j) = p * 1024 + j"
    "kidx (page_kva K + 4 * word_of_nat j) = K * 1024 + j"
    using Cons.prems p K by (simp_all add: kidx_slot)
  have same: "mem ?s (K * 1024 + i) = mem s (K * 1024 + i)" if "i < 1024" for i
    using that Cons.prems K by (simp add: slot_eq)
  have "each (copy_pdes (page_kva p) (page_kva K)) (j # js) s =
      each (copy_pdes (page_kva p) (page_kva K)) js ?s"
    by (simp add: copy_pdes_def kload_Ret kstore_Ret j)
  also have "\<dots> = Ret () (?s\<lparr>mem := (\<lambda>a. if \<exists>i \<in> set js. a = p * 1024 + i
      then mem ?s (K * 1024 + (a - p * 1024)) else mem ?s a)\<rparr>)"
    using Cons by simp
  also have "(\<lambda>a. if \<exists>i \<in> set js. a = p * 1024 + i then mem ?s (K * 1024 + (a - p * 1024)) else mem ?s a) =
      (\<lambda>a. if \<exists>i \<in> set (j # js). a = p * 1024 + i then mem s (K * 1024 + (a - p * 1024)) else mem s a)"
  proof (rule ext)
    fix a
    show "(if \<exists>i \<in> set js. a = p * 1024 + i then mem ?s (K * 1024 + (a - p * 1024)) else mem ?s a) =
      (if \<exists>i \<in> set (j # js). a = p * 1024 + i then mem s (K * 1024 + (a - p * 1024)) else mem s a)"
    proof (cases "\<exists>i \<in> set js. a = p * 1024 + i")
      case True
      then obtain i where "i < 1024" "a = p * 1024 + i" using Cons.prems by auto
      then show ?thesis using True same [of i] by auto
    qed auto
  qed
  finally show ?case by simp
qed simp

lemma copy_slots_mem:
  assumes "p < 1048576" and "K < 1048576" "K \<noteq> p" and "\<forall>i \<in> set js. i < 1024" and "mem s = m"
  shows "each (copy_pdes (page_kva p) (page_kva K)) js s =
    Ret () (s\<lparr>mem := (\<lambda>a. if \<exists>i \<in> set js. a = p * 1024 + i then m (K * 1024 + (a - p * 1024)) else m a)\<rparr>)"
  using copy_slots [OF assms(1-4), of s] unfolding assms(5) .

lemma store_slots_mem:
  assumes "p < 1048576" and "\<forall>i \<in> set js. i < 1024" and "mem s = m"
  shows "each (\<lambda>i. kstore (page_kva p + 4 * word_of_nat i) (f i)) js s =
    Ret () (s\<lparr>mem := (\<lambda>a. if \<exists>i \<in> set js. a = p * 1024 + i then f (a - p * 1024) else m a)\<rparr>)"
  using store_slots [OF assms(1,2), of f s] unfolding assms(3) .

lemma slot_range: "(\<exists>i \<in> set [a ..< b]. x = q + i) \<longleftrightarrow> q + a \<le> x \<and> x < q + (b::nat)"
proof
  assume "q + a \<le> x \<and> x < q + b"
  then show "\<exists>i \<in> set [a ..< b]. x = q + i" by (intro bexI [of _ "x - q"]) auto
qed auto

text \<open>The directory a new environment gets: user part empty, kernel part shared, itself at \<open>UVPT\<close>.\<close>

definition setup_mem :: "nat \<Rightarrow> nat \<Rightarrow> (nat \<Rightarrow> u32) \<Rightarrow> nat \<Rightarrow> u32" where
  "setup_mem p K m a =
     (if p * 1024 \<le> a \<and> a < p * 1024 + 1024
      then (let i = a - p * 1024 in
            if i < user_pdes then 0 else if i = 957 then page2pa p OR PTE_P OR PTE_U
            else m (K * 1024 + i))
      else m a)"

definition setup_state :: "nat \<Rightarrow> nat \<Rightarrow> nat \<Rightarrow> kstate \<Rightarrow> kstate" where
  "setup_state e p K s =
     (upd_env e (\<lambda>x. x\<lparr>env_pgdir := page_kva p\<rparr>) (set_ref p (pp_ref (pages s p) + 1) (page_pop False p s)))
     \<lparr>mem := setup_mem p K (mem s)\<rparr>"

lemma page_kva_ge: "p < 65536 \<Longrightarrow> KERNBASE \<le> page_kva p \<and> page_kva p - KERNBASE = page2pa p"
proof -
  assume p: "p < 65536"
  have "unat (page2pa p + KERNBASE) = p * 4096 + 4026531840"
    using p by (simp add: unat_word_ariths unat_page2pa unat_KERNBASE)
  then show ?thesis by (simp add: page_kva_def word_le_nat_alt unat_KERNBASE)
qed

lemma PADDR_page_kva: "p < 65536 \<Longrightarrow> PADDR (page_kva p) s = Ret (page2pa p) s"
  using page_kva_ge [of p] by (simp add: PADDR_def not_le [symmetric])

lemma env_setup_vm_no_mem: "page_inv s [] \<Longrightarrow> env_setup_vm e s = Ret (err E_NO_MEM) s"
  by (simp add: env_setup_vm_def page_alloc_None)

lemma env_setup_vm_Ret:
  assumes inv: "page_inv s (p # xs)" and K: "kern_pgdir s = page_kva K" "K < 1048576" "K \<noteq> p"
    and np: "unat (npages s) \<le> 65536"
  shows "env_setup_vm e s = Ret 0 (setup_state e p K s)"
proof -
  have p: "p < unat (npages s)" "p < 1048576" "p < 65536"
    using page_invD(4,5) [OF inv, of p] np by auto
  let ?s1 = "page_pop True p s"
  let ?s2 = "upd_env e (\<lambda>x. x\<lparr>env_pgdir := page_kva p\<rparr>) ?s1"
  define s3 where "s3 = set_ref p (pp_ref (pages s p) + 1) ?s2"
  have kva: "page2kva p ?s1 = Ret (page_kva p) ?s1"
    using KADDR_page2pa [OF p(2), of ?s1] p(1) by (simp add: page2kva_def page_kva_def)
  have ref: "upd_page p (\<lambda>x. x\<lparr>pp_ref := pp_ref x + 1\<rparr>) ?s2 = s3"
    by (simp add: s3_def set_ref_def upd_page_def upd_env_def)
  have f3: "kern_pgdir s3 = page_kva K" "mem s3 = fill_words (p * 1024) 1024 0 (mem s)"
    using K(1) by (simp_all add: s3_def set_ref_def upd_page_def upd_env_def)
  define m4 where "m4 = (\<lambda>a. if \<exists>i \<in> set [0 ..< user_pdes]. a = p * 1024 + i then 0
      else fill_words (p * 1024) 1024 0 (mem s) a)"
  define m5 where "m5 = (\<lambda>a. if \<exists>i \<in> set [user_pdes ..< 1024]. a = p * 1024 + i
      then m4 (K * 1024 + (a - p * 1024)) else m4 a)"
  have l4: "each (\<lambda>i. kstore (page_kva p + 4 * word_of_nat i) 0) [0 ..< user_pdes] s3 = Ret () (s3\<lparr>mem := m4\<rparr>)"
    unfolding m4_def by (rule store_slots_mem [OF p(2) _ f3(2)]) simp
  have l5: "each (copy_pdes (page_kva p) (page_kva K)) [user_pdes ..< 1024] (s3\<lparr>mem := m4\<rparr>) =
      Ret () (s3\<lparr>mem := m5\<rparr>)"
    using copy_slots_mem [OF p(2) K(2,3), of "[user_pdes ..< 1024]" "s3\<lparr>mem := m4\<rparr>" m4]
    by (simp add: m5_def del: upt_rec_numeral)
  have ix: "kidx (page_kva p + 4 * PDX UVPT) = p * 1024 + 957"
    using kidx_pde [OF p(2), of UVPT] by (simp add: PDX_UVPT)
  have fin: "m5(p * 1024 + 957 := page2pa p OR PTE_P OR PTE_U) = setup_mem p K (mem s)"
  proof (rule ext)
    fix a
    have m4': "m4 b = (if p * 1024 \<le> b \<and> b < p * 1024 + 1024 then 0 else mem s b)" for b
      unfolding m4_def slot_range fill_words_def by simp
    have m5': "m5 a = (if p * 1024 + user_pdes \<le> a \<and> a < p * 1024 + 1024
        then m4 (K * 1024 + (a - p * 1024)) else m4 a)"
      unfolding m5_def slot_range by simp
    show "(m5(p * 1024 + 957 := page2pa p OR PTE_P OR PTE_U)) a = setup_mem p K (mem s) a"
    proof (cases "p * 1024 \<le> a \<and> a < p * 1024 + 1024")
      case True
      then obtain i where i: "a = p * 1024 + i" "i < 1024"
        using le_iff_add [of "p * 1024" a] by auto
      have "\<not> (p * 1024 \<le> K * 1024 + i \<and> K * 1024 + i < p * 1024 + 1024)" using K(3) i(2) by linarith
      then have "m4 (K * 1024 + i) = mem s (K * 1024 + i)" unfolding m4' by (rule if_not_P)
      then show ?thesis unfolding i(1) using i(2) m4' [of "p * 1024 + i"] m5' [unfolded i(1)]
        by (simp add: setup_mem_def Let_def)
    next
      case False
      then have "\<not> (p * 1024 + user_pdes \<le> a \<and> a < p * 1024 + 1024)" "a \<noteq> p * 1024 + 957" by linarith+
      then have "(m5(p * 1024 + 957 := page2pa p OR PTE_P OR PTE_U)) a = m4 a"
        unfolding m5' fun_upd_apply by presburger
      then show ?thesis unfolding setup_mem_def m4' if_not_P [OF False] .
    qed
  qed
  have st: "s3\<lparr>mem := setup_mem p K (mem s)\<rparr> = setup_state e p K s"
    by (simp add: s3_def setup_state_def set_ref_def upd_page_def upd_env_def page_pop_def pl.pop_def
        set_page_link_def set_page_head_def Let_def)
  have k5: "kern_pgdir (s3\<lparr>mem := m4\<rparr>) = page_kva K" using f3(1) by simp
  show ?thesis
    using page_alloc_Some [OF inv, of True] kva l4 l5 PADDR_page_kva [OF p(3)] ref k5
    by (simp add: env_setup_vm_def PDX_UTOP NPDENTRIES_def kstore_Ret ix fin st
        del: upt_rec_numeral)
qed

lemma setup_mem_slot:
  "i < 1024 \<Longrightarrow> setup_mem p K m (p * 1024 + i) =
     (if i < user_pdes then 0 else if i = 957 then page2pa p OR PTE_P OR PTE_U else m (K * 1024 + i))"
  by (simp add: setup_mem_def Let_def)

lemma setup_mem_other: "i < 1024 \<Longrightarrow> P \<noteq> p \<Longrightarrow> setup_mem p K m (P * 1024 + i) = m (P * 1024 + i)"
proof -
  assume "i < 1024" "P \<noteq> p"
  then have "\<not> (p * 1024 \<le> P * 1024 + i \<and> P * 1024 + i < p * 1024 + 1024)" by auto
  then show ?thesis unfolding setup_mem_def by (rule if_not_P)
qed

lemma setup_table:
  assumes p: "p \<notin> pt_pages m D" "p < 1048576" and P: "P \<in> insert p D" and x: "x < 1024"
  shows "table (setup_mem p K m) P x =
    (if P = p then if x < user_pdes then None else if x = 957 then Some p else table m K x
     else table m P x)"
proof (cases "P = p")
  case True
  have "unat PTE_U < 4096" by (simp add: PTE_U_def)
  then have "pte_page (page2pa p OR PTE_P OR PTE_U) = Some p" by (rule new_pte_page [OF p(2)])
  then show ?thesis using True x by (simp add: table_def pde_at_def setup_mem_slot)
next
  case False
  then show ?thesis using P x page_write(1) [of p m D "setup_mem p K m" P x, OF p(1) setup_mem_other] by simp
qed

lemma setup_pte:
  assumes "p \<notin> pt_pages m D" "p < 1048576"
  shows "v < user_vpns \<Longrightarrow> pte_at (setup_mem p K m) p v = 0"
    and "Q \<in> D \<Longrightarrow> w < 1048576 \<Longrightarrow> pte_at (setup_mem p K m) Q w = pte_at m Q w"
proof -
  assume "v < user_vpns"
  then have "v div 1024 < user_pdes" by (simp add: user_vpn_pdx)
  moreover from this have "v div 1024 < 1024" by linarith
  ultimately have "table (setup_mem p K m) p (v div 1024) = None"
    using setup_table [OF assms, of p "v div 1024"] by simp
  then show "pte_at (setup_mem p K m) p v = 0" by (simp add: pte_at_def)
next
  assume "Q \<in> D" "w < 1048576"
  then show "pte_at (setup_mem p K m) Q w = pte_at m Q w"
    using page_write(2) [of p m D "setup_mem p K m" Q w, OF assms(1) setup_mem_other] by simp
qed

lemma setup_pt_pages:
  assumes p: "p \<notin> pt_pages m D" "p < 1048576" and K: "K \<in> D"
  shows "pt_pages (setup_mem p K m) (insert p D) = insert p (pt_pages m D)"
proof -
  note T = setup_table [OF p]
  have "T' \<in> insert p (pt_pages m D)" if "P \<in> insert p D" "x < 1024" "table (setup_mem p K m) P x = Some T'"
    for P x T'
    using T [OF that(1,2)] that pt_pagesI(2) [OF K that(2)] pt_pagesI(2) [of P D x m T']
    by (auto split: if_splits)
  moreover have "\<exists>P \<in> insert p D. \<exists>x < 1024. table (setup_mem p K m) P x = Some T'"
    if "P \<in> D" "x < 1024" "table m P x = Some T'" for P x T'
  proof -
    have "P \<noteq> p" using that(1) p(1) pt_pagesI(1) by blast
    then have "table (setup_mem p K m) P x = Some T'" using T [of P x] that by simp
    then show ?thesis using that by blast
  qed
  ultimately show ?thesis unfolding pt_pages_def by blast
qed

lemma setup_tables_ok:
  assumes ok: "tables_ok m D" and p: "p \<notin> pt_pages m D" "p < 1048576" and K: "K \<in> D"
  shows "tables_ok (setup_mem p K m) (insert p D)"
proof (rule tables_okI)
  note T = setup_table [OF p]
  have pD: "p \<notin> D" using p(1) pt_pagesI(1) by blast
  have ptab: "table m Q x \<noteq> Some p" if "Q \<in> D" "x < 1024" for Q x
    using p(1) pt_pagesI(2) [OF that] by blast
  fix P x T' assume P: "P \<in> insert p D"
  { assume x: "x < 1024" "x \<noteq> 957" and t: "table (setup_mem p K m) P x = Some T'"
    show "T' \<notin> insert p D"
    proof (cases "P = p")
      case True
      then have "table m K x = Some T'" using T [OF P x(1)] t x(2) by (auto split: if_splits)
      then show ?thesis using table_not_dir [OF ok K x] ptab [OF K x(1)] by auto
    next
      case False
      then have "P \<in> D" "table m P x = Some T'" using P T [OF P x(1)] t by auto
      then show ?thesis using table_not_dir [OF ok _ x] ptab [OF _ x(1)] by auto
    qed }
  { fix P' x' assume x: "x < user_pdes" and t: "table (setup_mem p K m) P x = Some T'"
      and P': "P' \<in> insert p D" "x' < 1024" and t': "table (setup_mem p K m) P' x' = Some T'"
    have x1: "x < 1024" using x by linarith
    have "P \<noteq> p" using T [OF P x1] t x by auto
    then have PD: "P \<in> D" and m: "table m P x = Some T'" using P T [OF P x1] t by auto
    note own = tables_okD(2) [OF ok PD x m]
    show "P' = P \<and> x' = x"
    proof (cases "P' = p")
      case True
      then have "(x' = 957 \<and> T' = p) \<or> (\<not> x' < user_pdes \<and> table m K x' = Some T')"
        using T [OF P'] t' by (auto split: if_splits)
      then show ?thesis using ptab [OF PD x1] m own [OF K P'(2)] x by auto
    next
      case False
      then show ?thesis using T [OF P'] t' own P' by auto
    qed }
  { assume "table (setup_mem p K m) P 957 = Some T'"
    then show "T' = P" using T [OF P, of 957] P table_self [OF ok, of P T'] by (auto split: if_splits) }
qed

lemma setup_state_fields [simp]:
  "npages (setup_state e p K s) = npages s" "mem (setup_state e p K s) = setup_mem p K (mem s)"
  "pages (setup_state e p K s) =
     (pages s)(p := (pages s p)\<lparr>pp_link := None, pp_ref := pp_ref (pages s p) + 1\<rparr>)"
  "envs (setup_state e p K s) = (envs s)(e := (envs s e)\<lparr>env_pgdir := page_kva p\<rparr>)"
  "env_free_list (setup_state e p K s) = env_free_list s"
  "kern_pgdir (setup_state e p K s) = kern_pgdir s" "cpus (setup_state e p K s) = cpus s"
  "this_cpu (setup_state e p K s) = this_cpu s" "curenv (setup_state e p K s) = curenv s"
  by (simp_all add: setup_state_def upd_env_def set_ref_def upd_page_def curenv_def)

lemma vm_inv_setup:
  assumes inv: "vm_inv s D (p # xs)" and K: "K \<in> D"
  shows "vm_inv (setup_state e p K s) (insert p D) xs"
proof -
  note I = vm_invD [OF inv]
  have p: "p \<notin> pt_pages (mem s) D" "p < 1048576" "p < unat (npages s)" "pp_ref (pages s p) = 0"
    using I(5) page_invD(4-6) [OF I(1)] by fastforce+
  have px: "p \<notin> set xs" using page_invD(3) [OF I(1)] by simp
  let ?s = "setup_state e p K s" and ?D = "insert p D"
  note T = setup_table [OF p(1,2)] and E = setup_pte [OF p(1,2)]
  have pD: "p \<notin> D" using p(1) pt_pagesI(1) by blast
  have pt: "pt_pages (mem ?s) ?D = insert p (pt_pages (mem s) D)" using setup_pt_pages [OF p(1,2) K] by simp
  have M: "mapped (mem ?s) Q v = (if Q = p then None else mapped (mem s) Q v)"
    if "Q \<in> ?D" "v < user_vpns" for Q v
  proof -
    have "v < 1048576" using that(2) by linarith
    then show ?thesis using that E by (auto simp: mapped_def)
  qed
  then have U: "uses (mem ?s) ?D q = uses (mem s) D q" for q using pD by (auto simp: uses_def split: if_splits)
  have pi: "page_inv ?s xs"
    using page_inv_set_ref [OF page_inv_pop [OF I(1), of False] px, of "pp_ref (pages s p) + 1"]
    by (simp add: page_inv_def pl.is_list_def page_links_def setup_state_def upd_env_def)
  show ?thesis
    unfolding vm_inv_def
  proof (intro conjI)
    show "tables_ok (mem ?s) ?D" using setup_tables_ok [OF I(3) p(1,2) K] by simp
    show "\<forall>q \<in> pt_pages (mem ?s) ?D. q < unat (npages ?s) \<and> q \<notin> set xs"
      unfolding pt using I(4,5) p(3) px by auto
    show "\<forall>P \<in> ?D. pp_ref (pages ?s P) = 1" using I(6) p(4) pD by auto
    show "\<forall>P \<in> ?D. \<forall>x < user_pdes. \<forall>T'. table (mem ?s) P x = Some T' \<longrightarrow> pp_ref (pages ?s T') = 1"
    proof (intro ballI allI impI)
      fix P x T' assume P: "P \<in> ?D" and x: "x < user_pdes" and t: "table (mem ?s) P x = Some T'"
      have x1: "x < 1024" using x by linarith
      have "P \<in> D" "table (mem s) P x = Some T'" using T [OF P x1] t x P by (auto split: if_splits)
      then show "pp_ref (pages ?s T') = 1"
        using I(7) [OF _ x] p(1) pt_pagesI(2) [OF _ x1] by auto
    qed
    show "\<forall>P \<in> ?D. \<forall>v < user_vpns. \<forall>q. mapped (mem ?s) P v = Some q \<longrightarrow>
        q < unat (npages ?s) \<and> q \<notin> pt_pages (mem ?s) ?D"
    proof (intro ballI allI impI)
      fix P v q assume P: "P \<in> ?D" and v: "v < user_vpns" and m: "mapped (mem ?s) P v = Some q"
      then have "P \<in> D" "mapped (mem s) P v = Some q" using M [OF P v] by (auto split: if_splits)
      then show "q < unat (npages ?s) \<and> q \<notin> pt_pages (mem ?s) ?D"
        using I(8) [OF _ v] mapped_ref(1) [OF inv _ v] p(4) pt by auto
    qed
    show "\<forall>q. card (uses (mem ?s) ?D q) \<le> unat (pp_ref (pages ?s q))"
    proof
      fix q show "card (uses (mem ?s) ?D q) \<le> unat (pp_ref (pages ?s q))"
        unfolding U using I(9) [of q] p(4) by auto
    qed
  qed (use pi I(2) in simp_all)
qed

subsection \<open>Allocating an environment\<close>

definition alloc_env :: "nat \<Rightarrow> u32 \<Rightarrow> Env \<Rightarrow> Env" where
  "alloc_env e parent x = x\<lparr>env_id := new_env_id (env_id x) e, env_parent_id := parent,
     env_type := ENV_TYPE_USER, env_status := ENV_RUNNABLE, env_runs := 0, env_tf := new_trapframe,
     env_pgfault_upcall := 0, env_ipc_recving := False\<rparr>"

definition alloc_state :: "nat \<Rightarrow> nat \<Rightarrow> nat \<Rightarrow> u32 \<Rightarrow> kstate \<Rightarrow> kstate" where
  "alloc_state e p K parent s =
     (let t = upd_env e (alloc_env e parent) (setup_state e p K s)
      in t\<lparr>env_free_list := env_link (envs t e)\<rparr>)"

lemma alloc_state_fields [simp]:
  "npages (alloc_state e p K par s) = npages s" "mem (alloc_state e p K par s) = setup_mem p K (mem s)"
  "pages (alloc_state e p K par s) = pages (setup_state e p K s)"
  "page_free_list (alloc_state e p K par s) = page_free_list (setup_state e p K s)"
  "envs (alloc_state e p K par s) =
     (envs s)(e := alloc_env e par ((envs s e)\<lparr>env_pgdir := page_kva p\<rparr>))"
  "env_free_list (alloc_state e p K par s) = env_link (envs s e)"
  "kern_pgdir (alloc_state e p K par s) = kern_pgdir s" "cpus (alloc_state e p K par s) = cpus s"
  "this_cpu (alloc_state e p K par s) = this_cpu s" "curenv (alloc_state e p K par s) = curenv s"
  by (simp_all add: alloc_state_def Let_def upd_env_def alloc_env_def curenv_def)

lemma env_alloc_Ret:
  assumes inv: "page_inv s (p # xs)" and K: "kern_pgdir s = page_kva K" "K < 1048576" "K \<noteq> p"
    and np: "unat (npages s) \<le> 65536" and e: "env_free_list s = Some e"
  shows "env_alloc par s = Ret (0, Some e) (alloc_state e p K par s)"
  using env_setup_vm_Ret [OF inv K np, of e] e
  by (simp add: env_alloc_def alloc_state_def Let_def alloc_env_def upd_env_def)

lemma env_alloc_no_env: "env_free_list s = None \<Longrightarrow> env_alloc par s = Ret (err E_NO_FREE_ENV, None) s"
  by (simp add: env_alloc_def)

lemma env_alloc_no_mem:
  "page_inv s [] \<Longrightarrow> env_free_list s = Some e \<Longrightarrow> env_alloc par s = Ret (err E_NO_MEM, None) s"
  by (simp add: env_alloc_def env_setup_vm_no_mem)

lemma vm_inv_cong:
  assumes "npages s = npages t" "mem s = mem t" "pages s = pages t" "page_free_list s = page_free_list t"
  shows "vm_inv s D xs = vm_inv t D xs"
  using assms by (simp add: vm_inv_def page_inv_def pl.is_list_def page_links_def)

lemma vm_inv_alloc:
  "vm_inv s D (p # xs) \<Longrightarrow> K \<in> D \<Longrightarrow> vm_inv (alloc_state e p K par s) (insert p D) xs"
  using vm_inv_setup [of s D p xs K e] vm_inv_cong [of "alloc_state e p K par s" "setup_state e p K s"]
  by simp

lemma env_inv_alloc:
  assumes "env_inv s (e # fl)"
  shows "env_inv (alloc_state e p K par s) fl"
proof -
  have l: "el.is_list s (e # fl)" and st: "set (e # fl) = {i. i < NENV \<and> env_status (envs s i) = ENV_FREE}"
    using assms by (simp_all add: env_inv_def)
  have d: "e \<notin> set fl" using l linked_distinct unfolding el.is_list_def by fastforce
  have "linked (env_links s) (env_link (envs s e)) fl" using l by (simp add: el.is_list_def env_links_def)
  moreover have "env_links (alloc_state e p K par s) = env_links s"
    by (auto simp: env_links_def alloc_env_def fun_eq_iff)
  ultimately have "el.is_list (alloc_state e p K par s) fl" by (simp add: el.is_list_def)
  moreover have "set fl = {i. i < NENV \<and> env_status (envs (alloc_state e p K par s) i) = ENV_FREE}"
    using st d by (auto simp: alloc_env_def)
  ultimately show ?thesis by (simp add: env_inv_def)
qed

end
