(* ===== verification/Kern_Env_Free.thy ===== *)
theory Kern_Env_Free
  imports Kern_Env_VM
begin

text \<open>
  \<^verbatim>\<open>env_free\<close>: unmapping the whole user part of an address space, entry by entry and table by
  table. \<open>unmapped\<close> describes the effect of any part of that loop; parts compose.
\<close>

subsection \<open>Unmapping a set of virtual pages\<close>

definition freed :: "nat set \<Rightarrow> kstate \<Rightarrow> kstate \<Rightarrow> nat list \<Rightarrow> bool" where
  "freed D s s' xs' \<longleftrightarrow> (\<forall>q. q \<notin> pt_pages (mem s) D \<longrightarrow>
     pp_ref (pages s q) \<noteq> 0 \<longrightarrow> pp_ref (pages s' q) = 0 \<longrightarrow> q \<in> set xs')"

definition unmapped ::
  "nat set \<Rightarrow> nat \<Rightarrow> nat set \<Rightarrow> nat set \<Rightarrow> kstate \<Rightarrow> nat list \<Rightarrow> kstate \<Rightarrow> nat list \<Rightarrow> bool" where
  "unmapped D P V X s xs s' xs' \<longleftrightarrow>
     vm_inv s' D xs' \<and> vm_frame s s' \<and> set xs \<subseteq> set xs' \<and> freed D s s' xs' \<and>
     (\<forall>Q \<in> D. aspace (mem s') Q = (if Q = P then aspace (mem s) P |` (- V) else aspace (mem s) Q)) \<and>
     (\<forall>Q \<in> D. \<forall>y < 1024. table (mem s') Q y = (if Q = P \<and> y \<in> X then None else table (mem s) Q y)) \<and>
     (\<forall>y < 1024. \<forall>T. y \<in> X \<longrightarrow> table (mem s) P y = Some T \<longrightarrow> T \<in> set xs') \<and>
     (\<forall>q. q \<notin> pt_pages (mem s) D \<longrightarrow> unat (pp_ref (pages s' q)) +
        card {v \<in> V. v < user_vpns \<and> mapped (mem s) P v = Some q} = unat (pp_ref (pages s q)))"

lemma unmappedD:
  assumes "unmapped D P V X s xs s' xs'"
  shows "vm_inv s' D xs'" "vm_frame s s'" "set xs \<subseteq> set xs'" "freed D s s' xs'"
    "\<And>Q. Q \<in> D \<Longrightarrow> aspace (mem s') Q = (if Q = P then aspace (mem s) P |` (- V) else aspace (mem s) Q)"
    "\<And>Q y. Q \<in> D \<Longrightarrow> y < 1024 \<Longrightarrow>
       table (mem s') Q y = (if Q = P \<and> y \<in> X then None else table (mem s) Q y)"
    "\<And>q. q \<notin> pt_pages (mem s) D \<Longrightarrow> unat (pp_ref (pages s' q)) +
        card {v \<in> V. v < user_vpns \<and> mapped (mem s) P v = Some q} = unat (pp_ref (pages s q))"
    "\<And>y T. y < 1024 \<Longrightarrow> y \<in> X \<Longrightarrow> table (mem s) P y = Some T \<Longrightarrow> T \<in> set xs'"
  using assms unfolding unmapped_def by blast+

lemma unmapped_refl:
  "vm_inv s D xs \<Longrightarrow> V \<inter> {v. v < user_vpns \<and> mapped (mem s) P v \<noteq> None} = {} \<Longrightarrow> unmapped D P V {} s xs s xs"
proof -
  assume inv: "vm_inv s D xs" and V: "V \<inter> {v. v < user_vpns \<and> mapped (mem s) P v \<noteq> None} = {}"
  have "aspace (mem s) P v = None" if "v \<in> V" for v
    using V that aspace_None_mapped [of v "mem s" P] by (cases "v < user_vpns") (auto simp: aspace_def)
  then have "aspace (mem s) P |` (- V) = aspace (mem s) P" by (auto simp: restrict_map_def fun_eq_iff)
  moreover have "{v \<in> V. v < user_vpns \<and> mapped (mem s) P v = Some q} = {}" for q using V by auto
  ultimately show ?thesis using inv by (auto simp: unmapped_def freed_def)
qed

lemma unmapped_pt_pages:
  assumes "unmapped D P V X s xs s' xs'"
  shows "pt_pages (mem s') D \<subseteq> pt_pages (mem s) D"
proof -
  have "table (mem s) Q y = Some T" if "Q \<in> D" "y < 1024" "table (mem s') Q y = Some T" for Q y T
    using unmappedD(6) [OF assms that(1,2)] that(3) by (metis option.distinct(1))
  then show ?thesis unfolding pt_pages_def by blast
qed

lemma unmapped_mapped:
  assumes "unmapped D P V X s xs s' xs'" and "Q \<in> D" and "v < user_vpns"
  shows "mapped (mem s') Q v = (if Q = P \<and> v \<in> V then None else mapped (mem s) Q v)"
  using unmappedD(5) [OF assms(1,2)] assms(3) by (simp add: aspace_mapped)

lemma unmapped_trans:
  assumes 1: "unmapped D P V X s xs s1 xs1" and 2: "unmapped D P V' X' s1 xs1 s2 xs2"
    and disj: "V \<inter> V' = {}" and P: "P \<in> D"
  shows "unmapped D P (V \<union> V') (X \<union> X') s xs s2 xs2"
proof -
  note A = unmappedD [OF 1] and B = unmappedD [OF 2]
  note sub = unmapped_pt_pages [OF 1]
  have cnt: "unat (pp_ref (pages s2 q)) +
      card {v \<in> V \<union> V'. v < user_vpns \<and> mapped (mem s) P v = Some q} = unat (pp_ref (pages s q))"
    if q: "q \<notin> pt_pages (mem s) D" for q
  proof -
    let ?A = "{v \<in> V. v < user_vpns \<and> mapped (mem s) P v = Some q}"
    let ?B = "{v \<in> V'. v < user_vpns \<and> mapped (mem s) P v = Some q}"
    have e1: "{v \<in> V'. v < user_vpns \<and> mapped (mem s1) P v = Some q} = ?B"
      using unmapped_mapped [OF 1 P] disj by (auto split: if_splits)
    have e2: "{v \<in> V \<union> V'. v < user_vpns \<and> mapped (mem s) P v = Some q} = ?A \<union> ?B" by auto
    have e3: "card (?A \<union> ?B) = card ?A + card ?B" using disj by (intro card_Un_disjoint) auto
    have q1: "q \<notin> pt_pages (mem s1) D" using q sub by blast
    show ?thesis unfolding e2 e3 using A(7) [OF q] B(7) [OF q1, unfolded e1] by linarith
  qed
  have fr: "freed D s s2 xs2"
    unfolding freed_def
  proof (intro allI impI)
    fix q assume q: "q \<notin> pt_pages (mem s) D" "pp_ref (pages s q) \<noteq> 0" "pp_ref (pages s2 q) = 0"
    show "q \<in> set xs2"
    proof (cases "pp_ref (pages s1 q) = 0")
      case True
      then show ?thesis using A(4) q B(3) unfolding freed_def by blast
    next
      case False
      then show ?thesis using B(4) q sub unfolding freed_def by blast
    qed
  qed
  have as: "aspace (mem s2) Q = (if Q = P then aspace (mem s) P |` (- (V \<union> V')) else aspace (mem s) Q)"
    if "Q \<in> D" for Q
    using A(5) [OF that] B(5) [OF that] by (auto simp: restrict_map_def fun_eq_iff)
  have tb: "table (mem s2) Q y = (if Q = P \<and> y \<in> X \<union> X' then None else table (mem s) Q y)"
    if "Q \<in> D" "y < 1024" for Q y
    using A(6) [OF that] B(6) [OF that] by auto
  have ft: "T \<in> set xs2" if "y < 1024" "y \<in> X \<union> X'" "table (mem s) P y = Some T" for y T
    using A(8) [OF that(1) _ that(3)] B(8) [OF that(1), of T] A(6) [OF P that(1)] that(2,3) B(3)
    by (cases "y \<in> X") auto
  show ?thesis unfolding unmapped_def
    using B(1) vm_frame_trans [OF A(2) B(2)] A(3) B(3) fr as tb ft cnt by blast
qed

subsection \<open>One entry\<close>

lemma vpn_PGADDR:
  assumes "x < 1024" and "j < 1024"
  shows "vpn (PGADDR (word_of_nat x) (word_of_nat j) 0) = x * 1024 + j"
proof -
  have u: "unat (word_of_nat x :: u32) = x" "unat (word_of_nat j :: u32) = j"
    using assms by (simp_all add: unat_of_nat)
  have "unat (PGADDR (word_of_nat x) (word_of_nat j) 0) = x * 4194304 + j * 4096"
    using unat_PGADDR [of "word_of_nat x" "word_of_nat j" 0] u assms by simp
  then show ?thesis by (simp add: vpn_def word_arith)
qed

lemma unmapped_remove:
  assumes inv: "vm_inv s D xs" and P: "P \<in> D" and v: "vpn va < user_vpns"
  shows "\<exists>s' xs'. page_remove (page_kva P) va s = Ret () s' \<and> unmapped D P {vpn va} {} s xs s' xs'"
proof (cases "mapped (mem s) P (vpn va)")
  case None
  then have "unmapped D P {vpn va} {} s xs s xs" using inv by (intro unmapped_refl) auto
  then show ?thesis using page_remove_None [OF inv P None] by blast
next
  case (Some p)
  obtain s' where s': "page_remove (page_kva P) va s = Ret () s'"
    "vm_inv s' D (decref_list p s xs)" "pte_step D P (vpn va) 0 s s'"
    "\<forall>Q \<in> D. \<forall>x < 1024. table (mem s') Q x = table (mem s) Q x"
    "\<forall>q. pp_ref (pages s' q) = (if q = p then pp_ref (pages s p) - 1 else pp_ref (pages s q))"
    "vm_frame s s'"
    using page_remove_Some [OF inv P v Some] by blast
  have r: "pp_ref (pages s p) \<noteq> 0" by (rule mapped_ref(1) [OF inv P v Some])
  have as: "aspace (mem s') Q = (if Q = P then aspace (mem s) P |` (- {vpn va}) else aspace (mem s) Q)"
    if "Q \<in> D" for Q
    using aspace_step [OF s'(3) that v] by (auto simp: restrict_map_def fun_eq_iff)
  have set: "{w \<in> {vpn va}. w < user_vpns \<and> mapped (mem s) P w = Some q} = (if q = p then {vpn va} else {})"
    for q using v Some by auto
  have cnt: "unat (pp_ref (pages s' q)) + card {w \<in> {vpn va}. w < user_vpns \<and> mapped (mem s) P w = Some q} =
      unat (pp_ref (pages s q))" for q
    unfolding set using s'(5) r unat_minus_one [of "pp_ref (pages s p)"] unat_gt_0 [of "pp_ref (pages s p)"]
    by auto
  have fr: "freed D s s' (decref_list p s xs)"
    unfolding freed_def
  proof (intro allI impI)
    fix q assume q: "pp_ref (pages s q) \<noteq> 0" "pp_ref (pages s' q) = 0"
    then have "q = p" "pp_ref (pages s p) = 1" using s'(5) by (auto split: if_splits)
    then show "q \<in> set (decref_list p s xs)" by (simp add: decref_list_def)
  qed
  have "unmapped D P {vpn va} {} s xs s' (decref_list p s xs)"
    unfolding unmapped_def using s'(2,4,6) as cnt fr by (auto simp: decref_list_def)
  then show ?thesis using s'(1) by blast
qed

lemma unmapped_free_pte:
  assumes inv: "vm_inv s D xs" and P: "P \<in> D" and x: "x < user_pdes" and j: "j < 1024"
    and T: "table (mem s) P x = Some T"
  shows "\<exists>s' xs'. free_pte (page_kva P) (page_kva T) x j s = Ret () s' \<and>
    unmapped D P {x * 1024 + j} {} s xs s' xs'"
proof -
  have x1: "x < 1024" using x by linarith
  note V = vpn_PGADDR [OF x1 j]
  have u: "x * 1024 + j < user_vpns" using x j by linarith
  have dv: "(x * 1024 + j) div 1024 = x" "(x * 1024 + j) mod 1024 = j" using j by simp_all
  have "kload (page_kva T + 4 * word_of_nat j) s = Ret (pte_at (mem s) P (x * 1024 + j)) s"
    using vm_invD_table(2) [OF inv P x1 T] j T by (simp add: kload_Ret kidx_slot pte_at_def dv)
  moreover obtain s' xs' where
    "page_remove (page_kva P) (PGADDR (word_of_nat x) (word_of_nat j) 0) s = Ret () s'"
    "unmapped D P {x * 1024 + j} {} s xs s' xs'"
    using unmapped_remove [OF inv P, of "PGADDR (word_of_nat x) (word_of_nat j) 0"] u V by auto
  moreover have "unmapped D P {x * 1024 + j} {} s xs s xs"
    if "pte_at (mem s) P (x * 1024 + j) AND PTE_P = 0"
    using inv that by (intro unmapped_refl) (auto simp: mapped_def pte_page_None)
  ultimately show ?thesis
    by (cases "pte_at (mem s) P (x * 1024 + j) AND PTE_P = 0") (auto simp: free_pte_def)
qed

lemma unmapped_free_ptes:
  assumes inv: "vm_inv s D xs" and P: "P \<in> D" and x: "x < user_pdes" and T: "table (mem s) P x = Some T"
  shows "n \<le> 1024 \<Longrightarrow> \<exists>s' xs'. each (free_pte (page_kva P) (page_kva T) x) [0 ..< n] s = Ret () s' \<and>
    unmapped D P {x * 1024 ..< x * 1024 + n} {} s xs s' xs'"
proof (induction n)
  case 0
  then show ?case using unmapped_refl [OF inv, of "{}" P] by auto
next
  case (Suc n)
  then obtain s1 xs1 where 1: "each (free_pte (page_kva P) (page_kva T) x) [0 ..< n] s = Ret () s1"
    "unmapped D P {x * 1024 ..< x * 1024 + n} {} s xs s1 xs1" by auto
  have T1: "table (mem s1) P x = Some T" using unmappedD(6) [OF 1(2) P, of x] x T by simp
  obtain s2 xs2 where 2: "free_pte (page_kva P) (page_kva T) x n s1 = Ret () s2"
    "unmapped D P {x * 1024 + n} {} s1 xs1 s2 xs2"
    using unmapped_free_pte [OF unmappedD(1) [OF 1(2)] P x _ T1, of n] Suc.prems by auto
  have "unmapped D P ({x * 1024 ..< x * 1024 + n} \<union> {x * 1024 + n}) ({} \<union> {}) s xs s2 xs2"
    by (rule unmapped_trans [OF 1(2) 2(2) _ P]) auto
  moreover have "{x * 1024 ..< x * 1024 + n} \<union> {x * 1024 + n} = {x * 1024 ..< x * 1024 + Suc n}" by auto
  ultimately show ?case using 1(1) 2(1) by (auto simp: each_append)
qed

subsection \<open>One page table\<close>

definition drop_table :: "nat \<Rightarrow> nat \<Rightarrow> nat \<Rightarrow> kstate \<Rightarrow> kstate" where
  "drop_table P x T s = pl.push T (set_ref T 0 (s\<lparr>mem := (mem s)(P * 1024 + x := 0)\<rparr>))"

lemma drop_table_fields [simp]:
  "npages (drop_table P x T s) = npages s" "mem (drop_table P x T s) = (mem s)(P * 1024 + x := 0)"
  "pp_ref (pages (drop_table P x T s) q) = (if q = T then 0 else pp_ref (pages s q))"
  "vm_frame s (drop_table P x T s)"
proof -
  show "vm_frame s (drop_table P x T s)" unfolding drop_table_def
    by (rule vm_frame_trans [OF vm_frame_simps(5) vm_frame_trans [OF vm_frame_simps(1) vm_frame_simps(2)]])
qed (simp_all add: drop_table_def)

lemma pde_clear:
  assumes ok: "tables_ok m D" and P: "P \<in> D" and x: "x < user_pdes"
  defines "m' \<equiv> m(P * 1024 + x := 0)"
  shows "Q \<in> D \<Longrightarrow> y < 1024 \<Longrightarrow> table m' Q y = (if Q = P \<and> y = x then None else table m Q y)"
    and "Q \<in> D \<Longrightarrow> w < user_vpns \<Longrightarrow>
      pte_at m' Q w = (if Q = P \<and> w div 1024 = x then 0 else pte_at m Q w)"
proof -
  show t: "table m' Q y = (if Q = P \<and> y = x then None else table m Q y)" if "Q \<in> D" "y < 1024" for Q y
    using x that by (auto simp: table_def pde_at_def m'_def slot_eq)
  assume Q: "Q \<in> D" and w: "w < user_vpns"
  then have wx: "w div 1024 < 1024" "w div 1024 \<noteq> 957" by (auto simp: div_less_iff_less_mult)
  show "pte_at m' Q w = (if Q = P \<and> w div 1024 = x then 0 else pte_at m Q w)"
  proof (cases "Q = P \<and> w div 1024 = x")
    case True
    then show ?thesis using t [OF Q wx(1)] by (simp add: pte_at_def)
  next
    case False
    have "T \<noteq> P" if "table m Q (w div 1024) = Some T" for T
      using table_not_dir [OF ok Q wx that] P by blast
    then show ?thesis using t [OF Q wx(1)] False x
      by (auto simp: pte_at_def m'_def slot_eq split: option.split)
  qed
qed

lemma tables_ok_clear:
  assumes ok: "tables_ok m D"
    and T: "\<And>Q y. Q \<in> D \<Longrightarrow> y < 1024 \<Longrightarrow> table m' Q y = (if Q = P \<and> y = x then None else table m Q y)"
  shows "tables_ok m' D"
proof -
  have old: "table m Q y = Some T'" if "Q \<in> D" "y < 1024" "table m' Q y = Some T'" for Q y T'
    using T [OF that(1,2)] that(3) by (metis option.distinct(1))
  show ?thesis
  proof (rule tables_okI)
    fix Q y T' assume Q: "Q \<in> D"
    { assume y: "y < 1024" "y \<noteq> 957" and t: "table m' Q y = Some T'"
      show "T' \<notin> D" by (rule table_not_dir [OF ok Q y old [OF Q y(1) t]]) }
    { fix Q' y' assume y: "y < user_pdes" and t: "table m' Q y = Some T'"
        and Q': "Q' \<in> D" "y' < 1024" and t': "table m' Q' y' = Some T'"
      have y1: "y < 1024" using y by linarith
      show "Q' = Q \<and> y' = y"
        using tables_okD(2) [OF ok Q y old [OF Q y1 t] Q'] old [OF Q' t'] by blast }
    { assume "table m' Q 957 = Some T'"
      then show "T' = Q" using table_self [OF ok Q] old [OF Q] by simp }
  qed
qed

lemma unmapped_drop_table:
  assumes inv: "vm_inv s D xs" and P: "P \<in> D" and x: "x < user_pdes" and T: "table (mem s) P x = Some T"
    and empty: "\<And>v. v div 1024 = x \<Longrightarrow> mapped (mem s) P v = None"
  shows "unmapped D P {} {x} s xs (drop_table P x T s) (T # xs)"
proof -
  note I = vm_invD [OF inv]
  have x1: "x < 1024" using x by linarith
  let ?s = "drop_table P x T s"
  note C = pde_clear [OF I(3) P x]
  have tb: "table (mem ?s) Q y = (if Q = P \<and> y = x then None else table (mem s) Q y)"
    if "Q \<in> D" "y < 1024" for Q y using C(1) [OF that] by simp
  note own = tables_okD [OF I(3) P x T]
  note TB = vm_invD_table [OF inv P x1 T]
  have M: "mapped (mem ?s) Q v = mapped (mem s) Q v" if "Q \<in> D" "v < user_vpns" for Q v
    using C(2) [OF that] empty [of v] by (auto simp: mapped_def)
  have as: "aspace (mem ?s) Q = aspace (mem s) Q" if "Q \<in> D" for Q
  proof (rule ext)
    fix v
    have "aspace (mem s) P v = None" if "v div 1024 = x" "v < user_vpns"
      using empty [OF that(1)] aspace_None_mapped [OF that(2)] by blast
    then show "aspace (mem ?s) Q v = aspace (mem s) Q v"
      using C(2) [OF \<open>Q \<in> D\<close>, of v] by (cases "v < user_vpns"; cases "Q = P \<and> v div 1024 = x") (simp_all add: aspace_def)
  qed
  have T_notin: "T \<notin> pt_pages (mem ?s) D"
    using own tb unfolding pt_pages_def by (auto split: if_splits)
  have sub: "pt_pages (mem ?s) D \<subseteq> pt_pages (mem s) D"
    using tb unfolding pt_pages_def by (auto split: if_splits; blast)
  have tx: "T \<notin> set xs" by (rule I(5) [OF TB(3)])
  have pi: "page_inv ?s (T # xs)"
    unfolding drop_table_def
  proof (rule page_inv_push)
    show "page_inv (set_ref T 0 (s\<lparr>mem := (mem s)(P * 1024 + x := 0)\<rparr>)) xs"
      using I(1) tx by (intro page_inv_set_ref) (auto simp: page_inv_def pl.is_list_def page_links_def)
  qed (use TB(1) tx in simp_all)
  have U: "uses (mem ?s) D q = uses (mem s) D q" for q using M by (auto simp: uses_def)
  have T0: "uses (mem s) D T = {}" using I(8) TB(3) by (auto simp: uses_def)
  have "vm_inv ?s D (T # xs)"
    unfolding vm_inv_def
  proof (intro conjI)
    show "tables_ok (mem ?s) D" using I(3) tb by (rule tables_ok_clear)
    show "\<forall>q \<in> pt_pages (mem ?s) D. q < unat (npages ?s) \<and> q \<notin> set (T # xs)"
      using sub T_notin I(4,5) by auto
    show "\<forall>Q \<in> D. pp_ref (pages ?s Q) = 1" using I(6) own(1) by auto
    show "\<forall>Q \<in> D. \<forall>y < user_pdes. \<forall>T'. table (mem ?s) Q y = Some T' \<longrightarrow> pp_ref (pages ?s T') = 1"
    proof (intro ballI allI impI)
      fix Q y T' assume Q: "Q \<in> D" and y: "y < user_pdes" and t: "table (mem ?s) Q y = Some T'"
      have y1: "y < 1024" using y by linarith
      have "T' \<noteq> T" using T_notin pt_pagesI(2) [OF Q y1 t] by blast
      moreover have "table (mem s) Q y = Some T'" using tb [OF Q y1] t by (metis option.distinct(1))
      ultimately show "pp_ref (pages ?s T') = 1" using I(7) [OF Q y] by simp
    qed
    show "\<forall>Q \<in> D. \<forall>v < user_vpns. \<forall>q. mapped (mem ?s) Q v = Some q \<longrightarrow>
        q < unat (npages ?s) \<and> q \<notin> pt_pages (mem ?s) D"
    proof (intro ballI allI impI)
      fix Q v q assume Q: "Q \<in> D" and v: "v < user_vpns" and m: "mapped (mem ?s) Q v = Some q"
      then have "mapped (mem s) Q v = Some q" using M by simp
      then show "q < unat (npages ?s) \<and> q \<notin> pt_pages (mem ?s) D" using I(8) [OF Q v] sub by auto
    qed
    show "\<forall>q. card (uses (mem ?s) D q) \<le> unat (pp_ref (pages ?s q))"
    proof
      fix q show "card (uses (mem ?s) D q) \<le> unat (pp_ref (pages ?s q))"
        unfolding U using I(9) [of q] T0 by auto
    qed
  qed (use pi I(2) in simp_all)
  moreover have "freed D s ?s (T # xs)" unfolding freed_def by auto
  ultimately show ?thesis unfolding unmapped_def using as tb TB(3) T by auto
qed

lemma unmapped_free_pde:
  assumes inv: "vm_inv s D xs" and P: "P \<in> D" and x: "x < user_pdes"
  shows "\<exists>s' xs'. free_pde (page_kva P) x s = Ret () s' \<and>
    unmapped D P {x * 1024 ..< x * 1024 + 1024} {x} s xs s' xs'"
proof -
  have x1: "x < 1024" using x by linarith
  have Pn: "P < 1048576" using vm_invD(11) [OF inv] P by (simp add: pt_pages_def)
  have ld: "kload (page_kva P + 4 * word_of_nat x) s = Ret (pde_at (mem s) P x) s"
    using Pn x1 by (simp add: kload_Ret kidx_slot pde_at_def)
  show ?thesis
  proof (cases "table (mem s) P x")
    case None
    then have e: "pde_at (mem s) P x AND PTE_P = 0" by (simp add: table_def pte_page_None)
    have m: "mapped (mem s) P v = None" if "v div 1024 = x" for v
      using None that by (simp add: mapped_def pte_at_def pte_page_None)
    have "{x * 1024 ..< x * 1024 + 1024} \<inter> {v. v < user_vpns \<and> mapped (mem s) P v \<noteq> None} = {}"
      using m by fastforce
    from unmapped_refl [OF inv this] None
    have "unmapped D P {x * 1024 ..< x * 1024 + 1024} {x} s xs s xs"
      unfolding unmapped_def by simp
    then show ?thesis using ld e by (auto simp: free_pde_def)
  next
    case (Some T)
    note TB = vm_invD_table [OF inv P x1 Some]
    have pg: "pte_page (pde_at (mem s) P x) = Some T" using Some by (simp add: table_def)
    then have e: "pde_at (mem s) P x AND PTE_P \<noteq> 0" by (auto simp: pte_page_Some)
    obtain s1 xs1 where 1: "each (free_pte (page_kva P) (page_kva T) x) [0 ..< 1024] s = Ret () s1"
      "unmapped D P {x * 1024 ..< x * 1024 + 1024} {} s xs s1 xs1"
      using unmapped_free_ptes [OF inv P x Some, of 1024] by auto
    note U = unmappedD [OF 1(2)]
    have T1: "table (mem s1) P x = Some T" using U(6) [OF P x1] Some by simp
    have np: "npages s1 = npages s" by (rule vm_frameD(1) [OF U(2)])
    have emp: "mapped (mem s1) P v = None" if "v div 1024 = x" for v
    proof -
      have "v = x * 1024 + v mod 1024" "v mod 1024 < 1024" using that by auto
      then have "v \<in> {x * 1024 ..< x * 1024 + 1024}" "v < user_vpns" using x by auto
      then show ?thesis using unmapped_mapped [OF 1(2) P, of v] by simp
    qed
    let ?s2 = "s1\<lparr>mem := (mem s1)(P * 1024 + x := 0)\<rparr>"
    have dec: "page_decref T ?s2 = Ret () (drop_table P x T s1)"
      unfolding drop_table_def
    proof (rule page_decref_last(1))
      show "page_inv ?s2 xs1" using vm_invD(1) [OF U(1)] by (simp add: page_inv_def pl.is_list_def page_links_def)
      show "T < unat (npages ?s2)" using TB(1) np by simp
      show "pp_ref (pages ?s2 T) = 1" using vm_invD(7) [OF U(1) P x T1] by simp
    qed
    have KA: "KADDR (PTE_ADDR (pde_at (mem s) P x)) s = Ret (page_kva T) s"
      by (rule KADDR_PTE_ADDR [OF pg TB(1)])
    have pa: "pa2page (PTE_ADDR (pde_at (mem s) P x)) ?s2 = Ret T ?s2"
      using pg TB(1) np by (simp add: pa2page_def pte_page_Some word_le_nat_alt)
    have st: "kstore (page_kva P + 4 * word_of_nat x) 0 s1 = Ret () ?s2"
      using Pn x1 by (simp add: kstore_Ret kidx_slot)
    have lim: "unat (PTX (NOT 0)) + 1 = 1024" by code_simp
    have "free_pde (page_kva P) x s = Ret () (drop_table P x T s1)"
      unfolding free_pde_def lim using ld e KA 1(1) st pa dec by simp
    moreover have "unmapped D P ({x * 1024 ..< x * 1024 + 1024} \<union> {}) ({} \<union> {x}) s xs
        (drop_table P x T s1) (T # xs1)"
      by (rule unmapped_trans [OF 1(2) unmapped_drop_table [OF U(1) P x T1 emp] _ P]) simp_all
    ultimately show ?thesis by auto
  qed
qed

lemma unmapped_free_pdes:
  assumes inv: "vm_inv s D xs" and P: "P \<in> D"
  shows "n \<le> user_pdes \<Longrightarrow> \<exists>s' xs'. each (free_pde (page_kva P)) [0 ..< n] s = Ret () s' \<and>
    unmapped D P {..< n * 1024} {..< n} s xs s' xs'"
proof (induction n)
  case 0
  then show ?case using unmapped_refl [OF inv, of "{}" P] by auto
next
  case (Suc n)
  then obtain s1 xs1 where 1: "each (free_pde (page_kva P)) [0 ..< n] s = Ret () s1"
    "unmapped D P {..< n * 1024} {..< n} s xs s1 xs1" by auto
  obtain s2 xs2 where 2: "free_pde (page_kva P) n s1 = Ret () s2"
    "unmapped D P {n * 1024 ..< n * 1024 + 1024} {n} s1 xs1 s2 xs2"
    using unmapped_free_pde [OF unmappedD(1) [OF 1(2)] P, of n] Suc.prems by auto
  have "unmapped D P ({..< n * 1024} \<union> {n * 1024 ..< n * 1024 + 1024}) ({..< n} \<union> {n}) s xs s2 xs2"
    by (rule unmapped_trans [OF 1(2) 2(2) _ P]) auto
  moreover have "{..< n * 1024} \<union> {n * 1024 ..< n * 1024 + 1024} = {..< Suc n * 1024}" "{..< n} \<union> {n} = {..< Suc n}"
    by auto
  ultimately show ?case using 1(1) 2(1) by (auto simp: each_append)
qed

subsection \<open>The page directory\<close>

lemma vm_inv_drop_dir:
  assumes inv: "vm_inv s D xs" and P: "P \<in> D"
  shows "page_decref P s = Ret () (pl.push P (set_ref P 0 s))"
    and "vm_inv (pl.push P (set_ref P 0 s)) (D - {P}) (P # xs)"
proof -
  note I = vm_invD [OF inv]
  let ?s = "pl.push P (set_ref P 0 s)" and ?D = "D - {P}"
  have pt: "P \<in> pt_pages (mem s) D" using P by (simp add: pt_pages_def)
  note dec = page_decref_last [OF I(1) I(4) [OF pt] I(6) [OF P]]
  show "page_decref P s = Ret () ?s" by (rule dec(1))
  have own: "table (mem s) Q x \<noteq> Some P" if "Q \<in> ?D" "x < 1024" for Q x
    using table_not_dir [OF I(3), of Q x P] table_self [OF I(3), of Q P] that P by (cases "x = 957") auto
  have sub: "pt_pages (mem s) ?D \<subseteq> pt_pages (mem s) D - {P}"
    using own unfolding pt_pages_def by blast
  have us: "uses (mem s) ?D q \<subseteq> uses (mem s) D q" for q by (auto simp: uses_def)
  have fin: "finite (uses (mem s) D q)" for q by (rule finite_uses [OF I(2)])
  have P0: "uses (mem s) D P = {}" using I(8) pt by (auto simp: uses_def)
  have cnt: "card (uses (mem s) ?D q) \<le> unat (pp_ref (pages ?s q))" for q
    using card_mono [OF fin us] I(9) [of q] P0 us [of P] by (cases "q = P") (auto intro: le_trans)
  have ok: "tables_ok (mem s) ?D" using I(3) unfolding tables_ok_def by blast
  show "vm_inv ?s ?D (P # xs)"
    unfolding vm_inv_def
  proof (intro conjI)
    show "\<forall>p \<in> pt_pages (mem ?s) ?D. p < unat (npages ?s) \<and> p \<notin> set (P # xs)"
      using sub I(4,5) by auto
    show "\<forall>Q \<in> ?D. \<forall>x < user_pdes. \<forall>T. table (mem ?s) Q x = Some T \<longrightarrow> pp_ref (pages ?s T) = 1"
    proof (intro ballI allI impI)
      fix Q x T assume Q: "Q \<in> ?D" and x: "x < user_pdes" and t: "table (mem ?s) Q x = Some T"
      have "x < 1024" using x by linarith
      then have "T \<noteq> P" using own [OF Q] t by auto
      then show "pp_ref (pages ?s T) = 1" using I(7) [of Q x T] Q x t by simp
    qed
    show "\<forall>Q \<in> ?D. \<forall>v < user_vpns. \<forall>p. mapped (mem ?s) Q v = Some p \<longrightarrow>
        p < unat (npages ?s) \<and> p \<notin> pt_pages (mem ?s) ?D"
      using I(8) sub by auto
  qed (use dec(2) I(2,6) ok cnt in auto)
qed

subsection \<open>The whole environment\<close>

definition free_slot :: "nat \<Rightarrow> kstate \<Rightarrow> kstate" where
  "free_slot e s = (upd_env e (\<lambda>x. x\<lparr>env_status := ENV_FREE, env_link := env_free_list s\<rparr>) s)
     \<lparr>env_free_list := Some e\<rparr>"

lemma env_free_Ret:
  assumes inv: "vm_inv s D xs" and P: "P \<in> D" and pg: "env_pgdir (envs s e) = page_kva P"
    and np: "unat (npages s) \<le> 65536" and K: "kern_pgdir s = page_kva K" "K < 65536"
  shows "\<exists>s1 xs1. unmapped D P {..< user_vpns} {..< user_pdes} s xs s1 xs1 \<and>
    env_free e s = Ret () (free_slot e (upd_env e (\<lambda>x. x\<lparr>env_pgdir := 0\<rparr>) (pl.push P (set_ref P 0 s1))
      \<lparr>cr3 := if curenv s = Some e then page2pa K else cr3 s\<rparr>))"
proof -
  have Pn: "P < 65536" using vm_invD(4) [OF inv, of P] P np by (simp add: pt_pages_def)
  let ?c = "if curenv s = Some e then page2pa K else cr3 s"
  have inv0: "vm_inv (s\<lparr>cr3 := ?c\<rparr>) D xs" using inv by (subst vm_inv_cong [of _ s]) simp_all
  obtain s1 xs1 where 1: "each (free_pde (page_kva P)) [0 ..< 955] (s\<lparr>cr3 := ?c\<rparr>) = Ret () s1"
    "unmapped D P {..< user_vpns} {..< user_pdes} (s\<lparr>cr3 := ?c\<rparr>) xs s1 xs1"
    using unmapped_free_pdes [OF inv0 P, of 955] by auto
  note U = unmappedD [OF 1(2)]
  have f: "envs s1 = envs s" "npages s1 = npages s" "cr3 s1 = ?c" using vm_frameD [OF U(2)] by simp_all
  let ?u = "\<lambda>s. upd_env e (\<lambda>x. x\<lparr>env_pgdir := 0\<rparr>) s"
  have lim: "unat (PDX UTOP) = 955" by code_simp
  have inv2: "vm_inv (?u s1) D xs1" using U(1) by (subst vm_inv_cong [of _ s1]) (simp_all add: upd_env_def)
  have dec: "page_decref P (?u s1) = Ret () (?u (pl.push P (set_ref P 0 s1)))"
    using vm_inv_drop_dir(1) [OF inv2 P]
    by (simp add: upd_env_def pl.push_def set_ref_def upd_page_def set_page_link_def set_page_head_def)
  have pa: "pa2page (page2pa P) (?u s1) = Ret P (?u s1)"
    using vm_invD(4) [OF inv, of P] P Pn f(2)
    by (simp add: pt_pages_def pa2page_def word_le_nat_alt PGNUM_page2pa upd_env_def)
  have "env_free e s = Ret () (free_slot e (?u (pl.push P (set_ref P 0 s1))))"
    unfolding env_free_def lim using 1(1) pg f(1) K dec pa Pn
    by (auto simp: PADDR_page_kva lcr3_def free_slot_def)
  moreover have "?u (pl.push P (set_ref P 0 s1)) = ?u (pl.push P (set_ref P 0 (s1\<lparr>cr3 := cr3 s\<rparr>)))\<lparr>cr3 := ?c\<rparr>"
    using f(3) by (cases s1) (simp add: upd_env_def pl.push_def set_ref_def upd_page_def set_page_link_def
        set_page_head_def)
  moreover have "unmapped D P {..< user_vpns} {..< user_pdes} s xs (s1\<lparr>cr3 := cr3 s\<rparr>) xs1"
  proof -
    have "vm_inv (s1\<lparr>cr3 := cr3 s\<rparr>) D xs1" using U(1) by (subst vm_inv_cong [of _ s1]) simp_all
    moreover have "vm_frame s (s1\<lparr>cr3 := cr3 s\<rparr>)" using U(2) unfolding vm_frame_def by (cases s; cases s1) simp
    ultimately show ?thesis using 1(2) by (simp add: unmapped_def freed_def)
  qed
  ultimately show ?thesis by metis
qed

end
