(* ===== verification/Kern_Inv.thy ===== *)
theory Kern_Inv
  imports Kern_Env_Free
begin

text \<open>
  The system invariant of the kernel: the page directories are the kernel's own and one per live
  environment, the memory invariant holds of them, every environment is on the free list or live with an
  identifier that names its slot. Allocation and release of environments keep it, and their
  contracts are stated here; the system calls build on them.
\<close>

subsection \<open>The invariant\<close>

definition live :: "kstate \<Rightarrow> nat set" where
  "live s = {i. i < NENV \<and> env_status (envs s i) \<noteq> ENV_FREE}"

definition env_dir :: "kstate \<Rightarrow> nat \<Rightarrow> nat" where
  "env_dir s e = vpn (env_pgdir (envs s e) - KERNBASE)"

definition dirs :: "nat \<Rightarrow> kstate \<Rightarrow> nat set" where
  "dirs K s = insert K (env_dir s ` live s)"

definition env_wf :: "nat \<Rightarrow> kstate \<Rightarrow> nat \<Rightarrow> bool" where
  "env_wf K s e \<longleftrightarrow> env_pgdir (envs s e) = page_kva (env_dir s e) \<and> env_dir s e \<noteq> K \<and>
     ENVX (env_id (envs s e)) = e \<and> 0 < sint (env_id (envs s e))"

definition kern_inv :: "nat \<Rightarrow> kstate \<Rightarrow> nat list \<Rightarrow> nat list \<Rightarrow> bool" where
  "kern_inv K s xs fl \<longleftrightarrow>
     vm_inv s (dirs K s) xs \<and> env_inv s fl \<and> kern_pgdir s = page_kva K \<and>
     unat (npages s) \<le> 65536 \<and> inj_on (env_dir s) (live s) \<and> (\<forall>e \<in> live s. env_wf K s e) \<and>
     (\<forall>i < NENV. env_id (envs s i) = 0 \<or> ENVX (env_id (envs s i)) = i)"

definition kernel_ok :: "kstate \<Rightarrow> bool" where
  "kernel_ok s \<longleftrightarrow> (\<exists>K xs fl. kern_inv K s xs fl)"

lemma kern_invD:
  assumes "kern_inv K s xs fl"
  shows "vm_inv s (dirs K s) xs" "env_inv s fl" "kern_pgdir s = page_kva K" "unat (npages s) \<le> 65536"
    "inj_on (env_dir s) (live s)" "\<And>e. e \<in> live s \<Longrightarrow> env_pgdir (envs s e) = page_kva (env_dir s e)"
    "\<And>e. e \<in> live s \<Longrightarrow> env_dir s e \<noteq> K" "\<And>e. e \<in> live s \<Longrightarrow> ENVX (env_id (envs s e)) = e"
    "\<And>e. e \<in> live s \<Longrightarrow> 0 < sint (env_id (envs s e))" "K \<in> dirs K s"
    "\<And>e. e \<in> live s \<Longrightarrow> env_dir s e \<in> dirs K s" "K < 65536"
    "\<And>e. e \<in> live s \<Longrightarrow> env_dir s e < 65536"
    "\<And>i. i < NENV \<Longrightarrow> env_id (envs s i) = 0 \<or> ENVX (env_id (envs s i)) = i"
proof -
  have lt: "P < 65536" if "P \<in> dirs K s" for P
    using vm_invD(4) [of s "dirs K s" xs P] assms that by (simp add: kern_inv_def pt_pages_def)
  show "K < 65536" "\<And>e. e \<in> live s \<Longrightarrow> env_dir s e < 65536" using lt by (auto simp: dirs_def)
qed (use assms in \<open>auto simp: kern_inv_def env_wf_def dirs_def\<close>)

lemma liveI: "e < NENV \<Longrightarrow> env_status (envs s e) \<noteq> ENV_FREE \<Longrightarrow> e \<in> live s"
  by (simp add: live_def)

lemma env_dir_page_kva: "p < 1048576 \<Longrightarrow> env_pgdir (envs s e) = page_kva p \<Longrightarrow> env_dir s e = p"
  by (simp add: env_dir_def page_kva_def vpn_def PGNUM_page2pa)

text \<open>The invariant only looks at some of the state.\<close>

lemma kern_inv_cong:
  assumes "npages s = npages t" "mem s = mem t" "pages s = pages t" "page_free_list s = page_free_list t"
    "envs s = envs t" "env_free_list s = env_free_list t" "kern_pgdir s = kern_pgdir t"
  shows "kern_inv K s xs fl = kern_inv K t xs fl"
proof -
  have "live s = live t" "env_dir s = env_dir t" using assms by (auto simp: live_def env_dir_def fun_eq_iff)
  moreover from this have "dirs K s = dirs K t" by (simp add: dirs_def)
  moreover have "env_inv s fl = env_inv t fl" using assms by (simp add: env_inv_def el.is_list_def env_links_def)
  moreover have "env_wf K s = env_wf K t" using assms by (auto simp: fun_eq_iff env_wf_def env_dir_def)
  ultimately show ?thesis
    using vm_inv_cong [of s t "dirs K t" xs] assms by (simp add: kern_inv_def)
qed

text \<open>Updates of an environment that leave its identity, address space and list link alone.\<close>

definition env_keeps :: "Env \<Rightarrow> Env \<Rightarrow> bool" where
  "env_keeps x y \<longleftrightarrow> env_id y = env_id x \<and> env_pgdir y = env_pgdir x \<and> env_link y = env_link x \<and>
     (env_status y = ENV_FREE) = (env_status x = ENV_FREE)"

lemma kern_inv_upd_env:
  assumes inv: "kern_inv K s xs fl" and k: "env_keeps (envs s e) (f (envs s e))"
  shows "kern_inv K (upd_env e f s) xs fl"
proof -
  let ?t = "upd_env e f s"
  have f: "npages ?t = npages s" "mem ?t = mem s" "pages ?t = pages s" "page_free_list ?t = page_free_list s"
    "env_free_list ?t = env_free_list s" "kern_pgdir ?t = kern_pgdir s"
    "envs ?t = (envs s)(e := f (envs s e))" by (simp_all add: upd_env_def)
  have l: "live ?t = live s" "env_dir ?t = env_dir s"
    using k by (auto simp: live_def env_dir_def fun_eq_iff f env_keeps_def)
  then have d: "dirs K ?t = dirs K s" by (simp add: dirs_def)
  have "env_links ?t = env_links s" using k by (auto simp: env_links_def fun_eq_iff f env_keeps_def)
  then have "env_inv ?t fl"
    using kern_invD(2) [OF inv] k by (auto simp: env_inv_def el.is_list_def f env_keeps_def)
  moreover have "env_wf K ?t i = env_wf K s i" for i
    using k by (auto simp: env_wf_def l f env_keeps_def)
  moreover have "env_id (envs ?t i) = env_id (envs s i)" for i using k by (simp add: f env_keeps_def)
  moreover have "vm_inv ?t (dirs K s) xs"
    using kern_invD(1) [OF inv] vm_inv_cong [of ?t s] f by simp
  ultimately show ?thesis using inv by (simp add: kern_inv_def l d f)
qed

text \<open>Operations of \<^verbatim>\<open>kern/pmap.c\<close> touch no environment.\<close>

lemma kern_inv_vm:
  assumes inv: "kern_inv K s xs fl" and vm: "vm_inv s' (dirs K s) xs'" and fr: "vm_frame s s'"
  shows "kern_inv K s' xs' fl"
proof -
  note F = vm_frameD [OF fr]
  have l: "live s' = live s" "env_dir s' = env_dir s" by (simp_all add: live_def env_dir_def fun_eq_iff F)
  then have d: "dirs K s' = dirs K s" by (simp add: dirs_def)
  have "env_inv s' fl" using kern_invD(2) [OF inv] F by (simp add: env_inv_def el.is_list_def env_links_def)
  moreover have "env_wf K s' = env_wf K s" by (simp add: fun_eq_iff env_wf_def l F)
  ultimately show ?thesis using inv vm by (simp add: kern_inv_def l d F)
qed

subsection \<open>Allocating an environment\<close>

lemma live_free_list: "kern_inv K s xs (e # fl) \<Longrightarrow> e < NENV \<and> e \<notin> live s"
  using kern_invD(2) [of K s xs "e # fl"] by (auto simp: env_inv_def live_def)

lemma live_not_free_list: "kern_inv K s xs fl \<Longrightarrow> e \<in> live s \<Longrightarrow> e \<notin> set fl"
  using kern_invD(2) [of K s xs fl] by (auto simp: env_inv_def live_def)

lemma env_alloc_inv:
  fixes par :: u32
  assumes inv: "kern_inv K s (p # xs) (e # fl)"
  defines "s' \<equiv> alloc_state e p K par s"
  shows "env_alloc par s = Ret (0, Some e) s'" and "kern_inv K s' xs fl" and "live s' = insert e (live s)"
    and "env_dir s' e = p" and "aspace (mem s') p = Map.empty"
    and "\<And>Q. Q \<in> dirs K s \<Longrightarrow> aspace (mem s') Q = aspace (mem s) Q"
proof -
  note I = kern_invD [OF inv]
  note V = vm_invD [OF I(1)]
  have e: "e < NENV" "e \<notin> live s" using live_free_list [OF inv] by auto
  have pn: "p \<notin> pt_pages (mem s) (dirs K s)" using V(5) by auto
  have p: "p < 1048576" using page_invD(5) [OF V(1), of p] by simp
  have pD: "p \<notin> dirs K s" using pn by (auto simp: pt_pages_def)
  have Kp: "K \<noteq> p" using pD I(10) by blast
  have h: "env_free_list s = Some e" using I(2) by (simp add: env_inv_def el.is_list_def)
  show "env_alloc par s = Ret (0, Some e) s'" unfolding s'_def
    by (rule env_alloc_Ret [OF V(1) I(3) _ Kp I(4) h]) (use I(12) in simp)
  have en: "envs s' = (envs s)(e := alloc_env e par ((envs s e)\<lparr>env_pgdir := page_kva p\<rparr>))"
    by (simp add: s'_def)
  show l: "live s' = insert e (live s)" using e by (auto simp: live_def en alloc_env_def)
  show d: "env_dir s' e = p" by (rule env_dir_page_kva [OF p]) (simp add: en alloc_env_def)
  have do: "env_dir s' i = env_dir s i" if "i \<noteq> e" for i using that by (simp add: env_dir_def en)
  have dl: "env_dir s' i = env_dir s i" if "i \<in> live s" for i using that do e(2) by metis
  have im: "env_dir s' ` live s = env_dir s ` live s" using dl by (intro image_cong) auto
  have ds: "dirs K s' = insert p (dirs K s)" by (auto simp: dirs_def l d im)
  have "inj_on (env_dir s') (live s')"
    using I(5) pD e(2) inj_on_cong [of "live s" "env_dir s'" "env_dir s"] dl
    by (auto simp: l d im dirs_def)
  moreover have "env_wf K s' i" if "i \<in> live s'" for i
  proof (cases "i = e")
    case True
    then show ?thesis using Kp new_env_id_props(1,2) [OF e(1)] by (simp add: env_wf_def d en alloc_env_def)
  next
    case False
    then show ?thesis using that inv do by (simp add: l kern_inv_def env_wf_def en)
  qed
  moreover have "env_id (envs s' i) = 0 \<or> ENVX (env_id (envs s' i)) = i" if "i < NENV" for i
    using I(14) [OF that] new_env_id_props(1) [OF e(1)] by (simp add: en alloc_env_def)
  moreover have "npages s' = npages s" "kern_pgdir s' = kern_pgdir s" by (simp_all add: s'_def)
  ultimately show "kern_inv K s' xs fl"
    using vm_inv_alloc [OF I(1) I(10), of e par, folded s'_def]
      env_inv_alloc [OF I(2), of p K par, folded s'_def] I(3,4)
    by (simp add: kern_inv_def ds)
  show "aspace (mem s') p = Map.empty"
    using setup_pte(1) [OF pn p, of _ K] by (auto simp: s'_def aspace_def fun_eq_iff)
  show "aspace (mem s') Q = aspace (mem s) Q" if "Q \<in> dirs K s" for Q
    using setup_pte(2) [OF pn p that, of _ K] by (auto simp: s'_def aspace_def fun_eq_iff)
qed

lemma envid2env_stale:
  "id' \<noteq> 0 \<Longrightarrow> env_id (envs s (ENVX id')) \<noteq> id' \<Longrightarrow> envid2env id' c s = Ret (err E_BAD_ENV, None) s"
  by (simp add: envid2env_def Let_def)

text \<open>
  \<^bold>\<open>C8.\<close> \<^verbatim>\<open>env_alloc\<close> in a state that satisfies the system invariant. With no free slot or no free page
  it returns the error code and changes nothing. Otherwise it takes the first free slot and one page,
  keeps the invariant, and the new environment is runnable with an empty user address space, while all
  other environments and address spaces are unchanged. An identifier of the slot's previous occupant is
  rejected by \<^verbatim>\<open>envid2env\<close> from then on.
\<close>

theorem env_alloc_spec:
  assumes inv: "kern_inv K s xs fl"
  shows "if fl = [] then env_alloc par s = Ret (err E_NO_FREE_ENV, None) s
    else if xs = [] then env_alloc par s = Ret (err E_NO_MEM, None) s
    else \<exists>s'. env_alloc par s = Ret (0, Some (hd fl)) s' \<and> kern_inv K s' (tl xs) (tl fl) \<and>
      hd fl \<notin> live s \<and> live s' = insert (hd fl) (live s) \<and> envs s' = (envs s)(hd fl := envs s' (hd fl)) \<and>
      env_status (envs s' (hd fl)) = ENV_RUNNABLE \<and> env_parent_id (envs s' (hd fl)) = par \<and>
      aspace (mem s') (env_dir s' (hd fl)) = Map.empty \<and>
      (\<forall>Q \<in> dirs K s. aspace (mem s') Q = aspace (mem s) Q) \<and>
      (env_id (envs s (hd fl)) \<noteq> 0 \<longrightarrow>
        envid2env (env_id (envs s (hd fl))) c s' = Ret (err E_BAD_ENV, None) s')"
proof (cases fl)
  case Nil
  then show ?thesis
    using kern_invD(2) [OF inv] env_alloc_no_env by (simp add: env_inv_def el.is_list_def)
next
  case fl: (Cons e fl')
  have h: "env_free_list s = Some e" using kern_invD(2) [OF inv] fl by (simp add: env_inv_def el.is_list_def)
  show ?thesis
  proof (cases xs)
    case Nil
    then show ?thesis using vm_invD(1) [OF kern_invD(1) [OF inv]] env_alloc_no_mem [OF _ h] fl by simp
  next
    case xs: (Cons p xs')
    let ?s = "alloc_state e p K par s"
    note A = env_alloc_inv [OF inv [unfolded xs fl], where par = par]
    have e: "e < NENV" "e \<notin> live s" using live_free_list [OF inv [unfolded fl]] by auto
    have "envid2env (env_id (envs s e)) c ?s = Ret (err E_BAD_ENV, None) ?s" if "env_id (envs s e) \<noteq> 0"
    proof (rule envid2env_stale [OF that])
      have x: "ENVX (env_id (envs s e)) = e" using kern_invD(14) [OF inv e(1)] that by simp
      then show "env_id (envs ?s (ENVX (env_id (envs s e)))) \<noteq> env_id (envs s e)"
        using new_env_id_props(3) [OF e(1), of "env_id (envs s e)"] by (simp add: alloc_env_def)
    qed
    then show ?thesis using A e(2) by (auto simp: fl xs alloc_env_def fun_eq_iff)
  qed
qed

subsection \<open>Releasing an environment\<close>

lemma env_inv_free_slot:
  assumes inv: "env_inv s fl" and e: "e < NENV" "e \<notin> set fl"
  shows "env_inv (free_slot e s) (e # fl)"
proof -
  let ?t = "upd_env e (\<lambda>x. x\<lparr>env_status := ENV_FREE\<rparr>) s"
  have "free_slot e s = el.push e ?t"
    by (simp add: free_slot_def el.push_def set_env_link_def set_env_head_def upd_env_def)
  moreover have "env_links ?t = env_links s" "env_free_list ?t = env_free_list s"
    by (auto simp: env_links_def upd_env_def fun_eq_iff)
  then have "el.is_list ?t fl" using inv by (simp add: env_inv_def el.is_list_def)
  ultimately have "el.is_list (free_slot e s) (e # fl)" using e(2) el.is_list_push by metis
  moreover have "set (e # fl) = {i. i < NENV \<and> env_status (envs (free_slot e s) i) = ENV_FREE}"
    using inv e by (auto simp: env_inv_def free_slot_def upd_env_def)
  ultimately show ?thesis by (simp add: env_inv_def)
qed

definition freed_env :: "nat \<Rightarrow> kstate \<Rightarrow> Env" where
  "freed_env e s = (envs s e)\<lparr>env_pgdir := 0, env_status := ENV_FREE, env_link := env_free_list s\<rparr>"

lemma env_free_inv:
  assumes inv: "kern_inv K s xs fl" and e: "e \<in> live s"
  obtains s1 xs1 s' where
    "unmapped (dirs K s) (env_dir s e) {..< user_vpns} {..< user_pdes} s xs s1 xs1"
    "env_free e s = Ret () s'" "kern_inv K s' (env_dir s e # xs1) (e # fl)" "live s' = live s - {e}"
    "mem s' = mem s1" "\<And>q. pp_ref (pages s' q) = (if q = env_dir s e then 0 else pp_ref (pages s1 q))"
    "envs s' = (envs s)(e := freed_env e s)" "cpus s' = cpus s" "this_cpu s' = this_cpu s"
    "kernel_lock s' = kernel_lock s"
proof -
  note I = kern_invD [OF inv]
  let ?P = "env_dir s e"
  have eN: "e < NENV" "e \<notin> set fl" using e live_not_free_list [OF inv e] by (auto simp: live_def)
  obtain s1 xs1 where U: "unmapped (dirs K s) ?P {..< user_vpns} {..< user_pdes} s xs s1 xs1"
    and r: "env_free e s = Ret () (free_slot e (upd_env e (\<lambda>x. x\<lparr>env_pgdir := 0\<rparr>) (pl.push ?P (set_ref ?P 0 s1))
      \<lparr>cr3 := if curenv s = Some e then page2pa K else cr3 s\<rparr>))"
    using env_free_Ret [OF I(1) I(11) [OF e] I(6) [OF e] I(4) I(3) I(12)] by blast
  note F = vm_frameD [OF unmappedD(2) [OF U]]
  define t where "t = upd_env e (\<lambda>x. x\<lparr>env_pgdir := 0\<rparr>) (pl.push ?P (set_ref ?P 0 s1))
      \<lparr>cr3 := if curenv s = Some e then page2pa K else cr3 s\<rparr>"
  define s' where "s' = free_slot e t"
  have tf: "npages t = npages s" "mem t = mem s1" "pages t = pages (pl.push ?P (set_ref ?P 0 s1))"
    "page_free_list t = page_free_list (pl.push ?P (set_ref ?P 0 s1))" "kern_pgdir t = kern_pgdir s"
    "env_free_list t = env_free_list s" "envs t = (envs s)(e := (envs s e)\<lparr>env_pgdir := 0\<rparr>)"
    "cpus t = cpus s" "this_cpu t = this_cpu s" "kernel_lock t = kernel_lock s"
    by (simp_all add: t_def upd_env_def F pl.push_def set_ref_def upd_page_def set_page_link_def set_page_head_def)
  have sf: "npages s' = npages t" "mem s' = mem t" "pages s' = pages t" "page_free_list s' = page_free_list t"
    "kern_pgdir s' = kern_pgdir t" "cpus s' = cpus t" "this_cpu s' = this_cpu t"
    "kernel_lock s' = kernel_lock t" "envs s' = (envs s)(e := freed_env e s)"
    by (simp_all add: s'_def free_slot_def upd_env_def freed_env_def tf)
  have l: "live s' = live s - {e}" by (auto simp: live_def sf freed_env_def)
  have dr: "env_dir s' i = env_dir s i" if "i \<noteq> e" for i using that by (simp add: env_dir_def sf)
  have im: "env_dir s' ` (live s - {e}) = env_dir s ` (live s - {e})" using dr by (intro image_cong) auto
  have ds: "dirs K s' = dirs K s - {?P}"
    using I(5,7) e by (auto simp: dirs_def l im inj_on_def)
  have "env_links t = env_links s" by (auto simp: env_links_def tf fun_eq_iff)
  then have "env_inv t fl" using I(2) by (auto simp: env_inv_def el.is_list_def tf)
  then have "env_inv s' (e # fl)" unfolding s'_def using eN by (rule env_inv_free_slot)
  moreover have "vm_inv s' (dirs K s') (?P # xs1)"
    using vm_inv_drop_dir(2) [OF unmappedD(1) [OF U] I(11) [OF e]] F(1)
    by (subst vm_inv_cong [of s' "pl.push ?P (set_ref ?P 0 s1)"]) (simp_all add: sf tf ds)
  moreover have "inj_on (env_dir s') (live s')"
    using I(5) inj_on_cong [of "live s - {e}" "env_dir s'" "env_dir s"] dr by (auto simp: l inj_on_diff)
  moreover have "env_wf K s' i" if "i \<in> live s'" for i
    using that inv dr [of i] by (simp add: l kern_inv_def env_wf_def sf)
  moreover have "env_id (envs s' i) = 0 \<or> ENVX (env_id (envs s' i)) = i" if "i < NENV" for i
    using I(14) [OF that] by (auto simp: sf freed_env_def)
  ultimately have "kern_inv K s' (?P # xs1) (e # fl)"
    using I(3,4) by (simp add: kern_inv_def sf tf)
  moreover have "pp_ref (pages s' q) = (if q = ?P then 0 else pp_ref (pages s1 q))" for q
    by (simp add: sf tf)
  ultimately show thesis using that [OF U] r l sf tf by (simp add: s'_def t_def)
qed

text \<open>
  \<^bold>\<open>C7.\<close> \<^verbatim>\<open>env_free\<close> of a live environment always returns, keeps the system invariant and loses no
  memory: its page directory and all its user page tables are on the free list afterwards, every
  mapped page lost exactly as many references as the address space had mappings of it and is on the
  free list if none is left. Every other address space and environment is unchanged.
\<close>

theorem env_free_spec:
  assumes inv: "kern_inv K s xs fl" and e: "e \<in> live s"
  shows "\<exists>s' xs'. env_free e s = Ret () s' \<and> kern_inv K s' xs' (e # fl) \<and> live s' = live s - {e} \<and>
    (\<forall>i. i \<noteq> e \<longrightarrow> envs s' i = envs s i) \<and>
    (\<forall>Q \<in> dirs K s - {env_dir s e}. aspace (mem s') Q = aspace (mem s) Q) \<and>
    set xs \<subseteq> set xs' \<and> env_dir s e \<in> set xs' \<and>
    (\<forall>x < user_pdes. \<forall>T. table (mem s) (env_dir s e) x = Some T \<longrightarrow> T \<in> set xs') \<and>
    (\<forall>q. q \<notin> pt_pages (mem s) (dirs K s) \<longrightarrow>
      unat (pp_ref (pages s' q)) + card {v. v < user_vpns \<and> mapped (mem s) (env_dir s e) v = Some q} =
        unat (pp_ref (pages s q)) \<and>
      (pp_ref (pages s q) \<noteq> 0 \<longrightarrow> pp_ref (pages s' q) = 0 \<longrightarrow> q \<in> set xs'))"
proof -
  let ?P = "env_dir s e"
  obtain s1 xs1 s' where U: "unmapped (dirs K s) ?P {..< user_vpns} {..< user_pdes} s xs s1 xs1"
    and s': "env_free e s = Ret () s'" "kern_inv K s' (?P # xs1) (e # fl)" "live s' = live s - {e}"
    "mem s' = mem s1" "\<And>q. pp_ref (pages s' q) = (if q = ?P then 0 else pp_ref (pages s1 q))"
    "envs s' = (envs s)(e := freed_env e s)"
    using env_free_inv [OF inv e] by metis
  note V = unmappedD [OF U]
  have Pp: "?P \<in> pt_pages (mem s) (dirs K s)" using kern_invD(11) [OF inv e] by (simp add: pt_pages_def)
  have "aspace (mem s') Q = aspace (mem s) Q" if "Q \<in> dirs K s - {?P}" for Q
    using V(5) [of Q] that s'(4) by auto
  moreover have "T \<in> set (?P # xs1)" if "x < user_pdes" "table (mem s) ?P x = Some T" for x T
    using V(8) [of x T] that by simp
  moreover have "unat (pp_ref (pages s' q)) + card {v. v < user_vpns \<and> mapped (mem s) ?P v = Some q} =
      unat (pp_ref (pages s q)) \<and> (pp_ref (pages s q) \<noteq> 0 \<longrightarrow> pp_ref (pages s' q) = 0 \<longrightarrow> q \<in> set (?P # xs1))"
    if q: "q \<notin> pt_pages (mem s) (dirs K s)" for q
  proof -
    have "q \<noteq> ?P" using q Pp by blast
    moreover have "{v \<in> {..< user_vpns}. v < user_vpns \<and> mapped (mem s) ?P v = Some q} =
      {v. v < user_vpns \<and> mapped (mem s) ?P v = Some q}" by auto
    ultimately show ?thesis using V(7) [OF q] V(4) q s'(5) unfolding freed_def by simp
  qed
  moreover have "set xs \<subseteq> set (?P # xs1)" using V(3) by auto
  ultimately show ?thesis using s'(1,2,3,6) by (intro exI [of _ s'] exI [of _ "?P # xs1"]) auto
qed

subsection \<open>A concrete machine\<close>

definition boot_machine :: kstate where
  "boot_machine = small_machine\<lparr>env_free_list := Some 0,
     envs := (\<lambda>i. zero_env\<lparr>env_link := if i + 1 < NENV then Some (i + 1) else None\<rparr>),
     kernel_lock := \<lparr>locked = 1, lock_cpu = Some 0\<rparr>\<rparr>"

lemma NENV_pos: "0 < NENV"
  by (simp add: NENV_def)

lemma linked_upt:
  assumes "\<And>i. a \<le> i \<Longrightarrow> i < b \<Longrightarrow> nxt i = (if i + 1 < b then Some (i + 1) else None)" and "a \<le> b"
  shows "linked nxt (if a < b then Some a else None) [a ..< b]"
  using assms(2,1)
proof (induction "b - a" arbitrary: a)
  case (Suc n)
  have "linked nxt (if Suc a < b then Some (Suc a) else None) [Suc a ..< b]"
    by (rule Suc.hyps(1)) (use Suc in auto)
  moreover have "a < b" using Suc.hyps(2) by simp
  ultimately show ?case using Suc.prems(2) [of a] upt_conv_Cons [of a b]
    by (cases "Suc a < b") auto
qed simp

lemma kern_inv_boot: "kern_inv 1 boot_machine [2, 3, 4] [0 ..< NENV]"
proof -
  have l: "live boot_machine = {}" by (auto simp: live_def boot_machine_def zero_env_def)
  then have d: "dirs 1 boot_machine = {1}" by (simp add: dirs_def)
  have "vm_inv boot_machine {1} [2, 3, 4]"
    using vm_inv_small by (subst vm_inv_cong [of _ small_machine]) (simp_all add: boot_machine_def)
  moreover have "linked (env_links boot_machine) (if 0 < NENV then Some 0 else None) [0 ..< NENV]"
    by (rule linked_upt) (auto simp: env_links_def boot_machine_def)
  then have "el.is_list boot_machine [0 ..< NENV]"
    using NENV_pos by (simp add: el.is_list_def) (simp add: boot_machine_def)
  then have "env_inv boot_machine [0 ..< NENV]" by (auto simp: env_inv_def boot_machine_def zero_env_def)
  moreover have "kern_pgdir boot_machine = page_kva 1" "npages boot_machine = 16"
    "env_id (envs boot_machine i) = 0" for i
    by (simp_all add: boot_machine_def small_machine_def zero_env_def)
  ultimately show ?thesis unfolding kern_inv_def l d by simp
qed

theorem env_alloc_spec_witness:
  "\<exists>s'. env_alloc 0 boot_machine = Ret (0, Some 0) s' \<and> live s' = {0} \<and> kern_inv 1 s' [3, 4] [1 ..< NENV]"
proof -
  have l: "live boot_machine = {}" by (auto simp: live_def boot_machine_def zero_env_def)
  have u: "[0 ..< NENV] = 0 # [1 ..< NENV]" using upt_conv_Cons [of 0 NENV] by (simp add: NENV_pos)
  show ?thesis using env_alloc_spec [OF kern_inv_boot, of 0 True] l unfolding u by auto
qed

theorem env_free_spec_witness:
  "\<exists>s s' xs'. env_alloc 0 boot_machine = Ret (0, Some 0) s \<and> env_free 0 s = Ret () s' \<and>
     kern_inv 1 s' xs' [0 ..< NENV] \<and> live s' = {} \<and> {2, 3, 4} \<subseteq> set xs'"
proof -
  have l: "live boot_machine = {}" by (auto simp: live_def boot_machine_def zero_env_def)
  have u: "[0 ..< NENV] = 0 # [1 ..< NENV]" using upt_conv_Cons [of 0 NENV] by (simp add: NENV_pos)
  note A = env_alloc_inv [OF kern_inv_boot [unfolded u], where par = 0]
  show ?thesis using env_free_spec [OF A(2), of 0] A l unfolding u by auto
qed

end
