(* ===== verification/Kern_Syscall.thy ===== *)
theory Kern_Syscall
  imports Kern_Inv
begin

text \<open>
  The system calls (\<^verbatim>\<open>kern/syscall.c\<close>) and the clock (\<^verbatim>\<open>kern/time.c\<close>). Arguments and results
  are 32-bit words as they cross the trap; a result that is negative as a signed number is an error.
\<close>

subsection \<open>The clock\<close>

definition time_init :: "(kstate, unit) op" where
  "time_init = modify (\<lambda>s. s\<lparr>ticks := 0\<rparr>)"

definition time_tick :: "(kstate, unit) op" where
  "time_tick =
     andthen (modify (\<lambda>s. s\<lparr>ticks := ticks s + 1\<rparr>)) (\<lambda>_.
     andthen (gets ticks) (\<lambda>t.
     if t * 10 < t then panic ''time_tick: time overflowed'' else ret ()))"

definition time_msec :: "(kstate, u32) op" where
  "time_msec = gets (\<lambda>s. ticks s * 10)"

subsection \<open>Access to user memory\<close>

text \<open>The byte at a virtual address, read through the current page directory.\<close>

definition word_byte :: "u32 \<Rightarrow> nat \<Rightarrow> u8" where
  "word_byte w k = ucast (drop_bit (8 * k) w)"

definition vload_byte :: "u32 \<Rightarrow> (kstate, u8) op" where
  "vload_byte va = (\<lambda>s. case mmu_translate s False va of
       None \<Rightarrow> Panic ''page fault in kernel mode''
     | Some pa \<Rightarrow> Ret (word_byte (mem s (unat pa div 4)) (unat pa mod 4)) s)"

primrec vload_bytes :: "u32 \<Rightarrow> nat \<Rightarrow> (kstate, u8 list) op" where
  "vload_bytes va 0 = ret []"
| "vload_bytes va (Suc n) =
     andthen (vload_byte va) (\<lambda>b.
     andthen (vload_bytes (va + 1) n) (\<lambda>bs. ret (b # bs)))"

definition with_curenv :: "(nat \<Rightarrow> (kstate, 'a) op) \<Rightarrow> (kstate, 'a) op" where
  "with_curenv f = (\<lambda>s. case curenv s of None \<Rightarrow> Panic ''null dereference'' | Some c \<Rightarrow> f c s)"

text \<open>
  The opening lines of most calls: translate the identifier, return the error if there is one,
  otherwise go on with the environment.
\<close>

definition with_env :: "u32 \<Rightarrow> bool \<Rightarrow> (nat \<Rightarrow> (kstate, u32) op) \<Rightarrow> (kstate, u32) op" where
  "with_env envid checkperm f =
     andthen (envid2env envid checkperm) (\<lambda>(r, eo).
     if sint r < 0 then ret r
     else case eo of None \<Rightarrow> panic ''null dereference'' | Some e \<Rightarrow> f e)"

subsection \<open>Console calls\<close>

text \<open>
  \<^verbatim>\<open>cprintf("%.*s", len, s)\<close>. The loop of \<^verbatim>\<open>vprintfmt\<close> fetches a character before it looks at the
  remaining precision, so with precision 0 one more byte is read and not printed. A negative precision
  means no limit; the loop then ends at a zero byte or at the first unmapped address, and the bound is
  the number of addresses. Characters are signed, hence sign-extended.
\<close>

primrec put_str :: "nat \<Rightarrow> u32 \<Rightarrow> (kstate, unit) op" where
  "put_str 0 p = andthen (vload_byte p) (\<lambda>_. ret ())"
| "put_str (Suc n) p =
     andthen (vload_byte p) (\<lambda>ch.
     if ch = 0 then ret ()
     else andthen (modify (\<lambda>s. s\<lparr>kcons := cputchar (scast ch) (kcons s)\<rparr>)) (\<lambda>_.
          put_str n (p + 1)))"

definition cprintf_str :: "u32 \<Rightarrow> u32 \<Rightarrow> (kstate, unit) op" where
  "cprintf_str len p =
     (let n = (if sint len < 0 then 4294967296 else unat len)
      in if p = 0
         then each (\<lambda>ch. modify (\<lambda>s. s\<lparr>kcons := cputchar (ucast ch) (kcons s)\<rparr>)) (take n (chars ''(null)''))
         else put_str n p)"

definition sys_cputs :: "u32 \<Rightarrow> u32 \<Rightarrow> (kstate, unit) op" where
  "sys_cputs p len =
     with_curenv (\<lambda>c.
     andthen (user_mem_assert c p len 0) (\<lambda>_.
     cprintf_str len p))"

definition sys_cgetc :: "(kstate, u32) op" where
  "sys_cgetc = (\<lambda>s. case cons_getc (kcons s) of
       None \<Rightarrow> Leave Spin_wait s
     | Some (c, k) \<Rightarrow> Ret c (s\<lparr>kcons := k\<rparr>))"

subsection \<open>Environments\<close>

definition sys_getenvid :: "(kstate, u32) op" where
  "sys_getenvid = with_curenv (\<lambda>c. gets (\<lambda>s. env_id (envs s c)))"

definition sys_env_destroy :: "u32 \<Rightarrow> (kstate, u32) op" where
  "sys_env_destroy envid =
     with_env envid True (\<lambda>e.
     andthen (env_destroy e) (\<lambda>_.
     ret 0))"

definition sys_yield :: "(kstate, unit) op" where
  "sys_yield = sched_yield"

definition sys_exofork :: "(kstate, u32) op" where
  "sys_exofork =
     with_curenv (\<lambda>c.
     andthen (gets (\<lambda>s. env_id (envs s c))) (\<lambda>parent.
     andthen (env_alloc parent) (\<lambda>(r, eo).
     if sint r < 0 then ret r
     else case eo of
       None \<Rightarrow> panic ''null dereference''
     | Some e \<Rightarrow>
         andthen (modify (upd_env e (\<lambda>x. x\<lparr>env_status := ENV_NOT_RUNNABLE\<rparr>))) (\<lambda>_.
         andthen (modify (\<lambda>s. upd_env e (\<lambda>x. x\<lparr>env_tf := env_tf (envs s c)\<rparr>) s)) (\<lambda>_.
         andthen (modify (upd_env e (\<lambda>x. x\<lparr>env_tf := (env_tf x)\<lparr>tf_regs :=
                    (tf_regs (env_tf x))\<lparr>reg_eax := 0\<rparr>\<rparr>\<rparr>))) (\<lambda>_.
         gets (\<lambda>s. env_id (envs s e))))))))"

text \<open>The enumeration values of \<^verbatim>\<open>inc/env.h\<close>.\<close>

definition ENV_RUNNABLE_code :: u32 where "ENV_RUNNABLE_code = 2"
definition ENV_NOT_RUNNABLE_code :: u32 where "ENV_NOT_RUNNABLE_code = 4"

definition sys_env_set_status :: "u32 \<Rightarrow> u32 \<Rightarrow> (kstate, u32) op" where
  "sys_env_set_status envid status =
     with_env envid True (\<lambda>e.
     if status \<noteq> ENV_RUNNABLE_code \<and> status \<noteq> ENV_NOT_RUNNABLE_code then ret (err E_INVAL)
     else andthen (modify (upd_env e (\<lambda>x. x\<lparr>env_status :=
            if status = ENV_RUNNABLE_code then ENV_RUNNABLE else ENV_NOT_RUNNABLE\<rparr>))) (\<lambda>_.
          ret 0))"

definition bytes_trapframe :: "u8 list \<Rightarrow> Trapframe" where
  "bytes_trapframe bs =
     (let w = (\<lambda>k. le32 (nth bs) k); h = (\<lambda>k. ucast (le16 (nth bs) k))
      in \<lparr>tf_regs = \<lparr>reg_edi = w 0, reg_esi = w 4, reg_ebp = w 8, reg_oesp = w 12,
                     reg_ebx = w 16, reg_edx = w 20, reg_ecx = w 24, reg_eax = w 28\<rparr>,
          tf_es = h 32, tf_padding1 = h 34, tf_ds = h 36, tf_padding2 = h 38,
          tf_trapno = w 40, tf_err = w 44, tf_eip = w 48, tf_cs = h 52, tf_padding3 = h 54,
          tf_eflags = w 56, tf_esp = w 60, tf_ss = h 64, tf_padding4 = h 66\<rparr>)"

definition sizeof_Trapframe :: u32 where "sizeof_Trapframe = 68"

definition user_trapframe :: "Trapframe \<Rightarrow> Trapframe" where
  "user_trapframe tf = tf\<lparr>tf_cs := tf_cs tf OR 3,
     tf_eflags := (tf_eflags tf AND NOT FL_IOPL_MASK) OR FL_IF\<rparr>"

definition sys_env_set_trapframe :: "u32 \<Rightarrow> u32 \<Rightarrow> (kstate, u32) op" where
  "sys_env_set_trapframe envid tf =
     with_env envid True (\<lambda>e.
     andthen (user_mem_assert e tf sizeof_Trapframe PTE_U) (\<lambda>_.
     andthen (vload_bytes tf (unat sizeof_Trapframe)) (\<lambda>bs.
     andthen (modify (upd_env e (\<lambda>x. x\<lparr>env_tf := user_trapframe (bytes_trapframe bs)\<rparr>))) (\<lambda>_.
     ret 0))))"

definition sys_env_set_pgfault_upcall :: "u32 \<Rightarrow> u32 \<Rightarrow> (kstate, u32) op" where
  "sys_env_set_pgfault_upcall envid func =
     andthen (envid2env envid True) (\<lambda>(r, eo).
     if sint r < 0 then ret (err E_BAD_ENV)
     else case eo of
       None \<Rightarrow> panic ''null dereference''
     | Some e \<Rightarrow>
         andthen (modify (upd_env e (\<lambda>x. x\<lparr>env_pgfault_upcall := func\<rparr>))) (\<lambda>_.
         ret 0))"

subsection \<open>Memory\<close>

definition bad_perm :: "u32 \<Rightarrow> bool" where
  "bad_perm perm \<longleftrightarrow>
     (let flag = PTE_U OR PTE_P in perm AND flag \<noteq> flag \<or> perm AND NOT PTE_SYSCALL \<noteq> 0)"

definition alloc_and_map :: "nat \<Rightarrow> u32 \<Rightarrow> u32 \<Rightarrow> (kstate, u32) op" where
  "alloc_and_map e va perm =
     andthen (page_alloc True) (\<lambda>pg.
     case pg of
       None \<Rightarrow> ret (err E_NO_MEM)
     | Some pp \<Rightarrow>
         andthen (gets (\<lambda>s. env_pgdir (envs s e))) (\<lambda>pgdir.
         andthen (page_insert pgdir pp va perm) (\<lambda>r.
         if sint r < 0 then andthen (page_free pp) (\<lambda>_. ret (err E_NO_MEM))
         else ret 0)))"

definition sys_page_alloc :: "u32 \<Rightarrow> u32 \<Rightarrow> u32 \<Rightarrow> (kstate, u32) op" where
  "sys_page_alloc envid va perm =
     with_env envid True (\<lambda>e.
     if UTOP \<le> va \<or> PGOFF va \<noteq> 0 then ret (err E_INVAL)
     else if bad_perm perm then ret (err E_INVAL)
     else alloc_and_map e va perm)"

definition lookup_and_map :: "nat \<Rightarrow> u32 \<Rightarrow> nat \<Rightarrow> u32 \<Rightarrow> u32 \<Rightarrow> (kstate, u32) op" where
  "lookup_and_map se srcva de dstva perm =
     andthen (gets (\<lambda>s. env_pgdir (envs s se))) (\<lambda>spgdir.
     andthen (page_lookup spgdir srcva) (\<lambda>l.
     case l of
       None \<Rightarrow> ret (err E_INVAL)
     | Some (pp, entry) \<Rightarrow>
         andthen (kload entry) (\<lambda>pte.
         if perm AND PTE_W \<noteq> 0 \<and> pte AND PTE_W = 0 then ret (err E_INVAL)
         else
           andthen (gets (\<lambda>s. env_pgdir (envs s de))) (\<lambda>dpgdir.
           andthen (page_insert dpgdir pp dstva perm) (\<lambda>r.
           if sint r < 0 then ret (err E_NO_MEM) else ret 0)))))"

definition sys_page_map :: "u32 \<Rightarrow> u32 \<Rightarrow> u32 \<Rightarrow> u32 \<Rightarrow> u32 \<Rightarrow> (kstate, u32) op" where
  "sys_page_map srcenvid srcva dstenvid dstva perm =
     with_env srcenvid True (\<lambda>se.
     with_env dstenvid True (\<lambda>de.
     if UTOP \<le> srcva \<or> PGOFF srcva \<noteq> 0 \<or> UTOP \<le> dstva \<or> PGOFF dstva \<noteq> 0 then ret (err E_INVAL)
     else if bad_perm perm then ret (err E_INVAL)
     else lookup_and_map se srcva de dstva perm))"

definition sys_page_unmap :: "u32 \<Rightarrow> u32 \<Rightarrow> (kstate, u32) op" where
  "sys_page_unmap envid va =
     with_env envid True (\<lambda>e.
     if UTOP \<le> va \<or> PGOFF va \<noteq> 0 then ret (err E_INVAL)
     else
       andthen (gets (\<lambda>s. env_pgdir (envs s e))) (\<lambda>pgdir.
       andthen (page_remove pgdir va) (\<lambda>_.
       ret 0)))"

subsection \<open>Messages\<close>

definition ipc_deliver :: "nat \<Rightarrow> u32 \<Rightarrow> (kstate, u32) op" where
  "ipc_deliver dste val =
     with_curenv (\<lambda>c.
     andthen (modify (\<lambda>s. upd_env dste (\<lambda>x. x\<lparr>env_ipc_from := env_id (envs s c)\<rparr>) s)) (\<lambda>_.
     andthen (modify (upd_env dste (\<lambda>x. x\<lparr>env_ipc_recving := False, env_ipc_value := val,
        env_status := ENV_RUNNABLE,
        env_tf := (env_tf x)\<lparr>tf_regs := (tf_regs (env_tf x))\<lparr>reg_eax := 0\<rparr>\<rparr>\<rparr>))) (\<lambda>_.
     ret 0)))"

definition ipc_page :: "nat \<Rightarrow> Env \<Rightarrow> u32 \<Rightarrow> u32 \<Rightarrow> u32 \<Rightarrow> (kstate, u32) op" where
  "ipc_page dste d val srcva perm =
     with_curenv (\<lambda>c.
     andthen (gets (\<lambda>s. env_pgdir (envs s c))) (\<lambda>pgdir.
     andthen (page_lookup pgdir srcva) (\<lambda>l.
     case l of
       None \<Rightarrow> ret (err E_INVAL)
     | Some (pg, entry) \<Rightarrow>
         andthen (kload entry) (\<lambda>pte.
         if perm AND PTE_W \<noteq> 0 \<and> pte AND PTE_W = 0 then ret (err E_INVAL)
         else if env_ipc_dstva d \<noteq> 0 then
           andthen (page_insert (env_pgdir d) pg (env_ipc_dstva d) perm) (\<lambda>r.
           if sint r < 0 then ret r
           else andthen (modify (upd_env dste (\<lambda>x. x\<lparr>env_ipc_perm := perm\<rparr>))) (\<lambda>_.
                ipc_deliver dste val))
         else ipc_deliver dste val))))"

definition sys_ipc_try_send :: "u32 \<Rightarrow> u32 \<Rightarrow> u32 \<Rightarrow> u32 \<Rightarrow> (kstate, u32) op" where
  "sys_ipc_try_send envid val srcva perm =
     with_env envid False (\<lambda>dste.
     andthen (gets (\<lambda>s. envs s dste)) (\<lambda>d.
     if \<not> env_ipc_recving d \<or> env_ipc_from d \<noteq> 0 then ret (err E_IPC_NOT_RECV)
     else if srcva < UTOP then
       (if PGOFF srcva \<noteq> 0 \<or> perm AND PTE_P = 0 \<or> perm AND PTE_U = 0 \<or> perm AND NOT PTE_SYSCALL \<noteq> 0
        then ret (err E_INVAL)
        else ipc_page dste d val srcva perm)
     else ipc_deliver dste val))"

definition sys_ipc_recv :: "u32 \<Rightarrow> (kstate, u32) op" where
  "sys_ipc_recv dstva =
     (if dstva < UTOP \<and> PGOFF dstva \<noteq> 0 then ret (err E_INVAL)
      else
        with_curenv (\<lambda>c.
        andthen (modify (upd_env c (\<lambda>x. x\<lparr>env_ipc_recving := True, env_ipc_dstva := dstva,
           env_status := ENV_NOT_RUNNABLE, env_ipc_from := 0\<rparr>))) (\<lambda>_.
        andthen sched_yield (\<lambda>_.
        ret 0))))"

definition sys_time_msec :: "(kstate, u32) op" where
  "sys_time_msec = time_msec"

subsection \<open>Dispatch\<close>

datatype sysno = SYS_cputs | SYS_cgetc | SYS_getenvid | SYS_env_destroy | SYS_page_alloc |
  SYS_page_map | SYS_page_unmap | SYS_exofork | SYS_env_set_status | SYS_env_set_trapframe |
  SYS_env_set_pgfault_upcall | SYS_yield | SYS_ipc_try_send | SYS_ipc_recv | SYS_time_msec

definition sysnos :: "sysno list" where
  "sysnos = [SYS_cputs, SYS_cgetc, SYS_getenvid, SYS_env_destroy, SYS_page_alloc,
     SYS_page_map, SYS_page_unmap, SYS_exofork, SYS_env_set_status, SYS_env_set_trapframe,
     SYS_env_set_pgfault_upcall, SYS_yield, SYS_ipc_try_send, SYS_ipc_recv, SYS_time_msec]"

definition sysno_of :: "u32 \<Rightarrow> sysno option" where
  "sysno_of n = (if unat n < length sysnos then Some (sysnos ! unat n) else None)"

definition syscall :: "u32 \<Rightarrow> u32 \<Rightarrow> u32 \<Rightarrow> u32 \<Rightarrow> u32 \<Rightarrow> u32 \<Rightarrow> (kstate, u32) op" where
  "syscall syscallno a1 a2 a3 a4 a5 = (case sysno_of syscallno of
       None \<Rightarrow> ret (err E_INVAL)
     | Some n \<Rightarrow> (case n of
         SYS_cputs \<Rightarrow> andthen (sys_cputs a1 a2) (\<lambda>_. ret 0)
       | SYS_cgetc \<Rightarrow> sys_cgetc
       | SYS_getenvid \<Rightarrow> sys_getenvid
       | SYS_env_destroy \<Rightarrow> sys_env_destroy a1
       | SYS_yield \<Rightarrow> andthen sys_yield (\<lambda>_. ret 0)
       | SYS_exofork \<Rightarrow> sys_exofork
       | SYS_env_set_status \<Rightarrow> sys_env_set_status a1 a2
       | SYS_page_alloc \<Rightarrow> sys_page_alloc a1 a2 a3
       | SYS_page_map \<Rightarrow> sys_page_map a1 a2 a3 a4 a5
       | SYS_page_unmap \<Rightarrow> sys_page_unmap a1 a2
       | SYS_env_set_pgfault_upcall \<Rightarrow> sys_env_set_pgfault_upcall a1 a2
       | SYS_ipc_try_send \<Rightarrow> sys_ipc_try_send a1 a2 a3 a4
       | SYS_ipc_recv \<Rightarrow> sys_ipc_recv a1
       | SYS_env_set_trapframe \<Rightarrow> sys_env_set_trapframe a1 a2
       | SYS_time_msec \<Rightarrow> sys_time_msec))"

end
