(* ===== verification/Kern_Trap.thy ===== *)
theory Kern_Trap
  imports Kern_Syscall
begin

text \<open>
  Traps (\<^verbatim>\<open>kern/trap.c\<close>) and the local interrupt controller they acknowledge
  (\<^verbatim>\<open>kern/lapic.c\<close>): the interrupt descriptor table, dispatch, page faults of user environments and
  the entry point \<^verbatim>\<open>trap\<close>. The addresses of the assembly entry points are a parameter. The kernel
  monitor never returns, because none of its commands asks to leave it, so entering it is the outcome
  \<open>Leave Monitor_loop\<close>.
\<close>

subsection \<open>Trap numbers and gates\<close>

definition T_DIVIDE :: u32 where "T_DIVIDE = 0"
definition T_DEBUG :: u32 where "T_DEBUG = 1"
definition T_NMI :: u32 where "T_NMI = 2"
definition T_BRKPT :: u32 where "T_BRKPT = 3"
definition T_OFLOW :: u32 where "T_OFLOW = 4"
definition T_BOUND :: u32 where "T_BOUND = 5"
definition T_ILLOP :: u32 where "T_ILLOP = 6"
definition T_DEVICE :: u32 where "T_DEVICE = 7"
definition T_DBLFLT :: u32 where "T_DBLFLT = 8"
definition T_TSS :: u32 where "T_TSS = 10"
definition T_SEGNP :: u32 where "T_SEGNP = 11"
definition T_STACK :: u32 where "T_STACK = 12"
definition T_GPFLT :: u32 where "T_GPFLT = 13"
definition T_PGFLT :: u32 where "T_PGFLT = 14"
definition T_FPERR :: u32 where "T_FPERR = 16"
definition T_ALIGN :: u32 where "T_ALIGN = 17"
definition T_MCHK :: u32 where "T_MCHK = 18"
definition T_SIMDERR :: u32 where "T_SIMDERR = 19"
definition T_SYSCALL :: u32 where "T_SYSCALL = 48"

definition GD_TSS0 :: u32 where "GD_TSS0 = 0x28"

definition trapname :: "u32 \<Rightarrow> string" where
  "trapname trapno =
     (let excnames = [''Divide error'', ''Debug'', ''Non-Maskable Interrupt'', ''Breakpoint'',
        ''Overflow'', ''BOUND Range Exceeded'', ''Invalid Opcode'', ''Device Not Available'',
        ''Double Fault'', ''Coprocessor Segment Overrun'', ''Invalid TSS'', ''Segment Not Present'',
        ''Stack Fault'', ''General Protection'', ''Page Fault'', ''(unknown trap)'',
        ''x87 FPU Floating-Point Error'', ''Alignment Check'', ''Machine-Check'',
        ''SIMD Floating-Point Exception'']
      in if unat trapno < length excnames then excnames ! unat trapno
         else if trapno = T_SYSCALL then ''System call''
         else if sint IRQ_OFFSET \<le> sint trapno \<and> sint trapno < sint (IRQ_OFFSET + 16)
         then ''Hardware Interrupt''
         else ''(unknown trap)'')"

record Gatedesc =
  gd_off_15_0 :: u32
  gd_sel :: u32
  gd_args :: u32
  gd_rsv1 :: u32
  gd_type :: u32
  gd_s :: u32
  gd_dpl :: u32
  gd_p :: u32
  gd_off_31_16 :: u32

definition STS_T32A :: u32 where "STS_T32A = 0x9"
definition STS_IG32 :: u32 where "STS_IG32 = 0xE"
definition STS_TG32 :: u32 where "STS_TG32 = 0xF"

definition SETGATE :: "bool \<Rightarrow> u32 \<Rightarrow> u32 \<Rightarrow> u32 \<Rightarrow> Gatedesc" where
  "SETGATE istrap sel off dpl =
     \<lparr>gd_off_15_0 = off AND 0xFFFF, gd_sel = sel, gd_args = 0, gd_rsv1 = 0,
      gd_type = (if istrap then STS_TG32 else STS_IG32), gd_s = 0, gd_dpl = dpl, gd_p = 1,
      gd_off_31_16 = drop_bit 16 off\<rparr>"

definition zero_gate :: Gatedesc where
  "zero_gate = \<lparr>gd_off_15_0 = 0, gd_sel = 0, gd_args = 0, gd_rsv1 = 0, gd_type = 0, gd_s = 0,
     gd_dpl = 0, gd_p = 0, gd_off_31_16 = 0\<rparr>"

text \<open>
  The entry points of \<^verbatim>\<open>kern/trapentry.S\<close>. Each pushes a trap number, and those made with
  \<^verbatim>\<open>TRAPHANDLER_NOEC\<close> push a zero first, in the place of the error code that the processor pushes for
  the other vectors. The addresses of the entry points are the parameter \<open>addr\<close>.
\<close>

datatype stub =
    divide_handler | debug_handler | nmi_handler | brkpt_handler | oflow_handler |
    bound_handler | illop_handler | device_handler | dblflt_handler | tss_handler |
    segnp_handler | stack_handler | gpflt_handler | pgflt_handler | fperr_handler |
    align_handler | mchk_handler | simderr_handler | syscall_handler | irq0_handler |
    irq1_handler | irq2_handler | irq3_handler | irq4_handler | irq5_handler | irq6_handler |
    irq7_handler | irq8_handler | irq9_handler | irq10_handler | irq11_handler | irq12_handler |
    irq13_handler | irq14_handler | irq15_handler

primrec stub_num :: "stub \<Rightarrow> u32" where
  "stub_num divide_handler = T_DIVIDE"
| "stub_num debug_handler = T_DEBUG"
| "stub_num nmi_handler = T_NMI"
| "stub_num brkpt_handler = T_BRKPT"
| "stub_num oflow_handler = T_OFLOW"
| "stub_num bound_handler = T_BOUND"
| "stub_num illop_handler = T_ILLOP"
| "stub_num device_handler = T_DEVICE"
| "stub_num dblflt_handler = T_DBLFLT"
| "stub_num tss_handler = T_TSS"
| "stub_num segnp_handler = T_SEGNP"
| "stub_num stack_handler = T_STACK"
| "stub_num gpflt_handler = T_GPFLT"
| "stub_num pgflt_handler = T_PGFLT"
| "stub_num fperr_handler = T_FPERR"
| "stub_num align_handler = T_ALIGN"
| "stub_num mchk_handler = T_MCHK"
| "stub_num simderr_handler = T_SIMDERR"
| "stub_num syscall_handler = T_SYSCALL"
| "stub_num irq0_handler = IRQ_OFFSET + 0"
| "stub_num irq1_handler = IRQ_OFFSET + 1"
| "stub_num irq2_handler = IRQ_OFFSET + 2"
| "stub_num irq3_handler = IRQ_OFFSET + 3"
| "stub_num irq4_handler = IRQ_OFFSET + 4"
| "stub_num irq5_handler = IRQ_OFFSET + 5"
| "stub_num irq6_handler = IRQ_OFFSET + 6"
| "stub_num irq7_handler = IRQ_OFFSET + 7"
| "stub_num irq8_handler = IRQ_OFFSET + 8"
| "stub_num irq9_handler = IRQ_OFFSET + 9"
| "stub_num irq10_handler = IRQ_OFFSET + 10"
| "stub_num irq11_handler = IRQ_OFFSET + 11"
| "stub_num irq12_handler = IRQ_OFFSET + 12"
| "stub_num irq13_handler = IRQ_OFFSET + 13"
| "stub_num irq14_handler = IRQ_OFFSET + 14"
| "stub_num irq15_handler = IRQ_OFFSET + 15"

definition stub_noec :: "stub \<Rightarrow> bool" where
  "stub_noec h = (h \<notin> {dblflt_handler, tss_handler, segnp_handler, stack_handler, gpflt_handler,
     pgflt_handler, align_handler})"

definition gates :: "(u32 \<times> stub \<times> u32) list" where
  "gates = [
     (T_DIVIDE, divide_handler, 0), (T_DEBUG, debug_handler, 0), (T_NMI, nmi_handler, 0),
     (T_BRKPT, brkpt_handler, 3), (T_OFLOW, oflow_handler, 0), (T_BOUND, bound_handler, 0),
     (T_ILLOP, illop_handler, 0), (T_DEVICE, device_handler, 0), (T_DBLFLT, dblflt_handler, 0),
     (T_TSS, tss_handler, 0), (T_SEGNP, segnp_handler, 0), (T_STACK, stack_handler, 0),
     (T_GPFLT, gpflt_handler, 0), (T_PGFLT, pgflt_handler, 0), (T_FPERR, fperr_handler, 0),
     (T_ALIGN, align_handler, 0), (T_MCHK, mchk_handler, 0), (T_SIMDERR, simderr_handler, 0),
     (T_SYSCALL, syscall_handler, 3), (IRQ_OFFSET + 0, irq0_handler, 0),
     (IRQ_OFFSET + 1, irq1_handler, 0), (IRQ_OFFSET + 2, irq2_handler, 0),
     (IRQ_OFFSET + 3, irq3_handler, 0), (IRQ_OFFSET + 4, irq4_handler, 0),
     (IRQ_OFFSET + 5, irq5_handler, 0), (IRQ_OFFSET + 6, irq6_handler, 0),
     (IRQ_OFFSET + 7, irq7_handler, 0), (IRQ_OFFSET + 8, irq8_handler, 0),
     (IRQ_OFFSET + 9, irq9_handler, 0), (IRQ_OFFSET + 10, irq10_handler, 0),
     (IRQ_OFFSET + 11, irq11_handler, 0), (IRQ_OFFSET + 12, irq12_handler, 0),
     (IRQ_OFFSET + 13, irq13_handler, 0), (IRQ_OFFSET + 14, irq14_handler, 0),
     (IRQ_OFFSET + 15, irq15_handler, 0)]"

definition trap_init :: "(stub \<Rightarrow> u32) \<Rightarrow> (u32 \<Rightarrow> Gatedesc) \<Rightarrow> u32 \<Rightarrow> Gatedesc" where
  "trap_init addr idt =
     foldl (\<lambda>t (n, h, dpl). t(n := SETGATE False (ucast GD_KT) (addr h) dpl)) idt gates"

record Taskstate =
  ts_esp0 :: u32
  ts_ss0 :: u16
  ts_iomb :: u16

definition sizeof_Taskstate :: u32 where "sizeof_Taskstate = 104"

text \<open>
  \<^verbatim>\<open>trap_init_percpu\<close> for CPU \<open>i\<close>: its task state, its slot of the descriptor table and the
  selector loaded into the task register. \<open>ts_addr\<close> is the address of \<^verbatim>\<open>thiscpu->cpu_ts\<close>.
\<close>

definition trap_init_percpu ::
    "nat \<Rightarrow> u32 \<Rightarrow> Taskstate \<Rightarrow> (nat \<Rightarrow> Segdesc) \<Rightarrow> Taskstate \<times> (nat \<Rightarrow> Segdesc) \<times> u32" where
  "trap_init_percpu i ts_addr ts gdt0 =
     (ts\<lparr>ts_esp0 := KSTACKTOP - word_of_nat i * (KSTKSIZE + KSTKGAP), ts_ss0 := GD_KD,
         ts_iomb := ucast sizeof_Taskstate\<rparr>,
      gdt0(unat (drop_bit 3 GD_TSS0) + i :=
        (SEG16 STS_T32A ts_addr (sizeof_Taskstate - 1) 0)\<lparr>sd_s := 0\<rparr>),
      GD_TSS0 + push_bit 3 (word_of_nat i))"

subsection \<open>The local interrupt controller\<close>

text \<open>Register numbers as indices into an array of words.\<close>

definition LAPIC_ID :: nat where "LAPIC_ID = 0x0020 div 4"
definition LAPIC_EOI :: nat where "LAPIC_EOI = 0x00B0 div 4"

definition lapicw :: "nat \<Rightarrow> u32 \<Rightarrow> (kstate, unit) op" where
  "lapicw index v = modify (\<lambda>s. s\<lparr>lapic_log := lapic_log s @ [(index, v)]\<rparr>)"

definition lapic_eoi :: "(kstate, unit) op" where
  "lapic_eoi = (\<lambda>s. if lapic s \<noteq> 0 then lapicw LAPIC_EOI 0 s else Ret () s)"

subsection \<open>Page faults\<close>

definition sizeof_UTrapframe :: u32 where "sizeof_UTrapframe = 52"

text \<open>
  A trapframe pointer: either a frame on the kernel stack, given by its contents, or the saved
  frame of environment \<open>e\<close>.
\<close>

datatype tf_ptr = Stack_frame Trapframe | Env_frame nat

fun read_tf :: "tf_ptr \<Rightarrow> kstate \<Rightarrow> Trapframe" where
  "read_tf (Stack_frame tf) s = tf"
| "read_tf (Env_frame e) s = env_tf (envs s e)"

fun set_tf_eax :: "tf_ptr \<Rightarrow> u32 \<Rightarrow> kstate \<Rightarrow> kstate" where
  "set_tf_eax (Stack_frame tf) v s = s"
| "set_tf_eax (Env_frame e) v s =
     upd_env e (\<lambda>x. x\<lparr>env_tf := (env_tf x)\<lparr>tf_regs := (tf_regs (env_tf x))\<lparr>reg_eax := v\<rparr>\<rparr>\<rparr>) s"

text \<open>A 32-bit store at any alignment, through the current page directory.\<close>

definition vstore_word :: "u32 \<Rightarrow> u32 \<Rightarrow> (kstate, unit) op" where
  "vstore_word va w = each (\<lambda>i. vstore_byte (va + word_of_nat i) (word_byte w i)) [0 ..< 4]"

definition utf_address :: "u32 \<Rightarrow> u32" where
  "utf_address esp =
     (if UXSTACKTOP - PGSIZE \<le> esp \<and> esp < UXSTACKTOP then esp - sizeof_UTrapframe - 4
      else UXSTACKTOP - sizeof_UTrapframe)"

text \<open>The stores into the frame on the user exception stack, as pairs of offset and value.\<close>

definition utf_stores :: "u32 \<Rightarrow> Trapframe \<Rightarrow> (u32 \<times> u32) list" where
  "utf_stores fault_va tf =
     [(0, fault_va), (4, tf_err tf), (4, tf_trapno tf),
      (8, reg_edi (tf_regs tf)), (12, reg_esi (tf_regs tf)), (16, reg_ebp (tf_regs tf)),
      (20, reg_oesp (tf_regs tf)), (24, reg_ebx (tf_regs tf)), (28, reg_edx (tf_regs tf)),
      (32, reg_ecx (tf_regs tf)), (36, reg_eax (tf_regs tf)),
      (44, tf_eflags tf), (40, tf_eip tf), (48, tf_esp tf)]"

definition page_fault_handler :: "tf_ptr \<Rightarrow> (kstate, unit) op" where
  "page_fault_handler p = (\<lambda>s.
     let fault_va = cr2 s; tf = read_tf p s in
     if tf_cs tf AND 3 = 0 then Panic ''page_falut in kernel mode''
     else with_curenv (\<lambda>c.
       if env_pgfault_upcall (envs s c) \<noteq> 0
       then let utf = utf_address (tf_esp tf) in
         andthen (user_mem_assert c utf sizeof_UTrapframe ((PTE_P OR PTE_W) OR PTE_U)) (\<lambda>_.
         andthen (each (\<lambda>(off, w). vstore_word (utf + off) w) (utf_stores fault_va tf)) (\<lambda>_.
         andthen (modify (upd_env c (\<lambda>x. x\<lparr>env_tf := (env_tf x)\<lparr>tf_eip := env_pgfault_upcall x,
                                                           tf_esp := utf\<rparr>\<rparr>))) (\<lambda>_.
         env_run c)))
       else env_destroy c) s)"

subsection \<open>Dispatch\<close>

definition monitor :: "(kstate, 'a) op" where
  "monitor = (\<lambda>s. Leave Monitor_loop s)"

definition intr :: "(console \<Rightarrow> console option) \<Rightarrow> (kstate, unit) op" where
  "intr f = (\<lambda>s. case f (kcons s) of
       None \<Rightarrow> Leave Spin_wait s
     | Some k \<Rightarrow> Ret () (s\<lparr>kcons := k\<rparr>))"

definition trap_dispatch :: "tf_ptr \<Rightarrow> (kstate, unit) op" where
  "trap_dispatch p = (\<lambda>s.
     let tf = read_tf p s in
     if tf_trapno tf = T_PGFLT then page_fault_handler p s
     else andthen (if tf_trapno tf = T_BRKPT then monitor else ret ()) (\<lambda>_.
     if tf_trapno tf = T_SYSCALL
     then let regs = tf_regs tf in
       andthen (syscall (reg_eax regs) (reg_edx regs) (reg_ecx regs) (reg_ebx regs) (reg_edi regs)
                  (reg_esi regs)) (\<lambda>r.
       modify (set_tf_eax p r))
     else if tf_trapno tf = IRQ_OFFSET + IRQ_SPURIOUS then ret ()
     else if tf_trapno tf = IRQ_OFFSET + IRQ_TIMER
     then andthen lapic_eoi (\<lambda>_. andthen time_tick (\<lambda>_. sched_yield))
     else if tf_trapno tf = IRQ_OFFSET + IRQ_KBD then intr kbd_intr
     else if tf_trapno tf = IRQ_OFFSET + IRQ_SERIAL then intr serial_intr
     else if tf_cs tf = GD_KT then panic ''unhandled trap in kernel''
     else with_curenv env_destroy) s)"

text \<open>
  \<open>eflags\<close> is what \<^verbatim>\<open>read_eflags\<close> returns. A halt after a panic elsewhere is final, because
  interrupts are off.
\<close>

definition cpu_started :: "(kstate, cpu_status) op" where
  "cpu_started = (\<lambda>s. Ret (cpu_status (cpus s (this_cpu s)))
     (s\<lparr>cpus := (cpus s)(this_cpu s := (cpus s (this_cpu s))\<lparr>cpu_status := CPU_STARTED\<rparr>)\<rparr>))"

definition trap_user :: "Trapframe \<Rightarrow> (kstate, tf_ptr) op" where
  "trap_user tf =
     andthen lock_kernel (\<lambda>_.
     with_curenv (\<lambda>c.
     andthen (gets (\<lambda>s. env_status (envs s c))) (\<lambda>st.
     andthen (if st = ENV_DYING
              then andthen (env_free c) (\<lambda>_.
                   andthen (modify (set_curenv None)) (\<lambda>_.
                   sched_yield))
              else ret ()) (\<lambda>_.
     andthen (modify (upd_env c (\<lambda>x. x\<lparr>env_tf := tf\<rparr>))) (\<lambda>_.
     ret (Env_frame c))))))"

definition trap :: "u32 \<Rightarrow> Trapframe \<Rightarrow> (kstate, unit) op" where
  "trap eflags tf = (\<lambda>s.
     if panicstr s then Leave Cpu_halt s
     else
       (andthen cpu_started (\<lambda>old.
        andthen (if old = CPU_HALTED then lock_kernel else ret ()) (\<lambda>_.
        andthen (check (eflags AND FL_IF = 0) ''interrupts enabled in trap'') (\<lambda>_.
        andthen (if tf_cs tf AND 3 = 3 then trap_user tf else ret (Stack_frame tf)) (\<lambda>p.
        andthen (trap_dispatch p) (\<lambda>_ t.
        case curenv t of
          Some c \<Rightarrow> if env_status (envs t c) = ENV_RUNNING then env_run c t else sched_yield t
        | None \<Rightarrow> sched_yield t))))) s))"

end
