(* ===== verification/Kern_Sched.thy ===== *)
theory Kern_Sched
  imports Kern_Inv
begin

text \<open>
  What the scheduler does: which environment it picks, and that switching to it or halting keeps the
  system invariant. \<^verbatim>\<open>env_run\<close>, \<^verbatim>\<open>sched_halt\<close> and \<^verbatim>\<open>sched_yield\<close> never return to their caller.
\<close>

subsection \<open>Outcomes allowed and excluded\<close>

text \<open>
  \<open>safe pan m Q E s\<close>: if the operation returns, \<open>Q\<close> holds; if it leaves the kernel, \<open>E\<close> holds;
  it panics only if \<open>pan\<close> allows it.
\<close>

definition safe :: "bool \<Rightarrow> ('s, 'a) op \<Rightarrow> ('a \<Rightarrow> 's \<Rightarrow> bool) \<Rightarrow> (leave \<Rightarrow> 's \<Rightarrow> bool) \<Rightarrow> 's \<Rightarrow> bool" where
  "safe pan m Q E s = (case m s of Ret a s' \<Rightarrow> Q a s' | Panic _ \<Rightarrow> pan | Leave k s' \<Rightarrow> E k s')"

named_theorems safe_rules \<open>evaluation of operations under \<open>safe\<close>\<close>

lemma safe_basic [safe_rules]:
  "safe pan (ret a) Q E = Q a" "safe pan (gets f) Q' E = (\<lambda>s. Q' (f s) s)"
  "safe pan (modify g) R E = (\<lambda>s. R () (g s))" "safe pan (panic msg) Q E = (\<lambda>_. pan)"
  "safe pan (andthen m h) T E = safe pan m (\<lambda>a. safe pan (h a) T E) E"
  by (simp_all add: safe_def andthen_def fun_eq_iff split: outcome.split)

lemma safe_case [safe_rules]:
  "safe pan (if b then m1 else m2) Q E = (if b then safe pan m1 Q E else safe pan m2 Q E)"
  "safe pan (case x of None \<Rightarrow> n1 | Some y \<Rightarrow> n2 y) Q E =
     (case x of None \<Rightarrow> safe pan n1 Q E | Some y \<Rightarrow> safe pan (n2 y) Q E)"
  "safe pan (case z of (u, v) \<Rightarrow> h u v) Q E = (case z of (u, v) \<Rightarrow> safe pan (h u v) Q E)"
  by (simp, simp split: option.split, simp split: prod.split)

lemma safe_Ret [safe_rules]: "m s = Ret a s' \<Longrightarrow> safe pan m Q E s = Q a s'"
  by (simp add: safe_def)

lemma safe_Leave: "m s = Leave k s' \<Longrightarrow> safe pan m Q E s = E k s'"
  by (simp add: safe_def)

lemma safe_mono:
  "safe pan m Q E s \<Longrightarrow> (\<And>a s'. Q a s' \<Longrightarrow> R a s') \<Longrightarrow> (\<And>k s'. E k s' \<Longrightarrow> F k s') \<Longrightarrow> (pan \<Longrightarrow> pan') \<Longrightarrow>
     safe pan' m R F s"
  by (auto simp: safe_def split: outcome.splits)

subsection \<open>Switching to an environment\<close>

definition step_down :: "kstate \<Rightarrow> kstate" where
  "step_down s = (case curenv s of
       None \<Rightarrow> s
     | Some c \<Rightarrow> if env_status (envs s c) = ENV_RUNNING
                then upd_env c (\<lambda>x. x\<lparr>env_status := ENV_RUNNABLE\<rparr>) s else s)"

definition run_state :: "nat \<Rightarrow> kstate \<Rightarrow> kstate" where
  "run_state e s =
     (let s1 = upd_env e (\<lambda>x. x\<lparr>env_status := ENV_RUNNING, env_runs := env_runs x + 1\<rparr>)
                 (set_curenv (Some e) (step_down s));
          s2 = s1\<lparr>cr3 := env_pgdir (envs s1 e) - KERNBASE,
                  kernel_lock := snd (xchg_locked 0 ((kernel_lock s1)\<lparr>lock_cpu := None\<rparr>))\<rparr>
      in upd_env e (\<lambda>x. x\<lparr>env_cpunum := this_cpu s2\<rparr>) s2)"

lemma env_run_no_return: "env_run e s \<noteq> Ret a s'"
  by (auto simp: env_run_def env_pop_tf_def andthen_def split: outcome.splits option.splits)

lemma andthen_env_run: "andthen (env_run e) f s = env_run e s"
  using env_run_no_return [of e s] by (auto simp: andthen_def split: outcome.split)

lemma step_down_fields [simp]:
  "this_cpu (step_down s) = this_cpu s" "kernel_lock (step_down s) = kernel_lock s" "cpus (step_down s) = cpus s"
  "env_pgdir (envs (step_down s) e) = env_pgdir (envs s e)" "curenv (step_down s) = curenv s"
  by (auto simp: step_down_def upd_env_def curenv_def split: option.split)

lemma set_curenv_fields [simp]:
  "curenv (set_curenv x s) = x" "envs (set_curenv x s) = envs s" "this_cpu (set_curenv x s) = this_cpu s"
  "kernel_lock (set_curenv x s) = kernel_lock s"
  by (simp_all add: set_curenv_def curenv_def)

lemma env_run_Leave:
  assumes "holding (kernel_lock s) (this_cpu s)" and "KERNBASE \<le> env_pgdir (envs s e)"
  shows "env_run e s = Leave (Run_env e) (run_state e s)"
proof -
  let ?s1 = "upd_env e (\<lambda>x. x\<lparr>env_status := ENV_RUNNING, env_runs := env_runs x + 1\<rparr>)
                 (set_curenv (Some e) (step_down s))"
  have pg: "env_pgdir (envs ?s1 e) = env_pgdir (envs s e)" by (simp add: upd_env_def)
  then have pa: "PADDR (env_pgdir (envs ?s1 e)) ?s1 = Ret (env_pgdir (envs ?s1 e) - KERNBASE) ?s1"
    using assms(2) by (simp add: PADDR_def not_le [symmetric])
  have st: "(case curenv s of None \<Rightarrow> s
      | Some c \<Rightarrow> if env_status (envs s c) = ENV_RUNNING
                 then upd_env c (\<lambda>x. x\<lparr>env_status := ENV_RUNNABLE\<rparr>) s else s) = step_down s"
    by (simp add: step_down_def)
  have lk: "kernel_lock ?s1 = kernel_lock s" "this_cpu ?s1 = this_cpu s" by (simp_all add: upd_env_def)
  define s1 where "s1 = ?s1"
  have "env_run e s = andthen (PADDR (env_pgdir (envs s1 e))) (\<lambda>pa. andthen (lcr3 pa) (\<lambda>_.
      andthen unlock_kernel (\<lambda>_. env_pop_tf))) s1"
    by (simp add: env_run_def st s1_def)
  moreover have "curenv s1 = Some e" by (simp add: s1_def upd_env_def curenv_def set_curenv_def)
  ultimately show ?thesis
    using pa lk assms(1) unfolding s1_def [symmetric]
    by (simp add: lcr3_def unlock_kernel_def Let_def env_pop_tf_def curenv_def run_state_def s1_def [symmetric])
qed

lemma kern_inv_step_down: "kern_inv K s xs fl \<Longrightarrow> kern_inv K (step_down s) xs fl"
  by (auto simp: step_down_def env_keeps_def intro: kern_inv_upd_env split: option.split)

lemma kern_inv_run_state:
  assumes inv: "kern_inv K s xs fl" and e: "e \<in> live s"
  shows "kern_inv K (run_state e s) xs fl"
proof -
  have le: "env_status (envs (step_down s) e) \<noteq> ENV_FREE"
    using e by (auto simp: live_def step_down_def upd_env_def split: option.split)
  have "kern_inv K (set_curenv (Some e) (step_down s)) xs fl"
    using kern_inv_step_down [OF inv] by (subst kern_inv_cong [of _ "step_down s"]) (simp_all add: set_curenv_def)
  then have 1: "kern_inv K (upd_env e (\<lambda>x. x\<lparr>env_status := ENV_RUNNING, env_runs := env_runs x + 1\<rparr>)
                 (set_curenv (Some e) (step_down s))) xs fl"
    using le by (intro kern_inv_upd_env) (simp_all add: env_keeps_def)
  define s1 where "s1 = upd_env e (\<lambda>x. x\<lparr>env_status := ENV_RUNNING, env_runs := env_runs x + 1\<rparr>)
                 (set_curenv (Some e) (step_down s))"
  have "kern_inv K (s1\<lparr>cr3 := c, kernel_lock := l\<rparr>) xs fl" for c l
    using 1 unfolding s1_def [symmetric] by (subst kern_inv_cong [of _ s1]) simp_all
  then show ?thesis unfolding run_state_def Let_def s1_def [symmetric]
    by (intro kern_inv_upd_env) (simp_all add: env_keeps_def)
qed

subsection \<open>The search\<close>

primrec slots :: "nat \<Rightarrow> nat \<Rightarrow> nat list" where
  "slots 0 i = []"
| "slots (Suc n) i = i # slots n ((i + 1) mod NENV)"

lemma slots_eq: "i < NENV \<Longrightarrow> slots n i = map (\<lambda>j. (i + j) mod NENV) [0 ..< n]"
proof (induction n arbitrary: i)
  case (Suc n)
  have "slots n ((i + 1) mod NENV) = map (\<lambda>j. ((i + 1) mod NENV + j) mod NENV) [0 ..< n]"
    using NENV_pos by (intro Suc.IH) simp
  also have "\<dots> = map (\<lambda>j. (i + j) mod NENV) (map Suc [0 ..< n])"
    by (simp add: mod_simps add.commute)
  finally show ?case using Suc.prems by (simp add: upt_conv_Cons map_Suc_upt del: upt_Suc)
qed simp

lemma slots_rotate: "i < NENV \<Longrightarrow> slots NENV i = rotate i [0 ..< NENV]"
  by (simp add: slots_eq list_eq_iff_nth_eq nth_rotate add.commute)

lemma slots_le: "i \<le> NENV \<Longrightarrow> j \<in> set (slots n i) \<Longrightarrow> j < NENV \<or> j = i"
proof (induction n arbitrary: i)
  case (Suc n)
  have "(i + 1) mod NENV < NENV" using NENV_pos by simp
  then show ?case using Suc.IH [of "(i + 1) mod NENV"] Suc.prems by auto
qed simp

definition runnable :: "kstate \<Rightarrow> nat \<Rightarrow> bool" where
  "runnable s i \<longleftrightarrow> env_status (envs s i) = ENV_RUNNABLE"

definition on_cpu :: "nat \<Rightarrow> kstate \<Rightarrow> kstate" where
  "on_cpu i s = upd_env i (\<lambda>x. x\<lparr>env_cpunum := this_cpu s\<rparr>) s"

lemma sched_search_find:
  "sched_search n i none s =
     (case find (runnable s) (slots n i) of None \<Rightarrow> none s | Some j \<Rightarrow> env_run j (on_cpu j s))"
  by (induction n arbitrary: i) (simp_all add: runnable_def on_cpu_def andthen_env_run)

lemma find_SomeD: "find P ys = Some j \<Longrightarrow> j \<in> set ys \<and> P j"
  by (induction ys) (auto split: if_splits)

subsection \<open>Halting\<close>

definition halt_state :: "nat \<Rightarrow> kstate \<Rightarrow> kstate" where
  "halt_state K s =
     (let s1 = (set_curenv None s)\<lparr>cr3 := page2pa K\<rparr>
      in s1\<lparr>cpus := (cpus s1)(this_cpu s := (cpus s1 (this_cpu s))\<lparr>cpu_status := CPU_HALTED\<rparr>),
            kernel_lock := snd (xchg_locked 0 ((kernel_lock s)\<lparr>lock_cpu := None\<rparr>))\<rparr>)"

definition idle :: "kstate \<Rightarrow> bool" where
  "idle s \<longleftrightarrow> (\<forall>i < NENV. env_status (envs s i) = ENV_FREE \<or> env_status (envs s i) = ENV_NOT_RUNNABLE)"

lemma sched_halt_Leave:
  assumes "holding (kernel_lock s) (this_cpu s)" and "kern_pgdir s = page_kva K" and "K < 65536"
  shows "sched_halt s = (if idle s then Leave Monitor_loop s else Leave Cpu_halt (halt_state K s))"
proof -
  have st: "x \<in> {ENV_RUNNABLE, ENV_RUNNING, ENV_DYING} \<longleftrightarrow> \<not> (x = ENV_FREE \<or> x = ENV_NOT_RUNNABLE)" for x
    by (cases x) auto
  have i: "(\<exists>i \<in> set [0 ..< NENV]. env_status (envs s i) \<in> {ENV_RUNNABLE, ENV_RUNNING, ENV_DYING}) \<longleftrightarrow> \<not> idle s"
    unfolding st idle_def by auto
  have "holding (kernel_lock s) (this_cpu (set_curenv None s))" using assms(1) by simp
  then show ?thesis unfolding sched_halt_def i using assms
    by (simp add: set_curenv_def PADDR_page_kva lcr3_def unlock_kernel_def Let_def halt_state_def)
qed

lemma kern_inv_halt: "kern_inv K s xs fl \<Longrightarrow> kern_inv K (halt_state K s) xs fl"
  by (subst kern_inv_cong [of _ s]) (simp_all add: halt_state_def Let_def set_curenv_def)

subsection \<open>Choosing\<close>

definition still_running :: "kstate \<Rightarrow> nat option" where
  "still_running s = (case curenv s of
       None \<Rightarrow> None
     | Some c \<Rightarrow> if env_status (envs s c) = ENV_RUNNING then Some c else None)"

definition sched_choice :: "kstate \<Rightarrow> nat option" where
  "sched_choice s = (case find (runnable s) (slots NENV (sched_start s)) of
       Some i \<Rightarrow> Some i
     | None \<Rightarrow> still_running s)"

lemma on_cpu_fields [simp]:
  "kernel_lock (on_cpu i s) = kernel_lock s" "this_cpu (on_cpu i s) = this_cpu s"
  "env_pgdir (envs (on_cpu i s) e) = env_pgdir (envs s e)"
  "env_status (envs (on_cpu i s) e) = env_status (envs s e)" "curenv (on_cpu i s) = curenv s"
  by (simp_all add: on_cpu_def upd_env_def curenv_def)

lemma kern_inv_on_cpu: "kern_inv K s xs fl \<Longrightarrow> kern_inv K (on_cpu i s) xs fl"
  unfolding on_cpu_def by (rule kern_inv_upd_env) (simp_all add: env_keeps_def)

lemma live_on_cpu [simp]: "live (on_cpu i s) = live s"
  by (simp add: live_def)

lemma sched_choice_live:
  assumes "sched_choice s = Some i" and "sched_start s = NENV \<Longrightarrow> \<not> runnable s NENV" and "sched_start s \<le> NENV"
    and "\<And>c. curenv s = Some c \<Longrightarrow> c \<in> live s"
  shows "i \<in> live s"
proof (cases "find (runnable s) (slots NENV (sched_start s))")
  case None
  then show ?thesis using assms(1,4)
    by (auto simp: sched_choice_def still_running_def split: option.splits if_splits)
next
  case (Some j)
  then have j: "j \<in> set (slots NENV (sched_start s))" "runnable s j" "i = j"
    using assms(1) find_SomeD [of "runnable s"] by (auto simp: sched_choice_def)
  have "j < NENV"
    using slots_le [OF assms(3) j(1)] assms(2) j(2) assms(3) by (cases "j = NENV") auto
  then show ?thesis using j by (simp add: live_def runnable_def)
qed

lemma sched_yield_Leave:
  assumes inv: "kern_inv K s xs fl" and lk: "holding (kernel_lock s) (this_cpu s)"
    and oob: "sched_start s = NENV \<Longrightarrow> \<not> runnable s NENV" and start: "sched_start s \<le> NENV"
    and cur: "\<And>c. curenv s = Some c \<Longrightarrow> c \<in> live s"
  shows "sched_yield s = (case sched_choice s of
      Some i \<Rightarrow> Leave (Run_env i) (run_state i (on_cpu i s))
    | None \<Rightarrow> if idle s then Leave Monitor_loop s else Leave Cpu_halt (halt_state K s))"
proof -
  note I = kern_invD [OF inv]
  have run: "env_run i (on_cpu i s) = Leave (Run_env i) (run_state i (on_cpu i s))" if "sched_choice s = Some i" for i
  proof (rule env_run_Leave)
    have "i \<in> live s" using sched_choice_live [OF that oob start cur] .
    then show "KERNBASE \<le> env_pgdir (envs (on_cpu i s) i)" using I(6,13) page_kva_ge by simp
  qed (use lk in simp)
  note halt = sched_halt_Leave [OF lk I(3) I(12)]
  show ?thesis
  proof (cases "find (runnable s) (slots NENV (sched_start s))")
    case None
    show ?thesis
    proof (cases "still_running s")
      case (Some c)
      then have c: "curenv s = Some c" "env_status (envs s c) = ENV_RUNNING"
        by (auto simp: still_running_def split: option.splits if_splits)
      have "sched_choice s = Some c" using None Some by (simp add: sched_choice_def)
      then show ?thesis using run [of c] None c
        by (simp add: sched_yield_def sched_search_find andthen_env_run on_cpu_def [symmetric])
    qed (use None halt in \<open>auto simp: sched_yield_def sched_search_find sched_choice_def still_running_def split: option.splits if_splits\<close>)
  qed (use run in \<open>simp add: sched_yield_def sched_search_find sched_choice_def\<close>)
qed

text \<open>
  \<^bold>\<open>C30.\<close> \<^verbatim>\<open>sched_yield\<close> is round robin, unless the current environment is the one in the last slot of the
  array, when the search starts behind the array (the next claim): called with the lock held and a live
  current environment, if there is one, it switches to the first runnable environment in the cyclic
  order that starts just after the current one, or at slot 0 if there is no current one; with none
  runnable it goes on with the current one if that is still running, and otherwise halts the CPU, or
  enters the monitor when no environment is runnable, running or dying. The environment switched to is
  marked running on this CPU, its page directory is loaded and the big kernel lock is released.
\<close>

theorem sched_yield_round_robin:
  assumes inv: "kern_inv K s xs fl" and lk: "holding (kernel_lock s) (this_cpu s)"
    and start: "sched_start s < NENV" and cur: "\<And>c. curenv s = Some c \<Longrightarrow> c \<in> live s"
  shows "case find (\<lambda>i. env_status (envs s i) = ENV_RUNNABLE) (rotate (sched_start s) [0 ..< NENV]) of
      Some i \<Rightarrow> \<exists>s'. sched_yield s = Leave (Run_env i) s' \<and> curenv s' = Some i \<and>
        env_status (envs s' i) = ENV_RUNNING \<and> env_cpunum (envs s' i) = this_cpu s \<and>
        cr3 s' = page2pa (env_dir s i) \<and> locked (kernel_lock s') = 0
    | None \<Rightarrow> sched_yield s = (case still_running s of
        Some c \<Rightarrow> Leave (Run_env c) (run_state c (on_cpu c s))
      | None \<Rightarrow> if idle s then Leave Monitor_loop s else Leave Cpu_halt (halt_state K s))"
proof -
  have r: "runnable s = (\<lambda>i. env_status (envs s i) = ENV_RUNNABLE)" by (simp add: fun_eq_iff runnable_def)
  have Y: "sched_yield s = (case sched_choice s of
      Some i \<Rightarrow> Leave (Run_env i) (run_state i (on_cpu i s))
    | None \<Rightarrow> if idle s then Leave Monitor_loop s else Leave Cpu_halt (halt_state K s))"
    by (rule sched_yield_Leave [OF inv lk _ _ cur]) (use start in simp_all)
  have live: "i \<in> live s" if "sched_choice s = Some i" for i
    by (rule sched_choice_live [OF that _ _ cur]) (use start in simp_all)
  show ?thesis
  proof (cases "find (runnable s) (slots NENV (sched_start s))")
    case None
    then show ?thesis using Y unfolding r slots_rotate [OF start] by (simp add: sched_choice_def r slots_rotate [OF start])
  next
    case (Some i)
    have i: "sched_choice s = Some i" using Some by (simp add: sched_choice_def)
    have pa: "env_pgdir (envs s i) - KERNBASE = page2pa (env_dir s i)"
      using kern_invD(6,13) [OF inv live [OF i]] page_kva_ge by metis
    have "curenv (run_state i t) = Some i" "env_status (envs (run_state i t) i) = ENV_RUNNING"
      "env_cpunum (envs (run_state i t) i) = this_cpu t" "cr3 (run_state i t) = env_pgdir (envs t i) - KERNBASE"
      "locked (kernel_lock (run_state i t)) = 0" for t
      by (simp_all add: run_state_def Let_def upd_env_def curenv_def set_curenv_def xchg_locked_def)
    then show ?thesis using Y i Some pa unfolding r slots_rotate [OF start] by simp
  qed
qed

text \<open>
  \<^bold>\<open>C31.\<close> After the environment in the last slot the search starts at index \<^verbatim>\<open>NENV\<close>: when the
  memory behind the array \<^verbatim>\<open>envs\<close> looks like a runnable environment, the kernel runs it.
\<close>

theorem sched_yield_past_end:
  assumes "curenv s = Some c" and "ENVX (env_id (envs s c)) = NENV - 1"
    and "env_status (envs s NENV) = ENV_RUNNABLE"
  shows "sched_yield s = env_run NENV (upd_env NENV (\<lambda>x. x\<lparr>env_cpunum := this_cpu s\<rparr>) s)"
proof -
  have st: "sched_start s = NENV" using assms(1,2) NENV_pos by (simp add: sched_start_def)
  obtain n where n: "NENV = Suc n" using NENV_pos gr0_conv_Suc by blast
  have "slots (Suc n) NENV = NENV # slots n ((NENV + 1) mod NENV)" by simp
  then have "slots NENV NENV = NENV # slots n ((NENV + 1) mod NENV)" by (simp only: n)
  then have "find (runnable s) (slots NENV NENV) = Some NENV" using assms(3) by (simp add: runnable_def)
  then show ?thesis by (simp add: sched_yield_def st sched_search_find on_cpu_def)
qed

theorem sched_yield_past_end_witness:
  "\<exists>s. curenv s = Some 1023 \<and> (\<forall>i < NENV. env_status (envs s i) \<noteq> ENV_RUNNABLE) \<and>
     sched_yield s = env_run NENV (upd_env NENV (\<lambda>x. x\<lparr>env_cpunum := this_cpu s\<rparr>) s)"
proof -
  let ?s = "upd_env NENV (\<lambda>x. x\<lparr>env_status := ENV_RUNNABLE\<rparr>)
    (upd_env 1023 (\<lambda>x. x\<lparr>env_status := ENV_RUNNING, env_id := 0x13FF\<rparr>) (set_curenv (Some 1023) boot_machine))"
  have f: "curenv ?s = Some 1023" "env_id (envs ?s 1023) = 0x13FF" "env_status (envs ?s NENV) = ENV_RUNNABLE"
    "\<forall>i < NENV. env_status (envs ?s i) \<noteq> ENV_RUNNABLE"
    by (simp_all add: upd_env_def curenv_def set_curenv_def NENV_def boot_machine_def zero_env_def)
  show ?thesis
    using sched_yield_past_end [OF f(1) _ f(3)] f unfolding f(2) by (intro exI [of _ ?s]) (simp add: ENVX_def NENV_def)
qed

lemma alloc_state_lock [simp]: "kernel_lock (alloc_state e p K par s) = kernel_lock s"
  by (simp add: alloc_state_def setup_state_def Let_def upd_env_def set_ref_def upd_page_def page_pop_def pl.pop_def
      set_page_link_def set_page_head_def)

lemma kern_inv_one:
  "kern_inv 1 (alloc_state 0 2 1 0 boot_machine) [3, 4] [1 ..< NENV]" "live (alloc_state 0 2 1 0 boot_machine) = {0}"
proof -
  have l: "live boot_machine = {}" by (auto simp: live_def boot_machine_def zero_env_def)
  have u: "[0 ..< NENV] = 0 # [1 ..< NENV]" using upt_conv_Cons [of 0 NENV] by (simp add: NENV_pos)
  note A = env_alloc_inv [OF kern_inv_boot [unfolded u], where par = 0]
  show "kern_inv 1 (alloc_state 0 2 1 0 boot_machine) [3, 4] [1 ..< NENV]"
    "live (alloc_state 0 2 1 0 boot_machine) = {0}" using A(2,3) l by simp_all
qed

theorem sched_yield_round_robin_witness:
  "\<exists>s s'. env_alloc 0 boot_machine = Ret (0, Some 0) s \<and> sched_yield s = Leave (Run_env 0) s' \<and> curenv s' = Some 0"
proof -
  have u: "[0 ..< NENV] = 0 # [1 ..< NENV]" using upt_conv_Cons [of 0 NENV] by (simp add: NENV_pos)
  note A = env_alloc_inv [OF kern_inv_boot [unfolded u], where par = 0]
  let ?s = "alloc_state 0 2 1 0 boot_machine"
  have f: "curenv ?s = None" "this_cpu ?s = 0" "kernel_lock ?s = \<lparr>locked = 1, lock_cpu = Some 0\<rparr>"
    "env_status (envs ?s 0) = ENV_RUNNABLE"
    by (simp_all add: curenv_def boot_machine_def small_machine_def alloc_env_def)
  have st: "sched_start ?s = 0" using f(1) by (simp add: sched_start_def)
  show ?thesis
    using sched_yield_round_robin [OF A(2)] f st NENV_pos A(1) unfolding u
    by (auto simp: holding_def)
qed

end
