(* ===== verification/Kern_Syscall_Inv.thy ===== *)
theory Kern_Syscall_Inv
  imports Kern_Syscall Kern_Sched
begin

text \<open>
  System calls keep the system invariant: the page tables, reference counts and free lists stay
  consistent whatever a user environment asks for, but for two kinds of calls that the kernel fails to
  guard against. Apart from two calls that read user memory they checked wrongly, none can make the
  kernel panic.
\<close>

subsection \<open>The state in which system calls run\<close>

text \<open>
  The current environment is live, the big lock is held, this CPU does not count as halted, and the
  memory behind the array of environments does not look like a runnable environment.
\<close>

definition in_kernel :: "nat \<Rightarrow> kstate \<Rightarrow> bool" where
  "in_kernel c s \<longleftrightarrow> kernel_ok s \<and> holding (kernel_lock s) (this_cpu s) \<and> curenv s = Some c \<and>
     c \<in> live s \<and> \<not> runnable s NENV \<and> cpu_status (cpus s (this_cpu s)) \<noteq> CPU_HALTED"

text \<open>
  In user mode the lock is not held by this CPU and \<^verbatim>\<open>cr3\<close> holds the current environment's page
  directory. A halted CPU has no current environment and does not hold the lock either. An operation
  that leaves the kernel does so in such a state; only the monitor, a CPU waiting for a device or for
  the lock, and the final halt after a panic elsewhere are not described further.
\<close>

definition in_user :: "nat \<Rightarrow> kstate \<Rightarrow> bool" where
  "in_user c s \<longleftrightarrow> kernel_ok s \<and> \<not> holding (kernel_lock s) (this_cpu s) \<and> curenv s = Some c \<and>
     c \<in> live s \<and> cr3 s = page2pa (env_dir s c) \<and> \<not> runnable s NENV \<and>
     cpu_status (cpus s (this_cpu s)) \<noteq> CPU_HALTED"

definition halted :: "kstate \<Rightarrow> bool" where
  "halted s \<longleftrightarrow> kernel_ok s \<and> \<not> holding (kernel_lock s) (this_cpu s) \<and> curenv s = None \<and>
     \<not> runnable s NENV \<and> cpu_status (cpus s (this_cpu s)) = CPU_HALTED"

definition exit_ok :: "leave \<Rightarrow> kstate \<Rightarrow> bool" where
  "exit_ok k s \<longleftrightarrow> kernel_ok s \<and>
     (case k of Run_env e \<Rightarrow> in_user e s | Cpu_halt \<Rightarrow> panicstr s \<or> halted s | _ \<Rightarrow> True)"

lemma in_kernelE:
  assumes "in_kernel c s"
  obtains K xs fl where "kern_inv K s xs fl" "holding (kernel_lock s) (this_cpu s)" "curenv s = Some c"
    "c \<in> live s" "\<not> runnable s NENV" "c < NENV" "cpu_status (cpus s (this_cpu s)) \<noteq> CPU_HALTED"
  using assms by (auto simp: in_kernel_def kernel_ok_def live_def)

lemma in_kernelI:
  "kern_inv K s xs fl \<Longrightarrow> holding (kernel_lock s) (this_cpu s) \<Longrightarrow> curenv s = Some c \<Longrightarrow> c \<in> live s \<Longrightarrow>
     \<not> runnable s NENV \<Longrightarrow> cpu_status (cpus s (this_cpu s)) \<noteq> CPU_HALTED \<Longrightarrow> in_kernel c s"
  by (auto simp: in_kernel_def kernel_ok_def)

lemma in_kernel_upd_env:
  assumes "in_kernel c s" and "env_keeps (envs s e) (f (envs s e))" and "e < NENV"
  shows "in_kernel c (upd_env e f s)"
proof -
  obtain K xs fl where I: "kern_inv K s xs fl" "holding (kernel_lock s) (this_cpu s)" "curenv s = Some c"
    "c \<in> live s" "\<not> runnable s NENV" "cpu_status (cpus s (this_cpu s)) \<noteq> CPU_HALTED"
    using assms(1) by (rule in_kernelE)
  show ?thesis
    by (rule in_kernelI [OF kern_inv_upd_env [of K s xs fl e f, OF I(1) assms(2)]])
       (use I assms(2,3) in \<open>auto simp: upd_env_def curenv_def live_def runnable_def env_keeps_def\<close>)
qed

lemma in_kernel_cong:
  assumes "in_kernel c s" "npages s = npages t" "mem s = mem t" "pages s = pages t"
    "page_free_list s = page_free_list t" "envs s = envs t" "env_free_list s = env_free_list t"
    "kern_pgdir s = kern_pgdir t" "kernel_lock s = kernel_lock t" "this_cpu s = this_cpu t" "cpus s = cpus t"
  shows "in_kernel c t"
  using assms kern_inv_cong [of s t]
  by (auto simp: in_kernel_def kernel_ok_def live_def runnable_def curenv_def)

lemma in_kernel_vm:
  assumes inv: "kern_inv K s xs fl" and k: "in_kernel c s" and vm: "vm_inv s' (dirs K s) xs'" and fr: "vm_frame s s'"
  shows "in_kernel c s'"
  by (rule in_kernelI [OF kern_inv_vm [OF inv vm fr]])
     (use k vm_frameD [OF fr] in \<open>auto simp: in_kernel_def live_def runnable_def\<close>)

subsection \<open>Leaving through the scheduler\<close>

lemma sched_start_le: "sched_start s \<le> NENV"
  using ENVX_lt NENV_pos by (auto simp: sched_start_def Suc_le_eq split: option.split)

lemma run_state_in_user:
  assumes inv: "kern_inv K s xs fl" and e: "e \<in> live s" and oob: "\<not> runnable s NENV"
    and cur: "\<And>c. curenv s = Some c \<Longrightarrow> c \<in> live s" and cpu: "cpu_status (cpus s (this_cpu s)) \<noteq> CPU_HALTED"
  shows "in_user e (run_state e s)"
proof -
  have eN: "e < NENV" using e by (simp add: live_def)
  have "env_pgdir (envs s e) - KERNBASE = page2pa (env_dir s e)"
    using kern_invD(6,13) [OF inv] e page_kva_ge by simp
  then have "cr3 (run_state e s) = page2pa (env_dir s e)" "env_dir (run_state e s) e = env_dir s e"
    by (simp_all add: run_state_def Let_def upd_env_def env_dir_def)
  moreover have "\<not> runnable (run_state e s) NENV"
    using oob eN cur by (auto simp: run_state_def Let_def upd_env_def runnable_def step_down_def live_def split: option.split)
  moreover have "e \<in> live (run_state e s)" "curenv (run_state e s) = Some e"
    using e by (simp_all add: run_state_def Let_def upd_env_def curenv_def set_curenv_def live_def)
  moreover have "\<not> holding (kernel_lock (run_state e s)) i" for i
    by (simp add: run_state_def Let_def upd_env_def xchg_locked_def holding_def)
  moreover have "cpu_status (cpus (run_state e s) (this_cpu (run_state e s))) \<noteq> CPU_HALTED"
    using cpu by (simp add: run_state_def Let_def upd_env_def set_curenv_def)
  ultimately show ?thesis
    using kern_inv_run_state [OF inv e] unfolding in_user_def kernel_ok_def by auto
qed

lemma env_run_safe:
  assumes inv: "kern_inv K s xs fl" and lk: "holding (kernel_lock s) (this_cpu s)"
    and e: "e \<in> live s" and oob: "\<not> runnable s NENV" and cur: "\<And>c. curenv s = Some c \<Longrightarrow> c \<in> live s"
    and cpu: "cpu_status (cpus s (this_cpu s)) \<noteq> CPU_HALTED"
  shows "safe pan (env_run e) Q exit_ok s"
proof -
  have "KERNBASE \<le> env_pgdir (envs s e)" using kern_invD(6,13) [OF inv] e page_kva_ge by simp
  then show ?thesis using env_run_Leave [OF lk] run_state_in_user [OF inv e oob cur cpu]
    by (simp add: safe_def exit_ok_def in_user_def)
qed

lemma sched_yield_safe:
  assumes inv: "kern_inv K s xs fl" and lk: "holding (kernel_lock s) (this_cpu s)"
    and oob: "\<not> runnable s NENV" and cur: "\<And>c. curenv s = Some c \<Longrightarrow> c \<in> live s"
    and cpu: "cpu_status (cpus s (this_cpu s)) \<noteq> CPU_HALTED"
  shows "safe pan sched_yield Q exit_ok s"
proof (cases "sched_choice s")
  case None
  have "halted (halt_state K s)"
    using kern_inv_halt [OF inv] oob unfolding halted_def kernel_ok_def
    by (auto simp: halt_state_def Let_def set_curenv_def curenv_def holding_def xchg_locked_def runnable_def)
  then show ?thesis
    using sched_yield_Leave [OF inv lk oob sched_start_le cur] inv None
    by (auto simp: safe_def exit_ok_def kernel_ok_def halted_def)
next
  case (Some i)
  have l: "i \<in> live s" by (rule sched_choice_live [OF Some oob sched_start_le cur])
  have "\<not> runnable (on_cpu i s) NENV" using oob l by (auto simp: on_cpu_def upd_env_def runnable_def live_def)
  moreover have "cpus (on_cpu i s) = cpus s" by (simp add: on_cpu_def upd_env_def)
  ultimately have "in_user i (run_state i (on_cpu i s))"
    using run_state_in_user [OF kern_inv_on_cpu [OF inv]] l cur cpu by simp
  then show ?thesis
    using sched_yield_Leave [OF inv lk oob sched_start_le cur] Some
    by (auto simp: safe_def exit_ok_def in_user_def)
qed

lemma in_kernel_yield: "in_kernel c s \<Longrightarrow> safe pan sched_yield Q exit_ok s"
  by (erule in_kernelE, rule sched_yield_safe) auto

lemma env_free_in_kernel:
  assumes "in_kernel c s" and "e \<in> live s"
  obtains K s' xs' fl' where "env_free e s = Ret () s'" "kern_inv K s' xs' fl'" "live s' = live s - {e}"
    "holding (kernel_lock s') (this_cpu s')" "curenv s' = Some c" "\<not> runnable s' NENV"
    "cpu_status (cpus s' (this_cpu s')) \<noteq> CPU_HALTED"
proof -
  obtain K xs fl where I: "kern_inv K s xs fl" "holding (kernel_lock s) (this_cpu s)" "curenv s = Some c"
    "\<not> runnable s NENV" "cpu_status (cpus s (this_cpu s)) \<noteq> CPU_HALTED" using assms(1) by (rule in_kernelE)
  obtain s' xs' where s': "env_free e s = Ret () s'" "kern_inv K s' xs' (e # fl)" "live s' = live s - {e}"
    "envs s' = (envs s)(e := freed_env e s)" "cpus s' = cpus s" "this_cpu s' = this_cpu s"
    "kernel_lock s' = kernel_lock s"
    using env_free_inv [OF I(1) assms(2)] by metis
  show thesis
  proof (rule that [OF s'(1-3)])
    show "curenv s' = Some c" using I(3) s'(5,6) by (simp add: curenv_def)
    show "\<not> runnable s' NENV" using I(4) s'(4) assms(2) by (simp add: runnable_def live_def)
  qed (use I(2,5) s'(5-7) in simp_all)
qed

text \<open>An environment that gives up the processor for good never comes back.\<close>

lemma free_and_yield_safe:
  assumes "in_kernel c s" and "e \<in> live s"
  shows "safe pan (andthen (env_free e) (\<lambda>_. andthen (modify (set_curenv None)) (\<lambda>_. sched_yield))) Q exit_ok s"
  using assms
proof (rule env_free_in_kernel)
  fix K s' xs' fl' assume s': "env_free e s = Ret () s'" "kern_inv K s' xs' fl'" "live s' = live s - {e}"
    "holding (kernel_lock s') (this_cpu s')" "curenv s' = Some c" "\<not> runnable s' NENV"
    "cpu_status (cpus s' (this_cpu s')) \<noteq> CPU_HALTED"
  let ?t = "set_curenv None s'"
  have "safe pan sched_yield Q exit_ok ?t"
  proof (rule sched_yield_safe)
    show "kern_inv K ?t xs' fl'" using s'(2) by (subst kern_inv_cong [of _ s']) (simp_all add: set_curenv_def)
    show "cpu_status (cpus ?t (this_cpu ?t)) \<noteq> CPU_HALTED" using s'(7) by (simp add: set_curenv_def)
  qed (use s'(4,6) in \<open>simp_all add: runnable_def\<close>)
  then show ?thesis using s'(1) by (simp add: safe_def)
qed

lemma env_destroy_self_safe:
  assumes k: "in_kernel c s"
  shows "safe pan (env_destroy c) Q exit_ok s"
proof -
  have c: "c \<in> live s" "curenv s = Some c" using k by (simp_all add: in_kernel_def)
  from k c(1) obtain s' where "env_free c s = Ret () s'" "curenv s' = Some c" by (rule env_free_in_kernel)
  then show ?thesis using free_and_yield_safe [OF k c(1), of pan Q] c by (simp add: env_destroy_def safe_def)
qed

lemma env_destroy_safe:
  assumes k: "in_kernel c s" and e: "e \<in> live s"
  shows "safe pan (env_destroy e) (\<lambda>_. in_kernel c) exit_ok s"
proof (cases "e = c")
  case False
  have c: "curenv s = Some c" "c \<in> live s" using k by (simp_all add: in_kernel_def)
  show ?thesis
  proof (cases "env_status (envs s e) = ENV_RUNNING")
    case True
    then have "in_kernel c (upd_env e (\<lambda>x. x\<lparr>env_status := ENV_DYING\<rparr>) s)"
      using k e by (intro in_kernel_upd_env) (auto simp: env_keeps_def live_def)
    then show ?thesis using True False c(1) by (simp add: env_destroy_def safe_def)
  next
    case nr: False
    from k e show ?thesis
    proof (rule env_free_in_kernel)
      fix K s' xs' fl' assume s': "env_free e s = Ret () s'" "kern_inv K s' xs' fl'" "live s' = live s - {e}"
        "holding (kernel_lock s') (this_cpu s')" "curenv s' = Some c" "\<not> runnable s' NENV"
    "cpu_status (cpus s' (this_cpu s')) \<noteq> CPU_HALTED"
      have "in_kernel c s'" by (rule in_kernelI [OF s'(2)]) (use s' c False in auto)
      then show ?thesis using False nr s'(1,5) by (simp add: env_destroy_def safe_def)
    qed
  qed
qed (use env_destroy_self_safe [OF k] in simp)

subsection \<open>Looking up environments and user memory\<close>

lemma envid2env_cases:
  assumes "in_kernel c s"
  obtains e where "envid2env envid perm s = Ret (0, Some e) s" "e \<in> live s"
  | "envid2env envid perm s = Ret (err E_BAD_ENV, None) s"
proof -
  have "curenv s = Some c" "c \<in> live s" using assms by (auto elim: in_kernelE)
  moreover have "ENVX envid \<in> live s" if "env_status (envs s (ENVX envid)) \<noteq> ENV_FREE"
    using that ENVX_lt by (simp add: live_def)
  ultimately have "(\<exists>e. envid2env envid perm s = Ret (0, Some e) s \<and> e \<in> live s) \<or>
      envid2env envid perm s = Ret (err E_BAD_ENV, None) s"
    by (auto simp: envid2env_def Let_def)
  then show thesis using that by blast
qed

lemma with_env_safe:
  assumes k: "in_kernel c s" and f: "\<And>e. e \<in> live s \<Longrightarrow> envid2env envid perm s = Ret (0, Some e) s \<Longrightarrow>
      safe pan (f e) (\<lambda>_. in_kernel c) exit_ok s"
  shows "safe pan (with_env envid perm f) (\<lambda>_. in_kernel c) exit_ok s"
  using envid2env_cases [OF k, of envid perm]
proof cases
  case (1 e)
  then show ?thesis using f [OF 1(2,1)] by (simp add: with_env_def safe_def)
next
  case 2
  then show ?thesis using k by (simp add: with_env_def safe_def)
qed

lemma with_curenv_safe: "in_kernel c s \<Longrightarrow> safe pan (with_curenv f) Q E s = safe pan (f c) Q E s"
  by (simp add: with_curenv_def safe_def in_kernel_def)

lemma ROUNDUP_page_nat: "\<exists>b \<le> 1048575. unat (ROUNDUP w PGSIZE) = b * 4096"
proof -
  let ?x = "unat (w + PGSIZE - 1)"
  have "unat (ROUNDUP w PGSIZE) = ?x - ?x mod 4096"
    unfolding ROUNDUP_def by (simp add: unat_ROUNDDOWN_page minus_mod_eq_div_mult)
  moreover have "?x div 4096 < 1048576" using unat_lt_4G [of "w + PGSIZE - 1"] by (simp add: div_less_iff_less_mult)
  ultimately show ?thesis by (intro exI [of _ "?x div 4096"]) (simp add: minus_mod_eq_div_mult)
qed

lemma user_mem_check_Ret:
  assumes w: "walkable s P" and pg: "env_pgdir (envs s e) = page_kva P"
  shows "\<exists>r a. user_mem_check e va len perm s = Ret r (s\<lparr>user_mem_check_addr := a\<rparr>)"
proof -
  obtain b where b: "b \<le> 1048575" "unat (ROUNDUP (va + len) PGSIZE) = b * 4096" using ROUNDUP_page_nat by blast
  have a: "unat (ROUNDDOWN va PGSIZE) = vpn va * 4096"
    by (simp add: unat_ROUNDDOWN_page vpn_def word_arith)
  have same: "\<exists>x. s = s\<lparr>user_mem_check_addr := x\<rparr>" by (rule exI [of _ "user_mem_check_addr s"]) simp
  show ?thesis
  proof (cases "vpn va \<le> b")
    case True
    show ?thesis
      unfolding user_mem_check_def a b(2) pg scan_result [OF w True b(1)]
      using same by (cases "bad_pages (mem s) P perm (vpn va) b") auto
  next
    case False
    then show ?thesis unfolding user_mem_check_def a b(2) using same
      by (subst user_mem_scan.simps) auto
  qed
qed

lemma user_mem_assert_safe:
  assumes k: "in_kernel c s" and e: "e \<in> live s"
  shows "safe pan (user_mem_assert e va len perm) (\<lambda>_. in_kernel c) exit_ok s"
proof -
  obtain K xs fl where I: "kern_inv K s xs fl" using k by (rule in_kernelE)
  have "walkable s (env_dir s e)" by (rule walkable_vm_inv [OF kern_invD(1,11) [OF I]]) (rule e)
  then obtain r a where r: "user_mem_check e va len (perm OR PTE_U) s = Ret r (s\<lparr>user_mem_check_addr := a\<rparr>)"
    using user_mem_check_Ret kern_invD(6) [OF I e] by blast
  have k': "in_kernel c (s\<lparr>user_mem_check_addr := a\<rparr>)" by (rule in_kernel_cong [OF k]) simp_all
  have "e \<in> live (s\<lparr>user_mem_check_addr := a\<rparr>)" using e by (simp add: live_def)
  then show ?thesis using env_destroy_safe [OF k'] k' r
    by (simp add: user_mem_assert_def safe_def)
qed

subsection \<open>Taking a page and giving it back\<close>

lemma vm_inv_pop:
  assumes inv: "vm_inv s D (p # xs)"
  shows "vm_inv (page_pop z p s) D xs"
    and "Q \<in> D \<Longrightarrow> x < 1024 \<Longrightarrow> table (mem (page_pop z p s)) Q x = table (mem s) Q x"
    and "Q \<in> D \<Longrightarrow> w < 1048576 \<Longrightarrow> pte_at (mem (page_pop z p s)) Q w = pte_at (mem s) Q w"
    and "p < unat (npages s)" "p \<notin> pt_pages (mem s) D" "p \<notin> set xs" "pp_ref (pages s p) = 0"
proof -
  note I = vm_invD [OF inv]
  show p: "p \<notin> pt_pages (mem s) D" using I(5) by auto
  show "p < unat (npages s)" "pp_ref (pages s p) = 0" using page_invD(4,6) [OF I(1)] by auto
  show "p \<notin> set xs" using page_invD(3) [OF I(1)] by simp
  have o: "mem (page_pop z p s) (Q * 1024 + i) = mem s (Q * 1024 + i)" if "i < 1024" "Q \<noteq> p" for Q i
    using that slot_eq by (auto simp: fill_words_def)
  note W = page_write [of p "mem s" D "mem (page_pop z p s)", OF p o]
  show T: "table (mem (page_pop z p s)) Q x = table (mem s) Q x" if "Q \<in> D" "x < 1024" for Q x
    using W(1) that by blast
  show E: "pte_at (mem (page_pop z p s)) Q w = pte_at (mem s) Q w" if "Q \<in> D" "w < 1048576" for Q w
    using W(2) that by blast
  have M: "mapped (mem (page_pop z p s)) Q v = mapped (mem s) Q v" if "Q \<in> D" "v < user_vpns" for Q v
    using E [OF that(1), of v] that(2) by (simp add: mapped_def)
  show "vm_inv (page_pop z p s) D xs"
  proof (rule vm_inv_same_tables [OF inv])
    show "page_inv (page_pop z p s) xs" using I(1) by (rule page_inv_pop)
    show "card (uses (mem (page_pop z p s)) D q) \<le> unat (pp_ref (pages (page_pop z p s) q))" for q
    proof -
      have "uses (mem (page_pop z p s)) D q = uses (mem s) D q" using M by (auto simp: uses_def)
      then show ?thesis using I(9) [of q] by (cases "q = p") (simp_all del: page_pop_fields(3))
    qed
  qed (use T I(5,8) M in auto)
qed

lemma vm_inv_push:
  assumes inv: "vm_inv s D xs" and p: "p < unat (npages s)" "p \<notin> set xs" "p \<notin> pt_pages (mem s) D"
    "pp_ref (pages s p) = 0"
  shows "page_free p s = Ret () (pl.push p s)" and "vm_inv (pl.push p s) D (p # xs)"
proof -
  note I = vm_invD [OF inv]
  show "page_free p s = Ret () (pl.push p s)" by (rule page_free_Ret [OF I(1) p(1,2,4)])
  show "vm_inv (pl.push p s) D (p # xs)"
    by (rule vm_inv_same_tables [OF inv]) (use I I(9) [of p] p page_inv_push [OF I(1) p(1,2)] in auto)
qed

subsection \<open>Mapping pages of environments\<close>

lemma perm_lt:
  assumes "perm AND NOT PTE_SYSCALL = 0"
  shows "unat perm < 4096"
proof -
  have "perm = (perm AND PTE_SYSCALL) OR (perm AND NOT PTE_SYSCALL)" by (rule bit_eqI) (auto simp: bit_simps)
  then have p: "perm = perm AND PTE_SYSCALL" using assms by simp
  have "(PTE_SYSCALL :: u32) = PTE_SYSCALL AND mask 12" by code_simp
  then have "perm = (perm AND PTE_SYSCALL) AND mask 12" using p by (metis and.assoc)
  then have "unat perm = unat (perm AND PTE_SYSCALL) mod 2 ^ 12" using and_mask_mod by metis
  then show ?thesis by simp
qed

definition set_entry :: "nat set \<Rightarrow> nat \<Rightarrow> nat \<Rightarrow> u32 option \<Rightarrow> kstate \<Rightarrow> kstate \<Rightarrow> bool" where
  "set_entry D P v x s s' \<longleftrightarrow>
     (\<forall>Q \<in> D. aspace (mem s') Q = (if Q = P then (aspace (mem s) P)(v := x) else aspace (mem s) Q))"

lemma page_insert_env [consumes 8]:
  assumes inv: "kern_inv K s xs fl" and e: "e \<in> live s" and va: "va < UTOP"
    and perm: "perm AND NOT PTE_SYSCALL = 0" and pp: "pp < unat (npages s)" "pp \<notin> pt_pages (mem s) (dirs K s)"
      "pp \<notin> set xs" "pp_ref (pages s pp) \<noteq> 0xFFFF"
  obtains (ok) s' xs' where "page_insert (env_pgdir (envs s e)) pp va perm s = Ret 0 s'" "kern_inv K s' xs' fl"
      "vm_inv s' (dirs K s) xs'" "vm_frame s s'" "data_frame (dirs K s) s s'" "pp \<notin> pt_pages (mem s') (dirs K s)"
      "set_entry (dirs K s) (env_dir s e) (vpn va) (Some (page2pa pp OR PTE_P OR perm)) s s'"
      "table (mem s) (env_dir s e) (unat (PDX va)) \<noteq> None \<or> xs \<noteq> []"
      "\<forall>q. q \<notin> pt_pages (mem s') (dirs K s) \<longrightarrow> pp_ref (pages s' q) =
         insert_refs (mapped (mem s) (env_dir s e) (vpn va)) pp (\<lambda>q. pp_ref (pages s q)) q"
      "length xs \<le> Suc (length xs')"
      "(\<forall>Q \<in> dirs K s. \<forall>x < 1024. Q \<noteq> env_dir s e \<or> x \<noteq> unat (PDX va) \<longrightarrow> table (mem s') Q x = table (mem s) Q x)"
  | (full) "page_insert (env_pgdir (envs s e)) pp va perm s = Ret (err E_NO_MEM) s" "xs = []"
      "table (mem s) (env_dir s e) (unat (PDX va)) = None"
proof -
  note I = kern_invD [OF inv]
  note v = vpn_user [OF va] and pl = perm_lt [OF perm] and d = I(11) [OF e] and pg = I(6) [OF e]
  show thesis
  proof (cases "table (mem s) (env_dir s e) (unat (PDX va)) \<noteq> None \<or> xs \<noteq> []")
    case True
    obtain s' xs' where s': "page_insert (page_kva (env_dir s e)) pp va perm s = Ret 0 s'" "vm_inv s' (dirs K s) xs'"
      "pte_step (dirs K s) (env_dir s e) (vpn va) (page2pa pp OR PTE_P OR perm) s s'" "vm_frame s s'"
      "data_frame (dirs K s) s s'" "pp \<notin> pt_pages (mem s') (dirs K s)"
      "\<forall>q. q \<notin> pt_pages (mem s') (dirs K s) \<longrightarrow> pp_ref (pages s' q) =
         insert_refs (mapped (mem s) (env_dir s e) (vpn va)) pp (\<lambda>q. pp_ref (pages s q)) q"
      "length xs \<le> Suc (length xs')"
      "(\<forall>Q \<in> dirs K s. \<forall>x < 1024. Q \<noteq> env_dir s e \<or> x \<noteq> unat (PDX va) \<longrightarrow> table (mem s') Q x = table (mem s) Q x)"
      using page_insert_ok [OF I(1) d v True pl pp] by blast
    have "pp < 1048576" using pp(1) vm_invD(10) [OF I(1)] by simp
    then have "(page2pa pp OR PTE_P OR perm) AND PTE_P \<noteq> 0" using new_pte_page [OF _ pl] by (simp add: pte_page_Some)
    then have "set_entry (dirs K s) (env_dir s e) (vpn va) (Some (page2pa pp OR PTE_P OR perm)) s s'"
      using aspace_step [OF s'(3) _ v] by (simp add: set_entry_def)
    then show thesis
      using ok [OF _ kern_inv_vm [OF inv s'(2,4)] s'(2,4,5,6)] s'(1,7,8,9) pg True by simp
  next
    case False
    then show thesis using full page_insert_no_mem [of s "dirs K s" "env_dir s e"] I(1) d pg by simp
  qed
qed

text \<open>The result of \<^verbatim>\<open>sys_page_alloc\<close> once its arguments have been found valid.\<close>

lemma alloc_and_map_cases [consumes 4]:
  assumes inv: "kern_inv K s xs fl" and e: "e \<in> live s" and va: "va < UTOP"
    and perm: "perm AND NOT PTE_SYSCALL = 0"
  obtains (mapd) s' xs' pp where "alloc_and_map e va perm s = Ret 0 s'" "kern_inv K s' xs' fl" "vm_frame s s'" "pp \<in> set xs"
      "set_entry (dirs K s) (env_dir s e) (vpn va) (Some (page2pa pp OR PTE_P OR perm)) s s'"
      "\<forall>i < 1024. mem s' (pp * 1024 + i) = 0"
      "1 < length xs \<or> xs \<noteq> [] \<and> table (mem s) (env_dir s e) (unat (PDX va)) \<noteq> None"
      "pp_ref (pages s' pp) = 1"
      "\<forall>q i. q \<noteq> pp \<longrightarrow> q \<notin> pt_pages (mem s') (dirs K s) \<longrightarrow> i < 1024 \<longrightarrow> mem s' (q * 1024 + i) = mem s (q * 1024 + i)"
      "(\<forall>Q \<in> dirs K s. \<forall>x < 1024. Q \<noteq> env_dir s e \<or> x \<noteq> unat (PDX va) \<longrightarrow> table (mem s') Q x = table (mem s) Q x)"
  | (oom) s' where "alloc_and_map e va perm s = Ret (err E_NO_MEM) s'" "kern_inv K s' xs fl" "vm_frame s s'"
      "\<forall>Q \<in> dirs K s. aspace (mem s') Q = aspace (mem s) Q"
      "xs = [] \<or> length xs = 1 \<and> table (mem s) (env_dir s e) (unat (PDX va)) = None"
proof (cases xs)
  case Nil
  have "page_inv s []" using vm_invD(1) [OF kern_invD(1) [OF inv]] Nil by simp
  then have "alloc_and_map e va perm s = Ret (err E_NO_MEM) s" by (simp add: alloc_and_map_def page_alloc_None)
  then show thesis using oom [of s] inv Nil by simp
next
  case (Cons p ys)
  note I = kern_invD [OF inv]
  have vi: "vm_inv s (dirs K s) (p # ys)" using I(1) Cons by simp
  let ?s = "page_pop True p s"
  note P = vm_inv_pop [OF vi]
  have fr: "vm_frame s ?s" by simp
  have inv1: "kern_inv K ?s ys fl" by (rule kern_inv_vm [OF inv P(1) fr])
  have al: "page_alloc True s = Ret (Some p) ?s" by (rule page_alloc_Some [OF vm_invD(1) [OF vi]])
  have l1: "live ?s = live s" "env_dir ?s = env_dir s" "dirs K ?s = dirs K s" "envs ?s = envs s"
    by (simp_all add: live_def env_dir_def dirs_def fun_eq_iff)
  have as: "aspace (mem ?s) Q = aspace (mem s) Q" if "Q \<in> dirs K s" for Q
    using P(3) [OF that, where z = True] by (auto simp: aspace_def fun_eq_iff)
  have tb: "table (mem ?s) (env_dir s e) (unat (PDX va)) = table (mem s) (env_dir s e) (unat (PDX va))"
    by (rule P(2) [OF I(11) [OF e] PDX_lt])
  have pt: "pt_pages (mem ?s) (dirs K s) = pt_pages (mem s) (dirs K s)"
    using P(2) by (rule pt_pages_cong)
  have p1: "p < unat (npages ?s)" "p \<notin> pt_pages (mem ?s) (dirs K ?s)" "pp_ref (pages ?s p) = 0"
    using P(4,5,7) pt l1(3) by simp_all
  have e1: "e \<in> live ?s" using e l1 by simp
  have ref: "pp_ref (pages ?s p) \<noteq> 0xFFFF" using p1(3) by simp
  from inv1 e1 va perm p1(1,2) P(6) ref show thesis
  proof (cases rule: page_insert_env)
    case (ok s' xs')
    have r: "alloc_and_map e va perm s = Ret 0 s'" using al ok(1) by (simp add: alloc_and_map_def)
    have z: "\<forall>i < 1024. mem s' (p * 1024 + i) = 0"
      using ok(5,6) by (simp add: data_frame_def fill_words_def)
    have en: "set_entry (dirs K s) (env_dir s e) (vpn va) (Some (page2pa p OR PTE_P OR perm)) s s'"
      using ok(7) as I(11) [OF e] by (simp add: set_entry_def l1)
    have oth: "\<forall>q i. q \<noteq> p \<longrightarrow> q \<notin> pt_pages (mem s') (dirs K s) \<longrightarrow> i < 1024 \<longrightarrow> mem s' (q * 1024 + i) = mem s (q * 1024 + i)"
      using ok(5) slot_eq by (auto simp: data_frame_def fill_words_def l1)
    have "mapped (mem ?s) (env_dir s e) (vpn va) \<noteq> Some p"
      using mapped_ref(1) [OF kern_invD(1) [OF inv1], of "env_dir s e" "vpn va" p] p1(3) vpn_user [OF va] I(11) [OF e] l1 by auto
    then have rf: "pp_ref (pages s' p) = 1"
      using ok(6,9) p1(3) by (simp add: insert_refs_def l1 del: page_pop_fields)
    have len: "1 < length xs \<or> xs \<noteq> [] \<and> table (mem s) (env_dir s e) (unat (PDX va)) \<noteq> None"
      using ok(8) Cons tb l1(2) by (cases ys) auto
    have tbs: "(\<forall>Q \<in> dirs K s. \<forall>x < 1024. Q \<noteq> env_dir s e \<or> x \<noteq> unat (PDX va) \<longrightarrow> table (mem s') Q x = table (mem s) Q x)"
      using ok(11) P(2) [where z = True] by (simp add: l1 del: page_pop_fields)
    have "p \<in> set xs" using Cons by simp
    then show thesis by (rule mapd [OF r ok(2) vm_frame_trans [OF fr ok(4)] _ en z len rf oth tbs])
  next
    case full
    have pf: "page_free p ?s = Ret () (pl.push p ?s)" "vm_inv (pl.push p ?s) (dirs K s) (p # ys)"
      using vm_inv_push [OF P(1), of p True] p1 P(6) l1(3) by auto
    have "alloc_and_map e va perm s = Ret (err E_NO_MEM) (pl.push p ?s)" using al full(1) pf(1) by (simp add: alloc_and_map_def)
    moreover have frp: "vm_frame s (pl.push p ?s)" using vm_frame_trans [OF fr vm_frame_simps(2)] .
    ultimately show thesis using oom kern_inv_vm [OF inv pf(2) frp] as Cons full(2,3) tb l1(2) by simp
  qed
qed

subsection \<open>Each call\<close>

lemma in_kernel_frame: "in_kernel c s \<Longrightarrow> kern_inv K s' xs' fl \<Longrightarrow> vm_frame s s' \<Longrightarrow> in_kernel c s'"
  by (rule in_kernelI) (auto simp: in_kernel_def live_def runnable_def vm_frameD)

lemma sys_page_alloc_safe:
  assumes k: "in_kernel c s"
  shows "safe pan (sys_page_alloc envid va perm) (\<lambda>_. in_kernel c) exit_ok s"
proof -
  obtain K xs fl where inv: "kern_inv K s xs fl" using k by (rule in_kernelE)
  have "safe pan (alloc_and_map e va perm) (\<lambda>_. in_kernel c) exit_ok s"
    if "e \<in> live s" "va < UTOP" "\<not> bad_perm perm" for e
  proof -
    have "perm AND NOT PTE_SYSCALL = 0" using that(3) by (simp add: bad_perm_def Let_def)
    from inv that(1,2) this show ?thesis
      by (cases rule: alloc_and_map_cases) (auto simp: safe_def intro: in_kernel_frame [OF k])
  qed
  then show ?thesis unfolding sys_page_alloc_def
    by (intro with_env_safe [OF k]) (simp add: safe_rules k not_le)
qed

lemma page_lookup_env:
  assumes inv: "kern_inv K s xs fl" and e: "e \<in> live s" and va: "va < UTOP"
  obtains (mapd) pte ptr where "aspace (mem s) (env_dir s e) (vpn va) = Some pte"
      "page_lookup (env_pgdir (envs s e)) va s = Ret (Some (unat (PGNUM pte), ptr)) s" "kload ptr s = Ret pte s"
      "unat (PGNUM pte) < unat (npages s)" "unat (PGNUM pte) \<notin> pt_pages (mem s) (dirs K s)"
      "unat (PGNUM pte) \<notin> set xs"
  | (unmapped) "aspace (mem s) (env_dir s e) (vpn va) = None" "page_lookup (env_pgdir (envs s e)) va s = Ret None s"
proof -
  note I = kern_invD [OF inv]
  note L = page_lookup_aspace [OF I(1) I(11) [OF e] va]
  show thesis
  proof (cases "aspace (mem s) (env_dir s e) (vpn va)")
    case None
    then show thesis using unmapped L I(6) [OF e] by simp
  next
    case (Some pte)
    then have m: "mapped (mem s) (env_dir s e) (vpn va) = Some (unat (PGNUM pte))"
      by (simp add: aspace_mapped vpn_user [OF va])
    have "unat (PGNUM pte) \<notin> set xs"
      using mapped_ref(1) [OF I(1) I(11) [OF e] vpn_user [OF va] m] page_invD(6) [OF vm_invD(1) [OF I(1)]] by blast
    then show thesis
      using mapd L Some I(6) [OF e] vm_invD(8) [OF I(1) I(11) [OF e] vpn_user [OF va] m] by auto
  qed
qed

text \<open>
  The reference count of a page has 16 bits. A mapping of the page at \<open>va\<close> can be added without
  wrapping it.
\<close>

definition can_share :: "nat \<Rightarrow> u32 \<Rightarrow> kstate \<Rightarrow> bool" where
  "can_share e va s = (case aspace (mem s) (env_dir s e) (vpn va) of
       None \<Rightarrow> True
     | Some pte \<Rightarrow> pp_ref (pages s (unat (PGNUM pte))) \<noteq> 0xFFFF)"

lemma lookup_and_map_cases [consumes 7]:
  assumes inv: "kern_inv K s xs fl" and se: "se \<in> live s" and de: "de \<in> live s"
    and va: "srcva < UTOP" "dstva < UTOP" and perm: "perm AND NOT PTE_SYSCALL = 0"
    and refs: "can_share se srcva s"
  obtains (mapd) s' xs' pte where "lookup_and_map se srcva de dstva perm s = Ret 0 s'" "kern_inv K s' xs' fl"
      "vm_frame s s'" "data_frame (dirs K s) s s'" "aspace (mem s) (env_dir s se) (vpn srcva) = Some pte"
      "perm AND PTE_W = 0 \<or> pte AND PTE_W \<noteq> 0"
      "set_entry (dirs K s) (env_dir s de) (vpn dstva)
         (Some (page2pa (unat (PGNUM pte)) OR PTE_P OR perm)) s s'"
      "table (mem s) (env_dir s de) (unat (PDX dstva)) \<noteq> None \<or> xs \<noteq> []"
      "\<forall>q. q \<notin> pt_pages (mem s') (dirs K s) \<longrightarrow> pp_ref (pages s' q) =
         insert_refs (mapped (mem s) (env_dir s de) (vpn dstva)) (unat (PGNUM pte)) (\<lambda>q. pp_ref (pages s q)) q"
  | (refused) "lookup_and_map se srcva de dstva perm s = Ret (err E_INVAL) s"
      "case aspace (mem s) (env_dir s se) (vpn srcva) of None \<Rightarrow> True
       | Some pte \<Rightarrow> perm AND PTE_W \<noteq> 0 \<and> pte AND PTE_W = 0"
  | (full) pte where "lookup_and_map se srcva de dstva perm s = Ret (err E_NO_MEM) s" "xs = []"
      "aspace (mem s) (env_dir s se) (vpn srcva) = Some pte" "perm AND PTE_W = 0 \<or> pte AND PTE_W \<noteq> 0"
      "table (mem s) (env_dir s de) (unat (PDX dstva)) = None"
proof (rule page_lookup_env [OF inv se va(1)])
  assume "aspace (mem s) (env_dir s se) (vpn srcva) = None"
    "page_lookup (env_pgdir (envs s se)) srcva s = Ret None s"
  then show thesis using refused by (simp add: lookup_and_map_def)
next
  fix pte ptr
  let ?pp = "unat (PGNUM pte)"
  assume a: "aspace (mem s) (env_dir s se) (vpn srcva) = Some pte"
    and l: "page_lookup (env_pgdir (envs s se)) srcva s = Ret (Some (?pp, ptr)) s" "kload ptr s = Ret pte s"
    and pp: "?pp < unat (npages s)" "?pp \<notin> pt_pages (mem s) (dirs K s)" "?pp \<notin> set xs"
  show thesis
  proof (cases "perm AND PTE_W \<noteq> 0 \<and> pte AND PTE_W = 0")
    case True
    then show thesis using refused a l by (simp add: lookup_and_map_def)
  next
    case w: False
    have ref: "pp_ref (pages s ?pp) \<noteq> 0xFFFF" using refs a by (simp add: can_share_def)
    from inv de va(2) perm pp ref show thesis
    proof (cases rule: page_insert_env)
      case (ok s' xs')
      then show thesis using mapd [of s' xs' pte] a l w by (auto simp: lookup_and_map_def)
    next
      case full
      have "lookup_and_map se srcva de dstva perm s = Ret (err E_NO_MEM) s"
        using l w full(1) by (auto simp: lookup_and_map_def)
      then show thesis using that(3) a w full(2,3) by auto
    qed
  qed
qed

lemma sys_page_map_safe:
  assumes k: "in_kernel c s"
    and refs: "\<And>e. envid2env srcenv True s = Ret (0, Some e) s \<Longrightarrow> can_share e srcva s"
  shows "safe pan (sys_page_map srcenv srcva dstenv dstva perm) (\<lambda>_. in_kernel c) exit_ok s"
proof -
  obtain K xs fl where inv: "kern_inv K s xs fl" using k by (rule in_kernelE)
  have "safe pan (lookup_and_map se srcva de dstva perm) (\<lambda>_. in_kernel c) exit_ok s"
    if "se \<in> live s" "de \<in> live s" "srcva < UTOP" "dstva < UTOP" "\<not> bad_perm perm" "can_share se srcva s" for se de
  proof -
    have pm: "perm AND NOT PTE_SYSCALL = 0" using that(5) by (simp add: bad_perm_def Let_def)
    from inv that(1-4) pm that(6) show ?thesis
      by (cases rule: lookup_and_map_cases) (auto simp: safe_def k intro: in_kernel_frame [OF k])
  qed
  then show ?thesis unfolding sys_page_map_def
    by (intro with_env_safe [OF k]) (simp add: safe_rules k not_le refs)
qed

lemma page_remove_env:
  assumes inv: "kern_inv K s xs fl" and e: "e \<in> live s" and va: "va < UTOP"
  obtains s' xs' where "page_remove (env_pgdir (envs s e)) va s = Ret () s'" "kern_inv K s' xs' fl" "vm_frame s s'"
    "data_frame (dirs K s) s s'" "set_entry (dirs K s) (env_dir s e) (vpn va) None s s'"
proof -
  note I = kern_invD [OF inv]
  obtain s' xs' where s': "page_remove (page_kva (env_dir s e)) va s = Ret () s'" "vm_inv s' (dirs K s) xs'"
    "\<forall>Q \<in> dirs K s. aspace (mem s') Q =
        (if Q = env_dir s e then (aspace (mem s) (env_dir s e))(vpn va := None) else aspace (mem s) Q)"
    "vm_frame s s'" "data_frame (dirs K s) s s'"
    using page_remove_aspace [OF I(1) I(11) [OF e] va] by blast
  then show thesis using that kern_inv_vm [OF inv s'(2,4)] I(6) [OF e] by (simp add: set_entry_def)
qed

lemma sys_page_unmap_safe:
  assumes k: "in_kernel c s"
  shows "safe pan (sys_page_unmap envid va) (\<lambda>_. in_kernel c) exit_ok s"
proof -
  obtain K xs fl where inv: "kern_inv K s xs fl" using k by (rule in_kernelE)
  have "safe pan (page_remove (env_pgdir (envs s e)) va) (\<lambda>_. in_kernel c) exit_ok s" if "e \<in> live s" "va < UTOP" for e
    by (rule page_remove_env [OF inv that]) (auto simp: safe_def intro: in_kernel_frame [OF k])
  then show ?thesis unfolding sys_page_unmap_def
    by (intro with_env_safe [OF k]) (simp add: safe_rules k not_le)
qed

subsubsection \<open>Environments\<close>

lemma sys_env_set_status_safe:
  assumes k: "in_kernel c s"
  shows "safe pan (sys_env_set_status envid status) (\<lambda>_. in_kernel c) exit_ok s"
  unfolding sys_env_set_status_def
proof (rule with_env_safe [OF k])
  fix e assume e: "e \<in> live s"
  then show "safe pan (if status \<noteq> ENV_RUNNABLE_code \<and> status \<noteq> ENV_NOT_RUNNABLE_code then ret (err E_INVAL)
     else andthen (modify (upd_env e (\<lambda>x. x\<lparr>env_status :=
            if status = ENV_RUNNABLE_code then ENV_RUNNABLE else ENV_NOT_RUNNABLE\<rparr>))) (\<lambda>_. ret 0))
     (\<lambda>_. in_kernel c) exit_ok s"
    using k by (auto simp: safe_rules live_def env_keeps_def intro!: in_kernel_upd_env)
qed

lemma sys_env_set_pgfault_upcall_safe:
  assumes k: "in_kernel c s"
  shows "safe pan (sys_env_set_pgfault_upcall envid func) (\<lambda>_. in_kernel c) exit_ok s"
  using envid2env_cases [OF k, of envid True]
proof cases
  case (1 e)
  then show ?thesis using k
    by (auto simp: sys_env_set_pgfault_upcall_def safe_def env_keeps_def live_def intro!: in_kernel_upd_env)
qed (use k in \<open>simp add: sys_env_set_pgfault_upcall_def safe_def\<close>)

lemma sys_env_destroy_safe:
  "in_kernel c s \<Longrightarrow> safe pan (sys_env_destroy envid) (\<lambda>_. in_kernel c) exit_ok s"
  unfolding sys_env_destroy_def
  by (rule with_env_safe) (auto simp: safe_rules intro: env_destroy_safe)

lemma in_kernel_cons: "in_kernel c s \<Longrightarrow> in_kernel c (s\<lparr>kcons := k\<rparr>)"
  by (erule in_kernel_cong) simp_all

lemma vload_bytes_safe: "I s \<Longrightarrow> safe True (vload_bytes va n) (\<lambda>_. I) E s"
proof (induction n arbitrary: va)
  case (Suc n)
  have b: "vload_byte va s = Panic ''page fault in kernel mode'' \<or> (\<exists>b. vload_byte va s = Ret b s)"
    by (simp add: vload_byte_def split: option.split)
  have "safe True (vload_bytes (va + 1) n) (\<lambda>_. I) E s" using Suc by simp
  then show ?case using b by (auto simp: safe_def andthen_def split: outcome.split)
qed (simp add: safe_rules)

lemma put_str_safe: "in_kernel c s \<Longrightarrow> safe True (put_str n p) (\<lambda>_. in_kernel c) E s"
proof (induction n arbitrary: p s)
  case 0
  then show ?case by (auto simp: safe_def andthen_def vload_byte_def split: option.split)
next
  case (Suc n)
  have "safe True (put_str n (p + 1)) (\<lambda>_. in_kernel c) E (s\<lparr>kcons := k\<rparr>)" for k
    by (rule Suc.IH) (rule in_kernel_cons [OF Suc.prems])
  then show ?case using Suc.prems
    by (auto simp: safe_def andthen_def vload_byte_def split: option.split)
qed

lemma sys_cputs_safe:
  assumes k: "in_kernel c s"
  shows "safe True (sys_cputs p len) (\<lambda>_. in_kernel c) exit_ok s"
proof -
  have "safe True (each (\<lambda>ch. modify (\<lambda>s. s\<lparr>kcons := cputchar (ucast ch) (kcons s)\<rparr>)) bs) (\<lambda>_. in_kernel c) exit_ok t"
    if "in_kernel c t" for bs and t :: kstate
    using that by (induction bs arbitrary: t) (simp_all add: safe_rules in_kernel_cons)
  then have "safe True (cprintf_str len p) (\<lambda>_. in_kernel c) exit_ok t" if "in_kernel c t" for t
    using that put_str_safe by (auto simp: cprintf_str_def Let_def)
  moreover have "c \<in> live s" using k by (rule in_kernelE)
  ultimately show ?thesis unfolding sys_cputs_def
    by (simp add: with_curenv_safe [OF k] safe_rules)
       (rule safe_mono [OF user_mem_assert_safe [OF k]], auto)
qed

lemma sys_env_set_trapframe_safe:
  assumes k: "in_kernel c s"
  shows "safe True (sys_env_set_trapframe envid tf) (\<lambda>_. in_kernel c) exit_ok s"
  unfolding sys_env_set_trapframe_def
proof (rule with_env_safe [OF k])
  fix e assume e: "e \<in> live s"
  then have eN: "e < NENV" by (simp add: live_def)
  have "safe True (vload_bytes tf n) (\<lambda>bs t. in_kernel c (upd_env e (\<lambda>x. x\<lparr>env_tf := g bs\<rparr>) t)) exit_ok t"
    if "in_kernel c t" for t g n
    by (rule safe_mono [OF vload_bytes_safe [of "in_kernel c"]])
       (use that eN in \<open>auto simp: env_keeps_def intro: in_kernel_upd_env\<close>)
  then show "safe True (andthen (user_mem_assert e tf sizeof_Trapframe PTE_U) (\<lambda>_.
     andthen (vload_bytes tf (unat sizeof_Trapframe)) (\<lambda>bs.
     andthen (modify (upd_env e (\<lambda>x. x\<lparr>env_tf := user_trapframe (bytes_trapframe bs)\<rparr>))) (\<lambda>_.
     ret 0)))) (\<lambda>_. in_kernel c) exit_ok s"
    by (simp add: safe_rules) (rule safe_mono [OF user_mem_assert_safe [OF k e]], auto simp: safe_rules)
qed

lemma in_kernel_alloc:
  assumes k: "in_kernel c s" and inv: "kern_inv K s (p # xs) (e # fl)"
  shows "in_kernel c (alloc_state e p K par s)"
proof -
  note A = env_alloc_inv [OF inv, where par = par]
  have "e < NENV" using live_free_list [OF inv] by simp
  then show ?thesis
    by (intro in_kernelI [OF A(2)]) (use k A(3) in \<open>auto simp: in_kernel_def runnable_def\<close>)
qed

lemma env_alloc_cases [consumes 2]:
  assumes k: "in_kernel c s" and inv: "kern_inv K s xs fl"
  obtains (ok) e s' where "env_alloc par s = Ret (0, Some e) s'" "in_kernel c s'" "e \<in> live s'"
  | (fail) x where "env_alloc par s = Ret (err x, None) s"
proof (cases fl)
  case Nil
  then show thesis using that(2) kern_invD(2) [OF inv] env_alloc_no_env
    by (simp add: env_inv_def el.is_list_def)
next
  case fl: (Cons e fl')
  have h: "env_free_list s = Some e" using kern_invD(2) [OF inv] fl by (simp add: env_inv_def el.is_list_def)
  show thesis
  proof (cases xs)
    case Nil
    then show thesis using that(2) env_alloc_no_mem [OF _ h] vm_invD(1) [OF kern_invD(1) [OF inv]] by simp
  next
    case xs: (Cons p xs')
    note A = env_alloc_inv [OF inv [unfolded fl xs], where par = par]
    show thesis using that(1) [OF A(1) in_kernel_alloc [OF k inv [unfolded fl xs]]] A(3) by simp
  qed
qed

lemma sys_exofork_safe:
  assumes k: "in_kernel c s"
  shows "safe pan sys_exofork (\<lambda>_. in_kernel c) exit_ok s"
proof -
  obtain K xs fl where inv: "kern_inv K s xs fl" using k by (rule in_kernelE)
  let ?par = "env_id (envs s c)"
  show ?thesis
  proof (cases rule: env_alloc_cases [OF k inv, where par = ?par])
    case (1 e s')
    have eN: "e < NENV" using 1(3) by (simp add: live_def)
    have "in_kernel c (upd_env e (\<lambda>x. x\<lparr>env_status := ENV_NOT_RUNNABLE\<rparr>) s')"
      using 1(2,3) eN by (intro in_kernel_upd_env) (auto simp: env_keeps_def live_def)
    then show ?thesis using eN 1(1) unfolding sys_exofork_def
      by (auto simp: with_curenv_safe [OF k] safe_basic safe_case safe_Ret [of "env_alloc ?par" s "(0, Some e)" s', OF 1(1)] env_keeps_def intro!: in_kernel_upd_env)
  next
    case (2 x)
    then show ?thesis using k unfolding sys_exofork_def
      by (simp add: with_curenv_safe [OF k] safe_basic safe_case safe_Ret [of "env_alloc ?par" s "(err x, None)" s, OF 2])
  qed
qed

subsubsection \<open>Messages\<close>

lemma ipc_deliver_safe:
  assumes k: "in_kernel c s" and d: "d \<in> live s"
  shows "safe pan (ipc_deliver d val) (\<lambda>_. in_kernel c) exit_ok s"
proof -
  have dN: "d < NENV" using d by (simp add: live_def)
  define s1 where "s1 = upd_env d (\<lambda>x. x\<lparr>env_ipc_from := env_id (envs s c)\<rparr>) s"
  have k1: "in_kernel c s1" unfolding s1_def using k dN by (intro in_kernel_upd_env) (auto simp: env_keeps_def)
  have "env_status (envs s1 d) \<noteq> ENV_FREE" using d by (simp add: s1_def upd_env_def live_def)
  then show ?thesis using k1 dN unfolding ipc_deliver_def with_curenv_safe [OF k]
    by (auto simp: safe_rules env_keeps_def s1_def [symmetric] intro!: in_kernel_upd_env)
qed

lemma ipc_page_safe:
  assumes k: "in_kernel c s" and d: "d \<in> live s" and va: "srcva < UTOP" "env_ipc_dstva (envs s d) < UTOP"
    and perm: "perm AND NOT PTE_SYSCALL = 0" and refs: "can_share c srcva s"
  shows "safe pan (ipc_page d (envs s d) val srcva perm) (\<lambda>_. in_kernel c) exit_ok s"
proof -
  obtain K xs fl where inv: "kern_inv K s xs fl" and c: "c \<in> live s" using k by (rule in_kernelE)
  have dN: "d < NENV" using d by (simp add: live_def)
  show ?thesis
  proof (rule page_lookup_env [OF inv c va(1)])
    assume "page_lookup (env_pgdir (envs s c)) srcva s = Ret None s"
    then show ?thesis using k unfolding ipc_page_def with_curenv_safe [OF k] by (simp add: safe_def)
  next
    fix pte ptr
    let ?pp = "unat (PGNUM pte)"
    assume a: "aspace (mem s) (env_dir s c) (vpn srcva) = Some pte"
      and l: "page_lookup (env_pgdir (envs s c)) srcva s = Ret (Some (?pp, ptr)) s" "kload ptr s = Ret pte s"
      and pp: "?pp < unat (npages s)" "?pp \<notin> pt_pages (mem s) (dirs K s)" "?pp \<notin> set xs"
    have ref: "pp_ref (pages s ?pp) \<noteq> 0xFFFF" using refs a by (simp add: can_share_def)
    have ins: "safe pan (andthen (page_insert (env_pgdir (envs s d)) ?pp (env_ipc_dstva (envs s d)) perm) (\<lambda>r.
           if sint r < 0 then ret r
           else andthen (modify (upd_env d (\<lambda>x. x\<lparr>env_ipc_perm := perm\<rparr>))) (\<lambda>_. ipc_deliver d val)))
        (\<lambda>_. in_kernel c) exit_ok s"
      using inv d va(2) perm pp ref
    proof (cases rule: page_insert_env)
      case (ok s' xs')
      have k': "in_kernel c s'" by (rule in_kernel_frame [OF k ok(2,4)])
      have "d \<in> live s'" using d vm_frameD [OF ok(4)] by (simp add: live_def)
      moreover have "in_kernel c (upd_env d (\<lambda>x. x\<lparr>env_ipc_perm := perm\<rparr>) s')"
        using k' dN by (intro in_kernel_upd_env) (auto simp: env_keeps_def)
      ultimately have "safe pan (ipc_deliver d val) (\<lambda>_. in_kernel c) exit_ok (upd_env d (\<lambda>x. x\<lparr>env_ipc_perm := perm\<rparr>) s')"
        by (intro ipc_deliver_safe) (auto simp: live_def upd_env_def)
      then show ?thesis using ok(1) by (simp add: safe_def)
    qed (use k in \<open>simp add: safe_def\<close>)
    show ?thesis unfolding ipc_page_def with_curenv_safe [OF k]
      using l ins ipc_deliver_safe [OF k d, of pan val] k unfolding safe_def by auto
  qed
qed

lemma sys_ipc_try_send_safe:
  assumes k: "in_kernel c s" and refs: "srcva < UTOP \<Longrightarrow> can_share c srcva s"
    and dst: "\<And>d. srcva < UTOP \<Longrightarrow> envid2env envid False s = Ret (0, Some d) s \<Longrightarrow>
      env_ipc_recving (envs s d) \<Longrightarrow> env_ipc_dstva (envs s d) < UTOP"
  shows "safe pan (sys_ipc_try_send envid val srcva perm) (\<lambda>_. in_kernel c) exit_ok s"
  unfolding sys_ipc_try_send_def
proof (rule with_env_safe [OF k])
  fix d assume d: "d \<in> live s" "envid2env envid False s = Ret (0, Some d) s"
  have "safe pan (ipc_page d (envs s d) val srcva perm) (\<lambda>_. in_kernel c) exit_ok s"
    if "env_ipc_recving (envs s d)" "srcva < UTOP" "perm AND NOT PTE_SYSCALL = 0"
    using ipc_page_safe [OF k d(1) that(2) dst [OF that(2) d(2) that(1)] that(3) refs [OF that(2)]] .
  then show "safe pan (andthen (gets (\<lambda>s. envs s d)) (\<lambda>d'.
     if \<not> env_ipc_recving d' \<or> env_ipc_from d' \<noteq> 0 then ret (err E_IPC_NOT_RECV)
     else if srcva < UTOP then
       (if PGOFF srcva \<noteq> 0 \<or> perm AND PTE_P = 0 \<or> perm AND PTE_U = 0 \<or> perm AND NOT PTE_SYSCALL \<noteq> 0
        then ret (err E_INVAL)
        else ipc_page d d' val srcva perm)
     else ipc_deliver d val)) (\<lambda>_. in_kernel c) exit_ok s"
    using ipc_deliver_safe [OF k d(1)] k by (simp add: safe_rules)
qed

lemma sys_ipc_recv_safe:
  assumes k: "in_kernel c s"
  shows "safe pan (sys_ipc_recv dstva) (\<lambda>_. in_kernel c) exit_ok s"
proof -
  have c: "c \<in> live s" using k by (rule in_kernelE)
  have "in_kernel c (upd_env c (\<lambda>x. x\<lparr>env_ipc_recving := True, env_ipc_dstva := dstva,
           env_status := ENV_NOT_RUNNABLE, env_ipc_from := 0\<rparr>) s)"
    using k c by (intro in_kernel_upd_env) (auto simp: env_keeps_def live_def)
  from in_kernel_yield [OF this] show ?thesis
    using k by (auto simp: sys_ipc_recv_def with_curenv_safe [OF k] safe_rules)
qed

subsection \<open>The dispatcher\<close>

text \<open>
  The calls that the kernel does not guard against. \<^verbatim>\<open>sys_page_map\<close> and a page sent by
  \<^verbatim>\<open>sys_ipc_try_send\<close> add a reference to a page without looking at its 16-bit count, and
  \<^verbatim>\<open>sys_ipc_try_send\<close> maps a page for a receiver that declined one by naming an address from
  \<^verbatim>\<open>UTOP\<close> on. The condition is one on the single call: no state is excluded, and every other call is
  within limits.
\<close>

definition env_sat :: "u32 \<Rightarrow> bool \<Rightarrow> (nat \<Rightarrow> bool) \<Rightarrow> kstate \<Rightarrow> bool" where
  "env_sat envid checkperm P s = (case envid2env envid checkperm s of
       Ret (r, Some e) t \<Rightarrow> P e
     | _ \<Rightarrow> True)"

definition within_limits :: "nat \<Rightarrow> u32 \<Rightarrow> u32 \<Rightarrow> u32 \<Rightarrow> u32 \<Rightarrow> kstate \<Rightarrow> bool" where
  "within_limits c n a1 a2 a3 s = (case sysno_of n of
       Some SYS_page_map \<Rightarrow> env_sat a1 True (\<lambda>e. can_share e a2 s) s
     | Some SYS_ipc_try_send \<Rightarrow> UTOP \<le> a3 \<or>
         can_share c a3 s \<and>
         env_sat a1 False (\<lambda>d. env_ipc_recving (envs s d) \<longrightarrow> env_ipc_dstva (envs s d) < UTOP) s
     | _ \<Rightarrow> True)"

lemma syscall_keeps:
  assumes k: "in_kernel c s" and l: "within_limits c n a1 a2 a3 s"
  shows "safe (sysno_of n \<in> {Some SYS_cputs, Some SYS_env_set_trapframe}) (syscall n a1 a2 a3 a4 a5)
    (\<lambda>_. in_kernel c) exit_ok s"
proof (cases "sysno_of n")
  case None
  then show ?thesis using k by (simp add: syscall_def safe_rules)
next
  case (Some f)
  note S = sys_page_alloc_safe sys_page_unmap_safe sys_env_set_status_safe
    sys_env_set_pgfault_upcall_safe sys_env_destroy_safe sys_exofork_safe
    sys_ipc_recv_safe sys_cputs_safe sys_env_set_trapframe_safe in_kernel_yield
  have g: "safe pan sys_cgetc (\<lambda>_. in_kernel c) exit_ok s" for pan
    using k in_kernel_cons [OF k]
    by (auto simp: sys_cgetc_def safe_def exit_ok_def in_kernel_def split: option.split)
  have m: "safe pan (sys_page_map a1 a2 a3 a4 a5) (\<lambda>_. in_kernel c) exit_ok s" if "f = SYS_page_map" for pan
    by (rule sys_page_map_safe [OF k]) (use l Some that in \<open>simp add: within_limits_def env_sat_def\<close>)
  have i: "safe pan (sys_ipc_try_send a1 a2 a3 a4) (\<lambda>_. in_kernel c) exit_ok s" if "f = SYS_ipc_try_send" for pan
    by (rule sys_ipc_try_send_safe [OF k])
       (use l Some that in \<open>auto simp: within_limits_def env_sat_def not_le [symmetric]\<close>)
  show ?thesis using Some S [OF k] g m i k
    by (cases f) (simp_all add: syscall_def safe_rules sys_yield_def sys_getenvid_def sys_time_msec_def
        time_msec_def with_curenv_safe [OF k])
qed


text \<open>A machine in which environment 0 is current.\<close>

definition user_machine :: kstate where
  "user_machine = set_curenv (Some 0) (alloc_state 0 2 1 0 boot_machine)"

lemma user_machine_fields:
  "envs user_machine = envs (alloc_state 0 2 1 0 boot_machine)" "mem user_machine = mem (alloc_state 0 2 1 0 boot_machine)"
  "pages user_machine = pages (alloc_state 0 2 1 0 boot_machine)" "curenv user_machine = Some 0"
  "kernel_lock user_machine = \<lparr>locked = 1, lock_cpu = Some 0\<rparr>" "this_cpu user_machine = 0"
  by (simp_all add: user_machine_def set_curenv_def curenv_def)
     (simp_all add: boot_machine_def small_machine_def)

lemma kern_inv_user: "kern_inv 1 user_machine [3, 4] [1 ..< NENV]" "live user_machine = {0}"
  using kern_inv_one kern_inv_cong [of user_machine "alloc_state 0 2 1 0 boot_machine"]
  by (simp_all add: user_machine_def set_curenv_def live_def)

lemma in_kernel_user: "in_kernel 0 user_machine"
  by (rule in_kernelI [OF kern_inv_user(1)])
     (simp_all add: kern_inv_user user_machine_fields holding_def runnable_def,
      simp_all add: user_machine_def set_curenv_def boot_machine_def small_machine_def NENV_def zero_env_def)

lemma user_machine_refs: "pp_ref (pages user_machine p) \<noteq> 0xFFFF"
  by (auto simp: user_machine_fields setup_state_fields boot_machine_def small_machine_def)


end
