(* ===== verification/Kern_Syscall_Spec.thy ===== *)
theory Kern_Syscall_Spec
  imports Kern_Syscall_Inv
begin

text \<open>
  What individual system calls do: the memory calls as updates of address spaces, whom an
  environment may act upon, message passing, and the calls whose checks do not cover what they do.
\<close>

subsection \<open>Permissions\<close>

text \<open>
  \<^bold>\<open>C32.\<close> \<^verbatim>\<open>envid2env\<close> with permission check: it finds exactly the current environment (by its
  identifier or by 0) and its live children, and changes nothing; everything else is
  \<open>-E_BAD_ENV\<close>. Without the check it finds every live environment by its identifier.
\<close>

theorem envid2env_spec:
  assumes "curenv s = Some c" and "c \<in> live s" and "\<And>e. e \<in> live s \<Longrightarrow> ENVX (env_id (envs s e)) = e"
  shows "\<exists>r. envid2env envid checkperm s = Ret r s \<and> (r = (err E_BAD_ENV, None) \<or> (\<exists>e. r = (0, Some e))) \<and>
    (\<forall>e. r = (0, Some e) \<longleftrightarrow> envid = 0 \<and> e = c \<or>
      envid \<noteq> 0 \<and> e \<in> live s \<and> env_id (envs s e) = envid \<and>
      (checkperm \<longrightarrow> e = c \<or> env_parent_id (envs s e) = env_id (envs s c)))"
proof -
  have l: "ENVX envid \<in> live s" if "env_status (envs s (ENVX envid)) \<noteq> ENV_FREE"
    using that ENVX_lt by (simp add: live_def)
  have u: "e = ENVX envid" if "e \<in> live s" "env_id (envs s e) = envid" for e using assms(3) that by auto
  have st: "env_status (envs s e) \<noteq> ENV_FREE" if "e \<in> live s" for e using that by (simp add: live_def)
  show ?thesis
  proof (cases "envid = 0")
    case True
    then show ?thesis using assms(1) by (auto simp: envid2env_def)
  next
    case False
    let ?e = "ENVX envid"
    show ?thesis
    proof (cases "env_status (envs s ?e) = ENV_FREE \<or> env_id (envs s ?e) \<noteq> envid")
      case True
      then show ?thesis using False st u by (auto simp: envid2env_def Let_def)
    next
      case v: False
      then have e: "?e \<in> live s" "env_id (envs s ?e) = envid" using l by auto
      show ?thesis
      proof (cases "checkperm \<and> ?e \<noteq> c \<and> env_parent_id (envs s ?e) \<noteq> env_id (envs s c)")
        case True
        have "envid2env envid checkperm s = Ret (err E_BAD_ENV, None) s"
          using False v True assms(1) by (simp add: envid2env_def Let_def)
        moreover have "\<not> (x \<in> live s \<and> env_id (envs s x) = envid \<and>
            (checkperm \<longrightarrow> x = c \<or> env_parent_id (envs s x) = env_id (envs s c)))" for x
          using u [of x] True by auto
        ultimately show ?thesis using False by (intro exI [of _ "(err E_BAD_ENV, None)"]) simp
      next
        case ok: False
        have "envid2env envid checkperm s = Ret (0, Some ?e) s"
          using False v ok assms(1) by (auto simp: envid2env_def Let_def)
        moreover have "(x \<in> live s \<and> env_id (envs s x) = envid \<and>
            (checkperm \<longrightarrow> x = c \<or> env_parent_id (envs s x) = env_id (envs s c))) = (?e = x)" for x
          using u [of x] e ok by auto
        ultimately show ?thesis using False by (intro exI [of _ "(0, Some ?e)"]) simp
      qed
    qed
  qed
qed

theorem envid2env_spec_witness: "\<exists>r. envid2env 0 True user_machine = Ret r user_machine \<and> r = (0, Some 0)"
proof -
  have "ENVX (env_id (envs user_machine e)) = e" if "e \<in> live user_machine" for e
    using kern_invD(8) [OF kern_inv_user(1) that] .
  moreover have "0 \<in> live user_machine" by (simp add: kern_inv_user(2))
  ultimately obtain r where r: "envid2env 0 True user_machine = Ret r user_machine"
    "\<forall>e. r = (0, Some e) \<longleftrightarrow> (0 :: u32) = 0 \<and> e = 0 \<or> (0 :: u32) \<noteq> 0 \<and> e \<in> live user_machine \<and>
      env_id (envs user_machine e) = 0 \<and>
      (True \<longrightarrow> e = 0 \<or> env_parent_id (envs user_machine e) = env_id (envs user_machine 0))"
    using envid2env_spec [OF user_machine_fields(4), of 0 True] by metis
  have "r = (0, Some 0)" using spec [OF r(2), of 0] by simp
  then show ?thesis using r(1) by simp
qed

subsection \<open>Memory calls\<close>

text \<open>
  \<^bold>\<open>C33.\<close> \<^verbatim>\<open>sys_page_alloc\<close> on an environment the caller may change. Bad arguments give \<open>-E_INVAL\<close>
  and change nothing. Without enough free pages, counting one for a missing page table, it
  gives \<open>-E_NO_MEM\<close>, with every address space and the free list as before. Otherwise it returns 0
  and maps a page from the free list, filled with zeros, at that address of that environment only.
\<close>

theorem sys_page_alloc_spec:
  assumes inv: "kern_inv K s xs fl" and e: "envid2env envid True s = Ret (0, Some e) s" "e \<in> live s"
  shows "if UTOP \<le> va \<or> PGOFF va \<noteq> 0 \<or> bad_perm perm then sys_page_alloc envid va perm s = Ret (err E_INVAL) s
    else if xs = [] \<or> length xs = 1 \<and> table (mem s) (env_dir s e) (unat (PDX va)) = None
    then \<exists>s'. sys_page_alloc envid va perm s = Ret (err E_NO_MEM) s' \<and> kern_inv K s' xs fl \<and>
      (\<forall>Q \<in> dirs K s. aspace (mem s') Q = aspace (mem s) Q)
    else \<exists>s' xs' pp. sys_page_alloc envid va perm s = Ret 0 s' \<and> kern_inv K s' xs' fl \<and> pp \<in> set xs \<and>
      (\<forall>Q \<in> dirs K s. aspace (mem s') Q =
        (if Q = env_dir s e then (aspace (mem s) Q)(vpn va \<mapsto> page2pa pp OR PTE_P OR perm)
         else aspace (mem s) Q)) \<and>
      (\<forall>i < 1024. mem s' (pp * 1024 + i) = 0)"
proof (cases "UTOP \<le> va \<or> PGOFF va \<noteq> 0 \<or> bad_perm perm")
  case True
  then show ?thesis using e by (auto simp: sys_page_alloc_def with_env_def)
next
  case False
  have b: "sys_page_alloc envid va perm s = alloc_and_map e va perm s"
    using False e by (simp add: sys_page_alloc_def with_env_def)
  have p: "va < UTOP" "perm AND NOT PTE_SYSCALL = 0" using False by (auto simp: bad_perm_def Let_def not_le)
  from inv e(2) p show ?thesis
  proof (cases rule: alloc_and_map_cases)
    case (mapd s' xs' pp)
    have c: "\<not> (xs = [] \<or> length xs = 1 \<and> table (mem s) (env_dir s e) (unat (PDX va)) = None)"
      using mapd(7) by auto
    show ?thesis unfolding b if_not_P [OF False] if_not_P [OF c]
      using mapd by (intro exI [of _ s'] exI [of _ xs'] exI [of _ pp]) (auto simp: set_entry_def)
  next
    case (oom s')
    show ?thesis unfolding b if_not_P [OF False] if_P [OF oom(5)] using oom by blast
  qed
qed

theorem sys_page_alloc_spec_witness:
  "\<exists>s' xs' pp. sys_page_alloc 0 0x1000 7 user_machine = Ret 0 s' \<and> kern_inv 1 s' xs' [1 ..< NENV] \<and> pp \<in> {3, 4} \<and>
     aspace (mem s') 2 1 = Some (page2pa pp OR PTE_P OR 7)"
proof -
  have e: "envid2env 0 True user_machine = Ret (0, Some 0) user_machine"
    by (simp add: envid2env_def user_machine_fields)
  have d: "env_dir user_machine 0 = 2"
    by (rule env_dir_page_kva) (simp_all add: user_machine_fields alloc_env_def)
  have D: "2 \<in> dirs 1 user_machine" using kern_invD(11) [OF kern_inv_user(1), of 0] d by (simp add: kern_inv_user(2))
  have a: "(UTOP \<le> (0x1000::u32) \<or> PGOFF 0x1000 \<noteq> 0 \<or> bad_perm 7) = False" "vpn 0x1000 = 1"
    by (simp_all add: layout_defs PGOFF_def bad_perm_def Let_def pte_defs PTE_SYSCALL_def vpn_def word_arith)
  have "\<exists>s' xs' pp. sys_page_alloc 0 0x1000 7 user_machine = Ret 0 s' \<and> kern_inv 1 s' xs' [1 ..< NENV] \<and>
      pp \<in> set [3, 4] \<and> (\<forall>Q \<in> dirs 1 user_machine. aspace (mem s') Q =
        (if Q = 2 then (aspace (mem user_machine) Q)(1 \<mapsto> page2pa pp OR PTE_P OR 7) else aspace (mem user_machine) Q)) \<and>
      (\<forall>i < 1024. mem s' (pp * 1024 + i) = 0)"
    using sys_page_alloc_spec [OF kern_inv_user(1) e, of "0x1000" 7] by (simp only: a d kern_inv_user(2)) simp
  then show ?thesis using D by fastforce
qed

text \<open>
  \<^bold>\<open>C34.\<close> \<^verbatim>\<open>sys_page_map\<close> between two environments the caller may change. Bad arguments, an unmapped
  source and the attempt to gain write access to a read-only page give \<open>-E_INVAL\<close>; a missing page
  table without free memory gives \<open>-E_NO_MEM\<close>; all of them change nothing. Otherwise the source's
  page appears at the destination address with the given permissions, and nothing else changes in any
  address space or in the contents of any data page. The 16-bit reference count of the source's page
  is assumed to have room for one more (\<open>can_share\<close>).
\<close>

theorem sys_page_map_spec:
  assumes inv: "kern_inv K s xs fl" and se: "envid2env srcenv True s = Ret (0, Some se) s" "se \<in> live s"
    and de: "envid2env dstenv True s = Ret (0, Some de) s" "de \<in> live s"
    and refs: "can_share se srcva s"
  shows "if UTOP \<le> srcva \<or> PGOFF srcva \<noteq> 0 \<or> UTOP \<le> dstva \<or> PGOFF dstva \<noteq> 0 \<or> bad_perm perm
    then sys_page_map srcenv srcva dstenv dstva perm s = Ret (err E_INVAL) s
    else case aspace (mem s) (env_dir s se) (vpn srcva) of
      None \<Rightarrow> sys_page_map srcenv srcva dstenv dstva perm s = Ret (err E_INVAL) s
    | Some pte \<Rightarrow>
        if perm AND PTE_W \<noteq> 0 \<and> pte AND PTE_W = 0
        then sys_page_map srcenv srcva dstenv dstva perm s = Ret (err E_INVAL) s
        else if xs = [] \<and> table (mem s) (env_dir s de) (unat (PDX dstva)) = None
        then sys_page_map srcenv srcva dstenv dstva perm s = Ret (err E_NO_MEM) s
        else \<exists>s' xs'. sys_page_map srcenv srcva dstenv dstva perm s = Ret 0 s' \<and> kern_inv K s' xs' fl \<and>
          (\<forall>Q \<in> dirs K s. aspace (mem s') Q =
            (if Q = env_dir s de
             then (aspace (mem s) Q)(vpn dstva \<mapsto> page2pa (unat (PGNUM pte)) OR PTE_P OR perm)
             else aspace (mem s) Q)) \<and>
          data_frame (dirs K s) s s'"
  (is "if ?bad then _ else _")
proof (cases ?bad)
  case True
  then show ?thesis using se(1) de(1) by (auto simp: sys_page_map_def with_env_def)
next
  case False
  have b: "sys_page_map srcenv srcva dstenv dstva perm s = lookup_and_map se srcva de dstva perm s"
    using False se(1) de(1) by (simp add: sys_page_map_def with_env_def)
  have p: "srcva < UTOP" "dstva < UTOP" "perm AND NOT PTE_SYSCALL = 0"
    using False by (auto simp: bad_perm_def Let_def not_le)
  from inv se(2) de(2) p refs show ?thesis
  proof (cases rule: lookup_and_map_cases)
    case (mapd s' xs' pte)
    have w: "\<not> (perm AND PTE_W \<noteq> 0 \<and> pte AND PTE_W = 0)" using mapd(6) by blast
    have r: "\<not> (xs = [] \<and> table (mem s) (env_dir s de) (unat (PDX dstva)) = None)" using mapd(8) by blast
    show ?thesis unfolding b if_not_P [OF False] mapd(5) option.case if_not_P [OF w] if_not_P [OF r]
      using mapd(1,2,4,7) by (intro exI [of _ s'] exI [of _ xs']) (simp add: set_entry_def)
  next
    case refused
    then show ?thesis unfolding b if_not_P [OF False] by (auto split: option.splits)
  next
    case (full pte)
    then show ?thesis unfolding b if_not_P [OF False] by auto
  qed
qed

lemma user_machine_env:
  "envid2env 0 perm user_machine = Ret (0, Some 0) user_machine" "env_dir user_machine 0 = 2"
  "aspace (mem user_machine) 2 = Map.empty"
proof -
  show "envid2env 0 perm user_machine = Ret (0, Some 0) user_machine"
    by (simp add: envid2env_def user_machine_fields)
  show "env_dir user_machine 0 = 2"
    by (rule env_dir_page_kva) (simp_all add: user_machine_fields alloc_env_def)
  have u: "[0 ..< NENV] = 0 # [1 ..< NENV]" using upt_conv_Cons [of 0 NENV] by (simp add: NENV_pos)
  show "aspace (mem user_machine) 2 = Map.empty"
    using env_alloc_inv(5) [OF kern_inv_boot [unfolded u], where par = 0] by (simp add: user_machine_fields)
qed

theorem sys_page_map_spec_witness:
  "sys_page_map 0 0x1000 0 0x2000 7 user_machine = Ret (err E_INVAL) user_machine"
proof -
  have a: "(UTOP \<le> (0x1000::u32) \<or> PGOFF 0x1000 \<noteq> 0 \<or> UTOP \<le> (0x2000::u32) \<or> PGOFF 0x2000 \<noteq> 0 \<or> bad_perm 7) = False"
    by (simp add: layout_defs PGOFF_def bad_perm_def Let_def pte_defs PTE_SYSCALL_def)
  have "can_share 0 0x1000 user_machine" using user_machine_refs by (simp add: can_share_def split: option.split)
  from sys_page_map_spec [OF kern_inv_user(1) user_machine_env(1) _ user_machine_env(1) _ this, of "0x2000" 7]
  show ?thesis by (simp only: a user_machine_env kern_inv_user(2)) simp
qed

subsection \<open>Messages\<close>

definition delivered :: "nat \<Rightarrow> nat \<Rightarrow> u32 \<Rightarrow> kstate \<Rightarrow> kstate" where
  "delivered c d val s = upd_env d (\<lambda>x. x\<lparr>env_ipc_from := env_id (envs s c), env_ipc_recving := False,
     env_ipc_value := val, env_status := ENV_RUNNABLE,
     env_tf := (env_tf x)\<lparr>tf_regs := (tf_regs (env_tf x))\<lparr>reg_eax := 0\<rparr>\<rparr>\<rparr>) s"

lemma ipc_deliver_Ret: "curenv s = Some c \<Longrightarrow> ipc_deliver d val s = Ret 0 (delivered c d val s)"
  by (simp add: ipc_deliver_def with_curenv_def delivered_def upd_env_def)

lemma delivered_blocks:
  assumes d: "envid2env envid False s = Ret (0, Some d) s"
    and u: "curenv u = curenv s" "\<And>e. env_id (envs u e) = env_id (envs s e)"
  shows "sys_ipc_try_send envid v a p (delivered c d val u) = Ret (err E_IPC_NOT_RECV) (delivered c d val u)"
proof -
  have "envid2env envid False (delivered c d val u) = Ret (0, Some d) (delivered c d val u)"
    using assms by (auto simp: envid2env_def Let_def delivered_def upd_env_def curenv_def split: if_splits)
  then show ?thesis by (simp add: sys_ipc_try_send_def with_env_def) (simp add: delivered_def upd_env_def)
qed

text \<open>The part of \<^verbatim>\<open>sys_ipc_try_send\<close> that looks the page up and maps it.\<close>

lemma ipc_page_lookup:
  assumes inv: "kern_inv K s xs fl" and c: "curenv s = Some c" "c \<in> live s" and va: "srcva < UTOP"
  shows "ipc_page d (envs s d) val srcva perm s = (case aspace (mem s) (env_dir s c) (vpn srcva) of
      None \<Rightarrow> Ret (err E_INVAL) s
    | Some pte \<Rightarrow>
        if perm AND PTE_W \<noteq> 0 \<and> pte AND PTE_W = 0 then Ret (err E_INVAL) s
        else if env_ipc_dstva (envs s d) = 0 then Ret 0 (delivered c d val s)
        else andthen (page_insert (env_pgdir (envs s d)) (unat (PGNUM pte)) (env_ipc_dstva (envs s d)) perm) (\<lambda>r.
           if sint r < 0 then ret r
           else andthen (modify (upd_env d (\<lambda>x. x\<lparr>env_ipc_perm := perm\<rparr>))) (\<lambda>_. ipc_deliver d val)) s)"
proof (rule page_lookup_env [OF inv c(2) va])
  assume "aspace (mem s) (env_dir s c) (vpn srcva) = None" "page_lookup (env_pgdir (envs s c)) srcva s = Ret None s"
  then show ?thesis using c(1) by (simp add: ipc_page_def with_curenv_def)
next
  fix pte ptr
  assume "aspace (mem s) (env_dir s c) (vpn srcva) = Some pte"
    "page_lookup (env_pgdir (envs s c)) srcva s = Ret (Some (unat (PGNUM pte), ptr)) s" "kload ptr s = Ret pte s"
  then show ?thesis using c(1) ipc_deliver_Ret [OF c(1)] by (simp add: ipc_page_def with_curenv_def)
qed

lemma ipc_page_spec:
  assumes inv: "kern_inv K s xs fl" and c: "curenv s = Some c" "c \<in> live s" and d: "d \<in> live s"
    and va: "srcva < UTOP" and pm: "perm AND NOT PTE_SYSCALL = 0"
    and a: "aspace (mem s) (env_dir s c) (vpn srcva) = Some pte" and w: "\<not> (perm AND PTE_W \<noteq> 0 \<and> pte AND PTE_W = 0)"
    and dva: "env_ipc_dstva (envs s d) \<noteq> 0" "env_ipc_dstva (envs s d) < UTOP" and refs: "can_share c srcva s"
  shows "if xs = [] \<and> table (mem s) (env_dir s d) (unat (PDX (env_ipc_dstva (envs s d)))) = None
     then ipc_page d (envs s d) val srcva perm s = Ret (err E_NO_MEM) s
     else \<exists>t xs'. kern_inv K t xs' fl \<and> vm_frame s t \<and> data_frame (dirs K s) s t \<and>
       (\<forall>Q \<in> dirs K s. aspace (mem t) Q =
         (if Q = env_dir s d
          then (aspace (mem s) Q)(vpn (env_ipc_dstva (envs s d)) \<mapsto> page2pa (unat (PGNUM pte)) OR PTE_P OR perm)
          else aspace (mem s) Q)) \<and>
       ipc_page d (envs s d) val srcva perm s = Ret 0 (delivered c d val (upd_env d (\<lambda>x. x\<lparr>env_ipc_perm := perm\<rparr>) t))"
proof -
  let ?pp = "unat (PGNUM pte)" and ?dva = "env_ipc_dstva (envs s d)"
  have pp: "?pp < unat (npages s)" "?pp \<notin> pt_pages (mem s) (dirs K s)" "?pp \<notin> set xs"
    by (rule page_lookup_env [OF inv c(2) va]; use a in simp)+
  have ref: "pp_ref (pages s ?pp) \<noteq> 0xFFFF" using refs a by (simp add: can_share_def)
  note L = ipc_page_lookup [OF inv c va, of d val perm, unfolded a option.case if_not_P [OF w] if_not_P [OF dva(1)]]
  from inv d dva(2) pm pp ref show ?thesis
  proof (cases rule: page_insert_env)
    case (ok t xs')
    have r: "\<not> (xs = [] \<and> table (mem s) (env_dir s d) (unat (PDX ?dva)) = None)" using ok(8) by blast
    have ct: "curenv (upd_env d (\<lambda>x. x\<lparr>env_ipc_perm := perm\<rparr>) t) = Some c"
      using c(1) vm_frameD(17) [OF ok(4)] by (simp add: upd_env_def curenv_def)
    have "ipc_page d (envs s d) val srcva perm s = Ret 0 (delivered c d val (upd_env d (\<lambda>x. x\<lparr>env_ipc_perm := perm\<rparr>) t))"
      using L ok(1) ipc_deliver_Ret [OF ct] by simp
    then show ?thesis unfolding if_not_P [OF r]
      using ok(2,4,5,7) by (intro exI [of _ t] exI [of _ xs']) (simp add: set_entry_def)
  next
    case full
    then show ?thesis using L by simp
  qed
qed

lemma ipc_page_outcome:
  assumes inv: "kern_inv K s xs fl" and c: "curenv s = Some c" "c \<in> live s"
    and d: "envid2env envid False s = Ret (0, Some d) s" "d \<in> live s"
    and va: "srcva < UTOP" and pm: "perm AND NOT PTE_SYSCALL = 0"
  shows "let send = ipc_page d (envs s d) val srcva perm; dstva = env_ipc_dstva (envs s d) in
    (case aspace (mem s) (env_dir s c) (vpn srcva) of
       None \<Rightarrow> send s = Ret (err E_INVAL) s
     | Some pte \<Rightarrow>
         if perm AND PTE_W \<noteq> 0 \<and> pte AND PTE_W = 0 then send s = Ret (err E_INVAL) s
         else dstva \<noteq> 0 \<and> dstva < UTOP \<and> can_share c srcva s \<longrightarrow>
           (if xs = [] \<and> table (mem s) (env_dir s d) (unat (PDX dstva)) = None
            then send s = Ret (err E_NO_MEM) s
            else \<exists>t xs'. kern_inv K t xs' fl \<and> vm_frame s t \<and> data_frame (dirs K s) s t \<and>
              (\<forall>Q \<in> dirs K s. aspace (mem t) Q =
                (if Q = env_dir s d
                 then (aspace (mem s) Q)(vpn dstva \<mapsto> page2pa (unat (PGNUM pte)) OR PTE_P OR perm)
                 else aspace (mem s) Q)) \<and>
              send s = Ret 0 (delivered c d val (upd_env d (\<lambda>x. x\<lparr>env_ipc_perm := perm\<rparr>) t)))) \<and>
    (\<forall>t val' srcva' perm'. send s = Ret 0 t \<longrightarrow> UTOP \<le> srcva \<or> dstva \<noteq> 0 \<and> dstva < UTOP \<and> can_share c srcva s \<longrightarrow>
       sys_ipc_try_send envid val' srcva' perm' t = Ret (err E_IPC_NOT_RECV) t)"
proof -
  let ?dva = "env_ipc_dstva (envs s d)"
  have e: "err E_INVAL \<noteq> 0" "err E_NO_MEM \<noteq> 0" by code_simp+
  note L = ipc_page_lookup [OF inv c va, of d val perm]
  consider (r) "\<forall>pte. aspace (mem s) (env_dir s c) (vpn srcva) = Some pte \<longrightarrow> perm AND PTE_W \<noteq> 0 \<and> pte AND PTE_W = 0"
    | (p) pte where "aspace (mem s) (env_dir s c) (vpn srcva) = Some pte" "\<not> (perm AND PTE_W \<noteq> 0 \<and> pte AND PTE_W = 0)"
    by blast
  then show ?thesis
  proof cases
    case r
    then show ?thesis unfolding Let_def L using e by (auto split: option.split)
  next
    case (p pte)
    show ?thesis
    proof (cases "?dva \<noteq> 0 \<and> ?dva < UTOP \<and> can_share c srcva s")
      case False
      then show ?thesis unfolding Let_def p(1) option.case if_not_P [OF p(2)]
        using va [unfolded not_le [symmetric]] by blast
    next
      case True
      note P = ipc_page_spec [OF inv c d(2) va pm p, of val]
      show ?thesis unfolding Let_def p(1) option.case if_not_P [OF p(2)]
      proof (intro conjI impI allI)
        fix t v' a' p' assume "ipc_page d (envs s d) val srcva perm s = Ret 0 t"
        then obtain u where "vm_frame s u" "t = delivered c d val (upd_env d (\<lambda>x. x\<lparr>env_ipc_perm := perm\<rparr>) u)"
          using P True e(2) by (auto split: if_splits)
        then show "sys_ipc_try_send envid v' a' p' t = Ret (err E_IPC_NOT_RECV) t"
          using vm_frameD [of s u] by (auto simp: upd_env_def curenv_def intro!: delivered_blocks [OF d(1)])
      qed (use P True in simp)
    qed
  qed
qed

text \<open>
  \<^bold>\<open>C35.\<close> \<^verbatim>\<open>sys_ipc_try_send\<close> to a live environment. If the receiver is not waiting,
  \<open>-E_IPC_NOT_RECV\<close>. A page argument below \<^verbatim>\<open>UTOP\<close> that is misaligned, has bad permissions, is
  unmapped, or read-only but sent writable, is \<open>-E_INVAL\<close>; no memory for a page table is
  \<open>-E_NO_MEM\<close>; an error changes nothing. Without a page argument the receiver, whatever address it
  named, gets the value and the sender's identifier and becomes runnable with return value 0, and nothing
  else changes; only \<^verbatim>\<open>env_ipc_perm\<close> is left open, because the code keeps its old value where the
  comment asks for 0. With a page argument, and a receiver that named an address other than 0 below
  \<^verbatim>\<open>UTOP\<close>, it also gets the page, in its address space and in no other, and its permissions; here the
  page's reference count must have room for one more. Receivers that named 0 or an address from
  \<^verbatim>\<open>UTOP\<close> on are treated against the documentation when a page is sent, which is the next claim. The
  message is delivered once: after a success every further send to the same environment is refused with
  \<open>-E_IPC_NOT_RECV\<close>.
\<close>

theorem sys_ipc_try_send_spec:
  assumes inv: "kern_inv K s xs fl" and c: "curenv s = Some c" "c \<in> live s"
    and d: "envid2env envid False s = Ret (0, Some d) s" "d \<in> live s"
  shows "let send = sys_ipc_try_send envid val srcva perm; dstva = env_ipc_dstva (envs s d) in
    (if \<not> env_ipc_recving (envs s d) \<or> env_ipc_from (envs s d) \<noteq> 0 then send s = Ret (err E_IPC_NOT_RECV) s
     else if UTOP \<le> srcva then \<exists>p. send s = Ret 0 (delivered c d val (upd_env d (\<lambda>x. x\<lparr>env_ipc_perm := p\<rparr>) s))
     else if PGOFF srcva \<noteq> 0 \<or> perm AND PTE_P = 0 \<or> perm AND PTE_U = 0 \<or> perm AND NOT PTE_SYSCALL \<noteq> 0
     then send s = Ret (err E_INVAL) s
     else case aspace (mem s) (env_dir s c) (vpn srcva) of
       None \<Rightarrow> send s = Ret (err E_INVAL) s
     | Some pte \<Rightarrow>
         if perm AND PTE_W \<noteq> 0 \<and> pte AND PTE_W = 0 then send s = Ret (err E_INVAL) s
         else dstva \<noteq> 0 \<and> dstva < UTOP \<and> can_share c srcva s \<longrightarrow>
           (if xs = [] \<and> table (mem s) (env_dir s d) (unat (PDX dstva)) = None
            then send s = Ret (err E_NO_MEM) s
            else \<exists>t xs'. kern_inv K t xs' fl \<and> vm_frame s t \<and> data_frame (dirs K s) s t \<and>
              (\<forall>Q \<in> dirs K s. aspace (mem t) Q =
                (if Q = env_dir s d
                 then (aspace (mem s) Q)(vpn dstva \<mapsto> page2pa (unat (PGNUM pte)) OR PTE_P OR perm)
                 else aspace (mem s) Q)) \<and>
              send s = Ret 0 (delivered c d val (upd_env d (\<lambda>x. x\<lparr>env_ipc_perm := perm\<rparr>) t)))) \<and>
    (\<forall>t val' srcva' perm'. send s = Ret 0 t \<longrightarrow> UTOP \<le> srcva \<or> dstva \<noteq> 0 \<and> dstva < UTOP \<and> can_share c srcva s \<longrightarrow>
       sys_ipc_try_send envid val' srcva' perm' t = Ret (err E_IPC_NOT_RECV) t)"
    (is "let send = _; dstva = _ in (if ?n then _ else if ?v then _ else if ?b then _ else _) \<and> _")
proof -
  have S: "sys_ipc_try_send envid val srcva perm s =
     (if ?n then Ret (err E_IPC_NOT_RECV) s
      else if srcva < UTOP then (if ?b then Ret (err E_INVAL) s else ipc_page d (envs s d) val srcva perm s)
      else Ret 0 (delivered c d val s))"
    using d(1) ipc_deliver_Ret [OF c(1)] by (simp add: sys_ipc_try_send_def with_env_def)
  note B = delivered_blocks [OF d(1)]
  have e: "err E_IPC_NOT_RECV \<noteq> 0" "err E_INVAL \<noteq> 0" by code_simp+
  consider (n) ?n | (v) "\<not> ?n" ?v | (b) "\<not> ?n" "\<not> ?v" ?b | (go) "\<not> ?n" "\<not> ?v" "\<not> ?b" by blast
  then show ?thesis
  proof cases
    case n
    show ?thesis unfolding Let_def S if_P [OF n] using e by simp
  next
    case v
    have nv: "\<not> srcva < UTOP" using v(2) by (simp add: not_less)
    have "\<exists>p. Ret 0 (delivered c d val s) = Ret 0 (delivered c d val (upd_env d (\<lambda>x. x\<lparr>env_ipc_perm := p\<rparr>) s))"
      by (rule exI [of _ "env_ipc_perm (envs s d)"]) (simp add: upd_env_def)
    then show ?thesis unfolding Let_def S if_not_P [OF v(1)] if_P [OF v(2)] if_not_P [OF nv] using B [of s] by simp
  next
    case b
    have nv: "srcva < UTOP" using b(2) by (simp add: not_le)
    show ?thesis unfolding Let_def S if_not_P [OF b(1)] if_not_P [OF b(2)] if_P [OF b(3)] if_P [OF nv] using e by simp
  next
    case 2: go
    have va: "srcva < UTOP" using 2(2) by (simp add: not_le)
    have pm: "perm AND NOT PTE_SYSCALL = 0" using 2(3) by blast
    have S': "sys_ipc_try_send envid val srcva perm s = ipc_page d (envs s d) val srcva perm s"
      using 2 va by (simp add: S)
    show ?thesis unfolding Let_def if_not_P [OF 2(1)] if_not_P [OF 2(2)] if_not_P [OF 2(3)] S'
      using ipc_page_outcome [OF inv c d va pm, of val] unfolding Let_def .
  qed
qed

text \<open>A receiver that declined pages, as \<^verbatim>\<open>ipc_recv\<close> does, gets the value, once.\<close>

theorem sys_ipc_try_send_spec_witness:
  "let s = upd_env 0 (\<lambda>x. x\<lparr>env_ipc_recving := True, env_ipc_dstva := UTOP\<rparr>) user_machine
   in \<exists>t. sys_ipc_try_send 0 7 UTOP 0 s = Ret 0 t \<and> env_ipc_value (envs t 0) = 7 \<and>
     sys_ipc_try_send 0 8 UTOP 0 t = Ret (err E_IPC_NOT_RECV) t"
proof -
  let ?s = "upd_env 0 (\<lambda>x. x\<lparr>env_ipc_recving := True, env_ipc_dstva := UTOP\<rparr>) user_machine"
  have inv: "kern_inv 1 ?s [3, 4] [1 ..< NENV]"
    by (rule kern_inv_upd_env [OF kern_inv_user(1)]) (simp add: env_keeps_def)
  have f: "curenv ?s = Some 0" "0 \<in> live ?s" "env_ipc_recving (envs ?s 0)" "env_ipc_from (envs ?s 0) = 0"
    using user_machine_fields(4) kern_inv_user(2)
    by (auto simp: upd_env_def curenv_def live_def user_machine_fields(1) alloc_env_def boot_machine_def zero_env_def)
  have e: "envid2env 0 False ?s = Ret (0, Some 0) ?s" using f(1) by (simp add: envid2env_def)
  note R = sys_ipc_try_send_spec [OF inv f(1,2) e f(2), of 7 UTOP 0, unfolded Let_def]
  obtain p where p: "sys_ipc_try_send 0 7 UTOP 0 ?s = Ret 0 (delivered 0 0 7 (upd_env 0 (\<lambda>x. x\<lparr>env_ipc_perm := p\<rparr>) ?s))"
    using R f(3,4) by auto
  moreover have "env_ipc_value (envs (delivered 0 0 7 t) 0) = 7" for t by (simp add: delivered_def upd_env_def)
  ultimately show ?thesis using R unfolding Let_def by auto
qed

text \<open>Inserting into a page table that is present, at any address, with the entry empty.\<close>

lemma page_insert_anywhere:
  assumes inv: "kern_inv K s xs fl" and e: "e \<in> live s" and T: "table (mem s) (env_dir s e) (unat (PDX va)) = Some T"
    and z: "pte_at (mem s) (env_dir s e) (vpn va) AND PTE_P = 0" and perm: "unat perm < 4096"
  obtains t where "page_insert (env_pgdir (envs s e)) pp va perm s = Ret 0 t" "vm_frame s t"
    "pte_at (mem t) (env_dir s e) (vpn va) = page2pa pp OR PTE_P OR perm"
proof -
  let ?P = "env_dir s e" and ?t = "insert_state (env_dir s e) T va pp perm s"
  note I = kern_invD [OF inv]
  note TB = vm_invD_table [OF I(1) I(11) [OF e] PDX_lt T]
  have P20: "?P < 1048576" using I(13) [OF e] by simp
  have sl: "T * 1024 + vpn va mod 1024 \<noteq> ?P * 1024 + unat (PDX va)"
  proof
    assume eq: "T * 1024 + vpn va mod 1024 = ?P * 1024 + unat (PDX va)"
    have "pte_at (mem s) ?P (vpn va) = mem s (T * 1024 + vpn va mod 1024)" using T by (simp add: pte_at_def vpn_split)
    then have "pde_at (mem s) ?P (unat (PDX va)) AND PTE_P = 0" using z by (simp add: pde_at_def eq)
    then show False using T by (simp add: table_def pte_page_Some)
  qed
  moreover have "table (mem ?t) ?P (unat (PDX va)) = Some T"
    using flags_keep_page [OF T [unfolded table_def pde_at_def] perm] sl
    by (simp add: insert_state_def Let_def table_def pde_at_def)
  ultimately have "pte_at (mem ?t) ?P (vpn va) = page2pa pp OR PTE_P OR perm"
    by (simp add: pte_at_def vpn_split) (simp add: insert_state_def Let_def vpn_split)
  moreover have "page_insert (page_kva ?P) pp va perm s = Ret 0 ?t"
    using z insert_finish [OF P20 TB(2)]
    by (simp add: page_insert_def Let_def walk_present [OF P20 T TB(1)] pte_load [OF TB(2) T])
  ultimately show thesis using that [of ?t] I(6) [OF e] by simp
qed

text \<open>
  \<^bold>\<open>C36.\<close> The two halves of message passing disagree about which address means that no page is
  wanted: \<^verbatim>\<open>sys_ipc_recv\<close> takes every address from \<^verbatim>\<open>UTOP\<close> on for that, but
  \<^verbatim>\<open>sys_ipc_try_send\<close> only 0. When a writable page is sent, a receiver that named 0, a
  valid address, gets no page and keeps its old \<^verbatim>\<open>env_ipc_perm\<close>. A receiver that named an
  address from \<^verbatim>\<open>UTOP\<close> on, whose page table is present and whose entry is empty, gets the page mapped
  there with the permissions the sender chose. In the witness the address lies in the window where the
  receiver's own page tables appear, so that the page sent becomes one of its page tables.
\<close>

theorem ipc_dstva_misread:
  assumes inv: "kern_inv K s xs fl" and c: "curenv s = Some c" "c \<in> live s"
    and d: "envid2env envid False s = Ret (0, Some d) s" "d \<in> live s"
      "env_ipc_recving (envs s d)" "env_ipc_from (envs s d) = 0"
    and src: "srcva < UTOP" "PGOFF srcva = 0" "\<not> bad_perm perm"
      "aspace (mem s) (env_dir s c) (vpn srcva) = Some pte" "pte AND PTE_W \<noteq> 0"
  shows "let send = sys_ipc_try_send envid val srcva perm; dstva = env_ipc_dstva (envs s d); P = env_dir s d in
    (dstva = 0 \<longrightarrow> (\<exists>t. send s = Ret 0 t \<and> mem t = mem s \<and> env_ipc_perm (envs t d) = env_ipc_perm (envs s d))) \<and>
    (UTOP \<le> dstva \<longrightarrow> table (mem s) P (unat (PDX dstva)) \<noteq> None \<longrightarrow> pte_at (mem s) P (vpn dstva) AND PTE_P = 0 \<longrightarrow>
      (\<exists>t. send s = Ret 0 t \<and> pte_at (mem t) P (vpn dstva) = page2pa (unat (PGNUM pte)) OR PTE_P OR perm \<and>
         env_ipc_perm (envs t d) = perm))"
proof -
  let ?dva = "env_ipc_dstva (envs s d)" and ?P = "env_dir s d"
  have p: "perm AND (PTE_U OR PTE_P) = PTE_U OR PTE_P" "perm AND NOT PTE_SYSCALL = 0"
    using src(3) by (auto simp: bad_perm_def Let_def)
  have "perm AND PTE_P = (perm AND (PTE_U OR PTE_P)) AND PTE_P" "perm AND PTE_U = (perm AND (PTE_U OR PTE_P)) AND PTE_U"
    by (rule bit_eqI, auto simp: bit_simps)+
  then have "perm AND PTE_P \<noteq> 0" "perm AND PTE_U \<noteq> 0" unfolding p(1) by (simp_all add: pte_defs)
  then have "sys_ipc_try_send envid val srcva perm s = ipc_page d (envs s d) val srcva perm s"
    using d src(1,2) p(2) by (simp add: sys_ipc_try_send_def with_env_def)
  note S = this [unfolded ipc_page_lookup [OF inv c src(1)]]
  have fin: "\<exists>t. sys_ipc_try_send envid val srcva perm s = Ret 0 t \<and>
      pte_at (mem t) ?P (vpn ?dva) = page2pa (unat (PGNUM pte)) OR PTE_P OR perm \<and> env_ipc_perm (envs t d) = perm"
    if "UTOP \<le> ?dva" "table (mem s) ?P (unat (PDX ?dva)) = Some T" "pte_at (mem s) ?P (vpn ?dva) AND PTE_P = 0" for T
  proof (rule page_insert_anywhere [OF inv d(2) that(2,3) perm_lt [OF p(2)], of "unat (PGNUM pte)"])
    fix t assume t: "page_insert (env_pgdir (envs s d)) (unat (PGNUM pte)) ?dva perm s = Ret 0 t" "vm_frame s t"
      "pte_at (mem t) ?P (vpn ?dva) = page2pa (unat (PGNUM pte)) OR PTE_P OR perm"
    let ?u = "upd_env d (\<lambda>x. x\<lparr>env_ipc_perm := perm\<rparr>) t"
    have "curenv ?u = Some c" using c(1) vm_frameD(17) [OF t(2)] by (simp add: upd_env_def curenv_def)
    moreover have "?dva \<noteq> 0" using that(1) by (auto simp: layout_defs)
    ultimately have "sys_ipc_try_send envid val srcva perm s = Ret 0 (delivered c d val ?u)"
      using S src(4,5) t(1) ipc_deliver_Ret [of ?u c d val] by simp
    then show ?thesis using t(3) by (simp add: delivered_def upd_env_def)
  qed
  then show ?thesis using S src(4,5) unfolding Let_def by (auto simp: delivered_def upd_env_def)
qed

text \<open>A state of the concrete machine in which environment 0 has one writable page, at address 0x1000.\<close>

lemma user_page:
  obtains s xs pte where "kern_inv 1 s xs [1 ..< NENV]" "vm_frame user_machine s" "env_dir s 0 = 2"
    "aspace (mem s) 2 1 = Some pte" "pte AND PTE_W \<noteq> 0" "0 \<in> live s"
    "\<forall>x < 1024. x \<noteq> 0 \<longrightarrow> table (mem s) 2 x = table (mem user_machine) 2 x"
proof -
  have l: "0 \<in> live user_machine" "(0x1000 :: u32) < UTOP" "(7 :: u32) AND NOT PTE_SYSCALL = 0" "vpn 0x1000 = 1"
    "unat (PDX 0x1000) = 0"
    by (simp_all add: kern_inv_user(2) layout_defs PTE_SYSCALL_def pte_defs vpn_def word_arith)
  have D: "2 \<in> dirs 1 user_machine"
    using kern_invD(11) [OF kern_inv_user(1), of 0] by (simp add: kern_inv_user(2) user_machine_env)
  from kern_inv_user(1) l(1,2,3) show thesis
  proof (cases rule: alloc_and_map_cases)
    case (mapd s xs pp)
    have "pp = 3 \<or> pp = 4" using mapd(4) by auto
    then have w: "(page2pa pp OR PTE_P OR 7) AND PTE_W \<noteq> 0"
      by (auto simp: page2pa_def pte_defs push_bit_eq_mult)
    have a: "aspace (mem s) 2 1 = Some (page2pa pp OR PTE_P OR 7)"
      using mapd(5) D by (simp add: set_entry_def user_machine_env l(4))
    have tb: "\<forall>x < 1024. x \<noteq> 0 \<longrightarrow> table (mem s) 2 x = table (mem user_machine) 2 x"
      using mapd(10) D by (simp add: user_machine_env l(5))
    have "env_dir s 0 = 2" "0 \<in> live s"
      using vm_frameD [OF mapd(3)] l(1) user_machine_env(2) by (simp_all add: env_dir_def live_def)
    then show thesis using that [OF mapd(2,3)] a w tb by blast
  qed auto
qed

theorem ipc_dstva_misread_witness:
  "\<exists>s t pte. env_ipc_dstva (envs s 0) = UVPT + 0x1000 \<and> aspace (mem s) 2 1 = Some pte \<and>
     sys_ipc_try_send 0 7 0x1000 7 s = Ret 0 t \<and>
     pte_at (mem t) 2 (vpn (UVPT + 0x1000)) = page2pa (unat (PGNUM pte)) OR PTE_P OR 7"
proof -
  obtain s xs pte where s: "kern_inv 1 s xs [1 ..< NENV]" "vm_frame user_machine s" "env_dir s 0 = 2"
    "aspace (mem s) 2 1 = Some pte" "pte AND PTE_W \<noteq> 0" "0 \<in> live s"
    "\<forall>x < 1024. x \<noteq> 0 \<longrightarrow> table (mem s) 2 x = table (mem user_machine) 2 x" by (rule user_page)
  let ?s = "upd_env 0 (\<lambda>x. x\<lparr>env_ipc_recving := True, env_ipc_from := 0, env_ipc_dstva := UVPT + 0x1000\<rparr>) s"
  have inv: "kern_inv 1 ?s xs [1 ..< NENV]" by (rule kern_inv_upd_env [OF s(1)]) (simp add: env_keeps_def)
  have f: "curenv ?s = Some 0" "0 \<in> live ?s" "env_ipc_recving (envs ?s 0)" "env_ipc_from (envs ?s 0) = 0"
    "env_ipc_dstva (envs ?s 0) = UVPT + 0x1000" "mem ?s = mem s" "env_dir ?s 0 = 2"
    using s(3,6) vm_frameD(17) [OF s(2)] user_machine_fields(4)
    by (simp_all add: upd_env_def curenv_def live_def env_dir_def)
  have v: "(0x1000 :: u32) < UTOP" "PGOFF 0x1000 = 0" "\<not> bad_perm 7" "vpn 0x1000 = 1" "UTOP \<le> UVPT + 0x1000"
    "vpn (UVPT + 0x1000) = 957 * 1024 + 1" "unat (PDX (UVPT + 0x1000)) = 957"
    by (simp_all add: layout_defs PGOFF_def bad_perm_def Let_def pte_defs PTE_SYSCALL_def vpn_def word_arith)
  have e: "envid2env 0 False ?s = Ret (0, Some 0) ?s" using f(1) by (simp add: envid2env_def)
  have m: "mem user_machine 2049 = 0" "mem user_machine 3005 = page2pa 2 OR PTE_P OR PTE_U"
    by (simp_all add: user_machine_fields(2) setup_mem_def boot_machine_def small_machine_def)
  have t: "table (mem s) 2 957 = Some 2" "table (mem s) 2 1 = None"
    using spec [OF s(7), of 957] spec [OF s(7), of 1] m
    by (simp_all add: table_def [of "mem user_machine"] pde_at_def pte_page_def pte_defs page2pa_def PGNUM_def)
  then have "mem s 2049 AND PTE_P = 0" by (simp add: table_def pde_at_def pte_page_None)
  then have z: "pte_at (mem s) 2 (957 * 1024 + 1) AND PTE_P = 0" using t(1) by (simp add: pte_at_def)
  have "aspace (mem ?s) (env_dir ?s 0) (vpn 0x1000) = Some pte" using s(4) by (simp only: f(6,7) v(4))
  note R = ipc_dstva_misread [OF inv f(1,2) e f(2-4) v(1-3) this s(5), of 7, unfolded Let_def f(5-7) v(6,7)]
  obtain t where "sys_ipc_try_send 0 7 0x1000 7 ?s = Ret 0 t"
    "pte_at (mem t) 2 (957 * 1024 + 1) = page2pa (unat (PGNUM pte)) OR PTE_P OR 7"
    using R v(5) t(1) z by auto
  then show ?thesis using f(5,6) s(4) unfolding v(6) by (intro exI [of _ ?s] exI [of _ t] exI [of _ pte]) simp
qed

subsection \<open>Printing\<close>

definition byte_at :: "kstate \<Rightarrow> u32 \<Rightarrow> u8 option" where
  "byte_at s va = map_option (\<lambda>pa. word_byte (mem s (unat pa div 4)) (unat pa mod 4)) (mmu_translate s False va)"

lemma vload_byte_at:
  "vload_byte va s = (case byte_at s va of None \<Rightarrow> Panic ''page fault in kernel mode'' | Some b \<Rightarrow> Ret b s)"
  by (simp add: vload_byte_def byte_at_def split: option.split)

lemma byte_at_cons [simp]: "byte_at (s\<lparr>kcons := k\<rparr>) va = byte_at s va"
  by (simp add: byte_at_def mmu_translate_def Let_def)

lemma put_str_fault:
  "(\<And>i. i < n \<Longrightarrow> \<exists>b. byte_at s (p + word_of_nat i) = Some b \<and> b \<noteq> 0) \<Longrightarrow>
     byte_at s (p + word_of_nat n) = None \<Longrightarrow> put_str n p s = Panic ''page fault in kernel mode''"
proof (induction n arbitrary: p s)
  case 0
  then show ?case by (simp add: vload_byte_at)
next
  case (Suc n)
  obtain b where b: "byte_at s p = Some b" "b \<noteq> 0" using Suc.prems(1) [of 0] by auto
  have "put_str n (p + 1) (s\<lparr>kcons := k\<rparr>) = Panic ''page fault in kernel mode''" for k
  proof (rule Suc.IH)
    show "byte_at (s\<lparr>kcons := k\<rparr>) (p + 1 + word_of_nat n) = None" using Suc.prems(2) by (simp add: add.assoc)
    show "\<exists>b. byte_at (s\<lparr>kcons := k\<rparr>) (p + 1 + word_of_nat i) = Some b \<and> b \<noteq> 0" if "i < n" for i
      using Suc.prems(1) [of "Suc i"] that by (simp add: add.assoc)
  qed
  then show ?case using b by (simp add: vload_byte_at)
qed

text \<open>
  \<^bold>\<open>C37.\<close> \<^verbatim>\<open>sys_cputs\<close> reads one byte more than it checked. If the string passes the check and has no
  zero byte, and the address just after it is not mapped, the kernel takes a page fault in kernel mode
  and panics; for the empty string at an unmapped page this needs no memory at all.
\<close>

theorem sys_cputs_overread:
  assumes "curenv s = Some c" and "p \<noteq> 0" and "0 \<le> sint len" and "user_mem_check c p len PTE_U s = Ret 0 s"
    and "\<And>i. i < unat len \<Longrightarrow> \<exists>b. byte_at s (p + word_of_nat i) = Some b \<and> b \<noteq> 0"
    and "byte_at s (p + len) = None"
  shows "sys_cputs p len s = Panic ''page fault in kernel mode''"
proof -
  have "put_str (unat len) p s = Panic ''page fault in kernel mode''"
    using put_str_fault [of "unat len" s p] assms(5,6) by simp
  then show ?thesis using assms(1-4)
    by (simp add: sys_cputs_def with_curenv_def user_mem_assert_def cprintf_str_def Let_def)
qed

theorem sys_cputs_overread_witness:
  "sys_cputs 0x2000 0 (user_machine\<lparr>cr3 := page2pa 2\<rparr>) = Panic ''page fault in kernel mode''"
proof -
  let ?s = "user_machine\<lparr>cr3 := page2pa 2\<rparr>"
  have c: "curenv ?s = Some 0" using user_machine_fields(4) by (simp add: curenv_def)
  have r: "ROUNDUP (0x2000 + 0) PGSIZE = 0x2000" "ROUNDDOWN 0x2000 PGSIZE = 0x2000"
    by (simp_all add: ROUNDUP_def ROUNDDOWN_def PGSIZE_def)
  have chk: "user_mem_check 0 0x2000 0 PTE_U ?s = Ret 0 ?s"
    unfolding user_mem_check_def r by (simp add: user_mem_scan.simps)
  have "mem ?s 2048 = 0"
    by (simp add: user_machine_fields(2) setup_mem_def boot_machine_def small_machine_def)
  moreover have "unat (PGNUM (page2pa 2)) = 2" "PDX 0x2000 = 0" by (simp_all add: PGNUM_page2pa PDX_def)
  ultimately have b: "byte_at ?s (0x2000 + 0) = None"
    by (simp add: byte_at_def mmu_translate_def Let_def)
  show ?thesis by (rule sys_cputs_overread [OF c _ _ chk _ b]) simp_all
qed

subsection \<open>The clock\<close>

lemma ticks_no_wrap:
  assumes "unat t < 429496729"
  shows "\<not> (t + 1) * 10 < t + (1 :: u32)" and "unat ((t + 1) * 10) = (unat t + 1) * 10"
proof -
  have a: "unat (t + 1) = unat t + 1" using assms by (simp add: unat_word_ariths)
  show m: "unat ((t + 1) * 10) = (unat t + 1) * 10"
    unfolding unat_word_ariths(2) [of "t + 1" 10] a using assms by simp
  show "\<not> (t + 1) * 10 < t + 1" unfolding word_less_nat_alt m a by simp
qed

text \<open>
  \<^bold>\<open>C38.\<close> The clock never shows a wrong time: as long as the time in milliseconds fits into 32 bits
  it is ten times the number of ticks since \<^verbatim>\<open>time_init\<close>, and the very first tick after that
  panics.
\<close>

theorem clock_exact:
  "(n \<le> 429496729 \<longrightarrow> (\<exists>s'. andthen time_init (\<lambda>_. each (\<lambda>_. time_tick) [0 ..< n]) s = Ret () s' \<and>
      (\<exists>w. time_msec s' = Ret w s' \<and> unat w = 10 * n))) \<and>
   (n = 429496730 \<longrightarrow>
     andthen time_init (\<lambda>_. each (\<lambda>_. time_tick) [0 ..< n]) s = Panic ''time_tick: time overflowed'')"
proof -
  have ok: "n \<le> 429496729 \<Longrightarrow> \<exists>s'. each (\<lambda>_. time_tick) [0 ..< n] (s\<lparr>ticks := 0\<rparr>) = Ret () s' \<and> unat (ticks s') = n" for n
  proof (induction n)
    case (Suc n)
    then obtain s' where s': "each (\<lambda>_. time_tick) [0 ..< n] (s\<lparr>ticks := 0\<rparr>) = Ret () s'" "unat (ticks s') = n" by auto
    have lt: "unat (ticks s') < 429496729" using s'(2) Suc.prems by simp
    then have "unat (ticks s' + 1) = Suc n" using s'(2) by (simp add: unat_word_ariths)
    moreover have "time_tick s' = Ret () (s'\<lparr>ticks := ticks s' + 1\<rparr>)"
      using ticks_no_wrap(1) [OF lt] by (simp add: time_tick_def)
    ultimately show ?case using s'(1) by (simp add: each_append)
  qed simp
  have "each (\<lambda>_. time_tick) [0 ..< Suc 429496729] (s\<lparr>ticks := 0\<rparr>) = Panic ''time_tick: time overflowed''"
  proof -
    obtain s' where s': "each (\<lambda>_. time_tick) [0 ..< 429496729] (s\<lparr>ticks := 0\<rparr>) = Ret () s'" "unat (ticks s') = 429496729"
      using ok [of 429496729] by blast
    have "ticks s' = 429496729" using s'(2) by (simp add: word_unat_eq_iff)
    then have "time_tick s' = Panic ''time_tick: time overflowed''" by (simp add: time_tick_def)
    moreover have "[0 ..< Suc 429496729] = [0 ..< 429496729] @ [429496729]" by (rule upt_Suc_append) simp
    ultimately show ?thesis using s'(1) by (simp only: each_append each.simps andthen_simps)
  qed
  moreover have "\<exists>w. time_msec s' = Ret w s' \<and> unat w = 10 * unat (ticks s')" if "unat (ticks s') \<le> 429496729" for s'
    using that by (simp add: time_msec_def unat_word_ariths(2))
  ultimately show ?thesis using ok [of n] by (auto simp: time_init_def)
qed

theorem clock_exact_witness:
  "\<exists>s'. andthen time_init (\<lambda>_. each (\<lambda>_. time_tick) [0 ..< 3]) user_machine = Ret () s' \<and> (\<exists>w. time_msec s' = Ret w s' \<and> unat w = 30)"
  using clock_exact [of 3 user_machine] by simp

end
