(* ===== verification/Kern_Trap_Inv.thy ===== *)
theory Kern_Trap_Inv
  imports Kern_Trap Kern_Syscall_Spec
begin

text \<open>
  Traps from user mode and interrupts that wake a halted CPU: the kernel never returns from
  \<^verbatim>\<open>trap\<close>, keeps the system invariant, and goes back to some environment or halts in a state from
  which the next trap can be handled.
\<close>

subsection \<open>Stores to user pages\<close>

lemma mmu_translate_eq:
  assumes "cr3 s = page2pa P" and "P < 1048576"
  shows "mmu_translate s wr va =
    (if mapped (mem s) P (vpn va) = None \<or>
        wr \<and> (pde_at (mem s) P (unat (PDX va)) AND PTE_W = 0 \<or> pte_at (mem s) P (vpn va) AND PTE_W = 0)
     then None else Some (PTE_ADDR (pte_at (mem s) P (vpn va)) OR PGOFF va))"
proof (cases "table (mem s) P (vpn va div 1024)")
  case None
  then have "mem s (P * 1024 + unat (PDX va)) AND PTE_P = 0"
    by (simp add: table_def pte_page_None vpn_split pde_at_def)
  moreover have "pte_at (mem s) P (vpn va) = 0" using None by (simp add: pte_at_def)
  ultimately show ?thesis using assms by (simp add: mmu_translate_def Let_def PGNUM_page2pa mapped_def)
next
  case (Some T)
  then have "T = unat (PGNUM (mem s (P * 1024 + unat (PDX va))))" "mem s (P * 1024 + unat (PDX va)) AND PTE_P \<noteq> 0"
    by (simp_all add: table_def pte_page_Some vpn_split pde_at_def)
  then show ?thesis using assms Some
    by (simp add: mmu_translate_def Let_def PGNUM_page2pa mapped_def pte_page_None pde_at_def)
       (simp add: pte_at_def vpn_split)
qed

lemma PGOFF_lt: "unat (PGOFF va) < 4096"
  by (simp add: word_arith)

lemma unat_pte_or: "unat (PTE_ADDR pte OR PGOFF va) = unat (PGNUM pte) * 4096 + unat (PGOFF va)"
  unfolding PTE_ADDR_eq_page2pa using vpn_lt [of pte] PGOFF_lt by (subst unat_page2pa_or) (simp_all add: vpn_def)

lemma user_translate:
  assumes "cr3 s = page2pa P" and "P < 1048576" and "mmu_translate s wr va = Some pa"
  obtains p where "mapped (mem s) P (vpn va) = Some p" "unat pa = p * 4096 + unat (PGOFF va)"
  using assms(3) unfolding mmu_translate_eq [OF assms(1,2)]
  by (auto simp: mapped_def pte_page_Some unat_pte_or split: if_splits)

lemma page_offset:
  fixes o1 :: nat
  assumes "o1 < 4096" and "i < 1024" and "P \<noteq> p"
  shows "P * 1024 + i \<noteq> (p * 4096 + o1) div 4"
  using assms slot_eq [of i "o1 div 4" P p] by auto

lemma vm_inv_data_store:
  fixes w :: u32
  assumes vm: "vm_inv s D xs" and P: "P \<in> D" and v: "v < user_vpns" and m: "mapped (mem s) P v = Some p"
    and o1: "o1 < 4096"
  defines "s' \<equiv> s\<lparr>mem := (mem s)((p * 4096 + o1) div 4 := w)\<rparr>"
  shows "vm_inv s' D xs" and "Q \<in> D \<Longrightarrow> x < 1024 \<Longrightarrow> table (mem s') Q x = table (mem s) Q x"
    and "Q \<in> D \<Longrightarrow> u < 1048576 \<Longrightarrow> pte_at (mem s') Q u = pte_at (mem s) Q u"
proof -
  note I = vm_invD [OF vm]
  have p: "p \<notin> pt_pages (mem s) D" "p < unat (npages s)" using I(8) [OF P v m] by auto
  note W = page_write [OF p(1), of "mem s'"]
  have m': "mem s' (P * 1024 + i) = mem s (P * 1024 + i)" if "i < 1024" "P \<noteq> p" for P i
    using page_offset [OF o1 that] by (simp add: s'_def)
  show T: "Q \<in> D \<Longrightarrow> x < 1024 \<Longrightarrow> table (mem s') Q x = table (mem s) Q x" for Q x using W(1) m' by blast
  show E: "Q \<in> D \<Longrightarrow> u < 1048576 \<Longrightarrow> pte_at (mem s') Q u = pte_at (mem s) Q u" for Q u using W(2) m' by blast
  have E': "Q \<in> D \<Longrightarrow> u < user_vpns \<Longrightarrow> pte_at (mem s') Q u = pte_at (mem s) Q u" for Q u by (rule E) linarith+
  have us: "uses (mem s') D q = uses (mem s) D q" for q by (rule uses_cong [OF E'])
  show "vm_inv s' D xs"
  proof (rule vm_inv_same_tables [OF vm T])
    show "page_inv s' xs" using I(1) page_inv_cong [of s' s] by (simp add: s'_def)
    show "q < unat (npages s) \<and> q \<notin> pt_pages (mem s) D"
      if "P \<in> D" "v < user_vpns" "mapped (mem s') P v = Some q" for P v q
      using that I(8) E' by (simp add: mapped_def)
  qed (use I us in \<open>simp_all add: s'_def\<close>)
qed

subsection \<open>Page faults keep the invariant\<close>

text \<open>The kernel works on behalf of environment \<open>c\<close> with that environment's page directory loaded.\<close>

definition serving :: "nat \<Rightarrow> kstate \<Rightarrow> bool" where
  "serving c s \<longleftrightarrow> in_kernel c s \<and> cr3 s = page2pa (env_dir s c)"

lemma servingE:
  assumes "serving c s"
  obtains K xs fl where "kern_inv K s xs fl" "env_dir s c \<in> dirs K s" "env_dir s c < 1048576" "in_kernel c s"
    "cr3 s = page2pa (env_dir s c)"
proof -
  have k: "in_kernel c s" "cr3 s = page2pa (env_dir s c)" using assms by (simp_all add: serving_def)
  from k(1) obtain K xs fl where I: "kern_inv K s xs fl" "c \<in> live s" by (rule in_kernelE)
  then have "env_dir s c < 65536" "env_dir s c \<in> dirs K s" using kern_invD(11,13) by blast+
  then show thesis using that [OF I(1) _ _ k] by simp
qed

lemma vstore_byte_safe:
  assumes "serving c s" and va: "va < UTOP"
  shows "safe True (vstore_byte va b) (\<lambda>_. serving c) E s"
  using assms(1)
proof (rule servingE)
  fix K xs fl assume I: "kern_inv K s xs fl" "env_dir s c \<in> dirs K s" "env_dir s c < 1048576" "in_kernel c s"
    "cr3 s = page2pa (env_dir s c)"
  show ?thesis
  proof (cases "mmu_translate s True va")
    case None
    then show ?thesis by (simp add: vstore_byte_def safe_def)
  next
    case (Some pa)
    obtain p where p: "mapped (mem s) (env_dir s c) (vpn va) = Some p" "unat pa = p * 4096 + unat (PGOFF va)"
      using user_translate [OF I(5,3) Some] .
    let ?s = "\<lambda>w. s\<lparr>mem := (mem s)(unat pa div 4 := w)\<rparr>"
    have "vm_inv (?s w) (dirs K s) xs" for w
      unfolding p(2) by (rule vm_inv_data_store(1) [OF kern_invD(1) [OF I(1)] I(2) vpn_user [OF va] p(1) PGOFF_lt])
    then have "in_kernel c (?s w)" for w by (rule in_kernel_vm [OF I(1,4)]) simp
    then show ?thesis using Some I(5) by (simp add: vstore_byte_def safe_def Let_def serving_def env_dir_def)
  qed
qed

lemma safe_each:
  assumes "\<And>x s. x \<in> set xs \<Longrightarrow> I s \<Longrightarrow> safe pan (f x) (\<lambda>_. I) E s" and "I s"
  shows "safe pan (each f xs) (\<lambda>_. I) E s"
  using assms
proof (induction xs arbitrary: s)
  case (Cons x xs)
  have "safe pan (f x) (\<lambda>_. safe pan (each f xs) (\<lambda>_. I) E) E s"
    by (rule safe_mono [OF Cons.prems(1)]) (use Cons in auto)
  then show ?case by (simp add: safe_rules)
qed (simp add: safe_rules)

lemma utf_address_nat:
  "unat (utf_address esp) + 52 \<le> unat UTOP"
  "n < 52 \<Longrightarrow> unat (utf_address esp + word_of_nat n) = unat (utf_address esp) + n"
proof -
  have "unat (esp - 52 - 4) = unat esp - 56" if "0xEEBFF000 \<le> unat esp"
    using that by (simp add: unat_word_ariths unat_sub_if' word_le_nat_alt)
  then show le: "unat (utf_address esp) + 52 \<le> unat UTOP"
    by (auto simp: utf_address_def sizeof_UTrapframe_def layout_defs word_le_nat_alt word_less_nat_alt)
  then show "unat (utf_address esp + word_of_nat n) = unat (utf_address esp) + n" if "n < 52"
    using that by (simp add: unat_word_ariths unat_of_nat layout_defs)
qed

lemma utf_offset: "(off, w) \<in> set (utf_stores va tf) \<Longrightarrow> unat off \<le> 48"
  by (auto simp: utf_stores_def)

lemma utf_store_below:
  assumes "(off, w) \<in> set (utf_stores va tf)" and "i < 4"
  shows "utf_address a + off + word_of_nat i < UTOP"
proof -
  have "utf_address a + off + word_of_nat i = utf_address a + word_of_nat (unat off + i)"
    by (simp add: add.assoc)
  moreover have lt: "unat off + i < 52" using utf_offset [OF assms(1)] assms(2) by linarith
  ultimately have "unat (utf_address a + off + word_of_nat i) = unat (utf_address a) + (unat off + i)"
    using utf_address_nat(2) [OF lt] by (simp add: add.assoc)
  then show ?thesis using utf_address_nat(1) [of a] lt by (simp add: word_less_nat_alt)
qed

lemma user_mem_assert_serving:
  assumes k: "serving c s"
  shows "safe pan (user_mem_assert c va len perm) (\<lambda>_. serving c) exit_ok s"
  using k
proof (rule servingE)
  fix K xs fl assume I: "kern_inv K s xs fl" "env_dir s c \<in> dirs K s" "in_kernel c s" "cr3 s = page2pa (env_dir s c)"
  have c: "c \<in> live s" using I(3) by (simp add: in_kernel_def)
  have "walkable s (env_dir s c)" by (rule walkable_vm_inv [OF kern_invD(1) [OF I(1)] I(2)])
  then obtain r a where r: "user_mem_check c va len (perm OR PTE_U) s = Ret r (s\<lparr>user_mem_check_addr := a\<rparr>)"
    using user_mem_check_Ret kern_invD(6) [OF I(1) c] by blast
  have k': "in_kernel c (s\<lparr>user_mem_check_addr := a\<rparr>)" by (rule in_kernel_cong [OF I(3)]) simp_all
  then have "serving c (s\<lparr>user_mem_check_addr := a\<rparr>)" using I(4) by (simp add: serving_def env_dir_def)
  then show ?thesis using env_destroy_self_safe [OF k', of pan "\<lambda>_. serving c"] r
    by (simp add: user_mem_assert_def safe_def)
qed

lemma page_fault_handler_safe:
  assumes k: "serving c s" and "tf_cs (env_tf (envs s c)) AND 3 \<noteq> 0"
  shows "safe True (page_fault_handler (Env_frame c)) Q exit_ok s"
proof -
  have kc: "in_kernel c s" using k by (simp add: serving_def)
  let ?tf = "env_tf (envs s c)" and ?up = "\<lambda>x. x\<lparr>env_tf := (env_tf x)\<lparr>tf_eip := env_pgfault_upcall x,
    tf_esp := utf_address (tf_esp (env_tf (envs s c)))\<rparr>\<rparr>"
  have st: "safe True (each (\<lambda>(off, w). vstore_word (utf_address (tf_esp ?tf) + off) w) (utf_stores (cr2 s) ?tf))
      (\<lambda>_. serving c) exit_ok t" if "serving c t" for t
  proof (rule safe_each [where I = "serving c", OF _ that])
    fix x t assume x: "x \<in> set (utf_stores (cr2 s) ?tf)" and t: "serving c t"
    obtain off w where xo: "x = (off, w)" by (cases x)
    show "safe True (case x of (off, w) \<Rightarrow> vstore_word (utf_address (tf_esp ?tf) + off) w) (\<lambda>_. serving c) exit_ok t"
      unfolding xo prod.case vstore_word_def
      using x xo by (intro safe_each [where I = "serving c", OF _ t] vstore_byte_safe utf_store_below) auto
  qed
  have run: "safe True (andthen (modify (upd_env c ?up)) (\<lambda>_. env_run c)) Q exit_ok t" if "serving c t" for t
  proof -
    have "in_kernel c (upd_env c ?up t)"
      using that by (intro in_kernel_upd_env) (auto simp: serving_def env_keeps_def in_kernel_def live_def)
    then obtain K xs fl where "kern_inv K (upd_env c ?up t) xs fl" "c \<in> live (upd_env c ?up t)"
        "holding (kernel_lock (upd_env c ?up t)) (this_cpu (upd_env c ?up t))"
        "\<not> runnable (upd_env c ?up t) NENV" "curenv (upd_env c ?up t) = Some c"
        "cpu_status (cpus (upd_env c ?up t) (this_cpu (upd_env c ?up t))) \<noteq> CPU_HALTED"
      by (rule in_kernelE)
    then have "safe True (env_run c) Q exit_ok (upd_env c ?up t)" by (intro env_run_safe) auto
    then show ?thesis by (simp add: safe_rules)
  qed
  have "safe True (andthen (user_mem_assert c (utf_address (tf_esp ?tf)) sizeof_UTrapframe ((PTE_P OR PTE_W) OR PTE_U))
      (\<lambda>_. andthen (each (\<lambda>(off, w). vstore_word (utf_address (tf_esp ?tf) + off) w) (utf_stores (cr2 s) ?tf))
      (\<lambda>_. andthen (modify (upd_env c ?up)) (\<lambda>_. env_run c)))) Q exit_ok s"
    unfolding safe_basic(5)
    by (intro safe_mono [OF user_mem_assert_serving [OF k]] safe_mono [OF st] run [unfolded safe_basic(5)])
  then show ?thesis
    using assms(2) env_destroy_self_safe [OF kc, of True Q] kc
    by (simp add: page_fault_handler_def Let_def safe_def with_curenv_def in_kernel_def)
qed

subsection \<open>Dispatch\<close>

lemma in_kernel_run:
  assumes "in_kernel c s"
  shows "safe pan (env_run c) Q exit_ok s"
  using assms
proof (rule in_kernelE)
  fix K xs fl assume "kern_inv K s xs fl" "holding (kernel_lock s) (this_cpu s)" "curenv s = Some c" "c \<in> live s"
    "\<not> runnable s NENV" "cpu_status (cpus s (this_cpu s)) \<noteq> CPU_HALTED"
  then show ?thesis by (intro env_run_safe) auto
qed

lemma in_kernel_log: "in_kernel c s \<Longrightarrow> in_kernel c (s\<lparr>lapic_log := l, ticks := n\<rparr>)"
  by (erule in_kernel_cong) simp_all

lemma timer_safe:
  assumes y: "\<And>pan l n. safe pan sched_yield Q exit_ok (s\<lparr>lapic_log := l, ticks := n\<rparr>)"
  shows "safe (429496729 \<le> unat (ticks s)) (andthen lapic_eoi (\<lambda>_. andthen time_tick (\<lambda>_. sched_yield))) Q exit_ok s"
proof -
  obtain l where l: "lapic_eoi s = Ret () (s\<lparr>lapic_log := l\<rparr>)"
    by (cases "lapic s = 0") (auto simp: lapic_eoi_def lapicw_def intro!: that [of "lapic_log s"])
  show ?thesis
  proof (cases "429496729 \<le> unat (ticks s)")
    case True
    then show ?thesis using y [where pan = True and l = l] by (simp add: safe_rules l time_tick_def)
  next
    case False
    then have "\<not> (ticks s + 1) * 10 < ticks s + 1" using ticks_no_wrap(1) [of "ticks s"] by simp
    then show ?thesis using y [where pan = False and l = l] False by (simp add: safe_rules l time_tick_def)
  qed
qed

text \<open>
  What may panic: page faults, the two system calls that read user memory, the tick at which the clock
  overflows, and, on an idle CPU, an interrupt that no driver handles.
\<close>

definition may_panic :: "Trapframe \<Rightarrow> kstate \<Rightarrow> bool" where
  "may_panic tf s \<longleftrightarrow> tf_trapno tf = T_PGFLT \<or>
     tf_trapno tf = T_SYSCALL \<and> sysno_of (reg_eax (tf_regs tf)) \<in> {Some SYS_cputs, Some SYS_env_set_trapframe} \<or>
     tf_trapno tf = IRQ_OFFSET + IRQ_TIMER \<and> 429496729 \<le> unat (ticks s) \<or>
     tf_cs tf = GD_KT \<and> tf_trapno tf \<notin> {IRQ_OFFSET + IRQ_TIMER, IRQ_OFFSET + IRQ_KBD,
       IRQ_OFFSET + IRQ_SERIAL, IRQ_OFFSET + IRQ_SPURIOUS}"

text \<open>The system call that a trap asks for, if it is one, is within its limits.\<close>

definition call_within_limits :: "nat \<Rightarrow> Trapframe \<Rightarrow> kstate \<Rightarrow> bool" where
  "call_within_limits c tf s \<longleftrightarrow> tf_trapno tf \<noteq> T_SYSCALL \<or>
     within_limits c (reg_eax (tf_regs tf)) (reg_edx (tf_regs tf)) (reg_ecx (tf_regs tf)) (reg_ebx (tf_regs tf)) s"

lemma intr_safe:
  "in_kernel c s \<Longrightarrow> safe pan (intr f) (\<lambda>_. in_kernel c) exit_ok s"
  using in_kernel_cons [of c s]
  by (auto simp: intr_def safe_def exit_ok_def in_kernel_def split: option.split)

lemma trap_dispatch_safe:
  assumes k: "serving c s" and r: "call_within_limits c tf s" and tf: "env_tf (envs s c) = tf" "tf_cs tf AND 3 = 3"
  shows "safe (may_panic tf s) (trap_dispatch (Env_frame c)) (\<lambda>_. in_kernel c) exit_ok s"
proof -
  have kc: "in_kernel c s" using k by (simp add: serving_def)
  have kt: "tf_cs tf \<noteq> GD_KT" using tf(2) by (auto simp: GD_KT_def)
  note num = T_PGFLT_def T_BRKPT_def T_SYSCALL_def IRQ_OFFSET_def IRQ_TIMER_def IRQ_SPURIOUS_def IRQ_KBD_def
    IRQ_SERIAL_def
  consider (pf) "tf_trapno tf = T_PGFLT" | (sc) "tf_trapno tf = T_SYSCALL" | (ti) "tf_trapno tf = IRQ_OFFSET + IRQ_TIMER"
    | (no) "tf_trapno tf \<noteq> T_PGFLT" "tf_trapno tf \<noteq> T_SYSCALL" "tf_trapno tf \<noteq> IRQ_OFFSET + IRQ_TIMER" by blast
  then show ?thesis
  proof cases
    case pf
    then have "may_panic tf s" by (simp add: may_panic_def)
    then show ?thesis using page_fault_handler_safe [OF k] tf pf
      by (auto simp: trap_dispatch_def Let_def safe_def tf(1))
  next
    case sc
    let ?pan = "sysno_of (reg_eax (tf_regs tf)) \<in> {Some SYS_cputs, Some SYS_env_set_trapframe}"
    have m: "may_panic tf s = ?pan" using sc kt by (simp add: may_panic_def num)
    let ?r = "tf_regs tf"
    have w: "within_limits c (reg_eax ?r) (reg_edx ?r) (reg_ecx ?r) (reg_ebx ?r) s"
      using r sc by (simp add: call_within_limits_def)
    have u: "in_kernel c (set_tf_eax (Env_frame c) v t)" if "in_kernel c t" for v t
      unfolding set_tf_eax.simps
      by (rule in_kernel_upd_env [OF that]) (use that in \<open>auto simp: env_keeps_def in_kernel_def live_def\<close>)
    have "safe ?pan (andthen (syscall (reg_eax ?r) (reg_edx ?r) (reg_ecx ?r) (reg_ebx ?r) a4 a5)
          (\<lambda>r. modify (set_tf_eax (Env_frame c) r))) (\<lambda>_. in_kernel c) exit_ok s" for a4 a5
      unfolding safe_basic by (rule safe_mono [OF syscall_keeps [OF kc w]]) (use u in auto)
    then show ?thesis unfolding m using sc by (simp add: trap_dispatch_def Let_def safe_def tf(1) num)
  next
    case ti
    have m: "may_panic tf s = (429496729 \<le> unat (ticks s))" using ti kt by (simp add: may_panic_def num)
    show ?thesis unfolding m using timer_safe [OF in_kernel_yield [OF in_kernel_log [OF kc]]] ti by (simp add: trap_dispatch_def Let_def safe_def tf(1) num)
  next
    case no
    then show ?thesis using intr_safe [OF kc] env_destroy_self_safe [OF kc] kc kt
      by (simp add: trap_dispatch_def Let_def safe_def tf(1) monitor_def with_curenv_def andthen_def
          in_kernel_def exit_ok_def)
  qed
qed

subsection \<open>Traps from user mode\<close>

lemma lock_kernel_safe:
  assumes "\<not> holding (kernel_lock s) (this_cpu s)" and "kernel_ok s"
    and "safe pan (f ()) Q exit_ok (s\<lparr>kernel_lock := \<lparr>locked = 1, lock_cpu = Some (this_cpu s)\<rparr>\<rparr>)"
  shows "safe pan (andthen lock_kernel f) Q exit_ok s"
proof (cases "locked (kernel_lock s) = 0")
  case True
  then have "lock_kernel s = Ret () (s\<lparr>kernel_lock := \<lparr>locked = 1, lock_cpu = Some (this_cpu s)\<rparr>\<rparr>)"
    using assms(1) by (cases "kernel_lock s") (simp add: lock_kernel_def xchg_locked_def)
  then show ?thesis using assms(3) by (simp add: safe_def)
next
  case False
  then have "lock_kernel s = Leave Spin_wait s" using assms(1) by (simp add: lock_kernel_def xchg_locked_def Let_def)
  then show ?thesis using assms(2) by (simp add: safe_def andthen_def exit_ok_def)
qed

lemma within_limits_cong:
  assumes "mem t = mem s" "pages t = pages s" "curenv t = curenv s" and e: "\<And>e. \<exists>tf. envs t e = (envs s e)\<lparr>env_tf := tf\<rparr>"
  shows "call_within_limits c tf t = call_within_limits c tf s"
proof -
  have f: "env_id (envs t e) = env_id (envs s e)" "env_parent_id (envs t e) = env_parent_id (envs s e)"
    "env_status (envs t e) = env_status (envs s e)" "env_pgdir (envs t e) = env_pgdir (envs s e)"
    "env_ipc_recving (envs t e) = env_ipc_recving (envs s e)" "env_ipc_dstva (envs t e) = env_ipc_dstva (envs s e)" for e
    using e [of e] by auto
  have sh: "can_share e va t = can_share e va s" for e va
    unfolding can_share_def env_dir_def assms(1,2) f ..
  have es: "env_sat envid p P t = env_sat envid p P s" for envid p P
    using assms(3) f by (auto simp: env_sat_def envid2env_def Let_def split: option.split)
  show ?thesis unfolding call_within_limits_def within_limits_def sh f es by (rule refl)
qed

lemma trap_user_safe:
  assumes u: "in_user c s" and r: "call_within_limits c tf s" and tf: "tf_cs tf AND 3 = 3"
    and Q: "\<And>t. in_kernel c t \<Longrightarrow> safe (may_panic tf s) (h ()) Q exit_ok t"
  shows "safe (may_panic tf s) (andthen (trap_user tf) (\<lambda>p. andthen (trap_dispatch p) h)) Q exit_ok s"
proof -
  let ?s = "s\<lparr>kernel_lock := \<lparr>locked = 1, lock_cpu = Some (this_cpu s)\<rparr>\<rparr>"
    and ?u = "upd_env c (\<lambda>x. x\<lparr>env_tf := tf\<rparr>)"
  have i: "kernel_ok s" "\<not> holding (kernel_lock s) (this_cpu s)" "curenv s = Some c" "c \<in> live s"
    "cr3 s = page2pa (env_dir s c)" "\<not> runnable s NENV" "cpu_status (cpus s (this_cpu s)) \<noteq> CPU_HALTED"
    using u by (simp_all add: in_user_def)
  have ok: "kernel_ok ?s" using i(1) kern_inv_cong [of s ?s] by (auto simp: kernel_ok_def)
  then have k: "in_kernel c ?s"
    using i(3,4,6,7) by (simp add: in_kernel_def holding_def curenv_def live_def runnable_def)
  have c: "curenv ?s = Some c" using i(3) by (simp add: curenv_def)
  have "in_kernel c (?u ?s)"
    by (rule in_kernel_upd_env [OF k]) (use i(4) in \<open>auto simp: env_keeps_def live_def\<close>)
  then have sv: "serving c (?u ?s)" using i(5) by (simp add: serving_def env_dir_def upd_env_def)
  have l: "call_within_limits c tf (?u ?s)"
  proof (subst within_limits_cong [of _ s])
    show "\<exists>tf'. envs (?u ?s) e = (envs s e)\<lparr>env_tf := tf'\<rparr>" for e
      by (cases "e = c") (auto simp: upd_env_def intro: exI [of _ "env_tf (envs s e)"])
  qed (use r in \<open>simp_all add: upd_env_def curenv_def\<close>)
  have r': "env_tf (envs (?u ?s) c) = tf" and m: "may_panic tf (?u ?s) = may_panic tf s"
    by (simp_all add: upd_env_def may_panic_def)
  have d: "safe (may_panic tf s) (andthen (trap_dispatch (Env_frame c)) h) Q exit_ok (?u ?s)"
    unfolding safe_basic(5) by (rule safe_mono [OF trap_dispatch_safe [OF sv l r' tf]]) (use Q m in auto)
  have "safe pan (andthen (env_free c) (\<lambda>_. andthen (modify (set_curenv None)) (\<lambda>_. sched_yield))) R exit_ok ?s" for pan R
    by (rule free_and_yield_safe [OF k]) (use i(4) in \<open>simp add: live_def\<close>)
  note f = this [unfolded safe_basic]
  have "safe (may_panic tf s) (with_curenv (\<lambda>c. andthen (gets (\<lambda>s. env_status (envs s c))) (\<lambda>st.
     andthen (if st = ENV_DYING
              then andthen (env_free c) (\<lambda>_. andthen (modify (set_curenv None)) (\<lambda>_. sched_yield)) else ret ()) (\<lambda>_.
     andthen (modify (upd_env c (\<lambda>x. x\<lparr>env_tf := tf\<rparr>))) (\<lambda>_. ret (Env_frame c))))))
      (\<lambda>p. safe (may_panic tf s) (andthen (trap_dispatch p) h) Q exit_ok) exit_ok ?s"
    unfolding with_curenv_safe [OF k] safe_basic safe_case
    using d f by (auto simp: safe_basic(5))
  from lock_kernel_safe [OF i(2,1), where f = "\<lambda>_. _", OF this] show ?thesis
    unfolding trap_user_def safe_basic(5) [of _ "andthen _ _"] .
qed

subsection \<open>Interrupts on a halted CPU\<close>

text \<open>The kernel works on no environment's behalf.\<close>

definition woken :: "kstate \<Rightarrow> bool" where
  "woken s \<longleftrightarrow> kernel_ok s \<and> holding (kernel_lock s) (this_cpu s) \<and> curenv s = None \<and> \<not> runnable s NENV \<and>
     cpu_status (cpus s (this_cpu s)) \<noteq> CPU_HALTED"

lemma woken_yield:
  assumes "woken s"
  shows "safe pan sched_yield Q exit_ok s"
proof -
  obtain K xs fl where "kern_inv K s xs fl" using assms by (auto simp: woken_def kernel_ok_def)
  then show ?thesis by (rule sched_yield_safe) (use assms in \<open>simp_all add: woken_def\<close>)
qed

lemma woken_upd: "woken s \<Longrightarrow> woken (s\<lparr>kcons := k\<rparr>)" "woken s \<Longrightarrow> woken (s\<lparr>lapic_log := l, ticks := n\<rparr>)"
  using kern_inv_cong [of s "s\<lparr>kcons := k\<rparr>"] kern_inv_cong [of s "s\<lparr>lapic_log := l, ticks := n\<rparr>"]
  by (auto simp: woken_def kernel_ok_def curenv_def runnable_def)

lemma trap_dispatch_woken:
  assumes w: "woken s" and tf: "tf_cs tf = GD_KT" "IRQ_OFFSET \<le> tf_trapno tf" "tf_trapno tf < IRQ_OFFSET + 16"
  shows "safe (may_panic tf s) (trap_dispatch (Stack_frame tf)) (\<lambda>_. woken) exit_ok s"
proof -
  note num = T_PGFLT_def T_BRKPT_def T_SYSCALL_def IRQ_OFFSET_def IRQ_TIMER_def IRQ_SPURIOUS_def IRQ_KBD_def
    IRQ_SERIAL_def
  have n: "tf_trapno tf \<noteq> T_PGFLT" "tf_trapno tf \<noteq> T_BRKPT" "tf_trapno tf \<noteq> T_SYSCALL" using tf by (auto simp: num)
  have i: "safe pan (intr f) (\<lambda>_. woken) exit_ok s" for pan f
    using w woken_upd(1) [OF w] by (auto simp: intr_def safe_def exit_ok_def woken_def split: option.split)
  have t: "safe (429496729 \<le> unat (ticks s)) (andthen lapic_eoi (\<lambda>_. andthen time_tick (\<lambda>_. sched_yield))) (\<lambda>_. woken) exit_ok s"
    by (rule timer_safe) (rule woken_yield [OF woken_upd(2) [OF w]])
  show ?thesis
  proof (cases "tf_trapno tf = IRQ_OFFSET + IRQ_TIMER")
    case True
    then have "may_panic tf s = (429496729 \<le> unat (ticks s))" by (simp add: may_panic_def num)
    then show ?thesis using True t n by (simp add: trap_dispatch_def safe_def num)
  next
    case False
    then show ?thesis using i n tf(1) w by (auto simp: trap_dispatch_def safe_def may_panic_def)
  qed
qed

lemma trap_resume_safe:
  assumes "in_kernel c t \<or> woken t"
  shows "safe pan (\<lambda>t. case curenv t of
      Some c \<Rightarrow> if env_status (envs t c) = ENV_RUNNING then env_run c t else sched_yield t
    | None \<Rightarrow> sched_yield t) (\<lambda>_ _. False) exit_ok t"
  using assms in_kernel_run [of c t pan "\<lambda>_ _. False"] in_kernel_yield [of c t pan "\<lambda>_ _. False"]
    woken_yield [of t pan "\<lambda>_ _. False"]
  by (auto simp: safe_def in_kernel_def woken_def)

lemma trap_wakes:
  assumes h: "halted s" and tf: "tf_cs tf = GD_KT" "IRQ_OFFSET \<le> tf_trapno tf" "tf_trapno tf < IRQ_OFFSET + 16"
    and fl: "eflags AND FL_IF = 0"
  shows "safe (may_panic tf s) (trap eflags tf) (\<lambda>_ _. False) exit_ok s"
proof -
  define t where "t = s\<lparr>cpus := (cpus s)(this_cpu s := (cpus s (this_cpu s))\<lparr>cpu_status := CPU_STARTED\<rparr>)\<rparr>"
  let ?u = "t\<lparr>kernel_lock := \<lparr>locked = 1, lock_cpu = Some (this_cpu t)\<rparr>\<rparr>"
  let ?resume = "\<lambda>t. case curenv t of
      Some c \<Rightarrow> if env_status (envs t c) = ENV_RUNNING then env_run c t else sched_yield t
    | None \<Rightarrow> sched_yield t"
  have t: "kernel_ok t" "\<not> holding (kernel_lock t) (this_cpu t)" "may_panic tf ?u = may_panic tf s"
    using h kern_inv_cong [of s t] by (auto simp: t_def halted_def kernel_ok_def may_panic_def)
  have "woken ?u" using h t(1) kern_inv_cong [of t ?u]
    by (auto simp: woken_def halted_def kernel_ok_def t_def curenv_def runnable_def holding_def)
  from trap_dispatch_woken [OF this tf]
  have "safe (may_panic tf s) (trap_dispatch (Stack_frame tf))
      (\<lambda>_. safe (may_panic tf s) ?resume (\<lambda>_ _. False) exit_ok) exit_ok ?u"
    unfolding t(3) by (rule safe_mono) (auto intro: trap_resume_safe)
  then have "safe (may_panic tf s) (andthen (trap_dispatch (Stack_frame tf)) (\<lambda>_. ?resume)) (\<lambda>_ _. False) exit_ok ?u"
    by (simp add: safe_basic)
  from lock_kernel_safe [OF t(2,1), where f = "\<lambda>_. _", OF this] show ?thesis
    using h tf(1) fl
    by (simp add: trap_def safe_def cpu_started_def check_def t_def [symmetric] exit_ok_def halted_def GD_KT_def)
qed

lemma trap_user_mode:
  assumes u: "in_user c s" and l: "call_within_limits c tf s" and tf: "tf_cs tf AND 3 = 3" and fl: "eflags AND FL_IF = 0"
  shows "safe (may_panic tf s) (trap eflags tf) (\<lambda>_ _. False) exit_ok s"
proof -
  define t where "t = s\<lparr>cpus := (cpus s)(this_cpu s := (cpus s (this_cpu s))\<lparr>cpu_status := CPU_STARTED\<rparr>)\<rparr>"
  let ?resume = "\<lambda>t. case curenv t of
      Some c \<Rightarrow> if env_status (envs t c) = ENV_RUNNING then env_run c t else sched_yield t
    | None \<Rightarrow> sched_yield t"
  have t: "in_user c t" "may_panic tf t = may_panic tf s"
    using u kern_inv_cong [of s t]
    by (auto simp: t_def in_user_def kernel_ok_def curenv_def live_def runnable_def env_dir_def may_panic_def)
  have "call_within_limits c tf t"
  proof (subst within_limits_cong [of _ s])
    show "\<exists>tf'. envs t e = (envs s e)\<lparr>env_tf := tf'\<rparr>" for e by (rule exI [of _ "env_tf (envs s e)"]) (simp add: t_def)
  qed (use l in \<open>simp_all add: t_def curenv_def\<close>)
  then have "safe (may_panic tf s) (andthen (trap_user tf) (\<lambda>p. andthen (trap_dispatch p) (\<lambda>_. ?resume)))
      (\<lambda>_ _. False) exit_ok t"
    unfolding t(2) [symmetric] by (rule trap_user_safe [OF t(1) _ tf]) (rule trap_resume_safe, rule disjI1)
  then show ?thesis using u tf fl
    by (simp add: trap_def safe_def cpu_started_def check_def t_def [symmetric] exit_ok_def in_user_def)
qed

subsection \<open>The life of a CPU\<close>

text \<open>
  When a trap may come in: a user environment is running, or the CPU is halted and a hardware
  interrupt wakes it. These are the states in which \<open>exit_ok\<close> says the kernel is left.
\<close>

definition trap_ready :: "Trapframe \<Rightarrow> kstate \<Rightarrow> bool" where
  "trap_ready tf s = (case curenv s of
       Some c \<Rightarrow> in_user c s \<and> tf_cs tf AND 3 = 3 \<and> call_within_limits c tf s
     | None \<Rightarrow> halted s \<and> tf_cs tf = GD_KT \<and> IRQ_OFFSET \<le> tf_trapno tf \<and> tf_trapno tf < IRQ_OFFSET + 16)"

lemma exit_trap_ready:
  "exit_ok (Run_env e) s \<Longrightarrow> tf_cs tf AND 3 = 3 \<Longrightarrow> call_within_limits e tf s \<Longrightarrow> trap_ready tf s"
  "exit_ok Cpu_halt s \<Longrightarrow> \<not> panicstr s \<Longrightarrow> tf_cs tf = GD_KT \<Longrightarrow> IRQ_OFFSET \<le> tf_trapno tf \<Longrightarrow>
     tf_trapno tf < IRQ_OFFSET + 16 \<Longrightarrow> trap_ready tf s"
  by (auto simp: exit_ok_def trap_ready_def in_user_def halted_def)


lemma in_user_start: "in_user 0 (run_state 0 user_machine)"
  by (rule run_state_in_user [OF kern_inv_user(1)])
     (use in_kernel_user kern_inv_user(2) in \<open>auto simp: in_kernel_def\<close>)


end
