(* ===== verification/Kern_Trap_Frame.thy ===== *)
theory Kern_Trap_Frame
  imports Kern_Trap_Inv
begin

text \<open>
  What a user page-fault handler finds on its exception stack, and which vectors user code may raise
  itself.
\<close>

subsection \<open>Memory as bytes\<close>

definition mem_byte :: "(nat \<Rightarrow> u32) \<Rightarrow> nat \<Rightarrow> u8" where
  "mem_byte m a = word_byte (m (a div 4)) (a mod 4)"

lemma bit_word_byte: "bit (word_byte w k) n \<longleftrightarrow> n < 8 \<and> bit w (8 * k + n)"
  by (auto simp: word_byte_def bit_simps)

lemma bit_255: "bit (0xFF :: int) n \<longleftrightarrow> n < 8"
proof -
  have m: "(0xFF :: int) = mask 8" by (simp add: mask_eq_exp_minus_1)
  show ?thesis by (simp only: m bit_mask_iff) simp
qed

lemma word_byte_set_byte:
  assumes "j < 4" and "k < 4"
  shows "word_byte (set_byte w k b) j = (if j = k then b else word_byte w j)"
proof (rule bit_word_eqI)
  fix n assume "n < LENGTH(8)"
  then have n: "n < 8" by simp
  have "8 * k \<le> 8 * j + n \<and> 8 * j + n - 8 * k < 8 \<longleftrightarrow> j = k" using n by auto
  then show "bit (word_byte (set_byte w k b) j) n = bit (if j = k then b else word_byte w j) n"
    using assms n
    by (auto simp: bit_word_byte set_byte_def bit_or_iff bit_and_iff bit_not_iff bit_push_bit_iff bit_255
        bit_ucast_iff dest: bit_imp_le_length)
qed

lemma mem_byte_store:
  "mem_byte (m(a div 4 := set_byte (m (a div 4)) (a mod 4) b)) a' = (if a' = a then b else mem_byte m a')"
proof -
  have "a' = a \<longleftrightarrow> a' div 4 = a div 4 \<and> a' mod 4 = a mod 4" by (metis div_mult_mod_eq)
  then show ?thesis by (auto simp: mem_byte_def word_byte_set_byte)
qed

subsection \<open>Sequences of byte stores\<close>

definition store_all :: "(u32 \<times> u8) list \<Rightarrow> (kstate, unit) op" where
  "store_all ws = each (\<lambda>(va, b). vstore_byte va b) ws"

definition phys :: "kstate \<Rightarrow> u32 \<Rightarrow> nat" where
  "phys s va = unat (the (mmu_translate s True va))"

lemma vstore_byte_translate:
  assumes vm: "vm_inv s D xs" and P: "P \<in> D" and cr: "cr3 s = page2pa P" and va: "va < UTOP"
    and tr: "mmu_translate s True va \<noteq> None"
  obtains s' where "vstore_byte va b s = Ret () s'" "vm_inv s' D xs" "vm_frame s s'" "cr3 s' = cr3 s"
    "pages s' = pages s" "page_free_list s' = page_free_list s"
    "\<And>wr u. mmu_translate s' wr u = mmu_translate s wr u"
    "\<And>a. mem_byte (mem s') a = (if a = phys s va then b else mem_byte (mem s) a)"
proof -
  obtain pa where pa: "mmu_translate s True va = Some pa" using tr by blast
  have P': "P < 1048576" using vm_invD(11) [OF vm pt_pagesI(1) [OF P]] .
  obtain p where p: "mapped (mem s) P (vpn va) = Some p" "unat pa = p * 4096 + unat (PGOFF va)"
    using user_translate [OF cr P' pa] .
  define s' where "s' = s\<lparr>mem := (mem s)(unat pa div 4 := set_byte (mem s (unat pa div 4)) (unat pa mod 4) b)\<rparr>"
  note S = vm_inv_data_store [OF vm P vpn_user [OF va] p(1) PGOFF_lt]
  have "p \<noteq> P" using vm_invD(8) [OF vm P vpn_user [OF va] p(1)] pt_pagesI(1) [OF P] by blast
  then have "P * 1024 + unat (PDX u) \<noteq> unat pa div 4" for u
    unfolding p(2) by (intro page_offset [OF PGOFF_lt PDX_lt]) simp
  then have pde: "pde_at (mem s') P (unat (PDX u)) = pde_at (mem s) P (unat (PDX u))" for u
    by (simp add: pde_at_def s'_def)
  have cr': "cr3 s' = page2pa P" using cr by (simp add: s'_def)
  have pte: "pte_at (mem s') P (vpn u) = pte_at (mem s) P (vpn u)" for u
    unfolding s'_def p(2) by (rule S(3) [OF P vpn_lt])
  show thesis
  proof (rule that)
    show "vstore_byte va b s = Ret () s'" by (simp add: vstore_byte_def pa s'_def Let_def)
    show "mmu_translate s' wr u = mmu_translate s wr u" for wr u
      unfolding mmu_translate_eq [OF cr P'] mmu_translate_eq [OF cr' P'] mapped_def pde pte ..
    show "mem_byte (mem s') a = (if a = phys s va then b else mem_byte (mem s) a)" for a
      by (simp add: phys_def pa s'_def mem_byte_store)
      show "vm_inv s' D xs" unfolding s'_def p(2) by (rule S(1))
  qed (simp_all add: s'_def)
qed

lemma store_all_spec:
  assumes "vm_inv s D xs" and P: "P \<in> D" and "cr3 s = page2pa P"
    and "\<And>va b. (va, b) \<in> set ws \<Longrightarrow> va < UTOP \<and> mmu_translate s True va \<noteq> None"
  obtains s' where "store_all ws s = Ret () s'" "vm_inv s' D xs" "vm_frame s s'" "cr3 s' = cr3 s"
    "\<And>wr u. mmu_translate s' wr u = mmu_translate s wr u"
    "\<And>a. mem_byte (mem s') a = (case map_of (rev (map (\<lambda>(va, b). (phys s va, b)) ws)) a of
        Some b \<Rightarrow> b | None \<Rightarrow> mem_byte (mem s) a)"
  using assms
proof (induction ws arbitrary: s thesis)
  case Nil
  show ?case by (rule Nil(1)) (use Nil in \<open>auto simp: store_all_def\<close>)
next
  case (Cons x ws)
  obtain va b where x: "x = (va, b)" by (cases x)
  have v: "va < UTOP" "mmu_translate s True va \<noteq> None" using Cons.prems(5) x by auto
  obtain s1 where 1: "vstore_byte va b s = Ret () s1" "vm_inv s1 D xs" "vm_frame s s1" "cr3 s1 = cr3 s"
    "\<And>wr u. mmu_translate s1 wr u = mmu_translate s wr u"
    "\<And>a. mem_byte (mem s1) a = (if a = phys s va then b else mem_byte (mem s) a)"
    using vstore_byte_translate [OF Cons.prems(2) P Cons.prems(4) v] by metis
  have ph: "phys s1 = phys s" by (simp add: fun_eq_iff phys_def 1(5))
  obtain s2 where 2: "store_all ws s1 = Ret () s2" "vm_inv s2 D xs" "vm_frame s1 s2" "cr3 s2 = cr3 s1"
    "\<And>wr u. mmu_translate s2 wr u = mmu_translate s1 wr u"
    "\<And>a. mem_byte (mem s2) a = (case map_of (rev (map (\<lambda>(va, b). (phys s1 va, b)) ws)) a of
        Some b \<Rightarrow> b | None \<Rightarrow> mem_byte (mem s1) a)"
  proof (rule Cons.IH [OF _ 1(2) P])
    show "cr3 s1 = page2pa P" using 1(4) Cons.prems(4) by simp
    show "va < UTOP \<and> mmu_translate s1 True va \<noteq> None" if "(va, b) \<in> set ws" for va b
      using Cons.prems(5) [of va b] that by (simp add: 1(5))
  qed blast
  show ?case
  proof (rule Cons.prems(1))
    show "store_all (x # ws) s = Ret () s2" using 1(1) 2(1) by (simp add: store_all_def x)
    show "vm_frame s s2" by (rule vm_frame_trans [OF 1(3) 2(3)])
    show "mem_byte (mem s2) a = (case map_of (rev (map (\<lambda>(va, b). (phys s va, b)) (x # ws))) a of
        Some b \<Rightarrow> b | None \<Rightarrow> mem_byte (mem s) a)" for a
      by (simp add: x 2(6) 1(6) ph map_add_def split: option.split)
  qed (use 1(4) 2(2,4) in \<open>simp_all add: 1(5) 2(5)\<close>)
qed

subsection \<open>The frame on the exception stack\<close>

text \<open>The words of \<^verbatim>\<open>struct UTrapframe\<close> in the order of the structure, as the handler leaves them.\<close>

definition utf_words :: "u32 \<Rightarrow> Trapframe \<Rightarrow> u32 list" where
  "utf_words fault_va tf =
     [fault_va, tf_trapno tf, reg_edi (tf_regs tf), reg_esi (tf_regs tf), reg_ebp (tf_regs tf),
      reg_oesp (tf_regs tf), reg_ebx (tf_regs tf), reg_edx (tf_regs tf), reg_ecx (tf_regs tf),
      reg_eax (tf_regs tf), tf_eip tf, tf_eflags tf, tf_esp tf]"

text \<open>
  The structure as \<^verbatim>\<open>inc/trap.h\<close> and its users understand it, with the error code of the fault
  in \<^verbatim>\<open>utf_err\<close>.
\<close>

definition documented_utf :: "u32 \<Rightarrow> Trapframe \<Rightarrow> u32 list" where
  "documented_utf fault_va tf = fault_va # tf_err tf #
     (let r = tf_regs tf in
      [reg_edi r, reg_esi r, reg_ebp r, reg_oesp r, reg_ebx r, reg_edx r, reg_ecx r, reg_eax r]) @
     [tf_eip tf, tf_eflags tf, tf_esp tf]"

lemma utf_words_documented: "utf_words va tf = (documented_utf va tf)[1 := tf_trapno tf]"
  by (simp add: utf_words_def documented_utf_def Let_def)

text \<open>The stores of the handler with word numbers instead of offsets, and then as single bytes.\<close>

definition utf_order :: "u32 \<Rightarrow> Trapframe \<Rightarrow> (nat \<times> u32) list" where
  "utf_order fault_va tf =
     (let r = tf_regs tf in
      [(0, fault_va), (1, tf_err tf), (1, tf_trapno tf), (2, reg_edi r), (3, reg_esi r), (4, reg_ebp r),
       (5, reg_oesp r), (6, reg_ebx r), (7, reg_edx r), (8, reg_ecx r), (9, reg_eax r), (11, tf_eflags tf),
       (10, tf_eip tf), (12, tf_esp tf)])"

definition word_bytes :: "nat \<Rightarrow> u32 \<Rightarrow> (nat \<times> u8) list" where
  "word_bytes k w = map (\<lambda>i. (4 * k + i, word_byte w i)) [0 ..< 4]"

definition all_bytes :: "(nat \<times> u32) list \<Rightarrow> (nat \<times> u8) list" where
  "all_bytes ks = concat (map (\<lambda>(k, w). word_bytes k w) ks)"

lemma utf_stores_order: "utf_stores va tf = map (\<lambda>(k, w). (word_of_nat (4 * k), w)) (utf_order va tf)"
  by (simp add: utf_stores_def utf_order_def Let_def)

lemma each_map: "each f (map g xs) = each (\<lambda>x. f (g x)) xs"
  by (induction xs) simp_all

lemma each_concat: "each f (concat (map g xs)) = each (\<lambda>x. each f (g x)) xs"
  by (induction xs) (simp_all add: each_append)

lemma stores_as_bytes:
  "each (\<lambda>(off, w). vstore_word (utf + off) w) (utf_stores va tf) =
     store_all (map (\<lambda>(n, b). (utf + word_of_nat n, b)) (all_bytes (utf_order va tf)))"
  unfolding utf_stores_order store_all_def all_bytes_def map_concat map_map each_map each_concat
  by (simp add: vstore_word_def word_bytes_def each_map comp_def case_prod_unfold add.assoc)

lemma map_of_word_bytes:
  "i < 4 \<Longrightarrow> map_of (rev (word_bytes k w)) (4 * j + i) = (if j = k then Some (word_byte w i) else None)"
proof -
  assume i: "i < 4"
  then consider "i = 0" | "i = 1" | "i = 2" | "i = 3" by linarith
  then show ?thesis by cases (simp_all add: word_bytes_def upt_rec numeral_eq_Suc)
qed

lemma map_of_all_bytes:
  assumes "i < 4"
  shows "map_of (rev (all_bytes ks)) (4 * k + i) = map_option (\<lambda>w. word_byte w i) (map_of (rev ks) k)"
  by (induction ks)
     (auto simp: all_bytes_def map_add_def map_of_word_bytes [OF assms] split: option.split prod.split)

lemma utf_order_words: "k < 13 \<Longrightarrow> map_of (rev (utf_order va tf)) k = Some (utf_words va tf ! k)"
proof -
  assume "k < 13"
  then have "k \<in> set [0 ..< 13]" by simp
  also have "[0 ..< 13 :: nat] = [0, 1, 2, 3, 4, 5, 6, 7, 8, 9, 10, 11, 12]" by (simp add: upt_rec)
  finally have "k \<in> set [0, 1, 2, 3, 4, 5, 6, 7, 8, 9, 10, 11, 12]" .
  then show ?thesis by (auto simp: utf_order_def utf_words_def Let_def)
qed

lemma map_of_inj_image:
  "inj_on f (insert n (fst ` set ns)) \<Longrightarrow> map_of (map (\<lambda>(n, b). (f n, b)) ns) (f n) = map_of ns n"
  by (induction ns) (auto simp: inj_on_def)

text \<open>
  A page the user may write: the table entry has all three bits and the directory entry lets writes
  through.
\<close>

definition user_writable :: "kstate \<Rightarrow> nat \<Rightarrow> u32 \<Rightarrow> bool" where
  "user_writable s P va \<longleftrightarrow>
     page_ok (mem s) P ((PTE_P OR PTE_W) OR PTE_U) (vpn va) \<and> pde_at (mem s) P (unat (PDX va)) AND PTE_W \<noteq> 0"

lemma PTE_PWU: "((PTE_P OR PTE_W) OR PTE_U) OR PTE_U = (PTE_P OR PTE_W) OR PTE_U"
  by (simp add: or.assoc)

lemma user_writable_translate:
  assumes "user_writable s P va" and "cr3 s = page2pa P" and "P < 1048576"
  shows "mmu_translate s True va \<noteq> None" and "mmu_translate s False va = mmu_translate s True va"
    and "phys s va mod 4096 = unat va mod 4096"
proof -
  have e: "pte_at (mem s) P (vpn va) AND PTE_P \<noteq> 0" "pte_at (mem s) P (vpn va) AND 7 = 7"
    using assms(1) by (simp_all add: user_writable_def page_ok_def pte_defs)
  have "pte_at (mem s) P (vpn va) AND PTE_W = (pte_at (mem s) P (vpn va) AND 7) AND PTE_W"
    by (simp add: and.assoc pte_defs)
  then have w: "pte_at (mem s) P (vpn va) AND PTE_W \<noteq> 0" by (simp add: e(2) pte_defs)
  note T = mmu_translate_eq [OF assms(2,3)]
  have d: "pde_at (mem s) P (unat (PDX va)) AND PTE_W \<noteq> 0" using assms(1) by (simp add: user_writable_def)
  have m: "mapped (mem s) P (vpn va) \<noteq> None" using e(1) by (simp add: mapped_def pte_page_None)
  show "mmu_translate s True va \<noteq> None" "mmu_translate s False va = mmu_translate s True va"
    using w d m by (simp_all add: T)
  have "unat (PGOFF va) = unat va mod 4096" by (simp add: word_arith)
  then show "phys s va mod 4096 = unat va mod 4096"
    using w d m unfolding phys_def T by (subst if_not_P) (simp_all add: unat_pte_or)
qed

lemma utf_mem_check:
  assumes k: "serving c s" and w: "\<And>n. n < 52 \<Longrightarrow> user_writable s (env_dir s c) (utf_address esp + word_of_nat n)"
  shows "user_mem_check c (utf_address esp) sizeof_UTrapframe ((PTE_P OR PTE_W) OR PTE_U) s = Ret 0 s"
  using k
proof (rule servingE)
  fix K xs fl assume I: "kern_inv K s xs fl" "env_dir s c \<in> dirs K s" "in_kernel c s"
  let ?u = "utf_address esp" and ?perm = "(PTE_P OR PTE_W) OR PTE_U"
  have c: "c \<in> live s" using I(3) by (simp add: in_kernel_def)
  have le: "unat ?u + 52 \<le> unat UTOP" by (rule utf_address_nat)
  have sz: "unat sizeof_UTrapframe = 52" by (simp add: sizeof_UTrapframe_def)
  have ok: "page_ok (mem s) (env_dir s c) ?perm v"
    if v: "unat ?u div 4096 \<le> v" "v < (unat ?u + 52 + 4095) div 4096" for v
  proof -
    define n where "n = (if v = unat ?u div 4096 then 0 else v * 4096 - unat ?u)"
    have n: "n < 52" "(unat ?u + n) div 4096 = v" using v by (auto simp: n_def)
    have "vpn (?u + word_of_nat n) = v" using utf_address_nat(2) [OF n(1), of esp] n(2) by (simp add: vpn_def word_arith)
    then show ?thesis using w [OF n(1)] by (simp add: user_writable_def)
  qed
  have "walkable s (env_dir s c)" by (rule walkable_vm_inv [OF kern_invD(1) [OF I(1)] I(2)])
  moreover have "unat ?u + unat sizeof_UTrapframe + 4095 < 2 ^ 32" using le by (simp add: sz layout_defs)
  moreover have "bad_pages (mem s) (env_dir s c) ?perm (unat ?u div 4096) ((unat ?u + 52 + 4095) div 4096) = []"
    using ok by (auto simp: bad_pages_def filter_empty_conv)
  ultimately show ?thesis
    using user_mem_check_pages [OF _ kern_invD(6) [OF I(1) c], of ?u sizeof_UTrapframe ?perm] by (simp add: sz)
qed

lemma mmu_translate_cong: "mem s = mem t \<Longrightarrow> cr3 s = cr3 t \<Longrightarrow> mmu_translate s = mmu_translate t"
  by (simp add: fun_eq_iff mmu_translate_def Let_def)

lemma byte_at_mem: "byte_at s va = map_option (\<lambda>pa. mem_byte (mem s) (unat pa)) (mmu_translate s False va)"
  by (simp add: byte_at_def mem_byte_def)

lemma mod_window_le:
  fixes m n x k :: nat
  assumes "(x + m) mod k = (x + n) mod k" and "n < k" and "m \<le> n"
  shows "m = n"
proof -
  have "k dvd n - m" using mod_eq_dvd_iff_nat [of "x + m" "x + n" k] assms(1,3) by simp
  moreover have "n - m < k" using assms(2) by simp
  ultimately show ?thesis using nat_dvd_not_less [of "n - m" k] assms(3) by fastforce
qed

lemma mod_window:
  fixes m n x k :: nat
  assumes "(x + m) mod k = (x + n) mod k" and "m < k" and "n < k"
  shows "m = n"
  using mod_window_le [of x m k n] mod_window_le [of x n k m] assms by linarith

lemma utf_phys_inj:
  assumes "\<And>n. n < 52 \<Longrightarrow> phys s (utf_address esp + word_of_nat n) mod 4096 = unat (utf_address esp + word_of_nat n) mod 4096"
  shows "inj_on (\<lambda>n. phys s (utf_address esp + word_of_nat n)) {..< 52}"
proof (rule inj_onI)
  fix m n :: nat assume mn: "m \<in> {..< 52}" "n \<in> {..< 52}"
    and "phys s (utf_address esp + word_of_nat m) = phys s (utf_address esp + word_of_nat n)"
  then have "(unat (utf_address esp) + m) mod 4096 = (unat (utf_address esp) + n) mod 4096"
    using assms [of m] assms [of n] utf_address_nat(2) [of m esp] utf_address_nat(2) [of n esp] by simp
  then show "m = n" using mn by (intro mod_window [of "unat (utf_address esp)" m 4096 n]) simp_all
qed

lemma all_bytes_lt: "n \<in> fst ` set (all_bytes (utf_order va tf)) \<Longrightarrow> n < 52"
  by (auto simp: all_bytes_def utf_order_def word_bytes_def Let_def)

lemma utf_stored:
  assumes k: "serving c s" and w: "\<And>n. n < 52 \<Longrightarrow> user_writable s (env_dir s c) (utf_address esp + word_of_nat n)"
  obtains s' where "each (\<lambda>(off, w). vstore_word (utf_address esp + off) w) (utf_stores va tf) s = Ret () s'"
    "serving c s'" "vm_frame s s'"
    "\<And>n. n < 52 \<Longrightarrow> byte_at s' (utf_address esp + word_of_nat n) = Some (word_byte (utf_words va tf ! (n div 4)) (n mod 4))"
  using k
proof (rule servingE)
  fix K xs fl assume I: "kern_inv K s xs fl" "env_dir s c \<in> dirs K s" "env_dir s c < 1048576" "in_kernel c s"
    "cr3 s = page2pa (env_dir s c)"
  let ?a = "\<lambda>n. utf_address esp + word_of_nat n" and ?ns = "all_bytes (utf_order va tf)"
  note W = user_writable_translate [OF w I(5,3)]
  obtain s' where s': "store_all (map (\<lambda>(n, b). (?a n, b)) ?ns) s = Ret () s'" "vm_inv s' (dirs K s) xs" "vm_frame s s'"
    "cr3 s' = cr3 s" "\<And>wr u. mmu_translate s' wr u = mmu_translate s wr u"
    "\<And>a. mem_byte (mem s') a = (case map_of (rev (map (\<lambda>(va, b). (phys s va, b)) (map (\<lambda>(n, b). (?a n, b)) ?ns))) a of
        Some b \<Rightarrow> b | None \<Rightarrow> mem_byte (mem s) a)"
  proof (rule store_all_spec [OF kern_invD(1) [OF I(1)] I(2,5)])
    fix u b assume "(u, b) \<in> set (map (\<lambda>(n, b). (?a n, b)) ?ns)"
    then obtain n where n: "u = ?a n" "n < 52" using all_bytes_lt by force
    show "u < UTOP \<and> mmu_translate s True u \<noteq> None"
      using W(1) [OF n(2)] utf_address_nat(1) [of esp] n(2) utf_address_nat(2) [OF n(2), of esp]
      by (simp add: n(1) word_less_nat_alt)
  qed blast
  have inj: "inj_on (\<lambda>n. phys s (?a n)) {..< 52}" using W(3) by (rule utf_phys_inj)
  have b: "mem_byte (mem s') (phys s (?a n)) = word_byte (utf_words va tf ! (n div 4)) (n mod 4)" if n: "n < 52" for n
  proof -
    have "inj_on (\<lambda>n. phys s (?a n)) (insert n (fst ` set (rev ?ns)))"
      using inj by (rule inj_on_subset) (use n all_bytes_lt in auto)
    from map_of_inj_image [OF this]
    have "map_of (rev (map (\<lambda>(va, b). (phys s va, b)) (map (\<lambda>(n, b). (?a n, b)) ?ns))) (phys s (?a n)) = map_of (rev ?ns) n"
      by (simp add: rev_map comp_def case_prod_unfold)
    moreover have "map_of (rev ?ns) n = Some (word_byte (utf_words va tf ! (n div 4)) (n mod 4))"
      using map_of_all_bytes [of "n mod 4" "utf_order va tf" "n div 4"] utf_order_words [of "n div 4" va tf] n
      by (simp add: div_less_iff_less_mult)
    ultimately show ?thesis by (simp add: s'(6))
  qed
  have "byte_at s' (?a n) = Some (word_byte (utf_words va tf ! (n div 4)) (n mod 4))" if n: "n < 52" for n
    using W(1,2) [OF n] b [OF n] by (auto simp: byte_at_mem s'(5) phys_def)
  moreover have "serving c s'"
    using in_kernel_vm [OF I(1,4) s'(2,3)] vm_frameD [OF s'(3)] s'(4) I(5) by (simp add: serving_def env_dir_def)
  ultimately show thesis using that [of s'] s'(1,3) by (simp add: stores_as_bytes)
qed

text \<open>
  \<^bold>\<open>C28.\<close> User-level page fault handling: if the environment has registered a handler and the frame
  fits on a writable exception stack, the environment is resumed at its handler with the stack pointer
  at the frame. The 13 words there are those of the documented \<^verbatim>\<open>struct UTrapframe\<close> in all but one
  place: fault address, the eight registers, instruction pointer, flags and stack pointer of the moment
  of the fault. The word \<^verbatim>\<open>utf_err\<close> is wrong: it should be the error code but holds the trap number,
  because the store of \<^verbatim>\<open>tf_err\<close> is overwritten by the one that follows it. So the frame is the
  documented one exactly when error code and trap number happen to agree.
\<close>

theorem page_fault_frame:
  assumes k: "serving c s" and cs: "tf_cs (env_tf (envs s c)) AND 3 = 3" and up: "env_pgfault_upcall (envs s c) \<noteq> 0"
    and w: "\<And>n. n < 52 \<Longrightarrow> user_writable s (env_dir s c) (utf_address (tf_esp (env_tf (envs s c))) + word_of_nat n)"
  shows "\<exists>s'. page_fault_handler (Env_frame c) s = Leave (Run_env c) s' \<and> in_user c s' \<and>
    env_tf (envs s' c) = (env_tf (envs s c))\<lparr>tf_eip := env_pgfault_upcall (envs s c),
      tf_esp := utf_address (tf_esp (env_tf (envs s c)))\<rparr> \<and>
    (\<forall>k < 13. \<forall>i < 4. byte_at s' (utf_address (tf_esp (env_tf (envs s c))) + word_of_nat (4 * k + i)) =
       Some (word_byte (if k = 1 then tf_trapno (env_tf (envs s c))
                        else documented_utf (cr2 s) (env_tf (envs s c)) ! k) i))"
proof -
  let ?tf = "env_tf (envs s c)" let ?u = "utf_address (tf_esp ?tf)"
  let ?up = "\<lambda>x. x\<lparr>env_tf := (env_tf x)\<lparr>tf_eip := env_pgfault_upcall x, tf_esp := ?u\<rparr>\<rparr>"
  obtain t where t: "each (\<lambda>(off, w). vstore_word (?u + off) w) (utf_stores (cr2 s) ?tf) s = Ret () t"
    "serving c t" "vm_frame s t"
    "\<And>n. n < 52 \<Longrightarrow> byte_at t (?u + word_of_nat n) = Some (word_byte (utf_words (cr2 s) ?tf ! (n div 4)) (n mod 4))"
    using utf_stored [OF k w, of "cr2 s" ?tf] by blast
  have c: "curenv s = Some c" "in_kernel c t" "c < NENV" using k t(2) by (auto simp: serving_def in_kernel_def live_def)
  have kt: "in_kernel c (upd_env c ?up t)"
    by (rule in_kernel_upd_env [OF c(2)]) (use c(3) in \<open>auto simp: env_keeps_def\<close>)
  have ev: "envs t = envs s" using vm_frameD [OF t(3)] by simp
  let ?r = "run_state c (upd_env c ?up t)"
  from kt obtain K xs fl where I: "kern_inv K (upd_env c ?up t) xs fl" "c \<in> live (upd_env c ?up t)"
      "holding (kernel_lock (upd_env c ?up t)) (this_cpu (upd_env c ?up t))"
      "\<not> runnable (upd_env c ?up t) NENV" "curenv (upd_env c ?up t) = Some c"
      "cpu_status (cpus (upd_env c ?up t) (this_cpu (upd_env c ?up t))) \<noteq> CPU_HALTED"
    by (rule in_kernelE)
  have u: "in_user c ?r" by (rule run_state_in_user [OF I(1,2,4) _ I(6)]) (use I(2,5) in simp)
  have "KERNBASE \<le> env_pgdir (envs (upd_env c ?up t) c)" using kern_invD(6,13) [OF I(1)] I(2) page_kva_ge by simp
  from env_run_Leave [OF I(3) this] have run: "env_run c (upd_env c ?up t) = Leave (Run_env c) ?r" .
  have "env_dir ?r c = env_dir t c" "mem ?r = mem t"
    by (simp_all add: run_state_def Let_def upd_env_def env_dir_def set_curenv_def step_down_def split: option.split)
  then have "byte_at ?r = byte_at t"
    using u t(2) mmu_translate_cong [of ?r t] by (simp add: fun_eq_iff byte_at_def in_user_def serving_def)
  moreover have "env_tf (envs ?r c) = ?tf\<lparr>tf_eip := env_pgfault_upcall (envs s c), tf_esp := ?u\<rparr>"
    by (simp add: run_state_def Let_def upd_env_def set_curenv_def step_down_def ev split: option.split)
  moreover have "user_mem_assert c ?u sizeof_UTrapframe ((PTE_P OR PTE_W) OR PTE_U) s = Ret () s"
    unfolding user_mem_assert_def PTE_PWU using utf_mem_check [OF k w] by simp
  moreover have "byte_at t (?u + word_of_nat (4 * k + i)) =
      Some (word_byte (if k = 1 then tf_trapno ?tf else documented_utf (cr2 s) ?tf ! k) i)" if "k < 13" "i < 4" for k i
  proof -
    have "4 * k + i < 52" using that by linarith
    then show ?thesis using that t(4) [of "4 * k + i"]
      by (cases "k = 1") (simp_all add: utf_words_documented, simp_all add: documented_utf_def Let_def)
  qed
  ultimately show ?thesis using t(1) cs up c(1) run u
    by (simp add: page_fault_handler_def Let_def with_curenv_def)
qed

text \<open>The concrete machine with a page for the exception stack of environment 0.\<close>

definition stack_machine :: kstate where
  "stack_machine = (upd_env 0 (\<lambda>x. x\<lparr>env_pgfault_upcall := 0x800020,
        env_tf := (env_tf x)\<lparr>tf_cs := GD_UT OR 3, tf_esp := 0xEEBFDF00\<rparr>\<rparr>)
     (insert_state 2 3 0xEEBFF000 4 7 (page_pop False 4 (walk_install 2 954 3 user_machine))))\<lparr>cr3 := page2pa 2\<rparr>"

lemma serving_stack_machine: "serving 0 stack_machine"
  and stack_machine_mem: "pde_at (mem stack_machine) 2 954 = new_pde 3 OR 7"
    "pte_at (mem stack_machine) 2 977919 = page2pa 4 OR PTE_P OR 7" "env_dir stack_machine 0 = 2"
proof -
  let ?s1 = "walk_install 2 954 3 user_machine" let ?s2 = "page_pop False 4 ?s1"
  let ?s3 = "insert_state 2 3 0xEEBFF000 4 7 ?s2"
  note K = kern_inv_user(1) note I = kern_invD [OF K]
  have l: "0 \<in> live user_machine" by (simp add: kern_inv_user(2))
  have D: "2 \<in> dirs 1 user_machine" using I(11) [OF l] by (simp add: user_machine_env)
  have v: "vpn 0xEEBFF000 = 977919" "unat (PDX 0xEEBFF000) = 954" by (simp_all add: vpn_def word_arith)
  have m: "mem user_machine = mem (alloc_state 0 2 1 0 boot_machine)" by (rule user_machine_fields)
  have z: "table (mem user_machine) 2 954 = None"
    by (simp add: table_def pde_at_def m setup_mem_def boot_machine_def small_machine_def)
  have "vm_inv user_machine (dirs 1 user_machine) (3 # [4])" using I(1) by simp
  note W = vm_inv_walk_install [OF this D _ z]
  have vm1: "vm_inv ?s1 (dirs 1 user_machine) (4 # [])" by (rule W(1)) simp
  note P = vm_inv_pop(1-3) [OF vm1, where z = False] note F = vm_inv_pop(4-7) [OF vm1]
  have T: "table (mem ?s2) 2 (unat (PDX 0xEEBFF000)) = Some 3" using P(2) [OF D, of 954] W(3) [OF _ D, of 954] by (simp add: v)
  have e: "pte_at (mem ?s2) 2 977919 = 0"
    using P(3) [OF D, of 977919] W(2) [OF _ D, of 977919] z by (simp add: pte_at_def [of "mem user_machine"])
  have vm3: "vm_inv ?s3 (dirs 1 user_machine) []"
    by (rule vm_inv_insert_state [OF P(1) D _ T])
       (use F e in \<open>simp_all add: v mapped_def\<close>)
  have fr: "vm_frame user_machine ?s3"
    using vm_frame_trans [OF vm_frame_trans [OF vm_frame_simps(4) vm_frame_simps(3)] insert_state_fields(5)] .
  have k3: "in_kernel 0 ?s3" by (rule in_kernel_vm [OF K in_kernel_user vm3 fr])
  have ed: "env_dir ?s3 0 = 2" using vm_frameD [OF fr] user_machine_env(2) by (simp add: env_dir_def)
  then show dir: "env_dir stack_machine 0 = 2" by (simp add: stack_machine_def env_dir_def upd_env_def)
  have "in_kernel 0 (upd_env 0 (\<lambda>x. x\<lparr>env_pgfault_upcall := 0x800020,
        env_tf := (env_tf x)\<lparr>tf_cs := GD_UT OR 3, tf_esp := 0xEEBFDF00\<rparr>\<rparr>) ?s3)"
    by (rule in_kernel_upd_env [OF k3]) (auto simp: env_keeps_def NENV_def)
  then have "in_kernel 0 stack_machine" unfolding stack_machine_def by (rule in_kernel_cong) simp_all
  then show "serving 0 stack_machine" using dir by (simp add: serving_def) (simp add: stack_machine_def)
  have m3: "mem stack_machine = mem ?s3" by (simp add: stack_machine_def upd_env_def)
  show "pde_at (mem stack_machine) 2 954 = new_pde 3 OR 7"
    unfolding m3 by (simp add: pde_at_def insert_state_def Let_def v)
  have "table (mem stack_machine) 2 954 = Some 3"
    unfolding table_def \<open>pde_at (mem stack_machine) 2 954 = new_pde 3 OR 7\<close>
    using page2pa_flags [of 3 7] by (simp add: new_pde_def pte_defs or.assoc)
  then show "pte_at (mem stack_machine) 2 977919 = page2pa 4 OR PTE_P OR 7"
    unfolding m3 by (simp add: pte_at_def insert_state_def Let_def v)
qed

theorem page_fault_frame_witness:
  "\<exists>s'. page_fault_handler (Env_frame 0) stack_machine = Leave (Run_env 0) s' \<and>
     tf_eip (env_tf (envs s' 0)) = 0x800020 \<and> tf_esp (env_tf (envs s' 0)) = UXSTACKTOP - 52 \<and>
     byte_at s' (UXSTACKTOP - 4) = Some 0x00 \<and> byte_at s' (UXSTACKTOP - 3) = Some 0xDF"
proof -
  let ?s = stack_machine
  have f: "tf_cs (env_tf (envs ?s 0)) AND 3 = 3" "env_pgfault_upcall (envs ?s 0) = 0x800020"
    "tf_esp (env_tf (envs ?s 0)) = 0xEEBFDF00"
    by (simp_all add: stack_machine_def upd_env_def GD_UT_def)
  have u: "utf_address 0xEEBFDF00 = 0xEEBFFFCC" by (simp add: utf_address_def layout_defs sizeof_UTrapframe_def)
  have "user_writable ?s (env_dir ?s 0) (utf_address (tf_esp (env_tf (envs ?s 0))) + word_of_nat n)" if "n < 52" for n
  proof -
    have "unat (0xEEBFFFCC + word_of_nat n :: u32) = 0xEEBFFFCC + n"
      using utf_address_nat(2) [OF that, of "0xEEBFDF00"] u by simp
    then have "vpn (0xEEBFFFCC + word_of_nat n) = 977919" "unat (PDX (0xEEBFFFCC + word_of_nat n)) = 954"
      using that by (simp_all add: vpn_def word_arith)
    then show ?thesis
      by (simp add: user_writable_def f(3) u stack_machine_mem page_ok_def layout_defs pte_defs new_pde_def page2pa_def
          push_bit_eq_mult)
  qed
  from page_fault_frame [OF serving_stack_machine f(1) _ this, unfolded f(2,3) u]
  obtain s' where s': "page_fault_handler (Env_frame 0) ?s = Leave (Run_env 0) s'"
    "env_tf (envs s' 0) = (env_tf (envs ?s 0))\<lparr>tf_eip := 0x800020, tf_esp := 0xEEBFFFCC\<rparr>"
    "\<forall>k < 13. \<forall>i < 4. byte_at s' (0xEEBFFFCC + word_of_nat (4 * k + i)) =
       Some (word_byte (if k = 1 then tf_trapno (env_tf (envs ?s 0))
                        else documented_utf (cr2 ?s) (env_tf (envs ?s 0)) ! k) i)" by auto
  have "byte_at s' (0xEEBFFFCC + 48) = Some 0" "byte_at s' (0xEEBFFFCC + 49) = Some 0xDF"
    using s'(3) [rule_format, of 12 0] s'(3) [rule_format, of 12 1] f(3)
    by (simp_all add: documented_utf_def Let_def word_byte_def drop_bit_eq_div)
  then show ?thesis using s'(1,2) by (auto simp: layout_defs)
qed

subsection \<open>The interrupt descriptor table\<close>

lemma foldl_update:
  "foldl (\<lambda>t (n, h, d). t(n := g h d)) t0 l n = (case map_of (rev l) n of None \<Rightarrow> t0 n | Some (h, d) \<Rightarrow> g h d)"
  by (induction l arbitrary: t0) (auto simp: map_add_def split: option.split)

lemma gate_vectors: "n \<in> fst ` set gates \<longleftrightarrow> n \<le> 19 \<and> n \<noteq> 9 \<and> n \<noteq> 15 \<or> 32 \<le> n \<and> n \<le> 48"
proof -
  have "map (\<lambda>x. unat (fst x)) gates = [0 ..< 9] @ [10 ..< 15] @ [16 ..< 20] @ [48] @ [32 ..< 48]"
    by (simp add: gates_def upt_rec IRQ_OFFSET_def T_DIVIDE_def T_DEBUG_def T_NMI_def T_BRKPT_def T_OFLOW_def
        T_BOUND_def T_ILLOP_def T_DEVICE_def T_DBLFLT_def T_TSS_def T_SEGNP_def T_STACK_def T_GPFLT_def T_PGFLT_def
        T_FPERR_def T_ALIGN_def T_MCHK_def T_SIMDERR_def T_SYSCALL_def)
  from arg_cong [where f = set, OF this]
  have "(\<lambda>x. unat (fst x)) ` set gates =
      {0 ..< 9} \<union> ({10 ..< 15} \<union> ({16 ..< 20} \<union> ({48} \<union> {32 ..< 48})))"
    by (simp only: set_map set_append set_upt list.set)
  moreover have "n \<in> fst ` set gates \<longleftrightarrow> unat n \<in> (\<lambda>x. unat (fst x)) ` set gates"
    by (auto simp: image_iff word_unat_eq_iff)
  ultimately have "n \<in> fst ` set gates \<longleftrightarrow>
      unat n \<in> {0 ..< 9} \<union> ({10 ..< 15} \<union> ({16 ..< 20} \<union> ({48} \<union> {32 ..< 48})))" by (simp only:)
  moreover have "unat n \<in> {0 ..< 9} \<union> ({10 ..< 15} \<union> ({16 ..< 20} \<union> ({48} \<union> {32 ..< 48}))) \<longleftrightarrow>
      unat n \<le> 19 \<and> unat n \<noteq> 9 \<and> unat n \<noteq> 15 \<or> 32 \<le> unat n \<and> unat n \<le> 48" by (simp, arith)
  ultimately show ?thesis by (simp add: word_le_nat_alt word_unat_eq_iff)
qed

lemma gate_entry:
  "(n, h, d) \<in> set gates \<Longrightarrow> stub_num h = n \<and> d = (if n = T_BRKPT \<or> n = T_SYSCALL then 3 else 0) \<and>
     (stub_noec h \<longleftrightarrow> n \<notin> {8, 10, 11, 12, 13, 14, 17})"
  by (auto simp: gates_def stub_noec_def IRQ_OFFSET_def T_DIVIDE_def T_DEBUG_def T_NMI_def T_BRKPT_def T_OFLOW_def
        T_BOUND_def T_ILLOP_def T_DEVICE_def T_DBLFLT_def T_TSS_def T_SEGNP_def T_STACK_def T_GPFLT_def T_PGFLT_def
        T_FPERR_def T_ALIGN_def T_MCHK_def T_SIMDERR_def T_SYSCALL_def)

lemma gate_offset: "push_bit 16 (drop_bit 16 w) OR (w AND 0xFFFF) = (w :: u32)"
proof -
  have m: "w AND 0xFFFF = take_bit 16 w" by (simp add: take_bit_eq_mask mask_eq_exp_minus_1)
  show ?thesis unfolding m by (rule bit_word_eqI) (auto simp: bit_simps)
qed

text \<open>
  \<^bold>\<open>C29.\<close> The interrupt descriptor table: the present vectors are the processor exceptions 0 to 19
  without 9 and 15, the sixteen device interrupts and the system call; each enters the kernel code
  segment with interrupts off, at the entry point that pushes this very vector's number, and which
  pushes a placeholder for the error code exactly when the processor pushes none for this vector (it
  does for 8, 10 to 14 and 17); user code may raise only the breakpoint and the system call itself.
\<close>

theorem idt_gates:
  "let g = trap_init addr (\<lambda>_. zero_gate) n in
   if n \<le> 19 \<and> n \<noteq> 9 \<and> n \<noteq> 15 \<or> 32 \<le> n \<and> n \<le> 48
   then gd_p g = 1 \<and> gd_type g = STS_IG32 \<and> gd_sel g = ucast GD_KT \<and>
     (\<exists>h. push_bit 16 (gd_off_31_16 g) OR gd_off_15_0 g = addr h \<and> stub_num h = n \<and>
        (stub_noec h \<longleftrightarrow> n \<notin> {8, 10, 11, 12, 13, 14, 17})) \<and>
     gd_dpl g = (if n = T_BRKPT \<or> n = T_SYSCALL then 3 else 0)
   else g = zero_gate"
proof (cases "map_of (rev gates) n")
  case None
  then have "n \<notin> fst ` set gates" by (simp add: map_of_eq_None_iff)
  then show ?thesis using None unfolding gate_vectors Let_def
    by (subst if_not_P) (simp_all add: trap_init_def foldl_update)
next
  case (Some x)
  obtain h d where x: "x = (h, d)" by (cases x)
  have m: "(n, h, d) \<in> set gates" using Some x map_of_SomeD by fastforce
  then have v: "n \<le> 19 \<and> n \<noteq> 9 \<and> n \<noteq> 15 \<or> 32 \<le> n \<and> n \<le> 48" unfolding gate_vectors [symmetric] by force
  have "trap_init addr (\<lambda>_. zero_gate) n = SETGATE False (ucast GD_KT) (addr h) d"
    using Some x by (simp add: trap_init_def foldl_update)
  then show ?thesis using gate_entry [OF m] unfolding Let_def if_P [OF v]
    by (intro conjI exI [of _ h]) (simp_all add: SETGATE_def gate_offset)
qed

end
