(* ===== verification/Fs_Ide.thy ===== *)
theory Fs_Ide
  imports JOS_Types "HOL-Library.Stream"
begin

text \<open>
  The disk driver of the file server (\<^verbatim>\<open>fs/ide.c\<close>). The device is modelled as far as the driver
  uses it: the values its status register will show, the last byte written to each port, the sector the
  next data transfer concerns, and the bytes on its two drives. A wait for a device that never gets
  ready does not end; that is the outcome \<open>Leave Spin_wait\<close>.
\<close>

unbundle bit_operations_syntax

definition IDE_BSY :: u8 where "IDE_BSY = 0x80"
definition IDE_DRDY :: u8 where "IDE_DRDY = 0x40"
definition IDE_DF :: u8 where "IDE_DF = 0x20"
definition IDE_ERR :: u8 where "IDE_ERR = 0x01"
definition SECTSIZE :: nat where "SECTSIZE = 512"

record ide =
  diskno :: u32
  ide_status :: "u8 stream"
  ide_regs :: "nat \<Rightarrow> u8"
  ide_sector :: nat
  ide_media :: "nat \<Rightarrow> nat \<Rightarrow> u8"

subsection \<open>The device\<close>

definition ide_drive :: "ide \<Rightarrow> nat" where
  "ide_drive d = (if bit (ide_regs d 0x1F6) 4 then 1 else 0)"

definition ide_lba :: "ide \<Rightarrow> nat" where
  "ide_lba d = unat (ide_regs d 0x1F3) + 256 * unat (ide_regs d 0x1F4) + 65536 * unat (ide_regs d 0x1F5) +
     16777216 * unat (ide_regs d 0x1F6 AND 0x0F)"

text \<open>A write to the command register makes the addressed sector the current one.\<close>

definition ide_outb :: "nat \<Rightarrow> u8 \<Rightarrow> (ide, unit) op" where
  "ide_outb port v = modify (\<lambda>d.
     let d' = d\<lparr>ide_regs := (ide_regs d)(port := v)\<rparr>
     in if port = 0x1F7 then d'\<lparr>ide_sector := ide_lba d\<rparr> else d')"

definition ide_inb_status :: "(ide, u8) op" where
  "ide_inb_status = (\<lambda>d. Ret (shd (ide_status d)) (d\<lparr>ide_status := stl (ide_status d)\<rparr>))"

text \<open>\<^verbatim>\<open>insl\<close> and \<^verbatim>\<open>outsl\<close> of one sector.\<close>

definition ide_insl :: "(ide, u8 list) op" where
  "ide_insl = (\<lambda>d. Ret (map (ide_media d (ide_drive d)) [ide_sector d * SECTSIZE ..< (ide_sector d + 1) * SECTSIZE])
     (d\<lparr>ide_sector := ide_sector d + 1\<rparr>))"

definition put_bytes :: "nat \<Rightarrow> 'b list \<Rightarrow> (nat \<Rightarrow> 'b) \<Rightarrow> nat \<Rightarrow> 'b" where
  "put_bytes a bs m = (\<lambda>i. if a \<le> i \<and> i < a + length bs then bs ! (i - a) else m i)"

definition ide_outsl :: "u8 list \<Rightarrow> (ide, unit) op" where
  "ide_outsl bs = modify (\<lambda>d. d\<lparr>ide_sector := ide_sector d + 1,
     ide_media := (ide_media d)(ide_drive d :=
       put_bytes (ide_sector d * SECTSIZE) bs (ide_media d (ide_drive d)))\<rparr>)"

subsection \<open>The driver\<close>

partial_function (option) ide_ready :: "u8 stream \<Rightarrow> (u8 \<times> u8 stream) option" where
  "ide_ready st = (if shd st AND (IDE_BSY OR IDE_DRDY) \<noteq> IDE_DRDY then ide_ready (stl st)
                   else Some (shd st, stl st))"

definition ide_wait_ready :: "bool \<Rightarrow> (ide, u32) op" where
  "ide_wait_ready check_error = (\<lambda>d. case ide_ready (ide_status d) of
       None \<Rightarrow> Leave Spin_wait d
     | Some (r, st) \<Rightarrow> Ret (if check_error \<and> r AND (IDE_DF OR IDE_ERR) \<noteq> 0 then - 1 else 0)
                          (d\<lparr>ide_status := st\<rparr>))"

text \<open>The polling loop of \<^verbatim>\<open>ide_probe_disk1\<close>: \<open>n\<close> more tries; the result tells whether the drive answered.\<close>

primrec ide_probe :: "nat \<Rightarrow> (ide, bool) op" where
  "ide_probe 0 = ret False"
| "ide_probe (Suc n) =
     andthen ide_inb_status (\<lambda>r.
     if r AND (IDE_BSY OR (IDE_DF OR IDE_ERR)) \<noteq> 0 then ide_probe n else ret True)"

definition ide_probe_disk1 :: "(ide, bool) op" where
  "ide_probe_disk1 =
     andthen (ide_wait_ready False) (\<lambda>_.
     andthen (ide_outb 0x1F6 (0xE0 OR push_bit 4 1)) (\<lambda>_.
     andthen (ide_probe 1000) (\<lambda>found.
     andthen (ide_outb 0x1F6 (0xE0 OR push_bit 4 0)) (\<lambda>_.
     ret found))))"

definition ide_set_disk :: "u32 \<Rightarrow> (ide, unit) op" where
  "ide_set_disk d = (if d \<noteq> 0 \<and> d \<noteq> 1 then panic ''bad disk number'' else modify (\<lambda>s. s\<lparr>diskno := d\<rparr>))"

definition ide_command :: "u32 \<Rightarrow> nat \<Rightarrow> u8 \<Rightarrow> (ide, unit) op" where
  "ide_command secno nsecs cmd =
     andthen (ide_outb 0x1F2 (word_of_nat nsecs)) (\<lambda>_.
     andthen (ide_outb 0x1F3 (ucast (secno AND 0xFF))) (\<lambda>_.
     andthen (ide_outb 0x1F4 (ucast (drop_bit 8 secno AND 0xFF))) (\<lambda>_.
     andthen (ide_outb 0x1F5 (ucast (drop_bit 16 secno AND 0xFF))) (\<lambda>_.
     andthen (\<lambda>d. ide_outb 0x1F6 (ucast (0xE0 OR (push_bit 4 (diskno d AND 1) OR (drop_bit 24 secno AND 0x0F)))) d) (\<lambda>_.
     ide_outb 0x1F7 cmd)))))"

primrec ide_read_sectors :: "nat \<Rightarrow> (ide, u32 \<times> u8 list) op" where
  "ide_read_sectors 0 = ret (0, [])"
| "ide_read_sectors (Suc n) =
     andthen (ide_wait_ready True) (\<lambda>r.
     if sint r < 0 then ret (r, [])
     else andthen ide_insl (\<lambda>bs.
          andthen (ide_read_sectors n) (\<lambda>(r, rest). ret (r, bs @ rest))))"

primrec ide_write_sectors :: "nat \<Rightarrow> u8 list \<Rightarrow> (ide, u32) op" where
  "ide_write_sectors 0 src = ret 0"
| "ide_write_sectors (Suc n) src =
     andthen (ide_wait_ready True) (\<lambda>r.
     if sint r < 0 then ret r
     else andthen (ide_outsl (take SECTSIZE src)) (\<lambda>_. ide_write_sectors n (drop SECTSIZE src)))"

text \<open>The result of \<open>ide_read\<close> is the return value and the bytes stored at \<^verbatim>\<open>dst\<close>.\<close>

definition ide_read :: "u32 \<Rightarrow> nat \<Rightarrow> (ide, u32 \<times> u8 list) op" where
  "ide_read secno nsecs =
     andthen (check (nsecs \<le> 256) ''assertion failed'') (\<lambda>_.
     andthen (ide_wait_ready False) (\<lambda>_.
     andthen (ide_command secno nsecs 0x20) (\<lambda>_.
     ide_read_sectors nsecs)))"

definition ide_write :: "u32 \<Rightarrow> u8 list \<Rightarrow> nat \<Rightarrow> (ide, u32) op" where
  "ide_write secno src nsecs =
     andthen (check (nsecs \<le> 256) ''assertion failed'') (\<lambda>_.
     andthen (ide_wait_ready False) (\<lambda>_.
     andthen (ide_command secno nsecs 0x30) (\<lambda>_.
     ide_write_sectors nsecs src)))"

subsection \<open>Correctness on a working device\<close>

text \<open>
  A working device reports no error and, at any time, gets ready at some later time.
\<close>

definition ready_status :: "u8 \<Rightarrow> bool" where
  "ready_status r \<longleftrightarrow> r AND (IDE_BSY OR IDE_DRDY) = IDE_DRDY"

definition working :: "u8 stream \<Rightarrow> bool" where
  "working st \<longleftrightarrow> (\<forall>n. \<exists>m. ready_status (snth st (n + m))) \<and> (\<forall>n. snth st n AND (IDE_DF OR IDE_ERR) = 0)"

lemma working_sdrop: "working st \<Longrightarrow> working (sdrop k st)"
proof -
  assume w: "working st"
  have "\<exists>m. ready_status (snth (sdrop k st) (n + m))" for n
    using w by (simp add: working_def sdrop_snth add.assoc [symmetric])
  then show ?thesis using w by (simp add: working_def sdrop_snth)
qed

lemma ide_ready_after: "ready_status (snth st m) \<Longrightarrow> \<exists>k. ide_ready st = Some (snth st k, sdrop (Suc k) st)"
proof (induction m arbitrary: st)
  case 0
  then show ?case
    by (intro exI [of _ 0]) (simp add: ide_ready.simps [of st] ready_status_def)
next
  case (Suc m)
  show ?case
  proof (cases "ready_status (shd st)")
    case True
    then show ?thesis by (intro exI [of _ 0]) (simp add: ide_ready.simps [of st] ready_status_def)
  next
    case False
    obtain k where "ide_ready (stl st) = Some (snth (stl st) k, sdrop (Suc k) (stl st))"
      using Suc.IH [of "stl st"] Suc.prems by auto
    then show ?thesis using False
      by (intro exI [of _ "Suc k"]) (simp add: ide_ready.simps [of st] ready_status_def)
  qed
qed

lemma wait_ready_working:
  assumes "working (ide_status d)"
  obtains st where "ide_wait_ready chk d = Ret 0 (d\<lparr>ide_status := st\<rparr>)" "working st"
proof -
  obtain m where "ready_status (snth (ide_status d) m)" using assms by (auto simp: working_def)
  then obtain k where k: "ide_ready (ide_status d) = Some (snth (ide_status d) k, sdrop (Suc k) (ide_status d))"
    using ide_ready_after by blast
  moreover have "snth (ide_status d) k AND (IDE_DF OR IDE_ERR) = 0" using assms by (simp add: working_def)
  ultimately show thesis
    by (intro that [of "sdrop (Suc k) (ide_status d)"] working_sdrop assms) (simp add: ide_wait_ready_def)
qed

text \<open>The four address bytes hold the low 28 bits of the sector number.\<close>

lemma lba_bytes:
  assumes "unat (w :: u32) < 2 ^ 28"
  shows "unat (ucast (w AND 0xFF) :: u8) + 256 * unat (ucast (drop_bit 8 w AND 0xFF) :: u8) +
     65536 * unat (ucast (drop_bit 16 w AND 0xFF) :: u8) + 16777216 * (unat (drop_bit 24 w AND 0x0F)) = unat w"
proof -
  have m: "unat (x AND 0xFF) = unat x mod 256" "unat (x AND 0x0F) = unat x mod 16" for x :: u32
    using and_mask_mod [of x 8] and_mask_mod [of x 4] by (simp_all add: mask_eq_exp_minus_1)
  have "unat w div 16777216 < 16" using assms by (simp add: div_less_iff_less_mult)
  moreover have "unat w div 256 = unat w div 256 mod 256 + 256 * (unat w div 65536)"
    "unat w div 65536 = unat w div 65536 mod 256 + 256 * (unat w div 16777216)"
    by (simp_all add: div_mult2_eq [of _ 256 256, simplified] div_mult2_eq [of _ 65536 256, simplified])
  then have "unat w = unat w mod 256 + 256 * (unat w div 256 mod 256) + 65536 * (unat w div 65536 mod 256) +
      16777216 * (unat w div 16777216)"
    using mod_mult_div_eq [of "unat w" 256] by linarith
  ultimately show ?thesis
    by (simp add: m unat_ucast8 drop_bit_eq_div unat_div)
qed

lemma drive_byte:
  fixes x b :: u32
  assumes "unat x < 16" and "b = 0 \<or> b = 1"
  shows "(ucast (0xE0 OR (push_bit 4 b OR x)) :: u8) AND 0x0F = ucast x"
    and "bit (ucast (0xE0 OR (push_bit 4 b OR x)) :: u8) 4 \<longleftrightarrow> b = 1"
proof -
  have "unat x \<in> set [0 ..< 16]" using assms(1) by simp
  then have "word_of_nat (unat x) \<in> set (map (word_of_nat :: nat \<Rightarrow> u32) [0 ..< 16])" by (simp only: set_map image_eqI)
  then have "x \<in> set (map word_of_nat [0 ..< 16])" by simp
  then have "x \<in> {0, 1, 2, 3, 4, 5, 6, 7, 8, 9, 10, 11, 12, 13, 14, 15}" by (simp add: upt_rec)
  then show "(ucast (0xE0 OR (push_bit 4 b OR x)) :: u8) AND 0x0F = ucast x"
    "bit (ucast (0xE0 OR (push_bit 4 b OR x)) :: u8) 4 \<longleftrightarrow> b = 1"
    using assms(2) by auto
qed

lemma ide_command_working:
  assumes "unat secno < 2 ^ 28"
  obtains rg where "ide_command secno n cmd d = Ret () (d\<lparr>ide_regs := rg, ide_sector := unat secno\<rparr>)"
    "\<And>d'. ide_regs d' = rg \<Longrightarrow> ide_drive d' = unat (diskno d AND 1)"
proof -
  let ?b = "diskno d AND 1" and ?x = "drop_bit 24 secno AND 0x0F"
  define v :: u8 where "v = ucast (0xE0 OR (push_bit 4 ?b OR ?x))"
  have x: "unat ?x < 16" using and_mask_mod [of "drop_bit 24 secno" 4] by (simp add: mask_eq_exp_minus_1)
  have b: "?b = 0 \<or> ?b = 1" by (simp add: and_one_eq mod_2_eq_odd)
  note D = drive_byte [OF x b, folded v_def]
  have ux: "unat (v AND 0x0F) = unat ?x" using x by (simp add: D(1) unat_ucast8)
  define rg where "rg = (ide_regs d)(0x1F2 := word_of_nat n, 0x1F3 := ucast (secno AND 0xFF),
    0x1F4 := ucast (drop_bit 8 secno AND 0xFF), 0x1F5 := ucast (drop_bit 16 secno AND 0xFF), 0x1F6 := v)"
  have l: "ide_lba (d\<lparr>ide_regs := rg\<rparr>) = unat secno"
    using lba_bytes [OF assms] ux unfolding ide_lba_def rg_def by simp
  have "ide_command secno n cmd d = ide_outb 0x1F7 cmd (d\<lparr>ide_regs := rg\<rparr>)"
    by (simp add: ide_command_def ide_outb_def rg_def v_def)
  then have "ide_command secno n cmd d = Ret () (d\<lparr>ide_regs := rg(0x1F7 := cmd), ide_sector := unat secno\<rparr>)"
    by (simp add: ide_outb_def l)
  moreover have "ide_drive d' = unat ?b" if "ide_regs d' = rg(0x1F7 := cmd)" for d' :: ide
    using that D(2) b by (auto simp: ide_drive_def rg_def)
  ultimately show thesis by (rule that)
qed

lemma ide_read_sectors_working:
  assumes "working (ide_status d)"
  shows "\<exists>st. ide_read_sectors n d =
      Ret (0, map (ide_media d (ide_drive d)) [ide_sector d * SECTSIZE ..< (ide_sector d + n) * SECTSIZE])
        (d\<lparr>ide_status := st, ide_sector := ide_sector d + n\<rparr>) \<and> working st"
  using assms
proof (induction n arbitrary: d)
  case 0
  then show ?case by (intro exI [of _ "ide_status d"]) simp
next
  case (Suc n)
  obtain st where st: "ide_wait_ready True d = Ret 0 (d\<lparr>ide_status := st\<rparr>)" "working st"
    using wait_ready_working [OF Suc.prems] .
  let ?d = "d\<lparr>ide_status := st, ide_sector := ide_sector d + 1\<rparr>"
  obtain st' where st': "ide_read_sectors n ?d =
      Ret (0, map (ide_media d (ide_drive ?d)) [(ide_sector d + 1) * SECTSIZE ..< (ide_sector d + 1 + n) * SECTSIZE])
        (?d\<lparr>ide_status := st', ide_sector := ide_sector d + 1 + n\<rparr>)" "working st'"
    using Suc.IH [of ?d] st(2) by auto
  have dr: "ide_drive (d\<lparr>ide_status := x\<rparr>) = ide_drive d" "ide_drive ?d = ide_drive d" for x
    by (simp_all add: ide_drive_def)
  have "[ide_sector d * SECTSIZE ..< (ide_sector d + Suc n) * SECTSIZE] =
      [ide_sector d * SECTSIZE ..< (ide_sector d + 1) * SECTSIZE] @
      [(ide_sector d + 1) * SECTSIZE ..< (ide_sector d + 1 + n) * SECTSIZE]"
    using upt_add_eq_append [of "ide_sector d * SECTSIZE" "(ide_sector d + 1) * SECTSIZE" "n * SECTSIZE"]
    by (simp add: algebra_simps)
  then show ?case using st st' dr by (intro exI [of _ st']) (simp add: ide_insl_def)
qed

lemma put_bytes_append: "put_bytes a (xs @ ys) m = put_bytes (a + length xs) ys (put_bytes a xs m)"
  by (auto simp: put_bytes_def fun_eq_iff nth_append)

lemma put_bytes_Nil [simp]: "put_bytes a [] m = m"
  by (auto simp: put_bytes_def fun_eq_iff)

lemma ide_write_sectors_working:
  assumes "working (ide_status d)" and "length src = n * SECTSIZE"
  shows "\<exists>st. ide_write_sectors n src d =
      Ret 0 (d\<lparr>ide_status := st, ide_sector := ide_sector d + n, ide_media := (ide_media d)(ide_drive d :=
        put_bytes (ide_sector d * SECTSIZE) src (ide_media d (ide_drive d)))\<rparr>) \<and> working st"
  using assms
proof (induction n arbitrary: d src)
  case 0
  then show ?case by (intro exI [of _ "ide_status d"]) simp
next
  case (Suc n)
  obtain st where st: "ide_wait_ready True d = Ret 0 (d\<lparr>ide_status := st\<rparr>)" "working st"
    using wait_ready_working [OF Suc.prems(1)] .
  let ?l = "take SECTSIZE src" and ?r = "drop SECTSIZE src"
  have l: "length ?l = SECTSIZE" "length ?r = n * SECTSIZE" using Suc.prems(2) by simp_all
  define d1 where "d1 = d\<lparr>ide_status := st, ide_sector := ide_sector d + 1, ide_media := (ide_media d)(ide_drive d :=
        put_bytes (ide_sector d * SECTSIZE) ?l (ide_media d (ide_drive d)))\<rparr>"
  have dr: "ide_drive (d\<lparr>ide_status := x\<rparr>) = ide_drive d" "ide_drive d1 = ide_drive d" for x
    by (simp_all add: ide_drive_def d1_def)
  have "ide_status d1 = st" by (simp add: d1_def)
  then obtain st' where st': "ide_write_sectors n ?r d1 = Ret 0 (d1\<lparr>ide_status := st', ide_sector := ide_sector d1 + n,
      ide_media := (ide_media d1)(ide_drive d := put_bytes (ide_sector d1 * SECTSIZE) ?r (ide_media d1 (ide_drive d)))\<rparr>)"
      "working st'"
    using Suc.IH [of d1 ?r] st(2) l(2) unfolding dr by blast
  have p: "put_bytes (ide_sector d * SECTSIZE) src m = put_bytes (ide_sector d1 * SECTSIZE) ?r
      (put_bytes (ide_sector d * SECTSIZE) ?l m)" for m :: "nat \<Rightarrow> u8"
    using put_bytes_append [of "ide_sector d * SECTSIZE" ?l ?r m] l(1) by (simp add: algebra_simps d1_def)
  have fin: "d1\<lparr>ide_status := st', ide_sector := ide_sector d1 + n, ide_media := (ide_media d1)(ide_drive d :=
        put_bytes (ide_sector d1 * SECTSIZE) ?r (ide_media d1 (ide_drive d)))\<rparr> =
      d\<lparr>ide_status := st', ide_sector := ide_sector d + Suc n, ide_media := (ide_media d)(ide_drive d :=
        put_bytes (ide_sector d * SECTSIZE) src (ide_media d (ide_drive d)))\<rparr>"
    unfolding p by (simp add: d1_def)
  have "ide_write_sectors (Suc n) src d = ide_write_sectors n ?r d1"
    using st(1) dr(1) by (simp add: ide_outsl_def d1_def)
  from trans [OF this st'(1) [unfolded fin]] show ?case using st'(2) by blast
qed

lemma ide_read_working:
  assumes "working (ide_status d)" and "unat secno < 2 ^ 28" and "n \<le> 256"
  obtains d' where "ide_read secno n d = Ret (0, map (ide_media d (unat (diskno d AND 1)))
      [unat secno * SECTSIZE ..< (unat secno + n) * SECTSIZE]) d'"
    "working (ide_status d')" "ide_media d' = ide_media d" "diskno d' = diskno d"
proof -
  obtain st where st: "ide_wait_ready False d = Ret 0 (d\<lparr>ide_status := st\<rparr>)" "working st"
    using wait_ready_working [OF assms(1)] .
  obtain rg where rg: "ide_command secno n 0x20 (d\<lparr>ide_status := st\<rparr>) =
      Ret () (d\<lparr>ide_status := st, ide_regs := rg, ide_sector := unat secno\<rparr>)"
      "\<And>d'. ide_regs d' = rg \<Longrightarrow> ide_drive d' = unat (diskno (d\<lparr>ide_status := st\<rparr>) AND 1)"
    using ide_command_working [OF assms(2), of n "0x20" "d\<lparr>ide_status := st\<rparr>"] by auto
  let ?d = "d\<lparr>ide_status := st, ide_regs := rg, ide_sector := unat secno\<rparr>"
  have "ide_drive ?d = unat (diskno d AND 1)" using rg(2) [of ?d] by simp
  then obtain st' where "ide_read_sectors n ?d = Ret (0, map (ide_media d (unat (diskno d AND 1)))
      [unat secno * SECTSIZE ..< (unat secno + n) * SECTSIZE])
      (?d\<lparr>ide_status := st', ide_sector := unat secno + n\<rparr>)" "working st'"
    using ide_read_sectors_working [of ?d n] st(2) by auto
  then show thesis using st rg(1) assms(3)
    by (intro that [of "?d\<lparr>ide_status := st', ide_sector := unat secno + n\<rparr>"]) (simp_all add: ide_read_def)
qed

lemma ide_write_working:
  assumes "working (ide_status d)" and "unat secno < 2 ^ 28" and "n \<le> 256" and "length src = n * SECTSIZE"
  obtains d' where "ide_write secno src n d = Ret 0 d'" "working (ide_status d')" "diskno d' = diskno d"
    "ide_media d' = (ide_media d)(unat (diskno d AND 1) :=
      put_bytes (unat secno * SECTSIZE) src (ide_media d (unat (diskno d AND 1))))"
proof -
  obtain st where st: "ide_wait_ready False d = Ret 0 (d\<lparr>ide_status := st\<rparr>)" "working st"
    using wait_ready_working [OF assms(1)] .
  obtain rg where rg: "ide_command secno n 0x30 (d\<lparr>ide_status := st\<rparr>) =
      Ret () (d\<lparr>ide_status := st, ide_regs := rg, ide_sector := unat secno\<rparr>)"
      "\<And>d'. ide_regs d' = rg \<Longrightarrow> ide_drive d' = unat (diskno (d\<lparr>ide_status := st\<rparr>) AND 1)"
    using ide_command_working [OF assms(2), of n "0x30" "d\<lparr>ide_status := st\<rparr>"] by auto
  let ?d = "d\<lparr>ide_status := st, ide_regs := rg, ide_sector := unat secno\<rparr>" and ?k = "unat (diskno d AND 1)"
  let ?d' = "\<lambda>st'. ?d\<lparr>ide_status := st', ide_sector := unat secno + n,
      ide_media := (ide_media d)(?k := put_bytes (unat secno * SECTSIZE) src (ide_media d ?k))\<rparr>"
  have dr: "ide_drive ?d = ?k" using rg(2) [of ?d] by simp
  have "\<exists>st'. ide_write_sectors n src ?d = Ret 0 (?d' st') \<and> working st'"
    using ide_write_sectors_working [of ?d src n] st(2) assms(4) unfolding dr by simp
  then obtain st' where "ide_write_sectors n src ?d = Ret 0 (?d' st')" "working st'" by blast
  then show thesis using st rg(1) assms(3)
    by (intro that [of "?d' st'"]) (simp_all add: ide_write_def)
qed

end
