(* ===== verification/Fs_Bc.thy ===== *)
theory Fs_Bc
  imports Fs_Ide
begin

text \<open>
  The block cache of the file server (\<^verbatim>\<open>fs/bc.c\<close>). The disk is mapped at \<^verbatim>\<open>DISKMAP\<close>; an address
  in that region is represented by its distance from \<^verbatim>\<open>DISKMAP\<close>, so block \<open>b\<close> occupies the addresses
  from \<open>b * BLKSIZE\<close>. An access to a page that is not present raises a page fault, whose handler loads the
  block. The handler itself reads the super block and the bitmap and may fault again; the exception
  stack bounds the nesting, and three levels are enough: a data block, its bitmap block, and the first
  bitmap block.
\<close>

unbundle bit_operations_syntax

definition BLKSIZE :: nat where "BLKSIZE = 4096"
definition BLKSECTS :: nat where "BLKSECTS = BLKSIZE div SECTSIZE"
definition DISKSIZE :: nat where "DISKSIZE = 0xC0000000"

text \<open>
  The server's state: the disk, the bytes of the cached pages with the present and dirty bits of their
  page table entries, whether \<^verbatim>\<open>super\<close> and \<^verbatim>\<open>bitmap\<close> have been set, how many pages the kernel
  can still give to the server, and the bytes of the page with the client's request.
\<close>

record fs =
  fs_ide :: ide
  fs_cache :: "nat \<Rightarrow> u8"
  fs_present :: "nat \<Rightarrow> bool"
  fs_dirty :: "nat \<Rightarrow> bool"
  fs_super :: bool
  fs_bitmap :: bool
  fs_frames :: nat
  fs_req :: "nat \<Rightarrow> u8"

definition on_ide :: "(ide, 'a) op \<Rightarrow> (fs, 'a) op" where
  "on_ide m = (\<lambda>s. case m (fs_ide s) of
       Ret a d \<Rightarrow> Ret a (s\<lparr>fs_ide := d\<rparr>)
     | Panic msg \<Rightarrow> Panic msg
     | Leave k d \<Rightarrow> Leave k (s\<lparr>fs_ide := d\<rparr>))"

definition va_is_mapped :: "fs \<Rightarrow> nat \<Rightarrow> bool" where
  "va_is_mapped s va = fs_present s (va div BLKSIZE)"

definition va_is_dirty :: "fs \<Rightarrow> nat \<Rightarrow> bool" where
  "va_is_dirty s va = fs_dirty s (va div BLKSIZE)"

subsection \<open>Loads through the cache\<close>

text \<open>The parameter \<open>flt\<close> is the page fault handler, which gets the faulting address.\<close>

definition load_via :: "(nat \<Rightarrow> (fs, unit) op) \<Rightarrow> nat \<Rightarrow> (fs, u8) op" where
  "load_via flt va = (\<lambda>s.
     if va_is_mapped s va then Ret (fs_cache s va) s
     else andthen (flt va) (\<lambda>_. gets (\<lambda>s. fs_cache s va)) s)"

definition le_word :: "u8 \<Rightarrow> u8 \<Rightarrow> u8 \<Rightarrow> u8 \<Rightarrow> u32" where
  "le_word a b c d = ucast a OR (push_bit 8 (ucast b) OR (push_bit 16 (ucast c) OR push_bit 24 (ucast d)))"

definition load32_via :: "(nat \<Rightarrow> (fs, unit) op) \<Rightarrow> nat \<Rightarrow> (fs, u32) op" where
  "load32_via flt va =
     andthen (load_via flt va) (\<lambda>a.
     andthen (load_via flt (va + 1)) (\<lambda>b.
     andthen (load_via flt (va + 2)) (\<lambda>c.
     andthen (load_via flt (va + 3)) (\<lambda>d.
     ret (le_word a b c d)))))"

text \<open>\<^verbatim>\<open>super->s_nblocks\<close> and the words of the bitmap.\<close>

definition nblocks_addr :: nat where "nblocks_addr = BLKSIZE + 4"

definition bitmap_addr :: "u32 \<Rightarrow> nat" where
  "bitmap_addr blockno = 2 * BLKSIZE + 4 * unat (blockno div 32)"

definition block_is_free_via :: "(nat \<Rightarrow> (fs, unit) op) \<Rightarrow> u32 \<Rightarrow> (fs, bool) op" where
  "block_is_free_via flt blockno =
     andthen (gets fs_super) (\<lambda>super.
     if \<not> super then ret False
     else andthen (load32_via flt nblocks_addr) (\<lambda>nblocks.
       if nblocks \<le> blockno then ret False
       else andthen (gets fs_bitmap) (\<lambda>bm.
         if \<not> bm then panic ''page fault in FS''
         else andthen (load32_via flt (bitmap_addr blockno)) (\<lambda>w.
           ret (w AND push_bit (unat (blockno mod 32)) 1 \<noteq> 0)))))"

primrec bc_pgfault :: "nat \<Rightarrow> nat \<Rightarrow> (fs, unit) op" where
  "bc_pgfault 0 va = panic ''exception stack overflow''"
| "bc_pgfault (Suc n) va =
     (let blockno = word_of_nat (va div BLKSIZE); base = va div BLKSIZE * BLKSIZE in
      if DISKSIZE \<le> va then panic ''page fault in FS''
      else
        andthen (gets fs_super) (\<lambda>super.
        andthen (if super
                 then andthen (load32_via (bc_pgfault n) nblocks_addr) (\<lambda>nblocks.
                      check (\<not> nblocks \<le> blockno) ''reading non-existent block'')
                 else ret ()) (\<lambda>_.
        andthen (gets fs_frames) (\<lambda>frames.
        if frames = 0 then panic ''bc_pgfault failed: sys_page_alloc''
        else
          andthen (modify (\<lambda>s. s\<lparr>fs_frames := frames - 1, fs_present := (fs_present s)(va div BLKSIZE := True)\<rparr>)) (\<lambda>_.
          andthen (on_ide (ide_read (blockno * word_of_nat BLKSECTS) BLKSECTS)) (\<lambda>(r, bs).
          andthen (modify (\<lambda>s. s\<lparr>fs_cache := put_bytes base bs (fs_cache s)\<rparr>)) (\<lambda>_.
          if sint r < 0 then panic ''bc_pgfault failed: ide_read''
          else
            andthen (modify (\<lambda>s. s\<lparr>fs_dirty := (fs_dirty s)(va div BLKSIZE := False)\<rparr>)) (\<lambda>_.
            andthen (gets fs_bitmap) (\<lambda>bm.
            if \<not> bm then ret ()
            else andthen (block_is_free_via (bc_pgfault n) blockno) (\<lambda>free.
                 check (\<not> free) ''reading free block''))))))))))"

definition load_byte :: "nat \<Rightarrow> (fs, u8) op" where
  "load_byte = load_via (bc_pgfault 3)"

definition load_word :: "nat \<Rightarrow> (fs, u32) op" where
  "load_word = load32_via (bc_pgfault 3)"

definition block_is_free :: "u32 \<Rightarrow> (fs, bool) op" where
  "block_is_free = block_is_free_via (bc_pgfault 3)"

subsection \<open>Stores and write-back\<close>

definition store_byte :: "nat \<Rightarrow> u8 \<Rightarrow> (fs, unit) op" where
  "store_byte va b = (\<lambda>s.
     andthen (if va_is_mapped s va then ret () else bc_pgfault 3 va) (\<lambda>_.
     modify (\<lambda>s. s\<lparr>fs_cache := (fs_cache s)(va := b), fs_dirty := (fs_dirty s)(va div BLKSIZE := True)\<rparr>)) s)"

definition store_bytes :: "nat \<Rightarrow> u8 list \<Rightarrow> (fs, unit) op" where
  "store_bytes va bs = each (\<lambda>i. store_byte (va + i) (bs ! i)) [0 ..< length bs]"

definition word_bytes_le :: "u32 \<Rightarrow> u8 list" where
  "word_bytes_le w = [ucast w, ucast (drop_bit 8 w), ucast (drop_bit 16 w), ucast (drop_bit 24 w)]"

text \<open>An aligned word is stored by one instruction.\<close>

definition store_word :: "nat \<Rightarrow> u32 \<Rightarrow> (fs, unit) op" where
  "store_word va w = (\<lambda>s.
     andthen (if va_is_mapped s va then ret () else bc_pgfault 3 va) (\<lambda>_.
     modify (\<lambda>s. s\<lparr>fs_cache := put_bytes va (word_bytes_le w) (fs_cache s),
                    fs_dirty := (fs_dirty s)(va div BLKSIZE := True)\<rparr>)) s)"

definition load_bytes :: "nat \<Rightarrow> nat \<Rightarrow> (fs, u8 list) op" where
  "load_bytes va n = foldr (\<lambda>i m. andthen (load_byte (va + i)) (\<lambda>b. andthen m (\<lambda>bs. ret (b # bs)))) [0 ..< n] (ret [])"

definition diskaddr :: "u32 \<Rightarrow> (fs, nat) op" where
  "diskaddr blockno =
     (if blockno = 0 then panic ''bad block number in diskaddr''
      else andthen (gets fs_super) (\<lambda>super.
        andthen (if super
                 then andthen (load_word nblocks_addr) (\<lambda>nblocks.
                      check (\<not> nblocks \<le> blockno) ''bad block number in diskaddr'')
                 else ret ()) (\<lambda>_.
        ret (unat blockno * BLKSIZE))))"

definition flush_block :: "nat \<Rightarrow> (fs, unit) op" where
  "flush_block va =
     (if DISKSIZE \<le> va then panic ''flush_block of bad va''
      else (\<lambda>s.
        let b = va div BLKSIZE in
        if va_is_mapped s va \<and> va_is_dirty s va
        then andthen (on_ide (ide_write (word_of_nat b * word_of_nat BLKSECTS)
                        (map (fs_cache s) [b * BLKSIZE ..< (b + 1) * BLKSIZE]) BLKSECTS)) (\<lambda>r.
             if sint r < 0 then panic ''flush_block failed: ide_write''
             else modify (\<lambda>s. s\<lparr>fs_dirty := (fs_dirty s)(b := False)\<rparr>)) s
        else Ret () s))"

text \<open>\<^verbatim>\<open>sys_page_unmap\<close> of a cached page.\<close>

definition drop_page :: "nat \<Rightarrow> (fs, unit) op" where
  "drop_page va = modify (\<lambda>s. s\<lparr>fs_present := (fs_present s)(va div BLKSIZE := False),
     fs_frames := (if fs_present s (va div BLKSIZE) then fs_frames s + 1 else fs_frames s)\<rparr>)"

subsection \<open>The self test and the initialisation\<close>

definition sizeof_Super :: nat where "sizeof_Super = 264"

definition smashed :: "u8 list" where
  "smashed = map (\<lambda>c. word_of_nat (of_char c)) ''OOPS!'' @ [10, 0]"

text \<open>One of the two rounds of \<^verbatim>\<open>check_bc\<close>; they differ in the address flushed and in one assertion.\<close>

definition check_round :: "nat \<Rightarrow> bool \<Rightarrow> (fs, unit) op" where
  "check_round off check_dirty =
     andthen (diskaddr 1) (\<lambda>a.
     andthen (load_bytes a sizeof_Super) (\<lambda>backup.
     andthen (store_bytes a smashed) (\<lambda>_.
     andthen (flush_block (a + off)) (\<lambda>_.
     andthen (gets (\<lambda>s. va_is_mapped s a)) (\<lambda>m.
     andthen (check m ''assertion failed'') (\<lambda>_.
     andthen (gets (\<lambda>s. va_is_dirty s a)) (\<lambda>d.
     andthen (check (check_dirty \<longrightarrow> \<not> d) ''assertion failed'') (\<lambda>_.
     andthen (drop_page a) (\<lambda>_.
     andthen (gets (\<lambda>s. va_is_mapped s a)) (\<lambda>m.
     andthen (check (\<not> m) ''assertion failed'') (\<lambda>_.
     andthen (load_bytes a (length smashed)) (\<lambda>bs.
     andthen (check (bs = smashed) ''assertion failed'') (\<lambda>_.
     andthen (store_bytes a backup) (\<lambda>_.
     flush_block a))))))))))))))"

definition check_bc :: "(fs, unit) op" where
  "check_bc = andthen (check_round 0 True) (\<lambda>_. check_round 20 False)"

definition bc_init :: "(fs, unit) op" where
  "bc_init =
     andthen check_bc (\<lambda>_.
     andthen (diskaddr 1) (\<lambda>a.
     andthen (load_bytes a sizeof_Super) (\<lambda>_.
     ret ())))"

end
