(* ===== verification/JOS_Loops.thy ===== *)
theory JOS_Loops
  imports JOS_Types
begin

text \<open>
  Loops and signed arithmetic of the C code. A counting loop whose bound is evaluated again in every
  round, with a body that may return from the enclosing function, is one recursive function with a
  termination proof; signed division and remainder round towards zero.
\<close>

lemma andthen_cong [fundef_cong]:
  assumes "s = s'" and "m s' = m' s'" and "\<And>a t. m' s' = Ret a t \<Longrightarrow> f a t = f' a t"
  shows "andthen m f s = andthen m' f' s'"
  using assms by (simp add: andthen_def split: outcome.split)

text \<open>
  \<^verbatim>\<open>for (; i < bound; i++) body\<close> with unsigned \<open>i\<close>. The body's result \<open>Some r\<close> stands for
  \<^verbatim>\<open>return r\<close>; the loop's result is \<open>None\<close> when the bound is reached.
\<close>

function for_below :: "('s, u32) op \<Rightarrow> (u32 \<Rightarrow> ('s, 'r option) op) \<Rightarrow> u32 \<Rightarrow> 's \<Rightarrow> ('s, 'r option) outcome" where
  "for_below bound body i s =
     andthen bound (\<lambda>n s.
       if i < n
       then andthen (body i) (\<lambda>r s. case r of Some x \<Rightarrow> Ret (Some x) s | None \<Rightarrow> for_below bound body (i + 1) s) s
       else Ret None s) s"
  by pat_completeness auto

lemma unat_Suc_less: "(i :: u32) < n \<Longrightarrow> unat (i + 1) = unat i + 1"
  using unat_lt_4G [of n] by (simp add: unat_word_ariths word_less_nat_alt)

termination for_below
proof (relation "measure (\<lambda>(_, _, i, _). 4294967296 - unat i)")
  show "wf (measure (\<lambda>(_, _, i :: u32, _). 4294967296 - unat i))" by simp
next
  fix i n :: u32
  assume "i < n"
  then have "unat (i + 1) = unat i + 1" by (rule unat_Suc_less)
  then show "((bound, body, i + 1, t), bound, body, i, s) \<in> measure (\<lambda>(_, _, i, _). 4294967296 - unat i)"
    for bound :: "('s, u32) op" and body :: "u32 \<Rightarrow> ('s, 'r option) op" and s t :: 's
    using unat_lt_4G [of i] by simp
qed

declare for_below.simps [simp del]

lemma for_below_step:
  "bound s = Ret n t \<Longrightarrow> i < n \<Longrightarrow> body i t = Ret None u \<Longrightarrow> for_below bound body i s = for_below bound body (i + 1) u"
  "bound s = Ret n t \<Longrightarrow> i < n \<Longrightarrow> body i t = Ret (Some x) u \<Longrightarrow> for_below bound body i s = Ret (Some x) u"
  "bound s = Ret n t \<Longrightarrow> \<not> i < n \<Longrightarrow> for_below bound body i s = Ret None t"
  by (subst for_below.simps, simp)+

text \<open>A loop that never returns early, with an invariant indexed by the counter.\<close>

lemma for_below_inv:
  assumes "I (unat i) s" and "unat i \<le> n" and "n < 4294967296"
    and bound: "\<And>j s. I j s \<Longrightarrow> \<exists>t. bound s = Ret (word_of_nat n) t \<and> I j t"
    and body: "\<And>j s. I (unat j) s \<Longrightarrow> unat j < n \<Longrightarrow> \<exists>t. body j s = Ret None t \<and> I (unat j + 1) t"
  shows "\<exists>t. for_below bound body i s = Ret None t \<and> I n t"
  using assms(1,2)
proof (induction "n - unat i" arbitrary: i s)
  case 0
  obtain t where t: "bound s = Ret (word_of_nat n) t" "I (unat i) t" using bound 0(2) by blast
  have n: "unat (word_of_nat n :: u32) = n" using assms(3) by (simp add: unat_of_nat)
  have "unat i = n" using 0 by simp
  then show ?case using for_below_step(3) [where bound = bound and n = "word_of_nat n" and i = i, OF t(1)] t(2) n
    by (auto simp: word_less_nat_alt)
next
  case (Suc k)
  obtain t where t: "bound s = Ret (word_of_nat n) t" "I (unat i) t" using bound Suc(3) by blast
  have i: "unat i < n" using Suc(2) by simp
  obtain u where u: "body i t = Ret None u" "I (unat i + 1) u" using body [OF t(2) i] by blast
  have lt: "i < word_of_nat n" using i assms(3) by (simp add: word_less_nat_alt unat_of_nat)
  have s: "unat (i + 1) = unat i + 1" by (rule unat_Suc_less [OF lt])
  have "\<exists>t. for_below bound body (i + 1) u = Ret None t \<and> I n t"
    using Suc(1) [of "i + 1" u] Suc(2) u(2) i s by simp
  then show ?case using for_below_step(1) [where bound = bound and body = body, OF t(1) lt u(1)] by simp
qed

subsection \<open>Signed division\<close>

definition int_div :: "u32 \<Rightarrow> nat \<Rightarrow> u32" where
  "int_div a b = word_of_int (if sint a < 0 then - (- sint a div int b) else sint a div int b)"

definition int_mod :: "u32 \<Rightarrow> nat \<Rightarrow> int" where
  "int_mod a b = (if sint a < 0 then - (- sint a mod int b) else sint a mod int b)"

lemma sint_small: "unat (a :: u32) < 2147483648 \<Longrightarrow> sint a = int (unat a)"
proof -
  assume "unat a < 2147483648"
  then have "uint a < 2147483648" by (metis of_nat_less_numeral_iff uint_nat)
  moreover have "0 \<le> uint a" by simp
  then have "- 2147483648 \<le> uint a" by linarith
  ultimately show ?thesis by (simp add: sint_uint signed_take_bit_int_eq_self_iff)
qed

lemma int_div_small: "unat a < 2147483648 \<Longrightarrow> unat (int_div a b) = unat a div b"
proof -
  assume a: "unat a < 2147483648"
  have "int_div a b = word_of_nat (unat a div b)"
    using a by (simp add: int_div_def sint_small) (metis of_int_of_nat_eq uint_nat unat_div word_div_def zdiv_int)
  moreover have "unat a div b < 4294967296" using a div_le_dividend [of "unat a" b] by linarith
  ultimately show ?thesis by (simp add: unat_of_nat)
qed

lemma int_mod_small: "unat a < 2147483648 \<Longrightarrow> int_mod a b = int (unat a mod b)"
  by (simp add: int_mod_def sint_small zmod_int)

end
