(* ===== verification/Fs_Fs.thy ===== *)
theory Fs_Fs
  imports Fs_Bc JOS_Loops
begin

text \<open>
  The file system proper (\<^verbatim>\<open>fs/fs.c\<close>): the free-block bitmap, the block pointers of a file,
  directories and paths, and the operations on files. A pointer to a \<^verbatim>\<open>struct File\<close> is the address of
  the structure in the disk map. A function that stores a pointer through an argument and returns 0, or
  returns a negative error code, has a result \<open>Inr pointer\<close> or \<open>Inl code\<close>. A string is the list of its
  characters, without the final zero. The buffers of \<^verbatim>\<open>file_read\<close> and \<^verbatim>\<open>file_write\<close> lie in memory
  outside the disk map and are given by the operations \<open>put\<close> and \<open>get\<close> on them.
\<close>

unbundle bit_operations_syntax

subsection \<open>Layout of the structures on disk\<close>

definition MAXNAMELEN :: nat where "MAXNAMELEN = 128"
definition MAXPATHLEN :: nat where "MAXPATHLEN = 1024"
definition NDIRECT :: nat where "NDIRECT = 10"
definition NINDIRECT :: nat where "NINDIRECT = BLKSIZE div 4"
definition MAXFILESIZE :: nat where "MAXFILESIZE = (NDIRECT + NINDIRECT) * BLKSIZE"
definition BLKBITSIZE :: nat where "BLKBITSIZE = BLKSIZE * 8"
definition sizeof_File :: nat where "sizeof_File = 256"
definition BLKFILES :: nat where "BLKFILES = BLKSIZE div sizeof_File"
definition FTYPE_REG :: u32 where "FTYPE_REG = 0"
definition FTYPE_DIR :: u32 where "FTYPE_DIR = 1"
definition FS_MAGIC :: u32 where "FS_MAGIC = 0x4A0530AE"

definition f_name :: "nat \<Rightarrow> nat" where "f_name f = f"
definition f_size :: "nat \<Rightarrow> nat" where "f_size f = f + MAXNAMELEN"
definition f_type :: "nat \<Rightarrow> nat" where "f_type f = f + MAXNAMELEN + 4"
definition f_direct :: "nat \<Rightarrow> nat" where "f_direct f = f + MAXNAMELEN + 8"
definition f_indirect :: "nat \<Rightarrow> nat" where "f_indirect f = f + MAXNAMELEN + 8 + 4 * NDIRECT"

definition s_magic :: nat where "s_magic = BLKSIZE"
definition s_root :: nat where "s_root = BLKSIZE + 8"

subsection \<open>Super block and bitmap\<close>

definition check_super :: "(fs, unit) op" where
  "check_super =
     andthen (load_word s_magic) (\<lambda>magic.
     andthen (check (magic = FS_MAGIC) ''bad file system magic number'') (\<lambda>_.
     andthen (load_word nblocks_addr) (\<lambda>n.
     check (\<not> word_of_nat (DISKSIZE div BLKSIZE) < n) ''file system is too large'')))"

definition free_block :: "u32 \<Rightarrow> (fs, unit) op" where
  "free_block blockno =
     (if blockno = 0 then panic ''attempt to free zero block''
      else andthen (load_word (bitmap_addr blockno)) (\<lambda>w.
           store_word (bitmap_addr blockno) (w OR push_bit (unat (blockno mod 32)) 1)))"

text \<open>The body of the loop of \<^verbatim>\<open>alloc_block\<close>.\<close>

definition alloc_try :: "u32 \<Rightarrow> (fs, u32 option) op" where
  "alloc_try blockno =
     andthen (block_is_free blockno) (\<lambda>free.
     if free
     then andthen (load_word (bitmap_addr blockno)) (\<lambda>w.
          andthen (store_word (bitmap_addr blockno) (w AND NOT (push_bit (unat (blockno mod 32)) 1))) (\<lambda>_.
          andthen (flush_block (bitmap_addr blockno)) (\<lambda>_.
          ret (Some blockno))))
     else ret None)"

definition alloc_block :: "(fs, u32) op" where
  "alloc_block =
     andthen (for_below (load_word nblocks_addr) alloc_try 1) (\<lambda>r.
     ret (case r of Some b \<Rightarrow> b | None \<Rightarrow> err E_NO_DISK))"

text \<open>The bitmap has few blocks, so the product in the loop condition of \<^verbatim>\<open>check_bitmap\<close> does not wrap
  before the loop ends unless \<^verbatim>\<open>s_nblocks\<close> exceeds what \<^verbatim>\<open>check_super\<close> admits.\<close>

definition check_bitmap :: "(fs, unit) op" where
  "check_bitmap =
     andthen (for_below (andthen (load_word nblocks_addr) (\<lambda>n. ret (word_of_nat ((unat n + BLKBITSIZE - 1) div BLKBITSIZE)))) (\<lambda>i.
       andthen (block_is_free (2 + i)) (\<lambda>free.
       andthen (check (\<not> free) ''assertion failed'') (\<lambda>_. ret (None :: unit option)))) 0) (\<lambda>_.
     andthen (block_is_free 0) (\<lambda>free.
     andthen (check (\<not> free) ''assertion failed'') (\<lambda>_.
     andthen (block_is_free 1) (\<lambda>free.
     check (\<not> free) ''assertion failed''))))"

definition fs_init :: "(fs, unit) op" where
  "fs_init =
     andthen (on_ide ide_probe_disk1) (\<lambda>found.
     andthen (on_ide (if found then ide_set_disk 1 else ide_set_disk 0)) (\<lambda>_.
     andthen bc_init (\<lambda>_.
     andthen (diskaddr 1) (\<lambda>_.
     andthen (modify (\<lambda>s. s\<lparr>fs_super := True\<rparr>)) (\<lambda>_.
     andthen check_super (\<lambda>_.
     andthen (diskaddr 2) (\<lambda>_.
     andthen (modify (\<lambda>s. s\<lparr>fs_bitmap := True\<rparr>)) (\<lambda>_.
     check_bitmap))))))))"

subsection \<open>The blocks of a file\<close>

definition clear_block :: "u32 \<Rightarrow> (fs, unit) op" where
  "clear_block bno =
     andthen (diskaddr bno) (\<lambda>a.
     andthen (store_bytes a (replicate BLKSIZE 0)) (\<lambda>_.
     andthen (diskaddr bno) flush_block))"

definition file_block_walk :: "nat \<Rightarrow> u32 \<Rightarrow> bool \<Rightarrow> (fs, u32 + nat) op" where
  "file_block_walk f filebno alloc =
     (if NDIRECT + NINDIRECT \<le> unat filebno then ret (Inl (err E_INVAL))
      else if unat filebno < NDIRECT then ret (Inr (f_direct f + 4 * unat filebno))
      else andthen (load_word (f_indirect f)) (\<lambda>ind.
        if ind \<noteq> 0
        then andthen (diskaddr ind) (\<lambda>a. ret (Inr (a + 4 * (unat filebno - NDIRECT))))
        else if \<not> alloc then ret (Inl (err E_NOT_FOUND))
        else andthen alloc_block (\<lambda>bno.
          if sint bno < 0 then ret (Inl bno)
          else andthen (store_word (f_indirect f) bno) (\<lambda>_.
               andthen (clear_block bno) (\<lambda>_.
               andthen (diskaddr bno) (\<lambda>a.
               ret (Inr (a + 4 * (unat filebno - NDIRECT)))))))))"

definition file_get_block :: "nat \<Rightarrow> u32 \<Rightarrow> (fs, u32 + nat) op" where
  "file_get_block f filebno =
     andthen (file_block_walk f filebno True) (\<lambda>r. case r of
       Inl e \<Rightarrow> ret (Inl e)
     | Inr ppdiskbno \<Rightarrow>
         andthen (load_word ppdiskbno) (\<lambda>b.
         andthen (if b = 0
                  then andthen alloc_block (\<lambda>bno.
                       if sint bno < 0 then ret (Some bno)
                       else andthen (store_word ppdiskbno bno) (\<lambda>_.
                            andthen (clear_block bno) (\<lambda>_. ret None)))
                  else ret None) (\<lambda>e. case e of
           Some bno \<Rightarrow> ret (Inl bno)
         | None \<Rightarrow> andthen (load_word ppdiskbno) (\<lambda>b.
                   andthen (diskaddr b) (\<lambda>a. ret (Inr a))))))"

subsection \<open>Directories and paths\<close>

text \<open>\<^verbatim>\<open>strcmp(p, q) == 0\<close> where \<open>p\<close> lies on disk; the second argument is the rest of \<open>q\<close> with its zero.\<close>

primrec strcmp_eq :: "nat \<Rightarrow> u8 list \<Rightarrow> (fs, bool) op" where
  "strcmp_eq p [] = ret True"
| "strcmp_eq p (c # q) =
     andthen (load_byte p) (\<lambda>b. if b \<noteq> c then ret False else strcmp_eq (p + 1) q)"

definition dir_nblock :: "nat \<Rightarrow> (fs, u32) op" where
  "dir_nblock dir =
     andthen (load_word (f_size dir)) (\<lambda>size.
     andthen (check (int_mod size BLKSIZE = 0) ''assertion failed'') (\<lambda>_.
     ret (int_div size BLKSIZE)))"

definition dir_lookup :: "nat \<Rightarrow> u8 list \<Rightarrow> (fs, u32 + nat) op" where
  "dir_lookup dir name =
     andthen (dir_nblock dir) (\<lambda>nblock.
     andthen (for_below (ret nblock) (\<lambda>i.
       andthen (file_get_block dir i) (\<lambda>r. case r of
         Inl e \<Rightarrow> ret (Some (Inl e))
       | Inr f \<Rightarrow> for_below (ret (word_of_nat BLKFILES)) (\<lambda>j.
           andthen (strcmp_eq (f_name (f + unat j * sizeof_File)) (name @ [0])) (\<lambda>eq.
           ret (if eq then Some (Inr (f + unat j * sizeof_File)) else None))) 0)) 0) (\<lambda>r.
     ret (case r of Some x \<Rightarrow> x | None \<Rightarrow> Inl (err E_NOT_FOUND))))"

definition dir_alloc_file :: "nat \<Rightarrow> (fs, u32 + nat) op" where
  "dir_alloc_file dir =
     andthen (dir_nblock dir) (\<lambda>nblock.
     andthen (for_below (ret nblock) (\<lambda>i.
       andthen (file_get_block dir i) (\<lambda>r. case r of
         Inl e \<Rightarrow> ret (Some (Inl e))
       | Inr f \<Rightarrow> for_below (ret (word_of_nat BLKFILES)) (\<lambda>j.
           andthen (load_byte (f_name (f + unat j * sizeof_File))) (\<lambda>c.
           ret (if c = 0 then Some (Inr (f + unat j * sizeof_File)) else None))) 0)) 0) (\<lambda>r. case r of
       Some x \<Rightarrow> ret x
     | None \<Rightarrow>
         andthen (load_word (f_size dir)) (\<lambda>size.
         andthen (store_word (f_size dir) (size + word_of_nat BLKSIZE)) (\<lambda>_.
         file_get_block dir nblock))))"

definition slash :: u8 where "slash = 47"

definition skip_slash :: "u8 list \<Rightarrow> u8 list" where
  "skip_slash p = dropWhile (\<lambda>c. c = slash) p"

lemma skip_slash_length: "length (skip_slash p) \<le> length p"
  unfolding skip_slash_def by (rule length_dropWhile_le)

text \<open>
  The loop of \<^verbatim>\<open>walk_path\<close>, started after the slashes at the front of \<open>path\<close>. The results are the
  return value, \<^verbatim>\<open>*pdir\<close>, \<^verbatim>\<open>*pf\<close> and \<^verbatim>\<open>lastelem\<close>; \<open>None\<close> is a null pointer, or a name not set.
\<close>

function walk_path_from :: "u8 list \<Rightarrow> nat option \<Rightarrow> nat \<Rightarrow> fs \<Rightarrow>
    (fs, u32 \<times> nat option \<times> nat option \<times> u8 list option) outcome" where
  "walk_path_from path dir f s =
     (if path = [] then Ret (0, dir, Some f, None) s
      else
        let name = takeWhile (\<lambda>c. c \<noteq> slash) path; rest = skip_slash (dropWhile (\<lambda>c. c \<noteq> slash) path) in
        if MAXNAMELEN \<le> length name then Ret (err E_BAD_PATH, None, None, None) s
        else andthen (load_word (f_type f)) (\<lambda>ty s.
          if ty \<noteq> FTYPE_DIR then Ret (err E_NOT_FOUND, None, None, None) s
          else andthen (dir_lookup f name) (\<lambda>r s. case r of
                 Inl e \<Rightarrow> Ret (if e = err E_NOT_FOUND \<and> rest = [] then (e, Some f, None, Some name) else (e, None, None, None)) s
               | Inr g \<Rightarrow> walk_path_from rest (Some f) g s) s) s)"
  by pat_completeness auto

lemma walk_path_shorter:
  assumes "path \<noteq> []"
  shows "length (skip_slash (dropWhile (\<lambda>c. c \<noteq> slash) path)) < length path"
proof (cases "hd path = slash")
  case True
  then show ?thesis using assms skip_slash_length [of "tl path"] by (cases path) (simp_all add: skip_slash_def)
next
  case False
  then have "length (dropWhile (\<lambda>c. c \<noteq> slash) path) < length path"
    using assms by (cases path) (auto intro: le_imp_less_Suc length_dropWhile_le)
  then show ?thesis using skip_slash_length [of "dropWhile (\<lambda>c. c \<noteq> slash) path"] by linarith
qed

termination walk_path_from
  by (relation "measure (\<lambda>(path, _, _, _). length path)") (simp_all add: walk_path_shorter)

declare walk_path_from.simps [simp del]

definition walk_path :: "u8 list \<Rightarrow> (fs, u32 \<times> nat option \<times> nat option \<times> u8 list option) op" where
  "walk_path path = walk_path_from (skip_slash path) None s_root"

subsection \<open>Operations on files\<close>

text \<open>
  The loop of \<^verbatim>\<open>file_read\<close> from position \<open>pos\<close> up to \<open>end_pos\<close>, the wrapped sum of offset and count;
  \<open>put i bs\<close> stores bytes at \<^verbatim>\<open>buf + i\<close>. An error ends it with \<open>Some\<close> code. The remainder of a
  negative position is negative.
\<close>

definition chunk :: "u32 \<Rightarrow> u32 \<Rightarrow> u32" where
  "chunk pos end_pos = min (word_of_int (int BLKSIZE - int_mod pos BLKSIZE)) (end_pos - pos)"

definition block_pos :: "nat \<Rightarrow> u32 \<Rightarrow> nat" where
  "block_pos blk pos = nat (int blk + int_mod pos BLKSIZE)"

lemma chunk_pos: "pos < end_pos \<Longrightarrow> 0 < chunk pos end_pos \<and> chunk pos end_pos \<le> end_pos - pos"
proof -
  assume lt: "pos < end_pos"
  have m: "- 4096 < int_mod pos 4096 \<and> int_mod pos 4096 < 4096"
    using pos_mod_bound [of 4096 "sint pos"] pos_mod_bound [of 4096 "- sint pos"] pos_mod_sign [of 4096 "sint pos"] pos_mod_sign [of 4096 "- sint pos"]
    unfolding int_mod_def by simp linarith
  define k where "k = 4096 - int_mod pos 4096"
  have "0 < k" "k < 8192" using m by (simp_all add: k_def)
  then have "(0 :: u32) < word_of_int k" by (simp add: word_less_def unsigned_of_int take_bit_int_eq_self)
  moreover have "0 < end_pos - pos" using lt by (simp add: word_neq_0_conv [symmetric])
  ultimately show ?thesis unfolding chunk_def BLKSIZE_def of_nat_numeral k_def [symmetric] by simp
qed

lemma chunk_decreases: "pos < end_pos \<Longrightarrow> unat (end_pos - (pos + chunk pos end_pos)) < unat (end_pos - pos)"
proof -
  assume "pos < end_pos"
  then have c: "0 < chunk pos end_pos" "chunk pos end_pos \<le> end_pos - pos" using chunk_pos by auto
  have "end_pos - (pos + chunk pos end_pos) = end_pos - pos - chunk pos end_pos" by (simp add: algebra_simps)
  then have "unat (end_pos - (pos + chunk pos end_pos)) = unat (end_pos - pos) - unat (chunk pos end_pos)"
    by (simp only: unat_sub [OF c(2)])
  then show ?thesis using c by (simp add: word_less_nat_alt word_le_nat_alt)
qed

function file_read_from :: "nat \<Rightarrow> (nat \<Rightarrow> u8 list \<Rightarrow> (fs, unit) op) \<Rightarrow> nat \<Rightarrow> u32 \<Rightarrow> u32 \<Rightarrow> fs \<Rightarrow> (fs, u32 option) outcome" where
  "file_read_from f put i end_pos pos s =
     (if pos < end_pos
      then andthen (file_get_block f (int_div pos BLKSIZE)) (\<lambda>r s. case r of
             Inl e \<Rightarrow> Ret (Some e) s
           | Inr blk \<Rightarrow>
               let bn = chunk pos end_pos in
               andthen (load_bytes (block_pos blk pos) (unat bn)) (\<lambda>bs.
               andthen (put i bs) (\<lambda>_ s.
               file_read_from f put (i + unat bn) end_pos (pos + bn) s)) s) s
      else Ret None s)"
  by pat_completeness auto

termination file_read_from
  by (relation "measure (\<lambda>(_, _, _, end_pos, pos, _). unat (end_pos - pos))") (simp_all add: chunk_decreases)

function file_write_from :: "nat \<Rightarrow> (nat \<Rightarrow> nat \<Rightarrow> (fs, u8 list) op) \<Rightarrow> nat \<Rightarrow> u32 \<Rightarrow> u32 \<Rightarrow> fs \<Rightarrow> (fs, u32 option) outcome" where
  "file_write_from f get i end_pos pos s =
     (if pos < end_pos
      then andthen (file_get_block f (int_div pos BLKSIZE)) (\<lambda>r s. case r of
             Inl e \<Rightarrow> Ret (Some e) s
           | Inr blk \<Rightarrow>
               let bn = chunk pos end_pos in
               andthen (get i (unat bn)) (\<lambda>bs.
               andthen (store_bytes (block_pos blk pos) bs) (\<lambda>_ s.
               file_write_from f get (i + unat bn) end_pos (pos + bn) s)) s) s
      else Ret None s)"
  by pat_completeness auto

termination file_write_from
  by (relation "measure (\<lambda>(_, _, _, end_pos, pos, _). unat (end_pos - pos))") (simp_all add: chunk_decreases)

declare file_read_from.simps [simp del] file_write_from.simps [simp del]

definition file_read :: "nat \<Rightarrow> (nat \<Rightarrow> u8 list \<Rightarrow> (fs, unit) op) \<Rightarrow> u32 \<Rightarrow> u32 \<Rightarrow> (fs, u32) op" where
  "file_read f put count offset =
     andthen (load_word (f_size f)) (\<lambda>size.
     if sint size \<le> sint offset then ret 0
     else
       let count = min count (size - offset) in
       andthen (file_read_from f put 0 (offset + count) offset) (\<lambda>e.
       ret (case e of Some r \<Rightarrow> r | None \<Rightarrow> count)))"

definition file_free_block :: "nat \<Rightarrow> u32 \<Rightarrow> (fs, u32) op" where
  "file_free_block f filebno =
     andthen (file_block_walk f filebno False) (\<lambda>r. case r of
       Inl e \<Rightarrow> ret e
     | Inr ptr \<Rightarrow>
         andthen (load_word ptr) (\<lambda>b.
         if b \<noteq> 0
         then andthen (free_block b) (\<lambda>_.
              andthen (store_word ptr 0) (\<lambda>_. ret 0))
         else ret 0))"

text \<open>The number of blocks for a size, as the signed expression \<^verbatim>\<open>(size + BLKSIZE - 1) / BLKSIZE\<close>.\<close>

definition nblocks_for :: "u32 \<Rightarrow> u32" where
  "nblocks_for sz = int_div (sz + word_of_nat BLKSIZE - 1) BLKSIZE"

definition file_truncate_blocks :: "nat \<Rightarrow> u32 \<Rightarrow> (fs, unit) op" where
  "file_truncate_blocks f newsize =
     andthen (load_word (f_size f)) (\<lambda>size.
     let old_nblocks = nblocks_for size; new_nblocks = nblocks_for newsize in
     andthen (for_below (ret old_nblocks) (\<lambda>bno.
       andthen (file_free_block f bno) (\<lambda>_. ret (None :: unit option))) new_nblocks) (\<lambda>_.
     if new_nblocks \<le> word_of_nat NDIRECT
     then andthen (load_word (f_indirect f)) (\<lambda>ind.
          if ind \<noteq> 0
          then andthen (free_block ind) (\<lambda>_. store_word (f_indirect f) 0)
          else ret ())
     else ret ()))"

definition file_set_size :: "nat \<Rightarrow> u32 \<Rightarrow> (fs, u32) op" where
  "file_set_size f newsize =
     andthen (load_word (f_size f)) (\<lambda>size.
     andthen (if sint newsize < sint size then file_truncate_blocks f newsize else ret ()) (\<lambda>_.
     andthen (store_word (f_size f) newsize) (\<lambda>_.
     andthen (flush_block f) (\<lambda>_.
     ret 0))))"

definition file_write :: "nat \<Rightarrow> (nat \<Rightarrow> nat \<Rightarrow> (fs, u8 list) op) \<Rightarrow> u32 \<Rightarrow> u32 \<Rightarrow> (fs, u32) op" where
  "file_write f get count offset =
     andthen (load_word (f_size f)) (\<lambda>size.
     andthen (if size < offset + count then file_set_size f (offset + count) else ret 0) (\<lambda>r.
     if sint r < 0 then ret r
     else
       andthen (file_write_from f get 0 (offset + count) offset) (\<lambda>e.
       ret (case e of Some r \<Rightarrow> r | None \<Rightarrow> count))))"

text \<open>
  The loop counter of \<^verbatim>\<open>file_flush\<close> is a signed integer that starts at 0, so a negative bound is like 0.
\<close>

definition file_flush :: "nat \<Rightarrow> (fs, unit) op" where
  "file_flush f =
     andthen (for_below (andthen (load_word (f_size f)) (\<lambda>size.
         ret (if sint (nblocks_for size) < 0 then 0 else nblocks_for size))) (\<lambda>i.
       andthen (file_block_walk f i False) (\<lambda>r. case r of
         Inl e \<Rightarrow> ret (None :: unit option)
       | Inr pdiskbno \<Rightarrow>
           andthen (load_word pdiskbno) (\<lambda>b.
           if b = 0 then ret None
           else andthen (diskaddr b) (\<lambda>a.
                andthen (flush_block a) (\<lambda>_. ret None))))) 0) (\<lambda>_.
     andthen (flush_block f) (\<lambda>_.
     andthen (load_word (f_indirect f)) (\<lambda>ind.
     if ind \<noteq> 0 then andthen (diskaddr ind) flush_block else ret ())))"

definition file_create :: "u8 list \<Rightarrow> (fs, u32 + nat) op" where
  "file_create path =
     andthen (walk_path path) (\<lambda>(r, pdir, pf, lastelem).
     if r = 0 then ret (Inl (err E_FILE_EXISTS))
     else case pdir of
       None \<Rightarrow> ret (Inl r)
     | Some dir \<Rightarrow>
         if r \<noteq> err E_NOT_FOUND then ret (Inl r)
         else andthen (dir_alloc_file dir) (\<lambda>r. case r of
           Inl e \<Rightarrow> ret (Inl e)
         | Inr f \<Rightarrow>
             andthen (case lastelem of
                        Some name \<Rightarrow> store_bytes (f_name f) (name @ [0])
                      | None \<Rightarrow> ret ()) (\<lambda>_.
             andthen (file_flush dir) (\<lambda>_.
             ret (Inr f)))))"

definition file_open :: "u8 list \<Rightarrow> (fs, u32 + nat) op" where
  "file_open path =
     andthen (walk_path path) (\<lambda>(r, pdir, pf, lastelem).
     ret (case pf of Some f \<Rightarrow> Inr f | None \<Rightarrow> Inl r))"

text \<open>The signed counter of \<^verbatim>\<open>fs_sync\<close> is compared with the unsigned number of blocks.\<close>

definition fs_sync :: "(fs, unit) op" where
  "fs_sync =
     andthen (for_below (load_word nblocks_addr) (\<lambda>i.
       andthen (diskaddr i) (\<lambda>a.
       andthen (flush_block a) (\<lambda>_. ret (None :: unit option)))) 1) (\<lambda>_.
     ret ())"

end
