(* ===== verification/Fs_Serv.thy ===== *)
theory Fs_Serv
  imports Fs_Fs
begin

text \<open>
  The main loop of the file server (\<^verbatim>\<open>fs/serv.c\<close>). Beside the file system the server keeps the table
  of open files and, for each of its entries, a page with a \<^verbatim>\<open>struct Fd\<close> that it shares with clients; how
  often such a page is mapped is part of the state. The page with the request lies right below the disk
  map, so a buffer in it that is overrun continues with block 0 of the disk.
\<close>

unbundle bit_operations_syntax

subsection \<open>Data\<close>

definition MAXOPEN :: nat where "MAXOPEN = 1024"
definition FILEVA :: u32 where "FILEVA = 0xD0000000"
definition O_ACCMODE :: u32 where "O_ACCMODE = 0x0003"
definition O_CREAT :: u32 where "O_CREAT = 0x0100"
definition O_TRUNC :: u32 where "O_TRUNC = 0x0200"
definition O_EXCL :: u32 where "O_EXCL = 0x0400"
definition devfile_id :: u32 where "devfile_id = 102"

datatype fsreq = FSREQ_OPEN | FSREQ_SET_SIZE | FSREQ_READ | FSREQ_WRITE | FSREQ_STAT | FSREQ_FLUSH | FSREQ_REMOVE | FSREQ_SYNC

fun fsreq_of :: "u32 \<Rightarrow> fsreq option" where
  "fsreq_of n = (if n = 1 then Some FSREQ_OPEN else if n = 2 then Some FSREQ_SET_SIZE else if n = 3 then Some FSREQ_READ
     else if n = 4 then Some FSREQ_WRITE else if n = 5 then Some FSREQ_STAT else if n = 6 then Some FSREQ_FLUSH
     else if n = 7 then Some FSREQ_REMOVE else if n = 8 then Some FSREQ_SYNC else None)"

record OpenFile =
  o_fileid :: u32
  o_file :: nat
  o_mode :: u32
  o_fd :: u32

record Fd =
  fd_dev_id :: u32
  fd_offset :: u32
  fd_omode :: u32
  fd_file_id :: u32

record serv =
  sv_fs :: fs
  opentab :: "nat \<Rightarrow> OpenFile"
  fd_pages :: "u32 \<Rightarrow> Fd"
  fd_refs :: "u32 \<Rightarrow> nat"

definition on_fs :: "(fs, 'a) op \<Rightarrow> (serv, 'a) op" where
  "on_fs m = (\<lambda>s. case m (sv_fs s) of
       Ret a t \<Rightarrow> Ret a (s\<lparr>sv_fs := t\<rparr>)
     | Panic msg \<Rightarrow> Panic msg
     | Leave k t \<Rightarrow> Leave k (s\<lparr>sv_fs := t\<rparr>))"

subsection \<open>The request page\<close>

text \<open>Bytes at an offset in the request page; behind its 4096 bytes begins the disk map.\<close>

definition req_byte :: "nat \<Rightarrow> (fs, u8) op" where
  "req_byte a = (if a < 4096 then gets (\<lambda>s. fs_req s a) else load_byte (a - 4096))"

definition req_store :: "nat \<Rightarrow> u8 \<Rightarrow> (fs, unit) op" where
  "req_store a b = (if a < 4096 then modify (\<lambda>s. s\<lparr>fs_req := (fs_req s)(a := b)\<rparr>) else store_byte (a - 4096) b)"

definition req_get :: "nat \<Rightarrow> nat \<Rightarrow> nat \<Rightarrow> (fs, u8 list) op" where
  "req_get base i n = foldr (\<lambda>j m. andthen (req_byte (base + i + j)) (\<lambda>b. andthen m (\<lambda>bs. ret (b # bs)))) [0 ..< n] (ret [])"

definition req_put :: "nat \<Rightarrow> nat \<Rightarrow> u8 list \<Rightarrow> (fs, unit) op" where
  "req_put base i bs = each (\<lambda>j. req_store (base + i + j) (bs ! j)) [0 ..< length bs]"

definition req_word :: "fs \<Rightarrow> nat \<Rightarrow> u32" where
  "req_word s a = le_word (fs_req s a) (fs_req s (a + 1)) (fs_req s (a + 2)) (fs_req s (a + 3))"

subsection \<open>Open files\<close>

definition serve_init_slot :: "nat \<Rightarrow> (serv, unit) op" where
  "serve_init_slot i = modify (\<lambda>s. s\<lparr>opentab := (opentab s)(i := (opentab s i)
     \<lparr>o_fileid := word_of_nat i, o_fd := FILEVA + word_of_nat i * word_of_nat BLKSIZE\<rparr>)\<rparr>)"

definition serve_init :: "(serv, unit) op" where
  "serve_init = each serve_init_slot [0 ..< MAXOPEN]"

definition pageref :: "serv \<Rightarrow> u32 \<Rightarrow> nat" where
  "pageref s v = fd_refs s v"

text \<open>\<^verbatim>\<open>sys_page_alloc\<close> of a page for an open file.\<close>

definition fd_page_alloc :: "u32 \<Rightarrow> (serv, u32) op" where
  "fd_page_alloc v = (\<lambda>s.
     if fs_frames (sv_fs s) = 0 then Ret (err E_NO_MEM) s
     else Ret 0 (s\<lparr>sv_fs := (sv_fs s)\<lparr>fs_frames := fs_frames (sv_fs s) - 1\<rparr>, fd_refs := (fd_refs s)(v := 1)\<rparr>))"

definition no_fd :: Fd where
  "no_fd = \<lparr>fd_dev_id = 0, fd_offset = 0, fd_omode = 0, fd_file_id = 0\<rparr>"

definition openfile_take :: "nat \<Rightarrow> (serv, u32 + nat) op" where
  "openfile_take i =
     andthen (modify (\<lambda>s. s\<lparr>opentab := (opentab s)(i := (opentab s i)\<lparr>o_fileid := o_fileid (opentab s i) + word_of_nat MAXOPEN\<rparr>),
       fd_pages := (fd_pages s)(o_fd (opentab s i) := no_fd)\<rparr>)) (\<lambda>_.
     andthen (gets (\<lambda>s. o_fileid (opentab s i))) (\<lambda>id.
     ret (if sint id < 0 then Inl id else Inr i)))"

text \<open>The return value is the file id; a negative one is an error for the caller, any other leads to the entry.\<close>

primrec openfile_alloc_from :: "nat list \<Rightarrow> (serv, u32 + nat) op" where
  "openfile_alloc_from [] = ret (Inl (err E_MAX_OPEN))"
| "openfile_alloc_from (i # is) = (\<lambda>s.
     let v = o_fd (opentab s i) in
     if pageref s v = 0
     then andthen (fd_page_alloc v) (\<lambda>r. if sint r < 0 then ret (Inl r) else openfile_take i) s
     else if pageref s v = 1 then openfile_take i s
     else openfile_alloc_from is s)"

definition openfile_alloc :: "(serv, u32 + nat) op" where
  "openfile_alloc = openfile_alloc_from [0 ..< MAXOPEN]"

definition openfile_lookup :: "u32 \<Rightarrow> (serv, u32 + nat) op" where
  "openfile_lookup fileid = (\<lambda>s.
     let i = unat (fileid mod word_of_nat MAXOPEN); e = opentab s i in
     if pageref s (o_fd e) \<le> 1 \<or> o_fileid e \<noteq> fileid then Ret (Inl (err E_INVAL)) s
     else Ret (Inr i) s)"

subsection \<open>The requests\<close>

text \<open>The path of an open request: at most 1023 characters, up to the first zero.\<close>

definition req_path :: "fs \<Rightarrow> u8 list" where
  "req_path s = takeWhile (\<lambda>c. c \<noteq> 0) (map (fs_req s) [0 ..< MAXPATHLEN - 1])"

definition open_file :: "u8 list \<Rightarrow> u32 \<Rightarrow> (fs, u32 + nat) op" where
  "open_file path omode =
     (if omode AND O_CREAT \<noteq> 0
      then andthen (file_create path) (\<lambda>r. case r of
             Inr f \<Rightarrow> ret (Inr f)
           | Inl e \<Rightarrow> if omode AND O_EXCL = 0 \<and> e = err E_FILE_EXISTS then file_open path else ret (Inl e))
      else file_open path)"

text \<open>
  The result of \<^verbatim>\<open>serve_open\<close>: the return value, \<^verbatim>\<open>*pg_store\<close> and \<^verbatim>\<open>*perm_store\<close>, if they are set.
  Its last part fills in the entry and its page.
\<close>

definition open_fill :: "nat \<Rightarrow> nat \<Rightarrow> u32 \<Rightarrow> (serv, u32 \<times> (u32 \<times> u32) option) op" where
  "open_fill i f omode =
     andthen (modify (\<lambda>s. let v = o_fd (opentab s i) in
       s\<lparr>opentab := (opentab s)(i := (opentab s i)\<lparr>o_file := f, o_mode := omode\<rparr>),
         fd_pages := (fd_pages s)(v := (fd_pages s v)\<lparr>fd_file_id := o_fileid (opentab s i),
           fd_omode := omode AND O_ACCMODE, fd_dev_id := devfile_id\<rparr>)\<rparr>)) (\<lambda>_.
     gets (\<lambda>s. (0, Some (o_fd (opentab s i), PTE_P OR (PTE_U OR (PTE_W OR PTE_SHARE))))))"

definition open_at :: "nat \<Rightarrow> u8 list \<Rightarrow> u32 \<Rightarrow> (serv, u32 \<times> (u32 \<times> u32) option) op" where
  "open_at i path omode =
     andthen (on_fs (open_file path omode)) (\<lambda>r. case r of
       Inl e \<Rightarrow> ret (e, None)
     | Inr f \<Rightarrow>
         andthen (on_fs (if omode AND O_TRUNC \<noteq> 0 then file_set_size f 0 else ret 0)) (\<lambda>r.
         if sint r < 0 then ret (r, None)
         else andthen (on_fs (file_open path)) (\<lambda>r. case r of
            Inl e \<Rightarrow> ret (e, None)
          | Inr f \<Rightarrow> open_fill i f omode)))"

definition serve_open :: "(serv, u32 \<times> (u32 \<times> u32) option) op" where
  "serve_open = (\<lambda>s.
     andthen openfile_alloc (\<lambda>r. case r of
       Inl e \<Rightarrow> ret (e, None)
     | Inr i \<Rightarrow> open_at i (req_path (sv_fs s)) (req_word (sv_fs s) MAXPATHLEN)) s)"

definition with_open_file :: "u32 \<Rightarrow> (nat \<Rightarrow> (serv, u32) op) \<Rightarrow> (serv, u32) op" where
  "with_open_file fileid k = andthen (openfile_lookup fileid) (\<lambda>r. case r of Inl e \<Rightarrow> ret e | Inr i \<Rightarrow> k i)"

definition serve_set_size :: "(serv, u32) op" where
  "serve_set_size = (\<lambda>s.
     with_open_file (req_word (sv_fs s) 0) (\<lambda>i s.
       on_fs (file_set_size (o_file (opentab s i)) (req_word (sv_fs s) 4)) s) s)"

definition add_offset :: "nat \<Rightarrow> u32 \<Rightarrow> (serv, unit) op" where
  "add_offset i r = modify (\<lambda>s. let v = o_fd (opentab s i) in
     s\<lparr>fd_pages := (fd_pages s)(v := (fd_pages s v)\<lparr>fd_offset := fd_offset (fd_pages s v) + r\<rparr>)\<rparr>)"

definition serve_read :: "(serv, u32) op" where
  "serve_read = (\<lambda>s.
     with_open_file (req_word (sv_fs s) 0) (\<lambda>i s.
       andthen (on_fs (file_read (o_file (opentab s i)) (req_put 0) (req_word (sv_fs s) 4)
                   (fd_offset (fd_pages s (o_fd (opentab s i)))))) (\<lambda>r.
       if sint r < 0 then ret r
       else andthen (add_offset i r) (\<lambda>_. ret r)) s) s)"

definition serve_write :: "(serv, u32) op" where
  "serve_write = (\<lambda>s.
     with_open_file (req_word (sv_fs s) 0) (\<lambda>i s.
       andthen (on_fs (file_write (o_file (opentab s i)) (req_get 8) (req_word (sv_fs s) 4)
                   (fd_offset (fd_pages s (o_fd (opentab s i)))))) (\<lambda>r.
       if sint r < 0 then ret r
       else andthen (add_offset i r) (\<lambda>_. ret r)) s) s)"

text \<open>\<^verbatim>\<open>strcpy\<close> from the disk map into the request page; it stops at the end of the disk map at the latest.\<close>

function strcpy_req :: "nat \<Rightarrow> nat \<Rightarrow> fs \<Rightarrow> (fs, unit) outcome" where
  "strcpy_req i src s =
     (if DISKSIZE \<le> src then Panic ''page fault in FS''
      else andthen (load_byte src) (\<lambda>b.
           andthen (req_store i b) (\<lambda>_ s.
           if b = 0 then Ret () s else strcpy_req (i + 1) (src + 1) s)) s)"
  by pat_completeness auto

termination strcpy_req
  by (relation "measure (\<lambda>(_, src, _). DISKSIZE - src)") simp_all

declare strcpy_req.simps [simp del]

definition serve_stat :: "(serv, u32) op" where
  "serve_stat = (\<lambda>s.
     with_open_file (req_word (sv_fs s) 0) (\<lambda>i s.
       let f = o_file (opentab s i) in
       on_fs (andthen (strcpy_req 0 (f_name f)) (\<lambda>_.
         andthen (load_word (f_size f)) (\<lambda>sz.
         andthen (req_put 0 MAXNAMELEN (word_bytes_le sz)) (\<lambda>_.
         andthen (load_word (f_type f)) (\<lambda>ty.
         andthen (req_put 0 (MAXNAMELEN + 4) (word_bytes_le (if ty = FTYPE_DIR then 1 else 0))) (\<lambda>_.
         ret 0)))))) s) s)"

definition serve_flush :: "(serv, u32) op" where
  "serve_flush = (\<lambda>s.
     with_open_file (req_word (sv_fs s) 0) (\<lambda>i s.
       andthen (on_fs (file_flush (o_file (opentab s i)))) (\<lambda>_. ret 0) s) s)"

definition serve_sync :: "(serv, u32) op" where
  "serve_sync = andthen (on_fs fs_sync) (\<lambda>_. ret 0)"

subsection \<open>The main loop\<close>

definition handlers :: "fsreq \<Rightarrow> (serv, u32) op option" where
  "handlers req = (case req of
       FSREQ_READ \<Rightarrow> Some serve_read
     | FSREQ_STAT \<Rightarrow> Some serve_stat
     | FSREQ_FLUSH \<Rightarrow> Some serve_flush
     | FSREQ_WRITE \<Rightarrow> Some serve_write
     | FSREQ_SET_SIZE \<Rightarrow> Some serve_set_size
     | FSREQ_SYNC \<Rightarrow> Some serve_sync
     | _ \<Rightarrow> None)"

text \<open>
  One round of \<^verbatim>\<open>serve\<close>: a message with value \<open>req\<close>, permissions \<open>perm\<close> and, if it has one, the page
  \<open>page\<close>. The result is the reply (value, page and permissions), or \<open>None\<close> if there is none. After the reply
  the request page is unmapped; the bytes in it are then seen by the client only.
\<close>

definition serve_one :: "u32 \<Rightarrow> u32 \<Rightarrow> (nat \<Rightarrow> u8) \<Rightarrow> (serv, (u32 \<times> u32 option \<times> u32) option) op" where
  "serve_one req perm page =
     (if perm AND PTE_P = 0 then ret None
      else andthen (modify (\<lambda>s. s\<lparr>sv_fs := (sv_fs s)\<lparr>fs_req := page\<rparr>\<rparr>)) (\<lambda>_.
        case fsreq_of req of
          Some FSREQ_OPEN \<Rightarrow>
            andthen serve_open (\<lambda>(r, pg).
            ret (Some (case pg of Some (v, p) \<Rightarrow> (r, Some v, p) | None \<Rightarrow> (r, None, perm))))
        | Some q \<Rightarrow> (case handlers q of
              Some h \<Rightarrow> andthen h (\<lambda>r. ret (Some (r, None, perm)))
            | None \<Rightarrow> ret (Some (err E_INVAL, None, perm)))
        | None \<Rightarrow> ret (Some (err E_INVAL, None, perm))))"

definition serv_boot :: "(serv, unit) op" where
  "serv_boot = andthen serve_init (\<lambda>_. on_fs fs_init)"

end
