(* ===== verification/Fs_Bc_Spec.thy ===== *)
theory Fs_Bc_Spec
  imports Fs_Bc
begin

text \<open>
  The block cache is transparent: what a load returns is a function of the visible bytes of the disk,
  stores change exactly one of them, and faults and write-backs none.
\<close>

subsection \<open>The visible bytes\<close>

definition drive :: "fs \<Rightarrow> nat" where
  "drive s = unat (diskno (fs_ide s) AND 1)"

definition disk_byte :: "fs \<Rightarrow> nat \<Rightarrow> u8" where
  "disk_byte s = ide_media (fs_ide s) (drive s)"

definition vis :: "fs \<Rightarrow> nat \<Rightarrow> u8" where
  "vis s a = (if fs_present s (a div 4096) then fs_cache s a else disk_byte s a)"

definition rd32 :: "(nat \<Rightarrow> u8) \<Rightarrow> nat \<Rightarrow> u32" where
  "rd32 m a = le_word (m a) (m (a + 1)) (m (a + 2)) (m (a + 3))"

definition nblocks :: "(nat \<Rightarrow> u8) \<Rightarrow> nat" where
  "nblocks m = unat (rd32 m nblocks_addr)"

definition free_bit :: "(nat \<Rightarrow> u8) \<Rightarrow> nat \<Rightarrow> bool" where
  "free_bit m b \<longleftrightarrow> bit (rd32 m (2 * BLKSIZE + 4 * (b div 32))) (b mod 32)"

definition accessible :: "(nat \<Rightarrow> u8) \<Rightarrow> nat \<Rightarrow> bool" where
  "accessible m b \<longleftrightarrow> b < nblocks m \<and> \<not> free_bit m b"

text \<open>The first block after the bitmap.\<close>

definition first_data :: "(nat \<Rightarrow> u8) \<Rightarrow> nat" where
  "first_data m = 2 + (nblocks m + 32767) div 32768"

definition meta_ok :: "(nat \<Rightarrow> u8) \<Rightarrow> bool" where
  "meta_ok m \<longleftrightarrow> nblocks m \<le> 786432 \<and> first_data m \<le> nblocks m \<and> (\<forall>b < first_data m. \<not> free_bit m b)"

text \<open>
  The server has memory for the blocks not yet cached, and a page that is not dirty agrees with the disk.
\<close>

definition bc_ok :: "fs \<Rightarrow> bool" where
  "bc_ok s \<longleftrightarrow> fs_super s \<and> fs_bitmap s \<and> fs_present s 1 \<and> working (ide_status (fs_ide s)) \<and> meta_ok (vis s) \<and>
     card {b. b < nblocks (vis s) \<and> \<not> fs_present s b} \<le> fs_frames s \<and>
     (\<forall>a. fs_present s (a div 4096) \<longrightarrow> \<not> fs_dirty s (a div 4096) \<longrightarrow> fs_cache s a = disk_byte s a)"

text \<open>\<open>grows s s'\<close>: pages present stay present, and the request page is not touched.\<close>

definition grows :: "fs \<Rightarrow> fs \<Rightarrow> bool" where
  "grows s s' \<longleftrightarrow> (\<forall>b. fs_present s b \<longrightarrow> fs_present s' b) \<and> fs_req s' = fs_req s"

definition runs :: "fs \<Rightarrow> (fs, 'a) op \<Rightarrow> 'a \<Rightarrow> (nat \<Rightarrow> u8) \<Rightarrow> bool" where
  "runs s m r M \<longleftrightarrow> (\<exists>s'. m s = Ret r s' \<and> bc_ok s' \<and> vis s' = M \<and> grows s s')"

lemma grows_refl [simp]: "grows s s" and grows_trans: "grows s t \<Longrightarrow> grows t u \<Longrightarrow> grows s u"
  by (auto simp: grows_def)

lemma runs_ret: "bc_ok s \<Longrightarrow> vis s = M \<Longrightarrow> runs s (ret a) a M"
  by (auto simp: runs_def)

lemma runs_andthen:
  assumes "runs s m r M" and "\<And>s'. bc_ok s' \<Longrightarrow> vis s' = M \<Longrightarrow> grows s s' \<Longrightarrow> runs s' (f r) r' M'"
  shows "runs s (andthen m f) r' M'"
proof -
  obtain s' where s': "m s = Ret r s'" "bc_ok s'" "vis s' = M" "grows s s'" using assms(1) by (auto simp: runs_def)
  from assms(2) [OF s'(2-4)] obtain s'' where "f r s' = Ret r' s''" "bc_ok s''" "vis s'' = M'" "grows s' s''"
    by (auto simp: runs_def)
  then show ?thesis using s' grows_trans unfolding runs_def by (intro exI [of _ s'']) auto
qed

lemma runs_same: "m s = Ret r s \<Longrightarrow> bc_ok s \<Longrightarrow> runs s m r (vis s)"
  by (auto simp: runs_def)

lemma runsD: "runs s m r M \<Longrightarrow> \<exists>s'. m s = Ret r s' \<and> vis s' = M \<and> bc_ok s'"
  by (auto simp: runs_def)

lemma bc_okD:
  assumes "bc_ok s"
  shows "fs_super s" "fs_bitmap s" "fs_present s 1" "working (ide_status (fs_ide s))" "meta_ok (vis s)"
    "card {b. b < nblocks (vis s) \<and> \<not> fs_present s b} \<le> fs_frames s"
    "\<And>a. fs_present s (a div 4096) \<Longrightarrow> \<not> fs_dirty s (a div 4096) \<Longrightarrow> fs_cache s a = disk_byte s a"
  using assms unfolding bc_ok_def by auto

subsection \<open>Faults\<close>

lemma aligned_word:
  fixes a i :: nat
  assumes "a mod 4 = 0" and "i < 4"
  shows "(a + i) div 4096 = a div 4096"
proof -
  have "(a + i) div 4 = a div 4" using assms by presburger
  then show ?thesis by (simp add: div_mult2_eq [of _ 4 1024, simplified])
qed

lemma load_present: "fs_present s (a div 4096) \<Longrightarrow> load_via flt a s = Ret (vis s a) s"
  by (simp add: load_via_def va_is_mapped_def BLKSIZE_def vis_def)

lemma load32_present:
  assumes "fs_present s (a div 4096)" and "a mod 4 = 0"
  shows "load32_via flt a s = Ret (rd32 (vis s) a) s"
  using load_present [of s _ flt] assms(1) aligned_word [OF assms(2), of 1] aligned_word [OF assms(2), of 2]
    aligned_word [OF assms(2), of 3]
  by (simp add: load32_via_def rd32_def)

lemma nblocks_load:
  assumes "bc_ok s"
  shows "load32_via flt nblocks_addr s = Ret (rd32 (vis s) nblocks_addr) s"
  by (rule load32_present) (use bc_okD(3) [OF assms] in \<open>simp_all add: nblocks_addr_def BLKSIZE_def\<close>)

lemma test_bit_word: "(w :: u32) AND push_bit n 1 \<noteq> 0 \<longleftrightarrow> bit w n"
proof -
  have "w AND push_bit n 1 = (if bit w n then push_bit n 1 else 0)"
    by (rule bit_word_eqI) (auto simp: bit_simps)
  then show ?thesis by (auto simp: push_bit_eq_mult dest: bit_imp_le_length)
qed

lemma block_is_free_runs:
  assumes ok: "bc_ok s" and b: "unat blockno < nblocks (vis s)"
    and H: "runs s (load32_via flt (bitmap_addr blockno)) (rd32 (vis s) (bitmap_addr blockno)) (vis s)"
  shows "runs s (block_is_free_via flt blockno) (free_bit (vis s) (unat blockno)) (vis s)"
proof -
  have nb: "\<not> rd32 (vis s) nblocks_addr \<le> blockno" using b by (simp add: nblocks_def word_le_nat_alt)
  obtain s' where s': "load32_via flt (bitmap_addr blockno) s = Ret (rd32 (vis s) (bitmap_addr blockno)) s'"
    "bc_ok s'" "vis s' = vis s" "grows s s'" using H by (auto simp: runs_def)
  have "unat (blockno div 32) = unat blockno div 32" "unat (blockno mod 32) = unat blockno mod 32"
    by (simp_all add: unat_div unat_mod)
  then have "(rd32 (vis s) (bitmap_addr blockno) AND push_bit (unat (blockno mod 32)) 1 \<noteq> 0) =
      free_bit (vis s) (unat blockno)"
    unfolding test_bit_word free_bit_def by (simp add: bitmap_addr_def)
  then show ?thesis
    using bc_okD(1,2) [OF ok] nblocks_load [OF ok] nb s'
    by (auto simp: runs_def block_is_free_via_def)
qed

text \<open>The state after a block has been read in.\<close>

definition filled :: "nat \<Rightarrow> ide \<Rightarrow> fs \<Rightarrow> fs" where
  "filled b d s = s\<lparr>fs_ide := d, fs_frames := fs_frames s - 1, fs_present := (fs_present s)(b := True),
     fs_cache := put_bytes (b * 4096) (map (disk_byte s) [b * 4096 ..< (b + 1) * 4096]) (fs_cache s),
     fs_dirty := (fs_dirty s)(b := False)\<rparr>"

lemma in_block: "a div 4096 = b \<longleftrightarrow> b * 4096 \<le> a \<and> a < b * 4096 + (4096 :: nat)"
proof
  assume "a div 4096 = b"
  then show "b * 4096 \<le> a \<and> a < b * 4096 + 4096"
    using div_mult_mod_eq [of a 4096] mod_less_divisor [of 4096 a] by linarith
next
  assume "b * 4096 \<le> a \<and> a < b * 4096 + 4096"
  then show "a div 4096 = b" by (intro div_nat_eqI) simp_all
qed

lemma put_bytes_block:
  "put_bytes (b * 4096) (map f [b * 4096 ..< (b + 1) * 4096]) m a = (if a div 4096 = b then f a else m a)"
  unfolding in_block put_bytes_def by auto

lemma filled_ok:
  assumes ok: "bc_ok s" and b: "b < nblocks (vis s)" "\<not> fs_present s b"
    and d: "working (ide_status d)" "ide_media d = ide_media (fs_ide s)" "diskno d = diskno (fs_ide s)"
  shows "bc_ok (filled b d s)" and "vis (filled b d s) = vis s" and "grows s (filled b d s)" "fs_present (filled b d s) b"
proof -
  note I = bc_okD [OF ok]
  have db: "disk_byte (filled b d s) = disk_byte s" using d by (simp add: disk_byte_def drive_def filled_def)
  have c: "fs_cache (filled b d s) a = (if a div 4096 = b then disk_byte s a else fs_cache s a)" for a
    using put_bytes_block [of b "disk_byte s" "fs_cache s" a] by (simp add: filled_def)
  have p: "fs_present (filled b d s) = (fs_present s)(b := True)" "fs_dirty (filled b d s) = (fs_dirty s)(b := False)"
    "fs_frames (filled b d s) = fs_frames s - 1" "fs_req (filled b d s) = fs_req s" by (simp_all add: filled_def)
  show v: "vis (filled b d s) = vis s" using b(2) by (auto simp: fun_eq_iff vis_def db c p)
  show "grows s (filled b d s)" "fs_present (filled b d s) b" by (simp_all add: grows_def p)
  let ?A = "{x. x < nblocks (vis s) \<and> \<not> fs_present s x}"
  have "{x. x < nblocks (vis s) \<and> \<not> fs_present (filled b d s) x} = ?A - {b}" by (auto simp: p)
  moreover have "card (?A - {b}) = card ?A - 1" using b by (intro card_Diff_singleton) simp
  ultimately have "card {x. x < nblocks (vis (filled b d s)) \<and> \<not> fs_present (filled b d s) x} \<le> fs_frames (filled b d s)"
    using I(6) by (simp add: v p)
  then show "bc_ok (filled b d s)"
    using I d(1) unfolding bc_ok_def v db c p by (auto simp: filled_def)
qed

lemma frames_left:
  assumes "bc_ok s" and "b < nblocks (vis s)" "\<not> fs_present s b"
  shows "fs_frames s \<noteq> 0"
proof -
  have "{b} \<subseteq> {x. x < nblocks (vis s) \<and> \<not> fs_present s x}" using assms(2,3) by simp
  then have "card {b} \<le> card {x. x < nblocks (vis s) \<and> \<not> fs_present s x}" by (intro card_mono) simp_all
  then show ?thesis using bc_okD(6) [OF assms(1)] by simp
qed

lemma block_read:
  assumes ok: "bc_ok s" and b: "b < nblocks (vis s)"
  obtains d where "ide_read (word_of_nat b * word_of_nat BLKSECTS) BLKSECTS (fs_ide s) =
      Ret (0, map (disk_byte s) [b * 4096 ..< (b + 1) * 4096]) d"
    "working (ide_status d)" "ide_media d = ide_media (fs_ide s)" "diskno d = diskno (fs_ide s)"
proof -
  have b8: "b < 786432" using b bc_okD(5) [OF ok] by (simp add: meta_ok_def)
  let ?sec = "word_of_nat b * word_of_nat BLKSECTS :: u32"
  have sec: "unat ?sec = b * 8" using b8 by (simp add: BLKSECTS_def BLKSIZE_def SECTSIZE_def unat_word_ariths unat_of_nat)
  obtain d where "ide_read ?sec BLKSECTS (fs_ide s) = Ret (0, map (ide_media (fs_ide s) (unat (diskno (fs_ide s) AND 1)))
      [unat ?sec * SECTSIZE ..< (unat ?sec + BLKSECTS) * SECTSIZE]) d"
    "working (ide_status d)" "ide_media d = ide_media (fs_ide s)" "diskno d = diskno (fs_ide s)"
    using ide_read_working [OF bc_okD(4) [OF ok], of ?sec BLKSECTS] sec b8
    by (auto simp: BLKSECTS_def BLKSIZE_def SECTSIZE_def)
  moreover have "[unat ?sec * SECTSIZE ..< (unat ?sec + BLKSECTS) * SECTSIZE] = [b * 4096 ..< (b + 1) * 4096]"
    unfolding sec by (simp add: BLKSECTS_def BLKSIZE_def SECTSIZE_def algebra_simps)
  ultimately show thesis by (intro that [of d]) (simp_all add: disk_byte_def drive_def)
qed

lemma fault_step:
  assumes ok: "bc_ok s" and acc: "accessible (vis s) (va div 4096)" and np: "\<not> fs_present s (va div 4096)"
    and H: "\<And>t. bc_ok t \<Longrightarrow> vis t = vis s \<Longrightarrow> grows s t \<Longrightarrow> fs_present t (va div 4096) \<Longrightarrow>
      runs t (load32_via (bc_pgfault n) (bitmap_addr (word_of_nat (va div 4096))))
        (rd32 (vis s) (bitmap_addr (word_of_nat (va div 4096)))) (vis s)"
  obtains s' where "bc_pgfault (Suc n) va s = Ret () s'" "bc_ok s'" "vis s' = vis s" "grows s s'"
    "fs_present s' (va div 4096)"
proof -
  let ?b = "va div 4096" and ?w = "word_of_nat (va div 4096) :: u32"
  have b: "?b < nblocks (vis s)" "\<not> free_bit (vis s) ?b" using acc by (simp_all add: accessible_def)
  have b8: "?b < 786432" using b(1) bc_okD(5) [OF ok] by (simp add: meta_ok_def)
  then have va: "\<not> DISKSIZE \<le> va" unfolding DISKSIZE_def by (simp add: div_less_iff_less_mult)
  have w: "unat ?w = ?b" using b8 by (simp add: unat_of_nat)
  have nb: "\<not> rd32 (vis s) nblocks_addr \<le> ?w" using b(1) w by (simp add: nblocks_def word_le_nat_alt)
  obtain d where d: "ide_read (?w * word_of_nat BLKSECTS) BLKSECTS (fs_ide s) =
      Ret (0, map (disk_byte s) [?b * 4096 ..< (?b + 1) * 4096]) d"
    "working (ide_status d)" "ide_media d = ide_media (fs_ide s)" "diskno d = diskno (fs_ide s)"
    using block_read [OF ok b(1)] by blast
  let ?s1 = "s\<lparr>fs_frames := fs_frames s - 1, fs_present := (fs_present s)(?b := True)\<rparr>"
  have d1: "on_ide (ide_read (?w * word_of_nat BLKSECTS) BLKSECTS) ?s1 =
      Ret (0, map (disk_byte s) [?b * 4096 ..< (?b + 1) * 4096]) (?s1\<lparr>fs_ide := d\<rparr>)"
    using d(1) by (simp add: on_ide_def)
  note F = filled_ok [OF ok b(1) np d(2-4)]
  have w2: "unat ?w < nblocks (vis (filled ?b d s))" using b(1) w F(2) by simp
  have "runs (filled ?b d s) (block_is_free_via (bc_pgfault n) ?w) (free_bit (vis (filled ?b d s)) (unat ?w)) (vis (filled ?b d s))"
    by (rule block_is_free_runs [OF F(1) w2]) (use H [OF F] F(2) in simp)
  then obtain s' where s': "block_is_free_via (bc_pgfault n) ?w (filled ?b d s) = Ret False s'" "bc_ok s'" "vis s' = vis s"
    "grows (filled ?b d s) s'" using b(2) F(2) w by (auto simp: runs_def)
  have g: "grows s s'" "fs_present s' ?b" using grows_trans [OF F(3) s'(4)] s'(4) F(4) by (auto simp: grows_def)
  have fe: "filled ?b d s = s\<lparr>fs_frames := fs_frames s - 1, fs_present := (fs_present s)(?b := True), fs_ide := d,
      fs_cache := put_bytes (?b * 4096) (map (disk_byte s) [?b * 4096 ..< (?b + 1) * 4096]) (fs_cache s),
      fs_dirty := (fs_dirty s)(?b := False)\<rparr>"
    by (simp add: filled_def)
  have "bc_pgfault (Suc n) va s = Ret () s'"
    using va bc_okD(1,2) [OF ok] nblocks_load [OF ok] nb frames_left [OF ok b(1) np] d1 s'(1) [unfolded fe]
    by (simp add: Let_def BLKSIZE_def)
  then show thesis using s'(2,3) g by (rule that)
qed

text \<open>A handler that can bring a block in.\<close>

definition brings :: "nat \<Rightarrow> nat \<Rightarrow> fs \<Rightarrow> bool" where
  "brings n va s \<longleftrightarrow> (\<exists>s'. bc_pgfault n va s = Ret () s' \<and> bc_ok s' \<and> vis s' = vis s \<and> grows s s' \<and>
     fs_present s' (va div 4096))"

lemma load_runs:
  assumes ok: "bc_ok s" and "fs_present s (a div 4096) \<or> brings n a s"
  obtains s' where "load_via (bc_pgfault n) a s = Ret (vis s a) s'" "bc_ok s'" "vis s' = vis s" "grows s s'"
    "fs_present s' (a div 4096)"
proof (cases "fs_present s (a div 4096)")
  case True
  then show ?thesis using that load_present [OF True] ok by simp
next
  case False
  then obtain s' where s': "bc_pgfault n a s = Ret () s'" "bc_ok s'" "vis s' = vis s" "grows s s'"
    "fs_present s' (a div 4096)" using assms(2) by (auto simp: brings_def)
  then have "fs_cache s' a = vis s a" by (metis vis_def)
  then show ?thesis using that s' False by (simp add: load_via_def va_is_mapped_def BLKSIZE_def)
qed

lemma load32_runs:
  assumes ok: "bc_ok s" and p: "fs_present s (a div 4096) \<or> brings n a s" and a: "a mod 4 = 0"
  shows "runs s (load32_via (bc_pgfault n) a) (rd32 (vis s) a) (vis s)"
proof -
  obtain s' where s': "load_via (bc_pgfault n) a s = Ret (vis s a) s'" "bc_ok s'" "vis s' = vis s" "grows s s'"
    "fs_present s' (a div 4096)" using load_runs [OF ok p] .
  have "load_via (bc_pgfault n) (a + i) s' = Ret (vis s (a + i)) s'" if "i < 4" for i
    using load_present [of s' "a + i"] s'(3,5) aligned_word [OF a that] by simp
  from this [of 1] this [of 2] this [of 3]
  have "load32_via (bc_pgfault n) a s = Ret (rd32 (vis s) a) s'" using s'(1) by (simp add: load32_via_def rd32_def)
  then show ?thesis using s' by (auto simp: runs_def)
qed

lemma bitmap_block:
  assumes "b < 4294967296"
  shows "bitmap_addr (word_of_nat b) div 4096 = 2 + b div 32768" and "bitmap_addr (word_of_nat b) mod 4 = 0"
proof -
  have "bitmap_addr (word_of_nat b) = 8192 + 4 * (b div 32)"
    using assms by (simp add: bitmap_addr_def BLKSIZE_def unat_div unat_of_nat)
  then show "bitmap_addr (word_of_nat b) div 4096 = 2 + b div 32768" "bitmap_addr (word_of_nat b) mod 4 = 0"
    by (simp_all add: div_mult2_eq [of _ 32 1024, simplified] div_mult2_eq [of _ 4 1024, simplified])
qed

lemma brings_step:
  assumes ok: "bc_ok s" and acc: "accessible (vis s) (va div 4096)" and np: "\<not> fs_present s (va div 4096)"
    and H: "\<And>t. bc_ok t \<Longrightarrow> vis t = vis s \<Longrightarrow> grows s t \<Longrightarrow> fs_present t (va div 4096) \<Longrightarrow>
      fs_present t (2 + va div 4096 div 32768) \<or> brings n (bitmap_addr (word_of_nat (va div 4096))) t"
  shows "brings (Suc n) va s"
proof -
  have b: "va div 4096 < 4294967296" using acc bc_okD(5) [OF ok] by (simp add: accessible_def meta_ok_def)
  obtain s' where "bc_pgfault (Suc n) va s = Ret () s'" "bc_ok s'" "vis s' = vis s" "grows s s'" "fs_present s' (va div 4096)"
  proof (rule fault_step [OF ok acc np])
    fix t assume t: "bc_ok t" "vis t = vis s" "grows s t" "fs_present t (va div 4096)"
    have "runs t (load32_via (bc_pgfault n) (bitmap_addr (word_of_nat (va div 4096))))
        (rd32 (vis t) (bitmap_addr (word_of_nat (va div 4096)))) (vis t)"
      by (rule load32_runs [OF t(1)]) (use H [OF t] bitmap_block [OF b] in simp_all)
    then show "runs t (load32_via (bc_pgfault n) (bitmap_addr (word_of_nat (va div 4096))))
        (rd32 (vis s) (bitmap_addr (word_of_nat (va div 4096)))) (vis s)" by (simp add: t(2))
  qed
  then show ?thesis unfolding brings_def by blast
qed

lemma bitmap_accessible:
  assumes "meta_ok m" and "b < nblocks m"
  shows "accessible m (2 + b div 32768)" and "2 + b div 32768 < 32768"
proof -
  have "b div 32768 < (nblocks m + 32767) div 32768" using assms(2) by (simp add: div_less_iff_less_mult less_eq_div_iff_mult_less_eq Suc_le_eq [symmetric])
  then have "2 + b div 32768 < first_data m" by (simp add: first_data_def)
  then show "accessible m (2 + b div 32768)" using assms(1) by (auto simp: accessible_def meta_ok_def)
  show "2 + b div 32768 < 32768" using assms by (simp add: meta_ok_def div_less_iff_less_mult)
qed

lemma brings_accessible:
  assumes ok: "bc_ok s" and acc: "accessible (vis s) (va div 4096)" and np: "\<not> fs_present s (va div 4096)"
  shows "brings 3 va s"
proof -
  have m: "meta_ok (vis s)" by (rule bc_okD(5) [OF ok])
  have two: "brings (Suc 0) va t"
    if "bc_ok t" "vis t = vis s" "va div 4096 = 2" "\<not> fs_present t (va div 4096)" for t va
    by (rule brings_step) (use that bitmap_accessible(1) [OF m, of 0] m in \<open>auto simp: meta_ok_def first_data_def\<close>)
  have bm: "brings (Suc (Suc 0)) va t"
    if t: "bc_ok t" "vis t = vis s" "\<not> fs_present t (va div 4096)" and b: "va div 4096 = 2 + b div 32768" "b < nblocks (vis s)" for t va b
  proof (rule brings_step [OF t(1) _ t(3)])
    show "accessible (vis t) (va div 4096)" using bitmap_accessible(1) [OF m b(2)] t(2) b(1) by simp
    fix u assume u: "bc_ok u" "vis u = vis t"
    have "va div 4096 < 32768" using bitmap_accessible(2) [OF m b(2)] b(1) by simp
    then have "va div 4096 div 32768 = 0" "bitmap_addr (word_of_nat (va div 4096)) div 4096 = 2"
      using bitmap_block(1) [of "va div 4096"] by simp_all
    then show "fs_present u (2 + va div 4096 div 32768) \<or> brings (Suc 0) (bitmap_addr (word_of_nat (va div 4096))) u"
      using two [of u "bitmap_addr (word_of_nat (va div 4096))"] u t(2) by auto
  qed
  have b: "va div 4096 < nblocks (vis s)" "va div 4096 < 4294967296"
    using acc m by (simp_all add: accessible_def meta_ok_def)
  have "brings (Suc (Suc (Suc 0))) va s"
    by (rule brings_step [OF ok acc np]) (use bm [OF _ _ _ _ b(1)] bitmap_block(1) [OF b(2)] in auto)
  then show ?thesis by (simp add: numeral_3_eq_3)
qed

subsection \<open>Loads\<close>

lemma access:
  assumes "bc_ok s" and "accessible (vis s) (a div 4096)"
  shows "fs_present s (a div 4096) \<or> brings 3 a s"
  using brings_accessible [OF assms] by blast

lemma load_byte_runs:
  assumes "bc_ok s" and "accessible (vis s) (a div 4096)"
  shows "runs s (load_byte a) (vis s a) (vis s)"
  unfolding load_byte_def by (rule load_runs [OF assms(1) access [OF assms]]) (auto simp: runs_def)

lemma load_word_runs:
  assumes "bc_ok s" and "accessible (vis s) (a div 4096)" and "a mod 4 = 0"
  shows "runs s (load_word a) (rd32 (vis s) a) (vis s)"
  unfolding load_word_def by (rule load32_runs [OF assms(1) access [OF assms(1,2)] assms(3)])

lemma block_is_free_run:
  assumes ok: "bc_ok s"
  shows "runs s (block_is_free w) (unat w < nblocks (vis s) \<and> free_bit (vis s) (unat w)) (vis s)"
proof (cases "unat w < nblocks (vis s)")
  case True
  have m: "meta_ok (vis s)" by (rule bc_okD(5) [OF ok])
  have b: "bitmap_addr w div 4096 = 2 + unat w div 32768" "bitmap_addr w mod 4 = 0"
    using bitmap_block [of "unat w"] unat_lt_4G [of w] by simp_all
  have "runs s (load32_via (bc_pgfault 3) (bitmap_addr w)) (rd32 (vis s) (bitmap_addr w)) (vis s)"
    by (rule load32_runs [OF ok access [OF ok] b(2)]) (use bitmap_accessible(1) [OF m True] in \<open>simp only: b(1)\<close>)
  from block_is_free_runs [OF ok True this] True show ?thesis by (simp add: block_is_free_def)
next
  case False
  then have "rd32 (vis s) nblocks_addr \<le> w" by (simp add: nblocks_def word_le_nat_alt)
  then show ?thesis using False bc_okD(1) [OF ok] nblocks_load [OF ok] ok
    by (auto simp: runs_def block_is_free_def block_is_free_via_def)
qed

lemma diskaddr_runs:
  assumes ok: "bc_ok s" and "0 < unat w" and "unat w < nblocks (vis s)"
  shows "runs s (diskaddr w) (unat w * 4096) (vis s)"
proof -
  have "w \<noteq> 0" using assms(2) by auto
  moreover have "\<not> rd32 (vis s) nblocks_addr \<le> w" using assms(3) by (simp add: nblocks_def word_le_nat_alt)
  ultimately show ?thesis using nblocks_load [OF ok] bc_okD(1) [OF ok] ok
    by (auto simp: runs_def diskaddr_def load_word_def BLKSIZE_def)
qed

lemma load_bytes_runs:
  assumes "bc_ok s" and "\<And>i. i < n \<Longrightarrow> accessible (vis s) ((a + i) div 4096)"
  shows "runs s (load_bytes a n) (map (vis s) [a ..< a + n]) (vis s)"
proof -
  have "runs s (foldr (\<lambda>i m. andthen (load_byte (a + i)) (\<lambda>b. andthen m (\<lambda>bs. ret (b # bs)))) is (ret []))
      (map (\<lambda>i. vis s (a + i)) is) (vis s)" if "set is \<subseteq> {..< n}" "bc_ok s" "\<And>i. i < n \<Longrightarrow> accessible (vis s) ((a + i) div 4096)"
    for "is" and s :: fs
    using that
  proof (induction "is" arbitrary: s)
    case (Cons i "is")
    have i: "i < n" using Cons.prems(1) by simp
    show ?case unfolding foldr.simps comp_apply
    proof (rule runs_andthen [OF load_byte_runs [OF Cons.prems(2) Cons.prems(3) [OF i]]])
      fix t assume t: "bc_ok t" "vis t = vis s"
      have "runs t (foldr (\<lambda>i m. andthen (load_byte (a + i)) (\<lambda>b. andthen m (\<lambda>bs. ret (b # bs)))) is (ret []))
        (map (\<lambda>i. vis t (a + i)) is) (vis t)" by (rule Cons.IH [OF _ t(1)]) (use Cons.prems t(2) in auto)
      then show "runs t (andthen (foldr (\<lambda>i m. andthen (load_byte (a + i)) (\<lambda>b. andthen m (\<lambda>bs. ret (b # bs)))) is (ret []))
          (\<lambda>bs. ret (vis s (a + i) # bs))) (map (\<lambda>i. vis s (a + i)) (i # is)) (vis s)"
        by (rule runs_andthen) (simp add: t(2) runs_ret)
    qed
  qed (simp add: runs_ret)
  from this [of "[0 ..< n]" s] assms have "runs s (load_bytes a n) (map (\<lambda>i. vis s (a + i)) [0 ..< n]) (vis s)"
    by (simp add: load_bytes_def atLeast0LessThan)
  moreover have "map (\<lambda>i. vis s (a + i)) [0 ..< n] = map (vis s) [a ..< a + n]"
    by (rule nth_equalityI) simp_all
  ultimately show ?thesis by simp
qed

subsection \<open>Stores\<close>

text \<open>The bytes that hold the size of the disk and the bitmap.\<close>

definition meta_addr :: "(nat \<Rightarrow> u8) \<Rightarrow> nat \<Rightarrow> bool" where
  "meta_addr m a \<longleftrightarrow> 4100 \<le> a \<and> a < 4104 \<or> 8192 \<le> a \<and> a < first_data m * 4096"

definition same_meta :: "(nat \<Rightarrow> u8) \<Rightarrow> (nat \<Rightarrow> u8) \<Rightarrow> bool" where
  "same_meta m m' \<longleftrightarrow> (\<forall>a. meta_addr m a \<longrightarrow> m' a = m a)"

lemma same_meta:
  assumes "same_meta m m'"
  shows "nblocks m' = nblocks m" "first_data m' = first_data m" "b < nblocks m \<Longrightarrow> free_bit m' b = free_bit m b"
    "accessible m' = accessible m" "meta_ok m' = meta_ok m" "meta_addr m' = meta_addr m"
proof -
  have "rd32 m' nblocks_addr = rd32 m nblocks_addr"
    using assms by (simp add: rd32_def nblocks_addr_def BLKSIZE_def same_meta_def meta_addr_def)
  then show nb: "nblocks m' = nblocks m" by (simp add: nblocks_def)
  then show fd: "first_data m' = first_data m" by (simp add: first_data_def)
  have fb: "free_bit m' b = free_bit m b" if b: "b < nblocks m" for b
  proof -
    have "b div 32768 < (nblocks m + 32767) div 32768"
      using b by (simp add: div_less_iff_less_mult less_eq_div_iff_mult_less_eq Suc_le_eq [symmetric])
    then have "2 + b div 32768 + 1 \<le> first_data m" by (simp add: first_data_def)
    moreover have "8192 + 4 * (b div 32) + 3 < (2 + b div 32768 + 1) * 4096"
      using div_mult2_eq [of b 32 1024] mod_less_divisor [of 1024 "b div 32"] div_mult_mod_eq [of "b div 32" 1024] by simp
    ultimately have "8192 + 4 * (b div 32) + 3 < first_data m * 4096"
      by (meson less_le_trans mult_le_mono1)
    then show ?thesis using assms
      by (simp add: free_bit_def rd32_def BLKSIZE_def same_meta_def meta_addr_def)
  qed
  then show "b < nblocks m \<Longrightarrow> free_bit m' b = free_bit m b" .
  show "accessible m' = accessible m" using nb fb by (auto simp: accessible_def fun_eq_iff)
  show "meta_ok m' = meta_ok m" unfolding meta_ok_def nb fd using fb by (metis less_le_trans)
  show "meta_addr m' = meta_addr m" by (simp add: fun_eq_iff meta_addr_def fd)
qed

text \<open>A page just brought in, or there already, gets new contents.\<close>

lemma mapped_in:
  assumes ok: "bc_ok s" and "accessible (vis s) (a div 4096)"
  obtains s' where "(if va_is_mapped s a then ret () else bc_pgfault 3 a) s = Ret () s'" "bc_ok s'" "vis s' = vis s"
    "grows s s'" "fs_present s' (a div 4096)"
proof (cases "fs_present s (a div 4096)")
  case True
  then show ?thesis using that ok by (simp add: va_is_mapped_def BLKSIZE_def)
next
  case False
  then obtain s' where "bc_pgfault 3 a s = Ret () s'" "bc_ok s'" "vis s' = vis s" "grows s s'" "fs_present s' (a div 4096)"
    using brings_accessible [OF ok assms(2)] by (auto simp: brings_def)
  then show ?thesis using that False by (simp add: va_is_mapped_def BLKSIZE_def)
qed

lemma vis_store:
  assumes "fs_present s (a div 4096)" and "\<And>i. i < length bs \<Longrightarrow> (a + i) div 4096 = a div 4096"
  shows "vis (s\<lparr>fs_cache := put_bytes a bs (fs_cache s), fs_dirty := d\<rparr>) = put_bytes a bs (vis s)"
proof
  fix x
  have "fs_present s (x div 4096)" if "a \<le> x \<and> x < a + length bs"
  proof -
    have "x - a < length bs" "a + (x - a) = x" using that by linarith+
    then show ?thesis using assms(2) [of "x - a"] assms(1) by simp
  qed
  then show "vis (s\<lparr>fs_cache := put_bytes a bs (fs_cache s), fs_dirty := d\<rparr>) x = put_bytes a bs (vis s) x"
    by (auto simp: vis_def put_bytes_def disk_byte_def drive_def)
qed

lemma bc_ok_store:
  assumes ok: "bc_ok s" and p: "fs_present s (a div 4096)" and bs: "\<And>i. i < length bs \<Longrightarrow> (a + i) div 4096 = a div 4096"
    and m: "meta_ok (put_bytes a bs (vis s))" "nblocks (put_bytes a bs (vis s)) = nblocks (vis s)"
  shows "bc_ok (s\<lparr>fs_cache := put_bytes a bs (fs_cache s), fs_dirty := (fs_dirty s)(a div 4096 := True)\<rparr>)"
proof -
  note I = bc_okD [OF ok]
  let ?s = "s\<lparr>fs_cache := put_bytes a bs (fs_cache s), fs_dirty := (fs_dirty s)(a div 4096 := True)\<rparr>"
  have v: "vis ?s = put_bytes a bs (vis s)" by (rule vis_store [OF p bs])
  have "fs_cache ?s x = disk_byte ?s x" if x: "fs_present s (x div 4096)" "x div 4096 \<noteq> a div 4096" "\<not> fs_dirty s (x div 4096)" for x
  proof -
    have "\<not> (a \<le> x \<and> x < a + length bs)"
    proof
      assume "a \<le> x \<and> x < a + length bs"
      then have "x - a < length bs" "a + (x - a) = x" by linarith+
      then show False using bs [of "x - a"] x(2) by simp
    qed
    then show ?thesis using I(7) [OF x(1,3)] by (auto simp: put_bytes_def disk_byte_def drive_def)
  qed
  then show ?thesis using I m unfolding bc_ok_def v by auto
qed

lemma store_word_runs:
  assumes ok: "bc_ok s" and acc: "accessible (vis s) (a div 4096)" and al: "a mod 4 = 0"
    and m: "meta_ok (put_bytes a (word_bytes_le w) (vis s))" "nblocks (put_bytes a (word_bytes_le w) (vis s)) = nblocks (vis s)"
  shows "runs s (store_word a w) () (put_bytes a (word_bytes_le w) (vis s))"
proof -
  obtain t where t: "(if va_is_mapped s a then ret () else bc_pgfault 3 a) s = Ret () t" "bc_ok t" "vis t = vis s"
    "grows s t" "fs_present t (a div 4096)" using mapped_in [OF ok acc] .
  have bs: "(a + i) div 4096 = a div 4096" if "i < length (word_bytes_le w)" for i
    using that by (intro aligned_word [OF al]) (simp add: word_bytes_le_def)
  show ?thesis
    using t bc_ok_store [OF t(2,5) bs] vis_store [OF t(5) bs] m
    by (auto simp: runs_def store_word_def BLKSIZE_def grows_def)
qed

lemma put_bytes_one: "put_bytes a [b] m = m(a := b)"
  by (auto simp: put_bytes_def fun_eq_iff)

lemma store_byte_runs:
  assumes ok: "bc_ok s" and acc: "accessible (vis s) (a div 4096)" and na: "\<not> meta_addr (vis s) a"
  shows "runs s (store_byte a b) () ((vis s)(a := b))"
proof -
  obtain t where t: "(if va_is_mapped s a then ret () else bc_pgfault 3 a) s = Ret () t" "bc_ok t" "vis t = vis s"
    "grows s t" "fs_present t (a div 4096)" using mapped_in [OF ok acc] .
  have "same_meta (vis s) ((vis s)(a := b))" using na by (auto simp: same_meta_def)
  note M = same_meta(5,1) [OF this]
  have "bc_ok (t\<lparr>fs_cache := (fs_cache t)(a := b), fs_dirty := (fs_dirty t)(a div 4096 := True)\<rparr>)"
    using bc_ok_store [OF t(2,5), of "[b]"] M bc_okD(5) [OF ok] t(3) by (simp add: put_bytes_one)
  moreover have "vis (t\<lparr>fs_cache := (fs_cache t)(a := b), fs_dirty := d\<rparr>) = (vis s)(a := b)" for d
    using vis_store [OF t(5), of "[b]"] t(3) by (simp add: put_bytes_one)
  ultimately show ?thesis using t by (auto simp: runs_def store_byte_def BLKSIZE_def grows_def)
qed

lemma store_bytes_runs:
  assumes "bc_ok s" and "\<And>i. i < length bs \<Longrightarrow> accessible (vis s) ((a + i) div 4096) \<and> \<not> meta_addr (vis s) (a + i)"
  shows "runs s (store_bytes a bs) () (put_bytes a bs (vis s))"
proof -
  have "runs s (each (\<lambda>i. store_byte (a + i) (bs ! i)) [0 ..< n]) () (put_bytes a (take n bs) (vis s))" if "n \<le> length bs" for n
    using that
  proof (induction n)
    case (Suc n)
    let ?M = "put_bytes a (take n bs) (vis s)"
    have n: "n < length bs" using Suc.prems by simp
    have sm: "same_meta (vis s) ?M" using assms(2) n by (auto simp: same_meta_def put_bytes_def) (metis le_add_diff_inverse less_diff_conv2 less_trans nat_add_left_cancel_less)
    have "runs s (each (\<lambda>i. store_byte (a + i) (bs ! i)) [0 ..< n]) () ?M" using Suc by simp
    then show ?case unfolding upt_Suc_append [OF le0] each_append
    proof (rule runs_andthen)
      fix t assume t: "bc_ok t" "vis t = ?M"
      have "runs t (store_byte (a + n) (bs ! n)) () ((vis t)(a + n := bs ! n))"
        by (rule store_byte_runs [OF t(1)]) (use assms(2) [OF n] same_meta [OF sm] in \<open>simp_all add: t(2)\<close>)
      moreover have "(vis t)(a + n := bs ! n) = put_bytes a (take (Suc n) bs) (vis s)"
        using put_bytes_append [of a "take n bs" "[bs ! n]" "vis s"] n
        by (simp add: t(2) take_Suc_conv_app_nth put_bytes_one min_def)
      ultimately show "runs t (each (\<lambda>i. store_byte (a + i) (bs ! i)) [n]) () (put_bytes a (take (Suc n) bs) (vis s))"
        by (auto simp: runs_def)
    qed
  qed (simp add: runs_def assms(1))
  from this [of "length bs"] show ?thesis by (simp add: store_bytes_def)
qed

subsection \<open>Write-back\<close>

lemma block_written:
  assumes ok: "bc_ok s" and b: "b < 786432"
  obtains d where "ide_write (word_of_nat b * word_of_nat BLKSECTS) (map (fs_cache s) [b * BLKSIZE ..< (b + 1) * BLKSIZE])
      BLKSECTS (fs_ide s) = Ret 0 d"
    "working (ide_status d)" "diskno d = diskno (fs_ide s)"
    "\<And>x. ide_media d (drive s) x = (if x div 4096 = b then fs_cache s x else disk_byte s x)"
proof -
  let ?sec = "word_of_nat b * word_of_nat BLKSECTS :: u32" and ?bs = "map (fs_cache s) [b * BLKSIZE ..< (b + 1) * BLKSIZE]"
  have sec: "unat ?sec = b * 8" using b by (simp add: BLKSECTS_def BLKSIZE_def SECTSIZE_def unat_word_ariths unat_of_nat)
  obtain d where d: "ide_write ?sec ?bs BLKSECTS (fs_ide s) = Ret 0 d" "working (ide_status d)" "diskno d = diskno (fs_ide s)"
    "ide_media d = (ide_media (fs_ide s))(unat (diskno (fs_ide s) AND 1) :=
      put_bytes (unat ?sec * SECTSIZE) ?bs (ide_media (fs_ide s) (unat (diskno (fs_ide s) AND 1))))"
    using ide_write_working [OF bc_okD(4) [OF ok], of ?sec BLKSECTS ?bs] sec b
    by (auto simp: BLKSECTS_def BLKSIZE_def SECTSIZE_def)
  have "ide_media d (drive s) x = (if x div 4096 = b then fs_cache s x else disk_byte s x)" for x
    using put_bytes_block [of b "fs_cache s" "disk_byte s" x] d(4) [unfolded sec]
    by (simp add: drive_def disk_byte_def SECTSIZE_def BLKSIZE_def algebra_simps)
  then show thesis using that d(1-3) by blast
qed

lemma flush_block_ok:
  assumes ok: "bc_ok s" and a: "a < DISKSIZE"
  obtains s' where "flush_block a s = Ret () s'" "bc_ok s'" "vis s' = vis s" "grows s s'"
    "\<And>x. x div 4096 = a div 4096 \<Longrightarrow> disk_byte s' x = vis s x"
proof (cases "fs_present s (a div 4096) \<and> fs_dirty s (a div 4096)")
  case False
  then have "flush_block a s = Ret () s" using a by (auto simp: flush_block_def va_is_mapped_def va_is_dirty_def Let_def BLKSIZE_def)
  moreover have "disk_byte s x = vis s x" if "x div 4096 = a div 4096" for x
    using False bc_okD(7) [OF ok, of x] that by (auto simp: vis_def)
  ultimately show ?thesis using that [of s] ok by simp
next
  case True
  let ?b = "a div 4096"
  have b: "?b < 786432" using a by (simp add: DISKSIZE_def div_less_iff_less_mult)
  obtain d where d: "ide_write (word_of_nat ?b * word_of_nat BLKSECTS) (map (fs_cache s) [?b * BLKSIZE ..< (?b + 1) * BLKSIZE])
      BLKSECTS (fs_ide s) = Ret 0 d" "working (ide_status d)" "diskno d = diskno (fs_ide s)"
    "\<And>x. ide_media d (drive s) x = (if x div 4096 = ?b then fs_cache s x else disk_byte s x)"
    using block_written [OF ok b] by blast
  define s' where "s' = s\<lparr>fs_ide := d, fs_dirty := (fs_dirty s)(?b := False)\<rparr>"
  have db: "disk_byte s' x = (if x div 4096 = ?b then fs_cache s x else disk_byte s x)" for x
    using d(3,4) by (simp add: disk_byte_def drive_def s'_def)
  have v: "vis s' = vis s" using True by (auto simp: fun_eq_iff vis_def db) (simp_all add: s'_def)
  have "flush_block a s = Ret () s'"
    using True a d(1) by (simp add: flush_block_def va_is_mapped_def va_is_dirty_def Let_def on_ide_def s'_def BLKSIZE_def)
  moreover have "bc_ok s'"
    using bc_okD [OF ok] d(2) unfolding bc_ok_def v db by (auto simp: s'_def)
  moreover have "disk_byte s' x = vis s x" if "x div 4096 = ?b" for x using True that by (simp add: db vis_def)
  moreover have "grows s s'" by (simp add: s'_def grows_def)
  ultimately show ?thesis using that v by blast
qed

lemma flush_block_runs: "bc_ok s \<Longrightarrow> a < DISKSIZE \<Longrightarrow> runs s (flush_block a) () (vis s)"
  by (rule flush_block_ok) (auto simp: runs_def grows_def)

text \<open>
  \<^bold>\<open>C16.\<close> The block cache is transparent. On a working disk, for every address of a block that is in
  use: a load returns the visible byte and changes no visible byte, a store outside the super block's
  count of blocks and the bitmap changes exactly that byte, and writing the block back leaves the disk itself
  with the visible bytes of the block. None of the three can panic or wait forever, although the first
  access to a page runs the fault handler, which may fault itself.
\<close>

theorem bc_transparent:
  assumes "bc_ok s" and "accessible (vis s) (a div BLKSIZE)"
  shows "(\<exists>s'. load_byte a s = Ret (vis s a) s' \<and> bc_ok s' \<and> vis s' = vis s) \<and>
    (\<not> meta_addr (vis s) a \<longrightarrow> (\<exists>s'. store_byte a b s = Ret () s' \<and> bc_ok s' \<and> vis s' = (vis s)(a := b))) \<and>
    (\<exists>s'. flush_block a s = Ret () s' \<and> bc_ok s' \<and> vis s' = vis s \<and>
       (\<forall>x. x div BLKSIZE = a div BLKSIZE \<longrightarrow> disk_byte s' x = vis s x))"
proof -
  have acc: "accessible (vis s) (a div 4096)" using assms(2) by (simp add: BLKSIZE_def)
  then have "a div 4096 < 786432" using bc_okD(5) [OF assms(1)] by (simp add: accessible_def meta_ok_def)
  then have a: "a < DISKSIZE" by (simp add: DISKSIZE_def div_less_iff_less_mult)
  obtain s' where s': "flush_block a s = Ret () s'" "bc_ok s'" "vis s' = vis s" "grows s s'"
    "\<And>x. x div 4096 = a div 4096 \<Longrightarrow> disk_byte s' x = vis s x" using flush_block_ok [OF assms(1) a] by blast
  show ?thesis
    using load_byte_runs [OF assms(1) acc] store_byte_runs [OF assms(1) acc, of b] s' unfolding runs_def BLKSIZE_def by blast
qed

text \<open>A small disk: five blocks, of which 3 and 4 are free.\<close>

definition small_disk :: "nat \<Rightarrow> u8" where
  "small_disk a = (if a = 4100 then 5 else if a = 8192 then 0x18 else 0)"

definition fs_of :: "(nat \<Rightarrow> u8) \<Rightarrow> fs" where
  "fs_of m = \<lparr>fs_ide = \<lparr>diskno = 1, ide_status = sconst IDE_DRDY, ide_regs = (\<lambda>_. 0), ide_sector = 0, ide_media = (\<lambda>_. m)\<rparr>,
     fs_cache = m, fs_present = (\<lambda>b. b = 1), fs_dirty = (\<lambda>_. False), fs_super = True, fs_bitmap = True,
     fs_frames = nblocks m, fs_req = (\<lambda>_. 0)\<rparr>"

lemma working_sconst: "working (sconst IDE_DRDY)"
  by (simp add: working_def ready_status_def IDE_DRDY_def IDE_BSY_def IDE_DF_def IDE_ERR_def)

lemma vis_fs_of [simp]: "vis (fs_of m) = m"
  by (auto simp: fun_eq_iff vis_def fs_of_def disk_byte_def)

lemma bc_ok_fs_of: "meta_ok m \<Longrightarrow> bc_ok (fs_of m)"
proof -
  assume m: "meta_ok m"
  have "card {b. b < nblocks m \<and> b \<noteq> 1} \<le> card {..< nblocks m}" by (rule card_mono) auto
  then show ?thesis using m working_sconst
    unfolding bc_ok_def vis_fs_of by (simp add: fs_of_def disk_byte_def)
qed

lemma small_disk_meta: "meta_ok small_disk" "nblocks small_disk = 5" "first_data small_disk = 3"
  "accessible small_disk b \<longleftrightarrow> b < 3" if "b < 5" for b
proof -
  show nb: "nblocks small_disk = 5"
    by (simp add: nblocks_def rd32_def nblocks_addr_def BLKSIZE_def small_disk_def le_word_def)
  then show fd: "first_data small_disk = 3" by (simp add: first_data_def)
  have w: "rd32 small_disk 8192 = 0x18" by (simp add: rd32_def small_disk_def le_word_def)
  have fb: "free_bit small_disk b \<longleftrightarrow> b = 3 \<or> b = 4" if "b < 5" for b
  proof -
    have "b \<in> {0, 1, 2, 3, 4}" using that by auto
    then show ?thesis using w by (auto simp: free_bit_def BLKSIZE_def bit_iff_odd_drop_bit drop_bit_eq_div)
  qed
  show "meta_ok small_disk" unfolding meta_ok_def nb fd using fb by simp
  show "accessible small_disk b \<longleftrightarrow> b < 3" unfolding accessible_def nb using fb [OF that] that by auto
qed

theorem bc_transparent_witness:
  "\<exists>s'. load_byte 8192 (fs_of small_disk) = Ret 0x18 s' \<and> vis s' = small_disk"
proof -
  have "accessible small_disk 2" using small_disk_meta(4) [of 2] by simp
  then show ?thesis
    using bc_transparent [OF bc_ok_fs_of [OF small_disk_meta(1) [of 0]], of 8192 0]
    by (auto simp: BLKSIZE_def small_disk_def)
qed

end
