(* ===== verification/Fs_Bitmap.thy ===== *)
theory Fs_Bitmap
  imports Fs_Fs Fs_Bc_Spec
begin

text \<open>
  Words on disk and the free-block bitmap: reading a word gives what was written last, marking a block
  changes its bit and nothing else, and \<^verbatim>\<open>alloc_block\<close> takes the first free block.
\<close>

unbundle bit_operations_syntax

subsection \<open>Words\<close>

lemma le_word_bytes: "le_word (ucast w) (ucast (drop_bit 8 w)) (ucast (drop_bit 16 w)) (ucast (drop_bit 24 w)) = w"
proof (rule bit_word_eqI)
  fix n
  assume "n < LENGTH(32)"
  then have "n < 32" by simp
  then consider "n < 8" | "8 \<le> n" "n < 16" | "16 \<le> n" "n < 24" | "24 \<le> n" "n < 32" by linarith
  then show "bit (le_word (ucast w) (ucast (drop_bit 8 w)) (ucast (drop_bit 16 w)) (ucast (drop_bit 24 w))) n = bit w n"
    by cases (auto simp: le_word_def bit_simps)
qed

lemma length_word_bytes [simp]: "length (word_bytes_le w) = 4"
  by (simp add: word_bytes_le_def)

abbreviation wr32 :: "nat \<Rightarrow> u32 \<Rightarrow> (nat \<Rightarrow> u8) \<Rightarrow> nat \<Rightarrow> u8" where
  "wr32 a w m \<equiv> put_bytes a (word_bytes_le w) m"

lemma rd32_wr32_same [simp]: "rd32 (wr32 a w m) a = w"
  using le_word_bytes [of w] by (simp add: rd32_def put_bytes_def word_bytes_le_def)

lemma wr32_outside: "x < a \<or> a + 4 \<le> x \<Longrightarrow> wr32 a w m x = m x"
  by (auto simp: put_bytes_def)

lemma rd32_cong:
  assumes "\<And>i. i < 4 \<Longrightarrow> m' (a + i) = m (a + i)"
  shows "rd32 m' a = rd32 m a"
  using assms [of 0] assms [of 1] assms [of 2] assms [of 3] by (simp add: rd32_def)

lemma rd32_wr32_other: "c + 4 \<le> a \<or> a + 4 \<le> c \<Longrightarrow> rd32 (wr32 a w m) c = rd32 m c"
  by (rule rd32_cong) (auto simp: put_bytes_def)

subsection \<open>The bitmap\<close>

definition mark :: "bool \<Rightarrow> nat \<Rightarrow> (nat \<Rightarrow> u8) \<Rightarrow> nat \<Rightarrow> u8" where
  "mark v b m = wr32 (8192 + 4 * (b div 32))
     ((if v then set_bit else unset_bit) (b mod 32) (rd32 m (8192 + 4 * (b div 32)))) m"

lemma bitmap_slot: "b < nblocks m \<Longrightarrow> 8192 + 4 * (b div 32) + 4 \<le> first_data m * 4096"
proof -
  assume b: "b < nblocks m"
  have "b div 32768 < (nblocks m + 32767) div 32768"
    using b by (simp add: div_less_iff_less_mult less_eq_div_iff_mult_less_eq Suc_le_eq [symmetric])
  then have "(b div 32) div 1024 + 3 \<le> first_data m" by (simp add: first_data_def div_mult2_eq [symmetric])
  moreover have "b div 32 < (b div 32) div 1024 * 1024 + 1024"
    using div_mult_mod_eq [of "b div 32" 1024] mod_less_divisor [of 1024 "b div 32"] by linarith
  ultimately show ?thesis by linarith
qed

lemma mark_outside: "b < nblocks m \<Longrightarrow> x < 8192 \<or> first_data m * 4096 \<le> x \<Longrightarrow> mark v b m x = m x"
  using bitmap_slot [of b m] unfolding mark_def by (intro wr32_outside) linarith

lemma free_bit_mark: "free_bit (mark v b m) c \<longleftrightarrow> (if c = b then v else free_bit m c)"
proof (cases "c div 32 = b div 32")
  case True
  have m32: "c mod 32 < 32" "b mod 32 < 32" by simp_all
  have "c = b \<longleftrightarrow> c mod 32 = b mod 32" using True by (metis div_mult_mod_eq)
  then show ?thesis using True m32
    by (auto simp: free_bit_def mark_def BLKSIZE_def bit_simps)
next
  case False
  then have "c div 32 < b div 32 \<or> b div 32 < c div 32" by linarith
  then have "8192 + 4 * (c div 32) + 4 \<le> 8192 + 4 * (b div 32) \<or> 8192 + 4 * (b div 32) + 4 \<le> 8192 + 4 * (c div 32)" by linarith
  from rd32_wr32_other [OF this] have "rd32 (mark v b m) (8192 + 4 * (c div 32)) = rd32 m (8192 + 4 * (c div 32))"
    by (simp add: mark_def)
  then show ?thesis using False by (auto simp: free_bit_def BLKSIZE_def)
qed

lemma mark_sizes: "nblocks (mark v b m) = nblocks m" "first_data (mark v b m) = first_data m"
proof -
  have "rd32 (mark v b m) nblocks_addr = rd32 m nblocks_addr"
    unfolding mark_def by (rule rd32_wr32_other) (simp add: nblocks_addr_def BLKSIZE_def)
  then show "nblocks (mark v b m) = nblocks m" "first_data (mark v b m) = first_data m" by (simp_all add: nblocks_def first_data_def)
qed

lemma meta_ok_mark: "meta_ok m \<Longrightarrow> v \<longrightarrow> first_data m \<le> b \<Longrightarrow> meta_ok (mark v b m)"
  by (auto simp: meta_ok_def mark_sizes free_bit_mark)

lemma accessible_mark: "accessible (mark v b m) c \<longleftrightarrow> c < nblocks m \<and> (if c = b then \<not> v else \<not> free_bit m c)"
  by (simp add: accessible_def mark_sizes free_bit_mark)

lemma bitmap_addr_nat: "bitmap_addr w = 8192 + 4 * (unat w div 32)" "unat (w mod 32) = unat w mod 32"
  by (simp_all add: bitmap_addr_def BLKSIZE_def unat_div unat_mod)

subsection \<open>Freeing and allocating a block\<close>

lemma bitmap_word:
  assumes "bc_ok s" and "unat w < nblocks (vis s)"
  shows "accessible (vis s) (bitmap_addr w div 4096)" and "bitmap_addr w mod 4 = 0" and "bitmap_addr w < DISKSIZE"
proof -
  have m: "meta_ok (vis s)" by (rule bc_okD(5) [OF assms(1)])
  have b: "bitmap_addr w div 4096 = 2 + unat w div 32768" "bitmap_addr w mod 4 = 0"
    using bitmap_block [of "unat w"] unat_lt_4G [of w] by simp_all
  show "accessible (vis s) (bitmap_addr w div 4096)" "bitmap_addr w mod 4 = 0"
    using b bitmap_accessible(1) [OF m assms(2)] by simp_all
  show "bitmap_addr w < DISKSIZE" using unat_lt_4G [of w] by (simp add: bitmap_addr_nat DISKSIZE_def)
qed

lemma mark_store:
  assumes ok: "bc_ok s" and w: "unat w < nblocks (vis s)" and v: "v \<longrightarrow> first_data (vis s) \<le> unat w"
  shows "runs s (andthen (load_word (bitmap_addr w)) (\<lambda>x. store_word (bitmap_addr w)
      (if v then x OR push_bit (unat (w mod 32)) 1 else x AND NOT (push_bit (unat (w mod 32)) 1)))) () (mark v (unat w) (vis s))"
proof (rule runs_andthen [OF load_word_runs [OF ok bitmap_word(1,2) [OF ok w]]])
  fix t
  assume t: "bc_ok t" "vis t = vis s" "grows s t"
  let ?x = "rd32 (vis s) (bitmap_addr w)"
  let ?y = "if v then ?x OR push_bit (unat (w mod 32)) 1 else ?x AND NOT (push_bit (unat (w mod 32)) 1)"
  have e: "wr32 (bitmap_addr w) ?y (vis s) = mark v (unat w) (vis s)"
    by (simp add: mark_def bitmap_addr_nat set_bit_eq_or unset_bit_eq_and_not)
  have m: "meta_ok (mark v (unat w) (vis s))" by (rule meta_ok_mark [OF bc_okD(5) [OF ok] v])
  show "runs t (store_word (bitmap_addr w) ?y) () (mark v (unat w) (vis s))"
    using store_word_runs [OF t(1), of "bitmap_addr w" ?y] bitmap_word [OF ok w] unfolding t(2) e by (simp add: m mark_sizes)
qed

lemma free_block_runs:
  assumes "bc_ok s" and "first_data (vis s) \<le> unat w" and "unat w < nblocks (vis s)"
  shows "runs s (free_block w) () (mark True (unat w) (vis s))"
proof -
  have "w \<noteq> 0" using assms(2) by (auto simp: first_data_def)
  then show ?thesis using mark_store [OF assms(1,3), of True] assms(2) by (simp add: free_block_def)
qed

definition no_space :: "(nat \<Rightarrow> u8) \<Rightarrow> bool" where
  "no_space m \<longleftrightarrow> (\<forall>b < nblocks m. \<not> free_bit m b)"

lemma runs_if_None: "runs s m r M \<Longrightarrow> runs s (andthen m (\<lambda>_. ret x)) x M"
  by (erule runs_andthen) (rule runs_ret)

text \<open>A block whose cached copy agrees with the disk.\<close>

definition synced :: "fs \<Rightarrow> nat \<Rightarrow> bool" where
  "synced s b \<longleftrightarrow> (\<forall>x. x div 4096 = b \<longrightarrow> disk_byte s x = vis s x)"

text \<open>One round of the search.\<close>

lemma alloc_round:
  assumes ok: "bc_ok s" and w: "unat w < nblocks (vis s)"
  shows "free_bit (vis s) (unat w) \<Longrightarrow> \<exists>u. alloc_try w s = Ret (Some w) u \<and> bc_ok u \<and> vis u = mark False (unat w) (vis s) \<and>
      grows s u \<and> synced u (bitmap_addr w div 4096)"
    and "\<not> free_bit (vis s) (unat w) \<Longrightarrow> runs s (alloc_try w) None (vis s)"
proof -
  assume f: "free_bit (vis s) (unat w)"
  let ?store = "\<lambda>x. store_word (bitmap_addr w) (x AND NOT (push_bit (unat (w mod 32)) 1))"
  obtain t where t: "block_is_free w s = Ret True t" "bc_ok t" "vis t = vis s" "grows s t"
    using block_is_free_run [OF ok, of w] w f by (auto simp: runs_def)
  obtain t' where t': "andthen (load_word (bitmap_addr w)) ?store t = Ret () t'" "bc_ok t'" "vis t' = mark False (unat w) (vis s)" "grows t t'"
    using mark_store [OF t(2), of w False] w unfolding t(3) by (auto simp: runs_def)
  obtain u where u: "flush_block (bitmap_addr w) t' = Ret () u" "bc_ok u" "vis u = vis t'" "grows t' u"
      "\<And>x. x div 4096 = bitmap_addr w div 4096 \<Longrightarrow> disk_byte u x = vis t' x"
    using flush_block_ok [OF t'(2) bitmap_word(3) [OF ok w]] by blast
  have "alloc_try w s = andthen (andthen (load_word (bitmap_addr w)) ?store) (\<lambda>_. andthen (flush_block (bitmap_addr w)) (\<lambda>_. ret (Some w))) t"
    using t(1) unfolding andthen_assoc by (simp add: alloc_try_def)
  then have "alloc_try w s = Ret (Some w) u" using t'(1) u(1) by simp
  then show "\<exists>u. alloc_try w s = Ret (Some w) u \<and> bc_ok u \<and> vis u = mark False (unat w) (vis s) \<and> grows s u \<and> synced u (bitmap_addr w div 4096)"
    using t'(3) u(2,3,5) grows_trans [OF t(4) grows_trans [OF t'(4) u(4)]] by (simp add: synced_def)
next
  assume "\<not> free_bit (vis s) (unat w)"
  then show "runs s (alloc_try w) None (vis s)" unfolding alloc_try_def
    by (intro runs_andthen [OF block_is_free_run [OF ok, of w]]) (simp add: runs_ret)
qed

definition first_free :: "(nat \<Rightarrow> u8) \<Rightarrow> nat" where
  "first_free m = (LEAST b. b < nblocks m \<and> free_bit m b)"

lemma first_free:
  assumes "\<not> no_space m"
  shows "first_free m < nblocks m" "free_bit m (first_free m)" "b < first_free m \<Longrightarrow> \<not> free_bit m b"
proof -
  have "\<exists>b. b < nblocks m \<and> free_bit m b" using assms by (auto simp: no_space_def)
  from LeastI_ex [OF this] show f: "first_free m < nblocks m" "free_bit m (first_free m)" by (simp_all add: first_free_def)
  show "\<not> free_bit m b" if "b < first_free m"
    using not_less_Least [of b "\<lambda>b. b < nblocks m \<and> free_bit m b"] that f(1) by (auto simp: first_free_def)
qed

lemma first_free_data: "meta_ok m \<Longrightarrow> \<not> no_space m \<Longrightarrow> first_data m \<le> first_free m"
  using first_free(2) [of m] by (auto simp: meta_ok_def not_less [symmetric])

lemma nblocks_word_runs: "bc_ok s \<Longrightarrow> load_word nblocks_addr s = Ret (rd32 (vis s) nblocks_addr) s"
  unfolding load_word_def by (rule nblocks_load)

lemma alloc_search:
  assumes "bc_ok s" and "\<And>b. b < unat i \<Longrightarrow> \<not> free_bit (vis s) b" and "unat i \<le> nblocks (vis s)"
  shows "\<exists>u. for_below (load_word nblocks_addr) alloc_try i s =
      Ret (if no_space (vis s) then None else Some (word_of_nat (first_free (vis s)))) u \<and>
    bc_ok u \<and> vis u = (if no_space (vis s) then vis s else mark False (first_free (vis s)) (vis s)) \<and> grows s u \<and>
    (\<not> no_space (vis s) \<longrightarrow> synced u (2 + first_free (vis s) div 32768))"
  using assms
proof (induction "nblocks (vis s) - unat i" arbitrary: i s)
  case 0
  have "\<not> i < rd32 (vis s) nblocks_addr" using 0 by (simp add: nblocks_def word_less_nat_alt)
  moreover have "no_space (vis s)" using 0 by (auto simp: no_space_def)
  ultimately show ?case
    using for_below_step(3) [where bound = "load_word nblocks_addr" and body = alloc_try and i = i, OF nblocks_word_runs [OF 0(2)]] 0(2)
    by simp
next
  case (Suc k)
  have lt: "i < rd32 (vis s) nblocks_addr" and ib: "unat i < nblocks (vis s)"
    using Suc(2) by (simp_all add: nblocks_def word_less_nat_alt)
  note step = for_below_step [where bound = "load_word nblocks_addr" and body = alloc_try, OF nblocks_word_runs [OF Suc(3)]]
  show ?case
  proof (cases "free_bit (vis s) (unat i)")
    case True
    have "first_free (vis s) = unat i" unfolding first_free_def
      using True ib Suc(4) by (intro Least_equality) (auto simp: not_less [symmetric])
    moreover have "\<not> no_space (vis s)" using True ib by (auto simp: no_space_def)
    moreover have "bitmap_addr i div 4096 = 2 + unat i div 32768" using bitmap_block(1) [of "unat i"] unat_lt_4G [of i] by simp
    ultimately show ?thesis using alloc_round(1) [OF Suc(3) ib True] step(2) [OF lt] by auto
  next
    case False
    obtain t where t: "alloc_try i s = Ret None t" "bc_ok t" "vis t = vis s" "grows s t"
      using alloc_round(2) [OF Suc(3) ib False] by (auto simp: runs_def)
    have n: "unat (i + 1) = unat i + 1" by (rule unat_Suc_less [OF lt])
    have "k = nblocks (vis t) - unat (i + 1)" "unat (i + 1) \<le> nblocks (vis t)" using Suc(2) ib unfolding t(3) n by linarith+
    moreover have "\<not> free_bit (vis t) b" if "b < unat (i + 1)" for b
      using that False Suc(4) unfolding t(3) n by (auto simp: less_Suc_eq)
    ultimately have "\<exists>u. for_below (load_word nblocks_addr) alloc_try (i + 1) t =
        Ret (if no_space (vis s) then None else Some (word_of_nat (first_free (vis s)))) u \<and>
      bc_ok u \<and> vis u = (if no_space (vis s) then vis s else mark False (first_free (vis s)) (vis s)) \<and> grows t u \<and>
      (\<not> no_space (vis s) \<longrightarrow> synced u (2 + first_free (vis s) div 32768))"
      using Suc(1) [of t "i + 1"] t(2) unfolding t(3) by blast
    then show ?thesis using grows_trans [OF t(4)] unfolding step(1) [OF lt t(1)] by blast
  qed
qed

lemma alloc_block_ok:
  assumes "bc_ok s"
  obtains u where "alloc_block s = Ret (if no_space (vis s) then err E_NO_DISK else word_of_nat (first_free (vis s))) u"
    "bc_ok u" "vis u = (if no_space (vis s) then vis s else mark False (first_free (vis s)) (vis s))" "grows s u"
    "\<not> no_space (vis s) \<longrightarrow> synced u (2 + first_free (vis s) div 32768)"
proof -
  have m: "meta_ok (vis s)" by (rule bc_okD(5) [OF assms])
  have z: "\<not> free_bit (vis s) b" if "b < unat (1 :: u32)" for b
    using m that by (simp add: meta_ok_def first_data_def)
  have "unat (1 :: u32) \<le> nblocks (vis s)" using m by (simp add: meta_ok_def first_data_def)
  from alloc_search [OF assms z this] obtain u where "for_below (load_word nblocks_addr) alloc_try 1 s =
      Ret (if no_space (vis s) then None else Some (word_of_nat (first_free (vis s)))) u"
    and u: "bc_ok u" "vis u = (if no_space (vis s) then vis s else mark False (first_free (vis s)) (vis s))" "grows s u"
      "\<not> no_space (vis s) \<longrightarrow> synced u (2 + first_free (vis s) div 32768)" by blast
  then have "alloc_block s = Ret (if no_space (vis s) then err E_NO_DISK else word_of_nat (first_free (vis s))) u"
    by (simp add: alloc_block_def)
  then show ?thesis using that u by blast
qed

lemma alloc_block_runs:
  assumes "bc_ok s"
  shows "runs s alloc_block (if no_space (vis s) then err E_NO_DISK else word_of_nat (first_free (vis s)))
    (if no_space (vis s) then vis s else mark False (first_free (vis s)) (vis s))"
  using alloc_block_ok [OF assms] unfolding runs_def by metis

text \<open>
  \<^bold>\<open>C17.\<close> \<^verbatim>\<open>alloc_block\<close> on a working disk returns the lowest-numbered free block, which lies behind
  the bitmap, clears its bit and no other, changes no byte outside the bitmap, and leaves the changed
  bitmap block on the disk. With no block free it returns \<open>- E_NO_DISK\<close> and changes nothing.
\<close>

theorem alloc_block_spec:
  assumes "bc_ok s"
  shows "\<exists>r u. alloc_block s = Ret r u \<and> bc_ok u \<and>
    (if \<exists>b < nblocks (vis s). free_bit (vis s) b
     then first_data (vis s) \<le> unat r \<and> unat r < nblocks (vis s) \<and> free_bit (vis s) (unat r) \<and>
       (\<forall>b. b < unat r \<longrightarrow> \<not> free_bit (vis s) b) \<and>
       (\<forall>b. free_bit (vis u) b \<longleftrightarrow> free_bit (vis s) b \<and> b \<noteq> unat r) \<and>
       (\<forall>x. x < 2 * BLKSIZE \<or> first_data (vis s) * BLKSIZE \<le> x \<longrightarrow> vis u x = vis s x) \<and>
       (\<forall>x. x div BLKSIZE = 2 + unat r div BLKBITSIZE \<longrightarrow> disk_byte u x = vis u x)
     else r = err E_NO_DISK \<and> vis u = vis s)"
proof -
  obtain u where u: "alloc_block s = Ret (if no_space (vis s) then err E_NO_DISK else word_of_nat (first_free (vis s))) u"
    "bc_ok u" "vis u = (if no_space (vis s) then vis s else mark False (first_free (vis s)) (vis s))" "grows s u"
    "\<not> no_space (vis s) \<longrightarrow> synced u (2 + first_free (vis s) div 32768)" by (rule alloc_block_ok [OF assms])
  show ?thesis
  proof (cases "no_space (vis s)")
    case True
    then show ?thesis using u(1-3) by (auto simp: no_space_def)
  next
    case False
    let ?b = "first_free (vis s)"
    have m: "meta_ok (vis s)" by (rule bc_okD(5) [OF assms])
    have r: "unat (word_of_nat ?b :: u32) = ?b" using first_free(1) [OF False] m by (simp add: unat_of_nat meta_ok_def)
    have ex: "\<exists>b < nblocks (vis s). free_bit (vis s) b" using False by (auto simp: no_space_def)
    have "\<And>x. x div BLKSIZE = 2 + ?b div BLKBITSIZE \<Longrightarrow> disk_byte u x = vis u x"
      using u(5) False by (simp add: synced_def BLKSIZE_def BLKBITSIZE_def)
    moreover have "\<And>x. x < 2 * BLKSIZE \<or> first_data (vis s) * BLKSIZE \<le> x \<Longrightarrow> vis u x = vis s x"
      using u(3) False mark_outside [OF first_free(1) [OF False]] by (simp add: BLKSIZE_def)
    moreover have "\<And>b. free_bit (vis u) b \<longleftrightarrow> free_bit (vis s) b \<and> b \<noteq> ?b" using u(3) False by (simp add: free_bit_mark)
    moreover have "alloc_block s = Ret (word_of_nat ?b) u" using u(1) False by simp
    ultimately show ?thesis
      using u(2) ex r first_free [OF False] first_free_data [OF m False] unfolding if_P [OF ex]
      by (intro exI [of _ "word_of_nat ?b"] exI [of _ u]) (simp only: r, blast)
  qed
qed

theorem alloc_block_spec_witness: "\<exists>u. alloc_block (fs_of small_disk) = Ret 3 u \<and> \<not> free_bit (vis u) 3 \<and> free_bit (vis u) 4"
proof -
  have f: "free_bit small_disk 3" "free_bit small_disk 4" "\<not> free_bit small_disk 0" "\<not> free_bit small_disk 1" "\<not> free_bit small_disk 2"
    using small_disk_meta(4) [of 3] small_disk_meta(4) [of 4] small_disk_meta(4) [of 0] small_disk_meta(4) [of 1] small_disk_meta(4) [of 2]
      small_disk_meta(2) [of 0] by (simp_all add: accessible_def)
  then have ex: "\<exists>b < nblocks small_disk. free_bit small_disk b" using small_disk_meta(2) [of 0] by (intro exI [of _ 3]) simp
  obtain r u where r: "alloc_block (fs_of small_disk) = Ret r u" "free_bit small_disk (unat r)"
      "\<And>b. b < unat r \<Longrightarrow> \<not> free_bit small_disk b" "\<And>b. free_bit (vis u) b \<longleftrightarrow> free_bit small_disk b \<and> b \<noteq> unat r"
    using alloc_block_spec [OF bc_ok_fs_of [OF small_disk_meta(1) [of 0]]] ex by auto
  have "\<not> 3 < unat r" using r(3) f(1) by blast
  moreover have "unat r \<noteq> 0" "unat r \<noteq> 1" "unat r \<noteq> 2" using r(2) f(3-5) by metis+
  ultimately have "unat r = 3" by linarith
  then have "r = 3" "unat r = 3" using word_unat_eq_iff [of r 3] by simp_all
  then show ?thesis using r(1,4) f(2) by auto
qed

end
