(* ===== verification/Fs_File.thy ===== *)
theory Fs_File
  imports Fs_Bitmap
begin

text \<open>
  The block map of a file. A file is a function from block numbers in the file to blocks of the disk,
  with 0 for a hole, and its contents are the bytes this map leads to, with zeros in the holes. A file is
  well formed when its blocks are in use, distinct and disjoint from the blocks that hold its descriptor
  and its indirect pointers. \<^verbatim>\<open>file_get_block\<close> keeps a file well formed and its contents unchanged
  while it fills a hole.
\<close>

subsection \<open>Files on the visible disk\<close>

definition ind :: "(nat \<Rightarrow> u8) \<Rightarrow> nat \<Rightarrow> nat" where
  "ind m f = unat (rd32 m (f + 176))"

definition fmap :: "(nat \<Rightarrow> u8) \<Rightarrow> nat \<Rightarrow> nat \<Rightarrow> nat" where
  "fmap m f k = (if k < 10 then unat (rd32 m (f + 136 + 4 * k))
     else if ind m f = 0 then 0 else unat (rd32 m (ind m f * 4096 + 4 * (k - 10))))"

definition fsize :: "(nat \<Rightarrow> u8) \<Rightarrow> nat \<Rightarrow> nat" where
  "fsize m f = unat (rd32 m (f + 128))"

definition contents :: "(nat \<Rightarrow> u8) \<Rightarrow> nat \<Rightarrow> nat \<Rightarrow> u8" where
  "contents m f i = (if fmap m f (i div 4096) = 0 then 0 else m (fmap m f (i div 4096) * 4096 + i mod 4096))"

definition data_block :: "(nat \<Rightarrow> u8) \<Rightarrow> nat \<Rightarrow> bool" where
  "data_block m b \<longleftrightarrow> first_data m \<le> b \<and> b < nblocks m \<and> \<not> free_bit m b"

text \<open>The blocks a file owns, and the place of its descriptor: the root directory's is in the super block.\<close>

definition owned :: "(nat \<Rightarrow> u8) \<Rightarrow> nat \<Rightarrow> nat set" where
  "owned m f = {b. b \<noteq> 0 \<and> (b = ind m f \<or> (\<exists>k < 1034. b = fmap m f k))}"

definition file_at :: "(nat \<Rightarrow> u8) \<Rightarrow> nat \<Rightarrow> bool" where
  "file_at m f \<longleftrightarrow> f mod 4 = 0 \<and> f mod 4096 + 256 \<le> 4096 \<and> (f = 4104 \<or> data_block m (f div 4096))"

definition file_ok :: "(nat \<Rightarrow> u8) \<Rightarrow> nat \<Rightarrow> bool" where
  "file_ok m f \<longleftrightarrow> file_at m f \<and> (\<forall>b \<in> owned m f. data_block m b \<and> b \<noteq> f div 4096) \<and>
     (\<forall>k < 1034. fmap m f k \<noteq> 0 \<longrightarrow> fmap m f k \<noteq> ind m f) \<and>
     (\<forall>j < 1034. \<forall>k < 1034. fmap m f j \<noteq> 0 \<longrightarrow> fmap m f j = fmap m f k \<longrightarrow> j = k)"

text \<open>
  What an operation on file \<open>f\<close> may change: the bitmap, the size and the pointers in the descriptor, the
  blocks the file owns, and blocks that were free. It may free only its own blocks.
\<close>

definition within :: "nat \<Rightarrow> (nat \<Rightarrow> u8) \<Rightarrow> (nat \<Rightarrow> u8) \<Rightarrow> bool" where
  "within f m m' \<longleftrightarrow> nblocks m' = nblocks m \<and>
     (\<forall>x. m' x \<noteq> m x \<longrightarrow> 8192 \<le> x \<and> x < first_data m * 4096 \<or> f + 128 \<le> x \<and> x < f + 180 \<or>
        x div 4096 \<in> owned m f \<or> x div 4096 < nblocks m \<and> free_bit m (x div 4096)) \<and>
     (\<forall>b < nblocks m. b \<notin> owned m f \<longrightarrow> free_bit m' b \<longrightarrow> free_bit m b) \<and>
     (\<forall>b \<in> owned m' f. b \<in> owned m f \<or> b < nblocks m \<and> free_bit m b)"

lemma within_refl [simp]: "within f m m"
  by (auto simp: within_def)

lemma within_trans:
  assumes "within f m m'" and "within f m' m''"
  shows "within f m m''"
proof -
  have n: "nblocks m' = nblocks m" "first_data m' = first_data m" using assms(1) by (simp_all add: within_def first_data_def)
  have o: "b \<in> owned m f \<or> b < nblocks m \<and> free_bit m b" if "b \<in> owned m' f \<or> b < nblocks m \<and> free_bit m' b" for b
    using that assms(1) unfolding within_def by blast
  have "m' x \<noteq> m x \<or> m'' x \<noteq> m' x" if "m'' x \<noteq> m x" for x using that by auto
  then have "8192 \<le> x \<and> x < first_data m * 4096 \<or> f + 128 \<le> x \<and> x < f + 180 \<or>
      x div 4096 \<in> owned m f \<or> x div 4096 < nblocks m \<and> free_bit m (x div 4096)" if "m'' x \<noteq> m x" for x
    using that assms o [of "x div 4096"] unfolding within_def n by blast
  moreover have "free_bit m b" if "b < nblocks m" "b \<notin> owned m f" "free_bit m'' b" for b
    using that assms unfolding within_def n by blast
  moreover have "b \<in> owned m f \<or> b < nblocks m \<and> free_bit m b" if "b \<in> owned m'' f" for b
    using that assms(2) o [of b] unfolding within_def n by blast
  ultimately show ?thesis using assms n by (simp add: within_def)
qed

lemma owned_fmap: "k < 1034 \<Longrightarrow> fmap m f k \<noteq> 0 \<Longrightarrow> fmap m f k \<in> owned m f"
  and owned_ind: "ind m f \<noteq> 0 \<Longrightarrow> ind m f \<in> owned m f"
  by (auto simp: owned_def)

lemma file_okD:
  assumes "file_ok m f"
  shows "file_at m f" "b \<in> owned m f \<Longrightarrow> data_block m b" "b \<in> owned m f \<Longrightarrow> b \<noteq> f div 4096"
    "k < 1034 \<Longrightarrow> fmap m f k \<noteq> 0 \<Longrightarrow> fmap m f k \<noteq> ind m f"
    "j < 1034 \<Longrightarrow> k < 1034 \<Longrightarrow> fmap m f j \<noteq> 0 \<Longrightarrow> fmap m f j = fmap m f k \<Longrightarrow> j = k"
  using assms unfolding file_ok_def by auto

lemma first_data_ge: "meta_ok m \<Longrightarrow> 3 \<le> first_data m"
  by (auto simp: meta_ok_def first_data_def)

text \<open>Words of a file's descriptor and of its indirect block.\<close>

definition slot_of :: "(nat \<Rightarrow> u8) \<Rightarrow> nat \<Rightarrow> nat \<Rightarrow> nat" where
  "slot_of m f k = (if k < 10 then f + 136 + 4 * k else ind m f * 4096 + 4 * (k - 10))"

definition slot :: "(nat \<Rightarrow> u8) \<Rightarrow> nat \<Rightarrow> bool" where
  "slot m p \<longleftrightarrow> p mod 4 = 0 \<and> 4104 \<le> p \<and> (p div 4096 = 1 \<or> data_block m (p div 4096))"

lemma descriptor_block:
  assumes "file_at m f" and "i < 256"
  shows "(f + i) div 4096 = f div 4096"
proof -
  have "f mod 4096 + 256 \<le> 4096" using assms(1) by (simp add: file_at_def)
  then show ?thesis using div_mult_mod_eq [of f 4096] assms(2) unfolding in_block by linarith
qed

lemma mod4_add: "a mod 4 = 0 \<Longrightarrow> (a + 4 * k) mod 4 = (0 :: nat)"
  by (simp add: mod_add_eq [of a 4, symmetric])

lemma descriptor_slot:
  assumes "file_at m f" and "4 * k < 256"
  shows "slot m (f + 4 * k)"
proof -
  have f: "f mod 4 = 0" "f = 4104 \<or> data_block m (f div 4096)" using assms(1) by (simp_all add: file_at_def)
  have b: "(f + 4 * k) div 4096 = f div 4096" by (rule descriptor_block [OF assms])
  have "4104 \<le> f"
  proof (cases "f = 4104")
    case False
    then have "2 \<le> f div 4096" using f(2) by (auto simp: data_block_def first_data_def)
    then show ?thesis using div_mult_mod_eq [of f 4096] by linarith
  qed simp
  then show ?thesis unfolding slot_def b using f mod4_add by auto
qed

lemma indirect_slot:
  assumes "file_ok m f" and "ind m f \<noteq> 0" and "10 \<le> k" "k < 1034"
  shows "slot m (ind m f * 4096 + 4 * (k - 10))" and "(ind m f * 4096 + 4 * (k - 10)) div 4096 = ind m f"
proof -
  show b: "(ind m f * 4096 + 4 * (k - 10)) div 4096 = ind m f" using assms(3,4) unfolding in_block by linarith
  have d: "data_block m (ind m f)" using file_okD(2) [OF assms(1)] owned_ind [OF assms(2)] by blast
  then have "2 \<le> ind m f" by (simp add: data_block_def first_data_def)
  moreover have "(ind m f * 4096) mod 4 = 0" by (simp add: mod_mult_right_eq [symmetric])
  ultimately show "slot m (ind m f * 4096 + 4 * (k - 10))" unfolding slot_def b using d mod4_add by auto
qed

lemma slot_of_slot:
  assumes "file_ok m f" and "k < 1034" and "k < 10 \<or> ind m f \<noteq> 0"
  shows "slot m (slot_of m f k)" and "fmap m f k = unat (rd32 m (slot_of m f k))"
proof -
  have "slot m (f + 4 * (34 + k))" if "k < 10" using descriptor_slot [of m f "34 + k"] file_okD(1) [OF assms(1)] that by simp
  then show "slot m (slot_of m f k)" "fmap m f k = unat (rd32 m (slot_of m f k))"
    using indirect_slot(1) [OF assms(1)] assms(2,3) by (auto simp: slot_of_def fmap_def algebra_simps)
qed

lemma slotD:
  assumes "meta_ok m" and "slot m p"
  shows "accessible m (p div 4096)" "p mod 4 = 0" "p < 8192 \<or> first_data m * 4096 \<le> p" "4104 \<le> p" "i < 4 \<Longrightarrow> \<not> meta_addr m (p + i)"
proof -
  show p: "p mod 4 = 0" "4104 \<le> p" using assms(2) by (simp_all add: slot_def)
  show "accessible m (p div 4096)"
    using assms first_data_ge [OF assms(1)] by (auto simp: slot_def data_block_def accessible_def meta_ok_def)
  have "p div 4096 = 1 \<or> first_data m \<le> p div 4096" using assms(2) by (auto simp: slot_def data_block_def)
  then have "p div 4096 = 1 \<or> first_data m * 4096 \<le> p div 4096 * 4096" by auto
  then show r: "p < 8192 \<or> first_data m * 4096 \<le> p" using div_mult_mod_eq [of p 4096] mod_less_divisor [of 4096 p] by linarith
  show "\<not> meta_addr m (p + i)" if "i < 4"
  proof -
    have "p + i < 8192 \<or> 8192 \<le> p" using p(1) that by presburger
    then show ?thesis using r p(2) by (auto simp: meta_addr_def)
  qed
qed

subsection \<open>Attaching a free block\<close>

text \<open>A free block is marked as used, entered in a slot, and cleared.\<close>

definition attach :: "nat \<Rightarrow> nat \<Rightarrow> (nat \<Rightarrow> u8) \<Rightarrow> nat \<Rightarrow> u8" where
  "attach p b m = put_bytes (b * 4096) (replicate 4096 0) (wr32 p (word_of_nat b) (mark False b m))"

lemma clear_bytes: "put_bytes (b * 4096) (replicate 4096 0) m x = (if x div 4096 = b then 0 else m x)"
  unfolding in_block by (auto simp: put_bytes_def)

lemma free_data: "meta_ok m \<Longrightarrow> free_bit m b \<Longrightarrow> first_data m \<le> b"
  by (auto simp: meta_ok_def not_less [symmetric])

lemma slot_not_free:
  assumes "meta_ok m" and "slot m p" and "free_bit m b" and "i < 4"
  shows "(p + i) div 4096 \<noteq> b"
proof -
  have "(p + i) div 4096 = p div 4096" using aligned_word [of p i] assms(2,4) by (simp add: slot_def)
  then show ?thesis using assms(1-3) first_data_ge [OF assms(1)] by (auto simp: slot_def data_block_def meta_ok_def)
qed

lemma slots_apart:
  assumes "p mod 4 = 0" and "a mod 4 = 0" and "a \<noteq> p"
  shows "a + 4 \<le> p \<or> p + 4 \<le> (a :: nat)"
  using assms by presburger

lemma attach_other:
  assumes "meta_ok m" and "b < nblocks m"
    and "x div 4096 \<noteq> b" "x < 8192 \<or> first_data m * 4096 \<le> x" "x < p \<or> p + 4 \<le> x"
  shows "attach p b m x = m x"
  using assms mark_outside [OF assms(2,4)] by (simp add: attach_def clear_bytes wr32_outside)

lemma attach_words:
  assumes m: "meta_ok m" and p: "slot m p" and b: "b < nblocks m" "free_bit m b"
  shows "unat (rd32 (attach p b m) p) = b" and "slot m a \<Longrightarrow> a \<noteq> p \<Longrightarrow> rd32 (attach p b m) a = rd32 m a"
    and "x div 4096 = b \<Longrightarrow> attach p b m x = 0"
proof -
  have "rd32 (attach p b m) p = rd32 (wr32 p (word_of_nat b) (mark False b m)) p"
    using slot_not_free [OF m p b(2)] by (intro rd32_cong) (simp add: attach_def clear_bytes)
  then show "unat (rd32 (attach p b m) p) = b" using b(1) m by (simp add: unat_of_nat meta_ok_def)
  show "rd32 (attach p b m) a = rd32 m a" if "slot m a" "a \<noteq> p"
  proof (rule rd32_cong)
    fix i :: nat
    assume i: "i < 4"
    have "a + i < 8192 \<or> 8192 \<le> a" using slotD(2) [OF m that(1)] i by presburger
    then have r: "a + i < 8192 \<or> first_data m * 4096 \<le> a + i" using slotD(3) [OF m that(1)] by linarith
    have "a + i < p \<or> p + 4 \<le> a + i"
      using slots_apart [of p a] slotD(2) [OF m that(1)] slotD(2) [OF m p] that(2) i by linarith
    then show "attach p b m (a + i) = m (a + i)"
      using attach_other [OF m b(1) slot_not_free [OF m that(1) b(2) i] r] by blast
  qed
  show "attach p b m x = 0" if "x div 4096 = b" using that by (simp add: attach_def clear_bytes)
qed

lemma attach_same_meta:
  assumes m: "meta_ok m" and p: "slot m p" and b: "b < nblocks m" "free_bit m b"
  shows "same_meta (mark False b m) (wr32 p (word_of_nat b) (mark False b m))"
    and "same_meta (wr32 p (word_of_nat b) (mark False b m)) (attach p b m)"
proof -
  have "x < p \<or> p + 4 \<le> x" if "meta_addr m x" for x
  proof (rule ccontr)
    assume "\<not> (x < p \<or> p + 4 \<le> x)"
    then have "x - p < 4" "p + (x - p) = x" by linarith+
    then show False using slotD(5) [OF m p, of "x - p"] that by simp
  qed
  then show 1: "same_meta (mark False b m) (wr32 p (word_of_nat b) (mark False b m))"
    unfolding same_meta_def meta_addr_def mark_sizes by (auto intro!: wr32_outside)
  have "x div 4096 \<noteq> b" if "meta_addr m x" for x
    using that free_data [OF m b(2)] first_data_ge [OF m] by (auto simp: meta_addr_def in_block)
  then show "same_meta (wr32 p (word_of_nat b) (mark False b m)) (attach p b m)"
    using same_meta(6) [OF 1] unfolding same_meta_def by (auto simp: attach_def clear_bytes meta_addr_def mark_sizes)
qed

lemma attach_meta:
  assumes m: "meta_ok m" and p: "slot m p" and b: "b < nblocks m" "free_bit m b"
  shows "nblocks (attach p b m) = nblocks m" "first_data (attach p b m) = first_data m" "meta_ok (attach p b m)"
    "c < nblocks m \<Longrightarrow> free_bit (attach p b m) c \<longleftrightarrow> free_bit m c \<and> c \<noteq> b"
    "data_block m c \<Longrightarrow> data_block (attach p b m) c" "data_block (attach p b m) b" "slot m a \<Longrightarrow> slot (attach p b m) a"
proof -
  note s1 = same_meta [OF attach_same_meta(1) [OF assms]] and s2 = same_meta [OF attach_same_meta(2) [OF assms]]
  show n: "nblocks (attach p b m) = nblocks m" "first_data (attach p b m) = first_data m" "meta_ok (attach p b m)"
    using s1(1,2,5) s2(1,2,5) mark_sizes meta_ok_mark [OF m, of False b] by simp_all
  show f: "free_bit (attach p b m) c \<longleftrightarrow> free_bit m c \<and> c \<noteq> b" if "c < nblocks m" for c
    using that s1(3) [of c] s2(3) [of c] s1(1) mark_sizes(1) by (simp add: free_bit_mark)
  show d: "data_block (attach p b m) c" if "data_block m c" for c using that f [of c] n by (auto simp: data_block_def)
  show "data_block (attach p b m) b" using f [OF b(1)] n b free_data [OF m b(2)] by (auto simp: data_block_def)
  show "slot (attach p b m) a" if "slot m a" using that d by (auto simp: slot_def)
qed

text \<open>
  The file after a block was attached: \<open>J\<close> tells whether it is the indirect block, \<open>N k\<close> whether it is
  the \<open>k\<close>-th block of the file.
\<close>

definition gains :: "(nat \<Rightarrow> u8) \<Rightarrow> (nat \<Rightarrow> u8) \<Rightarrow> nat \<Rightarrow> nat \<Rightarrow> bool \<Rightarrow> (nat \<Rightarrow> bool) \<Rightarrow> bool" where
  "gains m m' f b J N \<longleftrightarrow> ind m' f = (if J then b else ind m f) \<and> (J \<longrightarrow> ind m f = 0 \<and> (\<forall>k. \<not> N k)) \<and>
     (\<forall>k < 1034. fmap m' f k = (if N k then b else fmap m f k)) \<and> (\<forall>k < 1034. N k \<longrightarrow> fmap m f k = 0) \<and>
     (\<forall>j k. N j \<longrightarrow> N k \<longrightarrow> j = k)"

lemma gains_owned:
  assumes "gains m m' f b J N" and "c \<in> owned m' f"
  shows "c = b \<or> c \<in> owned m f"
  using assms unfolding gains_def owned_def by (auto split: if_splits)

text \<open>A slot of the file: in its descriptor or in its indirect block.\<close>

definition file_slot :: "(nat \<Rightarrow> u8) \<Rightarrow> nat \<Rightarrow> nat \<Rightarrow> bool" where
  "file_slot m f p \<longleftrightarrow> slot m p \<and> (f + 136 \<le> p \<and> p + 4 \<le> f + 180 \<or> p div 4096 = ind m f \<and> ind m f \<noteq> 0)"

lemma file_slot_bytes:
  assumes m: "meta_ok m" and f: "file_ok m f" and p: "file_slot m f p" and x: "p \<le> x" "x < p + 4"
  shows "f + 128 \<le> x \<and> x < f + 180 \<or> x div 4096 \<in> owned m f"
    and "x div 4096 = f div 4096 \<or> x div 4096 = ind m f \<and> ind m f \<noteq> 0"
proof -
  have s: "slot m p" and at: "f + 136 \<le> p \<and> p + 4 \<le> f + 180 \<or> p div 4096 = ind m f \<and> ind m f \<noteq> 0"
    using p by (simp_all add: file_slot_def)
  have "x div 4096 = p div 4096" using aligned_word [of p "x - p"] slotD(2) [OF m s] x by simp
  then show "f + 128 \<le> x \<and> x < f + 180 \<or> x div 4096 \<in> owned m f" using at x owned_ind [of m f] by auto
  have "x div 4096 = f div 4096" if "f + 136 \<le> p" "p + 4 \<le> f + 180"
    using descriptor_block [OF file_okD(1) [OF f], of "x - f"] that x by simp
  then show "x div 4096 = f div 4096 \<or> x div 4096 = ind m f \<and> ind m f \<noteq> 0"
    using at \<open>x div 4096 = p div 4096\<close> by auto
qed

lemma not_owned_free:
  assumes "meta_ok m" and "file_ok m f" and "free_bit m b"
  shows "c \<in> owned m f \<Longrightarrow> c \<noteq> b" "f div 4096 \<noteq> b" "b \<noteq> 0" "k < 1034 \<Longrightarrow> fmap m f k \<noteq> b" "ind m f \<noteq> b"
proof -
  show o: "c \<noteq> b" if "c \<in> owned m f" for c using file_okD(2) [OF assms(2) that] assms(3) by (auto simp: data_block_def)
  show "f div 4096 \<noteq> b" using file_okD(1) [OF assms(2)] assms(3,1) first_data_ge [OF assms(1)]
    by (auto simp: file_at_def data_block_def meta_ok_def)
  show z: "b \<noteq> 0" using free_data [OF assms(1,3)] by (simp add: first_data_def)
  show "fmap m f k \<noteq> b" if "k < 1034" using o [OF owned_fmap [OF that, of m f]] z by auto
  show "ind m f \<noteq> b" using o [OF owned_ind [of m f]] z by auto
qed

lemma attach_file_ok:
  assumes m: "meta_ok m" and f: "file_ok m f" and p: "slot m p" and b: "b < nblocks m" "free_bit m b"
    and g: "gains m (attach p b m) f b J N"
  shows "file_ok (attach p b m) f"
proof -
  let ?m = "attach p b m"
  note A = attach_meta [OF m p b] and F = not_owned_free [OF m f b(2)]
  have i: "ind ?m f = (if J then b else ind m f)" and J: "J \<Longrightarrow> \<not> N k"
    and fm: "k < 1034 \<Longrightarrow> fmap ?m f k = (if N k then b else fmap m f k)" and N: "N j \<Longrightarrow> N k \<Longrightarrow> j = k" for j k
    using g unfolding gains_def by blast+
  have "file_at ?m f" using file_okD(1) [OF f] A(5) by (auto simp: file_at_def)
  moreover have "data_block ?m c \<and> c \<noteq> f div 4096" if "c \<in> owned ?m f" for c
    using gains_owned [OF g that] file_okD(2,3) [OF f] A(5,6) F(2) by blast
  moreover have "fmap ?m f k \<noteq> ind ?m f" if "k < 1034" "fmap ?m f k \<noteq> 0" for k
    using that i J [of k] fm [OF that(1)] F(4) [OF that(1)] F(5) file_okD(4) [OF f that(1)] by (simp split: if_splits)
  moreover have "j = k" if "j < 1034" "k < 1034" "fmap ?m f j \<noteq> 0" "fmap ?m f j = fmap ?m f k" for j k
    using that fm [OF that(1)] fm [OF that(2)] N [of j k] F(4) [OF that(1)] F(4) [OF that(2)] file_okD(5) [OF f that(1,2)]
    by (simp split: if_splits)
  ultimately show ?thesis unfolding file_ok_def by blast
qed

lemma attach_within:
  assumes m: "meta_ok m" and f: "file_ok m f" and p: "file_slot m f p" and b: "b < nblocks m" "free_bit m b"
    and g: "gains m (attach p b m) f b J N"
  shows "within f m (attach p b m)"
proof -
  have s: "slot m p" using p by (simp add: file_slot_def)
  have "x div 4096 = b \<or> 8192 \<le> x \<and> x < first_data m * 4096 \<or> p \<le> x \<and> x < p + 4" if "attach p b m x \<noteq> m x" for x
    using attach_other [OF m b(1), of x p] that by linarith
  then have "8192 \<le> x \<and> x < first_data m * 4096 \<or> f + 128 \<le> x \<and> x < f + 180 \<or>
        x div 4096 \<in> owned m f \<or> x div 4096 < nblocks m \<and> free_bit m (x div 4096)" if "attach p b m x \<noteq> m x" for x
    using that file_slot_bytes(1) [OF m f p] b by blast
  then show ?thesis unfolding within_def using attach_meta(1,4) [OF m s b] b gains_owned [OF g] by blast
qed

lemma attach_contents:
  assumes m: "meta_ok m" and f: "file_ok m f" and p: "file_slot m f p" and b: "b < nblocks m" "free_bit m b"
    and g: "gains m (attach p b m) f b J N" and i: "i < 4235264"
  shows "contents (attach p b m) f i = contents m f i"
proof -
  let ?m = "attach p b m" and ?k = "i div 4096"
  have s: "slot m p" using p by (simp add: file_slot_def)
  have k: "?k < 1034" using i by (simp add: div_less_iff_less_mult)
  have fm: "fmap ?m f ?k = (if N ?k then b else fmap m f ?k)" "N ?k \<Longrightarrow> fmap m f ?k = 0" using g k unfolding gains_def by blast+
  show ?thesis
  proof (cases "N ?k \<or> fmap m f ?k = 0")
    case True
    then show ?thesis using fm attach_words(3) [OF m s b] by (auto simp: contents_def)
  next
    case False
    let ?c = "fmap m f ?k" and ?x = "fmap m f ?k * 4096 + i mod 4096"
    have c: "?c \<in> owned m f" using False k by (intro owned_fmap) simp_all
    have x: "?x div 4096 = ?c" by simp
    have "first_data m * 4096 \<le> ?x" using file_okD(2) [OF f c] by (simp add: data_block_def trans_le_add1)
    moreover have "?x < p \<or> p + 4 \<le> ?x"
      using file_slot_bytes(2) [OF m f p, of ?x] x file_okD(3) [OF f c] file_okD(4) [OF f k] False by linarith
    ultimately have "?m ?x = m ?x" using attach_other [OF m b(1)] not_owned_free(1) [OF m f b(2) c] x by simp
    then show ?thesis using False fm by (simp add: contents_def)
  qed
qed

lemma slot_of_block:
  assumes "file_ok m f" and "k < 1034" and "k < 10 \<or> ind m f \<noteq> 0"
  shows "slot_of m f k div 4096 = (if k < 10 then f div 4096 else ind m f)" and "file_slot m f (slot_of m f k)"
proof -
  show b: "slot_of m f k div 4096 = (if k < 10 then f div 4096 else ind m f)"
    using descriptor_block [OF file_okD(1) [OF assms(1)], of "136 + 4 * k"] indirect_slot(2) [OF assms(1)] assms(2,3)
    by (auto simp: slot_of_def add.assoc)
  then show "file_slot m f (slot_of m f k)" using slot_of_slot(1) [OF assms] assms(3)
    unfolding file_slot_def by (cases "k < 10") (simp_all add: slot_of_def)
qed

lemma ind_block: "file_ok m f \<Longrightarrow> ind m f \<noteq> f div 4096 \<or> ind m f = 0"
  using file_okD(3) owned_ind by blast

lemma slot_of_inj:
  assumes "file_ok m f" and "k < 1034" "j < 1034" and "k < 10 \<or> ind m f \<noteq> 0" and "j < 10 \<or> ind m f \<noteq> 0"
    and "slot_of m f j = slot_of m f k"
  shows "j = k"
proof (cases "j < 10 \<longleftrightarrow> k < 10")
  case True
  then show ?thesis using assms(6) by (auto simp: slot_of_def split: if_splits)
next
  case False
  then show ?thesis using slot_of_block(1) [OF assms(1,2,4)] slot_of_block(1) [OF assms(1,3,5)] assms(4-6) ind_block [OF assms(1)]
    by (auto split: if_splits)
qed

lemma indirect_file_slot:
  assumes "file_ok m f"
  shows "file_slot m f (f + 176)" and "k < 1034 \<Longrightarrow> k < 10 \<or> ind m f \<noteq> 0 \<Longrightarrow> slot_of m f k \<noteq> f + 176"
proof -
  show "file_slot m f (f + 176)" using descriptor_slot [OF file_okD(1) [OF assms], of 44] by (simp add: file_slot_def)
  have b: "(f + 176) div 4096 = f div 4096" by (rule descriptor_block [OF file_okD(1) [OF assms]]) simp
  show "slot_of m f k \<noteq> f + 176" if "k < 1034" "k < 10 \<or> ind m f \<noteq> 0"
    using slot_of_block(1) [OF assms that] b ind_block [OF assms] that(2) by (auto simp: slot_of_def split: if_splits)
qed

lemma rd32_zero: "(\<And>i. i < 4 \<Longrightarrow> m (a + i) = 0) \<Longrightarrow> rd32 m a = 0"
  by (drule rd32_cong [where m = "\<lambda>_. 0" and m' = m]) (simp add: rd32_def le_word_def)

lemma gains_ind:
  assumes m: "meta_ok m" and f: "file_ok m f" and b: "b < nblocks m" "free_bit m b" and i: "ind m f = 0"
  shows "gains m (attach (f + 176) b m) f b True (\<lambda>_. False)"
proof -
  let ?m = "attach (f + 176) b m"
  have s: "slot m (f + 176)" using indirect_file_slot(1) [OF f] by (simp add: file_slot_def)
  have ib: "ind ?m f = b" using attach_words(1) [OF m s b] by (simp add: ind_def)
  have "fmap ?m f k = fmap m f k" if "k < 1034" for k
  proof (cases "k < 10")
    case True
    then have "slot m (slot_of m f k)" "slot_of m f k \<noteq> f + 176"
      using slot_of_slot(1) [OF f that] indirect_file_slot(2) [OF f that] by auto
    from attach_words(2) [OF m s b this] show ?thesis using True by (simp add: fmap_def slot_of_def)
  next
    case False
    have "(b * 4096 + 4 * (k - 10) + i) div 4096 = b" if "i < 4" for i using \<open>k < 1034\<close> that unfolding in_block by linarith
    then have "rd32 ?m (b * 4096 + 4 * (k - 10)) = 0" using attach_words(3) [OF m s b] by (intro rd32_zero) blast
    then show ?thesis using False i not_owned_free(3) [OF m f b(2)] by (simp add: fmap_def ib)
  qed
  then show ?thesis using ib i by (simp add: gains_def)
qed

lemma fmap_slot_of:
  assumes "ind m' f = ind m f"
  shows "k < 10 \<or> ind m f \<noteq> 0 \<Longrightarrow> fmap m' f k = unat (rd32 m' (slot_of m f k))"
    and "\<not> (k < 10 \<or> ind m f \<noteq> 0) \<Longrightarrow> fmap m' f k = 0"
  using assms by (auto simp: fmap_def slot_of_def)

lemma gains_entry:
  assumes m: "meta_ok m" and f: "file_ok m f" and b: "b < nblocks m" "free_bit m b"
    and k: "k < 1034" "k < 10 \<or> ind m f \<noteq> 0" "fmap m f k = 0"
  shows "gains m (attach (slot_of m f k) b m) f b False (\<lambda>j. j = k)"
proof -
  let ?m = "attach (slot_of m f k) b m"
  have s: "slot m (slot_of m f k)" by (rule slot_of_slot(1) [OF f k(1,2)])
  have "slot m (f + 176)" using indirect_file_slot(1) [OF f] by (simp add: file_slot_def)
  then have ib: "ind ?m f = ind m f" using attach_words(2) [OF m s b] indirect_file_slot(2) [OF f k(1,2)] by (simp add: ind_def)
  have "fmap ?m f j = (if j = k then b else fmap m f j)" if j: "j < 1034" for j
  proof (cases "j < 10 \<or> ind m f \<noteq> 0")
    case True
    have e: "fmap ?m f j = unat (rd32 ?m (slot_of m f j))" by (rule fmap_slot_of(1) [OF ib True])
    show ?thesis
    proof (cases "j = k")
      case True
      then show ?thesis using e attach_words(1) [OF m s b] by simp
    next
      case False
      then have "slot_of m f j \<noteq> slot_of m f k" using slot_of_inj [OF f k(1) j k(2) True] by blast
      then show ?thesis using e False attach_words(2) [OF m s b slot_of_slot(1) [OF f j True]] slot_of_slot(2) [OF f j True] by simp
    qed
  next
    case False
    then show ?thesis using k(2) fmap_slot_of(2) [OF ib] fmap_slot_of(2) [of m f m j] by auto
  qed
  then show ?thesis using ib k(3) by (simp add: gains_def)
qed

subsection \<open>The operations\<close>

lemma clear_block_runs:
  assumes ok: "bc_ok s" and b: "first_data (vis s) \<le> b" "accessible (vis s) b"
  shows "runs s (clear_block (word_of_nat b)) () (put_bytes (b * 4096) (replicate 4096 0) (vis s))"
proof -
  have m: "meta_ok (vis s)" by (rule bc_okD(5) [OF ok])
  have bl: "b < nblocks (vis s)" "b < 786432" using b(2) m by (simp_all add: accessible_def meta_ok_def)
  have w: "unat (word_of_nat b :: u32) = b" using bl by (simp add: unat_of_nat)
  have b0: "0 < b" using b(1) by (simp add: first_data_def)
  let ?M = "put_bytes (b * 4096) (replicate 4096 0) (vis s)"
  have da: "runs t (diskaddr (word_of_nat b)) (b * 4096) (vis t)" if "bc_ok t" "nblocks (vis t) = nblocks (vis s)" for t
    using diskaddr_runs [OF that(1), of "word_of_nat b"] b0 bl that(2) w by simp
  have acc: "accessible (vis s) ((b * 4096 + i) div 4096) \<and> \<not> meta_addr (vis s) (b * 4096 + i)" if "i < 4096" for i
  proof -
    have "(b * 4096 + i) div 4096 = b" using that by simp
    moreover have "first_data (vis s) * 4096 \<le> b * 4096" using b(1) by simp
    then have "\<not> meta_addr (vis s) (b * 4096 + i)" using first_data_ge [OF m] unfolding meta_addr_def by linarith
    ultimately show ?thesis using b(2) by simp
  qed
  have sm: "same_meta (vis s) ?M"
    using b(1) first_data_ge [OF m] by (auto simp: same_meta_def meta_addr_def clear_bytes in_block)
  show ?thesis unfolding clear_block_def BLKSIZE_def
  proof (intro runs_andthen)
    show "runs s (diskaddr (word_of_nat b)) (b * 4096) (vis s)" using da [OF ok] by simp
    show "runs t (store_bytes (b * 4096) (replicate 4096 0)) () ?M" if "bc_ok t" "vis t = vis s" for t
      using store_bytes_runs [OF that(1), of "replicate 4096 0" "b * 4096"] acc that(2) by simp
    show "runs t (diskaddr (word_of_nat b)) (b * 4096) ?M" if "bc_ok t" "vis t = ?M" for t
      using da [OF that(1)] same_meta(1) [OF sm] that(2) by simp
    show "runs t (flush_block (b * 4096)) () ?M" if "bc_ok t" "vis t = ?M" for t
      using flush_block_runs [OF that(1), of "b * 4096"] bl(2) that(2) by (simp add: DISKSIZE_def)
  qed
qed

lemma sint_err: "sint (err e) < 0"
  by (cases e) (simp_all add: err_def)

lemma sint_block: "meta_ok m \<Longrightarrow> b < nblocks m \<Longrightarrow> \<not> sint (word_of_nat b :: u32) < 0"
  using sint_small [of "word_of_nat b"] by (simp add: unat_of_nat meta_ok_def)

text \<open>Allocate a block and enter it in a slot, as both functions do.\<close>

lemma attach_runs:
  assumes ok: "bc_ok s" and p: "slot (vis s) p" and sp: "\<not> no_space (vis s)"
    and h: "\<And>t. bc_ok t \<Longrightarrow> vis t = attach p (first_free (vis s)) (vis s) \<Longrightarrow> runs t (h (word_of_nat (first_free (vis s)))) r M"
  shows "runs s (andthen alloc_block (\<lambda>bno. if sint bno < 0 then e bno
    else andthen (store_word p bno) (\<lambda>_. andthen (clear_block bno) (\<lambda>_. h bno)))) r M"
proof -
  let ?b = "first_free (vis s)" and ?m = "vis s"
  have m: "meta_ok ?m" by (rule bc_okD(5) [OF ok])
  have b: "?b < nblocks ?m" "free_bit ?m ?b" using first_free [OF sp] by auto
  have al: "runs s alloc_block (word_of_nat ?b) (mark False ?b ?m)" using alloc_block_runs [OF ok] sp by simp
  note s1 = same_meta [OF attach_same_meta(1) [OF m p b]]
  have acc: "accessible (mark False ?b ?m) (p div 4096)" using slotD(1) [OF m p] by (simp add: accessible_def mark_sizes free_bit_mark)
  have st: "runs t (store_word p (word_of_nat ?b)) () (wr32 p (word_of_nat ?b) (mark False ?b ?m))"
    if "bc_ok t" "vis t = mark False ?b ?m" for t
    using store_word_runs [OF that(1), of p "word_of_nat ?b"] that(2) acc slotD(2) [OF m p] s1(1,5) meta_ok_mark [OF m, of False ?b] by simp
  have cl: "runs t (clear_block (word_of_nat ?b)) () (attach p ?b ?m)" if "bc_ok t" "vis t = wr32 p (word_of_nat ?b) (mark False ?b ?m)" for t
    unfolding attach_def that(2) [symmetric]
  proof (rule clear_block_runs [OF that(1)])
    show "first_data (vis t) \<le> ?b" using that(2) s1(2) mark_sizes(2) free_data [OF m b(2)] by simp
    show "accessible (vis t) ?b" using that(2) s1(4) b(1) by (simp add: accessible_mark)
  qed
  show ?thesis
    by (rule runs_andthen [OF al], simp only: sint_block [OF m b(1)] if_False,
        rule runs_andthen [OF st], assumption+, rule runs_andthen [OF cl], assumption+, rule h)
qed

lemma attach_no_space:
  assumes "bc_ok s" and "no_space (vis s)" and "\<And>t. bc_ok t \<Longrightarrow> vis t = vis s \<Longrightarrow> runs t (e (err E_NO_DISK)) r M"
  shows "runs s (andthen alloc_block (\<lambda>bno. if sint bno < 0 then e bno else h bno)) r M"
  by (rule runs_andthen [where r = "err E_NO_DISK" and M = "vis s"])
    (use alloc_block_runs [OF assms(1)] assms(2,3) sint_err in simp_all)

text \<open>The file has grown, or is as before, with the same contents and no new hole.\<close>

definition keeps :: "nat \<Rightarrow> (nat \<Rightarrow> u8) \<Rightarrow> (nat \<Rightarrow> u8) \<Rightarrow> bool" where
  "keeps f m m' \<longleftrightarrow> (\<forall>k < 1034. fmap m f k \<noteq> 0 \<longrightarrow> fmap m' f k \<noteq> 0)"

lemma keeps_refl [simp]: "keeps f m m" and keeps_trans: "keeps f m m' \<Longrightarrow> keeps f m' m'' \<Longrightarrow> keeps f m m''"
  by (auto simp: keeps_def)

definition extends :: "nat \<Rightarrow> (nat \<Rightarrow> u8) \<Rightarrow> (nat \<Rightarrow> u8) \<Rightarrow> bool" where
  "extends f m m' \<longleftrightarrow> file_ok m' f \<and> within f m m' \<and> keeps f m m' \<and> fsize m' f = fsize m f \<and>
     (\<forall>i < 4235264. contents m' f i = contents m f i)"

lemma extends_refl: "file_ok m f \<Longrightarrow> extends f m m"
  by (simp add: extends_def)

lemma extends_trans: "extends f m m' \<Longrightarrow> extends f m' m'' \<Longrightarrow> extends f m m''"
  unfolding extends_def using within_trans keeps_trans by auto

lemma attach_extends:
  assumes m: "meta_ok m" and f: "file_ok m f" and p: "file_slot m f p" and b: "b < nblocks m" "free_bit m b"
    and g: "gains m (attach p b m) f b J N"
  shows "extends f m (attach p b m)"
proof -
  have s: "slot m p" using p by (simp add: file_slot_def)
  have d: "slot m (f + 128)" using descriptor_slot [OF file_okD(1) [OF f], of 32] by simp
  have "(f + 128) div 4096 = f div 4096" by (rule descriptor_block [OF file_okD(1) [OF f]]) simp
  then have "p \<noteq> f + 128" using p ind_block [OF f] by (auto simp: file_slot_def)
  then have "fsize (attach p b m) f = fsize m f" using attach_words(2) [OF m s b d] by (simp add: fsize_def)
  moreover have "keeps f m (attach p b m)" using g not_owned_free(3) [OF m f b(2)] by (auto simp: gains_def keeps_def)
  ultimately show ?thesis
    using attach_file_ok [OF m f s b g] attach_within [OF m f p b g] attach_contents [OF m f p b g] by (simp add: extends_def)
qed

lemma f_addrs: "f_direct f = f + 136" "f_indirect f = f + 176" "f_size f = f + 128" "f_type f = f + 132"
  "NDIRECT = 10" "NINDIRECT = 1024"
  by (simp_all add: f_direct_def f_indirect_def f_size_def f_type_def MAXNAMELEN_def NDIRECT_def NINDIRECT_def BLKSIZE_def)

lemma slot_load:
  assumes "bc_ok s" and "slot (vis s) p"
  shows "runs s (load_word p) (rd32 (vis s) p) (vis s)"
  by (rule load_word_runs [OF assms(1) slotD(1,2) [OF bc_okD(5) [OF assms(1)] assms(2)]])

lemma owned_diskaddr:
  assumes "bc_ok s" and "data_block (vis s) (unat w)"
  shows "runs s (diskaddr w) (unat w * 4096) (vis s)"
  using diskaddr_runs [OF assms(1), of w] assms(2) by (simp add: data_block_def first_data_def)

definition walk_post :: "nat \<Rightarrow> nat \<Rightarrow> (nat \<Rightarrow> u8) \<Rightarrow> u32 + nat \<Rightarrow> bool" where
  "walk_post f k m r \<longleftrightarrow> (case r of Inr p \<Rightarrow> p = slot_of m f k \<and> (k < 10 \<or> ind m f \<noteq> 0)
                               | Inl e \<Rightarrow> e = err E_NO_DISK \<and> no_space m \<and> fmap m f k = 0)"

lemma walk_post_simps [simp]:
  "walk_post f k m (Inr p) \<longleftrightarrow> p = slot_of m f k \<and> (k < 10 \<or> ind m f \<noteq> 0)"
  "walk_post f k m (Inl e) \<longleftrightarrow> e = err E_NO_DISK \<and> no_space m \<and> fmap m f k = 0"
  by (simp_all add: walk_post_def)

lemma runs_bind_ret: "runs s m r M \<Longrightarrow> runs s (andthen m (\<lambda>a. ret (g a))) (g r) M"
  by (erule runs_andthen) (rule runs_ret)

text \<open>The indirect pointers of a file, found or, if needed, allocated.\<close>

lemma indirect_runs:
  assumes ok: "bc_ok s" and f: "file_ok (vis s) f"
  defines "op \<equiv> \<lambda>g. andthen (load_word (f + 176)) (\<lambda>i. if i \<noteq> 0 then andthen (diskaddr i) (\<lambda>a. ret (Inr (a + g)))
      else andthen alloc_block (\<lambda>bno. if sint bno < 0 then ret (Inl bno)
        else andthen (store_word (f + 176) bno) (\<lambda>_. andthen (clear_block bno) (\<lambda>_.
             andthen (diskaddr bno) (\<lambda>a. ret (Inr (a + g)))))))"
  shows "ind (vis s) f \<noteq> 0 \<Longrightarrow> runs s (op g) (Inr (ind (vis s) f * 4096 + g)) (vis s)"
    and "ind (vis s) f = 0 \<Longrightarrow> no_space (vis s) \<Longrightarrow> runs s (op g) (Inl (err E_NO_DISK)) (vis s)"
    and "ind (vis s) f = 0 \<Longrightarrow> \<not> no_space (vis s) \<Longrightarrow>
      runs s (op g) (Inr (first_free (vis s) * 4096 + g)) (attach (f + 176) (first_free (vis s)) (vis s))"
proof -
  let ?m = "vis s" and ?i = "rd32 (vis s) (f + 176)"
  have m: "meta_ok ?m" by (rule bc_okD(5) [OF ok])
  have sl: "slot ?m (f + 176)" using indirect_file_slot(1) [OF f] by (simp add: file_slot_def)
  note ld = runs_andthen [OF slot_load [OF ok sl]]
  show "runs s (op g) (Inr (ind ?m f * 4096 + g)) ?m" if "ind ?m f \<noteq> 0" unfolding op_def
  proof (rule ld)
    have d: "data_block ?m (unat ?i)" "?i \<noteq> 0" using file_okD(2) [OF f owned_ind [OF that]] that by (auto simp: ind_def)
    fix t
    assume t: "bc_ok t" "vis t = ?m"
    have "runs t (diskaddr ?i) (unat ?i * 4096) ?m" using owned_diskaddr [OF t(1)] d t(2) by simp
    from runs_bind_ret [OF this, of "\<lambda>a. Inr (a + g)"] d(2)
    show "runs t (if ?i \<noteq> 0 then andthen (diskaddr ?i) (\<lambda>a. ret (Inr (a + g))) else
        andthen alloc_block (\<lambda>bno. if sint bno < 0 then ret (Inl bno)
        else andthen (store_word (f + 176) bno) (\<lambda>_. andthen (clear_block bno) (\<lambda>_.
             andthen (diskaddr bno) (\<lambda>a. ret (Inr (a + g))))))) (Inr (ind ?m f * 4096 + g)) ?m"
      by (simp add: ind_def)
  qed
  have z: "?i = 0" if "ind ?m f = 0" using that by (simp add: ind_def unat_eq_0)
  show "runs s (op g) (Inl (err E_NO_DISK)) ?m" if "ind ?m f = 0" "no_space ?m"
    unfolding op_def
    by (rule ld, simp only: z [OF that(1)] if_False simp_thms, rule attach_no_space) (simp_all add: that(2) runs_ret)
  show "runs s (op g) (Inr (first_free ?m * 4096 + g)) (attach (f + 176) (first_free ?m) ?m)" if "ind ?m f = 0" "\<not> no_space ?m"
    unfolding op_def
  proof (rule ld, simp only: z [OF that(1)] if_False simp_thms, rule attach_runs)
    let ?b = "first_free ?m"
    have b: "?b < nblocks ?m" "free_bit ?m ?b" using first_free [OF that(2)] by auto
    have w: "unat (word_of_nat ?b :: u32) = ?b" using b(1) m by (simp add: unat_of_nat meta_ok_def)
    fix t
    assume t: "bc_ok t" "vis t = ?m"
    then show "bc_ok t" "slot (vis t) (f + 176)" "\<not> no_space (vis t)" using sl that(2) by simp_all
    fix u
    assume u: "bc_ok u" "vis u = attach (f + 176) (first_free (vis t)) (vis t)"
    have "runs u (diskaddr (word_of_nat ?b)) (?b * 4096) (vis u)"
      using owned_diskaddr [OF u(1), of "word_of_nat ?b"] attach_meta(6) [OF m sl b] u(2) t(2) w by simp
    from runs_bind_ret [OF this, of "\<lambda>a. Inr (a + g)"]
    show "runs u (andthen (diskaddr (word_of_nat (first_free (vis t)))) (\<lambda>a. ret (Inr (a + g)))) (Inr (?b * 4096 + g)) (attach (f + 176) ?b ?m)"
      using u(2) t(2) by simp
  qed
qed

lemma walk_runs:
  assumes ok: "bc_ok s" and f: "file_ok (vis s) f" and w: "unat w < 1034"
  shows "\<exists>r M. runs s (file_block_walk f w True) r M \<and> extends f (vis s) M \<and> walk_post f (unat w) M r"
proof (cases "unat w < 10")
  case True
  then have "runs s (file_block_walk f w True) (Inr (slot_of (vis s) f (unat w))) (vis s)"
    using runs_ret [OF ok, of "vis s"] by (simp add: file_block_walk_def f_addrs slot_of_def)
  moreover have "walk_post f (unat w) (vis s) (Inr (slot_of (vis s) f (unat w)))" using True by simp
  ultimately show ?thesis using extends_refl [OF f] by blast
next
  case False
  let ?m = "vis s" and ?k = "unat w"
  note e = file_block_walk_def [of f w True, unfolded f_addrs]
  note I = indirect_runs [OF ok f, of "4 * (?k - 10)"]
  have m: "meta_ok ?m" by (rule bc_okD(5) [OF ok])
  consider "ind ?m f \<noteq> 0" | "ind ?m f = 0" "no_space ?m" | "ind ?m f = 0" "\<not> no_space ?m" by blast
  then show ?thesis
  proof cases
    case 1
    then have "runs s (file_block_walk f w True) (Inr (slot_of ?m f ?k)) ?m" using I(1) False w by (simp add: e slot_of_def)
    moreover have "walk_post f ?k ?m (Inr (slot_of ?m f ?k))" using 1 by simp
    ultimately show ?thesis using extends_refl [OF f] by blast
  next
    case 2
    then have "runs s (file_block_walk f w True) (Inl (err E_NO_DISK)) ?m" using I(2) False w by (simp add: e)
    moreover have "walk_post f ?k ?m (Inl (err E_NO_DISK))" using 2 False by (simp add: fmap_def)
    ultimately show ?thesis using extends_refl [OF f] by blast
  next
    case 3
    let ?b = "first_free ?m"
    let ?M = "attach (f + 176) ?b ?m"
    have b: "?b < nblocks ?m" "free_bit ?m ?b" using first_free [OF 3(2)] by auto
    note g = gains_ind [OF m f b 3(1)]
    have i: "ind ?M f = ?b" "?b \<noteq> 0" using g not_owned_free(3) [OF m f b(2)] by (simp_all add: gains_def)
    have "runs s (file_block_walk f w True) (Inr (slot_of ?M f ?k)) ?M" using I(3) [OF 3] False w i(1) by (simp add: e slot_of_def)
    moreover have "walk_post f ?k ?M (Inr (slot_of ?M f ?k))" using i by simp
    ultimately show ?thesis using attach_extends [OF m f indirect_file_slot(1) [OF f] b g] by blast
  qed
qed

definition get_post :: "nat \<Rightarrow> nat \<Rightarrow> (nat \<Rightarrow> u8) \<Rightarrow> u32 + nat \<Rightarrow> bool" where
  "get_post f k m r \<longleftrightarrow> (case r of Inr a \<Rightarrow> fmap m f k \<noteq> 0 \<and> a = fmap m f k * 4096
                              | Inl e \<Rightarrow> e = err E_NO_DISK \<and> no_space m \<and> fmap m f k = 0)"

lemma get_post_simps [simp]:
  "get_post f k m (Inr a) \<longleftrightarrow> fmap m f k \<noteq> 0 \<and> a = fmap m f k * 4096"
  "get_post f k m (Inl e) \<longleftrightarrow> e = err E_NO_DISK \<and> no_space m \<and> fmap m f k = 0"
  by (simp_all add: get_post_def)

text \<open>The last step: the address of the block an entry names.\<close>

lemma entry_addr:
  assumes ok: "bc_ok s" and f: "file_ok (vis s) f" and k: "k < 1034" "k < 10 \<or> ind (vis s) f \<noteq> 0" and n: "fmap (vis s) f k \<noteq> 0"
  shows "runs s (andthen (load_word (slot_of (vis s) f k)) (\<lambda>b. andthen (diskaddr b) (\<lambda>a. ret (Inr a))))
    (Inr (fmap (vis s) f k * 4096)) (vis s)"
proof (rule runs_andthen [OF slot_load [OF ok slot_of_slot(1) [OF f k]]])
  let ?w = "rd32 (vis s) (slot_of (vis s) f k)"
  have w: "fmap (vis s) f k = unat ?w" by (rule slot_of_slot(2) [OF f k])
  fix t
  assume t: "bc_ok t" "vis t = vis s"
  have "data_block (vis s) (unat ?w)" using file_okD(2) [OF f owned_fmap [OF k(1) n]] w by simp
  then have "runs t (diskaddr ?w) (unat ?w * 4096) (vis s)" using owned_diskaddr [OF t(1), of ?w] t(2) by simp
  from runs_bind_ret [OF this] show "runs t (andthen (diskaddr ?w) (\<lambda>a. ret (Inr a))) (Inr (fmap (vis s) f k * 4096)) (vis s)"
    unfolding w .
qed

lemma fill_runs:
  assumes ok: "bc_ok s" and f: "file_ok (vis s) f" and k: "k < 1034" "k < 10 \<or> ind (vis s) f \<noteq> 0" and p: "p = slot_of (vis s) f k"
  defines "op \<equiv> andthen (load_word p) (\<lambda>b.
      andthen (if b = 0 then andthen alloc_block (\<lambda>bno. if sint bno < 0 then ret (Some bno)
                 else andthen (store_word p bno) (\<lambda>_. andthen (clear_block bno) (\<lambda>_. ret None)))
               else ret None) (\<lambda>e. case e of Some bno \<Rightarrow> ret (Inl bno)
         | None \<Rightarrow> andthen (load_word p) (\<lambda>b. andthen (diskaddr b) (\<lambda>a. ret (Inr a)))))"
  shows "\<exists>r M. runs s op r M \<and> extends f (vis s) M \<and> get_post f k M r"
proof -
  let ?m = "vis s"
  let ?op = "\<lambda>b. andthen (if b = 0 then andthen alloc_block (\<lambda>bno. if sint bno < 0 then ret (Some bno)
                 else andthen (store_word p bno) (\<lambda>_. andthen (clear_block bno) (\<lambda>_. ret None)))
               else ret None) (\<lambda>e. case e of Some bno \<Rightarrow> ret (Inl bno)
         | None \<Rightarrow> andthen (load_word p) (\<lambda>b. andthen (diskaddr b) (\<lambda>a. ret (Inr a))))"
  have m: "meta_ok ?m" by (rule bc_okD(5) [OF ok])
  have sl: "slot ?m p" "fmap ?m f k = unat (rd32 ?m p)" using slot_of_slot [OF f k] p by simp_all
  have ld: "runs s op r M" if "\<And>t. bc_ok t \<Longrightarrow> vis t = ?m \<Longrightarrow> runs t (?op (rd32 ?m p)) r M" for r M
    unfolding op_def by (rule runs_andthen [OF slot_load [OF ok sl(1)]]) (rule that)
  consider "fmap ?m f k \<noteq> 0" | "fmap ?m f k = 0" "no_space ?m" | "fmap ?m f k = 0" "\<not> no_space ?m" by blast
  then show ?thesis
  proof cases
    case 1
    have "runs t (?op (rd32 ?m p)) (Inr (fmap ?m f k * 4096)) ?m" if "bc_ok t" "vis t = ?m" for t
      using entry_addr [OF that(1), of f k] f k 1 sl that(2) p by auto
    from ld [OF this] have "runs s op (Inr (fmap ?m f k * 4096)) ?m" .
    moreover have "get_post f k ?m (Inr (fmap ?m f k * 4096))" using 1 by simp
    ultimately show ?thesis using extends_refl [OF f] by blast
  next
    case 2
    then have z: "rd32 ?m p = 0" using sl(2) by (simp add: unat_eq_0)
    have "runs t (?op (rd32 ?m p)) (Inl (err E_NO_DISK)) ?m" if "bc_ok t" "vis t = ?m" for t unfolding z
      by (rule runs_andthen [where r = "Some (err E_NO_DISK)" and M = ?m], simp only: refl if_True, rule attach_no_space)
        (use that 2(2) in \<open>simp_all add: runs_ret\<close>)
    from ld [OF this] have "runs s op (Inl (err E_NO_DISK)) ?m" .
    moreover have "get_post f k ?m (Inl (err E_NO_DISK))" using 2 by simp
    ultimately show ?thesis using extends_refl [OF f] by blast
  next
    case 3
    let ?b = "first_free ?m"
    let ?M = "attach p ?b ?m"
    have z: "rd32 ?m p = 0" using sl(2) 3(1) by (simp add: unat_eq_0)
    have b: "?b < nblocks ?m" "free_bit ?m ?b" using first_free [OF 3(2)] by auto
    have g: "gains ?m ?M f ?b False (\<lambda>j. j = k)" using gains_entry [OF m f b k 3(1)] p by simp
    have fm: "fmap ?M f k = ?b" "ind ?M f = ind ?m f" using g k(1) by (simp_all add: gains_def)
    have ex: "extends f ?m ?M" using attach_extends [OF m f slot_of_block(2) [OF f k] b] g p by simp
    have sp: "slot_of ?M f k = p" unfolding slot_of_def fm(2) by (simp only: p slot_of_def)
    have b0: "?b \<noteq> 0" by (rule not_owned_free(3) [OF m f b(2)])
    have at: "runs t (if (0::u32) = 0 then andthen alloc_block (\<lambda>bno. if sint bno < 0 then ret (Some bno)
                 else andthen (store_word p bno) (\<lambda>_. andthen (clear_block bno) (\<lambda>_. ret None))) else ret None) None ?M"
      if "bc_ok t" "vis t = ?m" for t
      by (simp only: refl if_True, rule attach_runs) (use that 3(2) sl(1) in \<open>simp_all add: runs_ret\<close>)
    have la: "runs u (andthen (load_word p) (\<lambda>b. andthen (diskaddr b) (\<lambda>a. ret (Inr a)))) (Inr (?b * 4096)) ?M"
      if "bc_ok u" "vis u = ?M" for u
      using entry_addr [OF that(1), of f k] ex k fm sp b0 that(2) by (simp add: extends_def)
    have "runs t (?op (rd32 ?m p)) (Inr (?b * 4096)) ?M" if "bc_ok t" "vis t = ?m" for t unfolding z
      by (rule runs_andthen [OF at [OF that]]) (use la in simp)
    from ld [OF this] have "runs s op (Inr (?b * 4096)) ?M" .
    moreover have "get_post f k ?M (Inr (?b * 4096))" using fm b0 by simp
    ultimately show ?thesis using ex by blast
  qed
qed

lemma file_get_block_runs:
  assumes ok: "bc_ok s" and f: "file_ok (vis s) f" and w: "unat w < 1034"
  shows "\<exists>r M. runs s (file_get_block f w) r M \<and> extends f (vis s) M \<and> get_post f (unat w) M r"
proof -
  obtain r M t where r: "file_block_walk f w True s = Ret r t" "bc_ok t" "vis t = M" "grows s t" "extends f (vis s) M" "walk_post f (unat w) M r"
    using walk_runs [OF assms] by (auto simp: runs_def)
  have fo: "file_ok (vis t) f" using r(3,5) by (simp add: extends_def)
  show ?thesis
  proof (cases r)
    case (Inl e)
    then have "runs s (file_get_block f w) (Inl e) M" using r(1-4) by (simp add: file_get_block_def runs_def)
    moreover have "get_post f (unat w) M (Inl e)" using r(6) Inl by simp
    ultimately show ?thesis using r(5) by blast
  next
    case (Inr p)
    then have p: "p = slot_of (vis t) f (unat w)" "unat w < 10 \<or> ind (vis t) f \<noteq> 0" using r(3,6) by simp_all
    from fill_runs [OF r(2) fo w p(2,1)] obtain r' M' where
      "runs t (andthen (load_word p) (\<lambda>b.
      andthen (if b = 0 then andthen alloc_block (\<lambda>bno. if sint bno < 0 then ret (Some bno)
                 else andthen (store_word p bno) (\<lambda>_. andthen (clear_block bno) (\<lambda>_. ret None)))
               else ret None) (\<lambda>e. case e of Some bno \<Rightarrow> ret (Inl bno)
         | None \<Rightarrow> andthen (load_word p) (\<lambda>b. andthen (diskaddr b) (\<lambda>a. ret (Inr a)))))) r' M'"
      "extends f M M'" "get_post f (unat w) M' r'" using r(3) by blast
    moreover then have "runs s (file_get_block f w) r' M'"
      using r(1,4) grows_trans Inr by (auto simp: file_get_block_def runs_def)
    ultimately show ?thesis using extends_trans [OF r(5)] by blast
  qed
qed

lemma file_get_block_range: "1034 \<le> unat w \<Longrightarrow> file_get_block f w s = Ret (Inl (err E_INVAL)) s"
  by (simp add: file_get_block_def file_block_walk_def f_addrs)

end
