(* ===== verification/Fs_Rw.thy ===== *)
theory Fs_Rw
  imports Fs_File
begin

text \<open>
  Reading and writing files. Writing acts on the contents of a file as storing the bytes at the
  offset, reading returns the contents, and both leave everything outside the file alone. The buffer of
  the caller is an interface: the two places where the server keeps a client's data are instances.
\<close>

subsection \<open>Storing into a block of a file\<close>

lemma store_block_words:
  assumes "(a :: nat) mod 4 = 0" and "a div 4096 \<noteq> b" and "off + length bs \<le> 4096"
  shows "rd32 (put_bytes (b * 4096 + off) bs m) a = rd32 m a"
proof (rule rd32_cong)
  fix i :: nat
  assume "i < 4"
  then have "(a + i) div 4096 \<noteq> b" using aligned_word [of a i] assms(1,2) by simp
  then show "put_bytes (b * 4096 + off) bs m (a + i) = m (a + i)" using assms(3) unfolding in_block put_bytes_def by auto
qed

lemma store_block_other: "x div 4096 \<noteq> b \<Longrightarrow> off + length bs \<le> 4096 \<Longrightarrow> put_bytes (b * 4096 + off) bs m x = m x"
  unfolding in_block put_bytes_def by auto

lemma store_block_same_meta:
  assumes "meta_ok m" and "first_data m \<le> b" and "off + length bs \<le> 4096"
  shows "same_meta m (put_bytes (b * 4096 + off) bs m)"
proof -
  have "x div 4096 \<noteq> b" if "meta_addr m x" for x
    using that assms(1,2) first_data_ge [OF assms(1)] by (auto simp: meta_addr_def in_block)
  then show ?thesis using store_block_other [OF _ assms(3)] by (simp add: same_meta_def)
qed

text \<open>A store into the \<open>k\<close>-th block of a file leaves its block map as it is and changes its contents there.\<close>

lemma store_block_file:
  assumes m: "meta_ok m" and f: "file_ok m f" and k: "k < 1034" and b: "fmap m f k = b" "b \<noteq> 0" and n: "off + length bs \<le> 4096"
  defines "m' \<equiv> put_bytes (b * 4096 + off) bs m"
  shows "ind m' f = ind m f" "j < 1034 \<Longrightarrow> fmap m' f j = fmap m f j" "fsize m' f = fsize m f" "same_meta m m'"
proof -
  have o: "b \<in> owned m f" using owned_fmap [OF k, of m f] b by simp
  have bf: "b \<noteq> f div 4096" using file_okD(3) [OF f o] .
  have bi: "b \<noteq> ind m f" using file_okD(4) [OF f k] b by simp
  have d: "rd32 m' (f + 4 * i) = rd32 m (f + 4 * i)" if "i < 64" for i
    unfolding m'_def using descriptor_block [OF file_okD(1) [OF f], of "4 * i"] file_okD(1) [OF f] bf n that mod4_add
    by (intro store_block_words) (auto simp: file_at_def)
  show i: "ind m' f = ind m f" using d [of 44] by (simp add: ind_def)
  show "fsize m' f = fsize m f" using d [of 32] by (simp add: fsize_def)
  show "fmap m' f j = fmap m f j" if "j < 1034"
  proof (cases "j < 10")
    case True
    then show ?thesis using d [of "34 + j"] by (simp add: fmap_def algebra_simps)
  next
    case False
    show ?thesis
    proof (cases "ind m f = 0")
      case True
      then show ?thesis using False i by (simp add: fmap_def)
    next
      case nz: False
      have j: "10 \<le> j" using False by simp
      have "rd32 m' (ind m f * 4096 + 4 * (j - 10)) = rd32 m (ind m f * 4096 + 4 * (j - 10))"
        unfolding m'_def using indirect_slot [OF f nz j that] bi n slotD(2) [OF m] by (intro store_block_words) auto
      then show ?thesis using False i by (simp add: fmap_def)
    qed
  qed
  show "same_meta m m'" unfolding m'_def using file_okD(2) [OF f o] by (intro store_block_same_meta [OF m _ n]) (simp add: data_block_def)
qed

lemma same_data_block: "same_meta m m' \<Longrightarrow> data_block m' b \<longleftrightarrow> data_block m b"
  using same_meta(1,2) [of m m'] same_meta(3) [of m m' b] by (auto simp: data_block_def)

lemma same_map_file_ok:
  assumes "same_meta m m'" and "file_ok m f" and "ind m' f = ind m f" and "\<And>j. j < 1034 \<Longrightarrow> fmap m' f j = fmap m f j"
  shows "file_ok m' f" and "owned m' f = owned m f"
proof -
  show o: "owned m' f = owned m f" using assms(3,4) by (auto simp: owned_def)
  show "file_ok m' f" using assms(2-4) same_data_block [OF assms(1)] unfolding file_ok_def o file_at_def by simp
qed

lemma store_block_within:
  assumes m: "meta_ok m" and f: "file_ok m f" and k: "k < 1034" and b: "fmap m f k = b" "b \<noteq> 0" and n: "off + length bs \<le> 4096"
  defines "m' \<equiv> put_bytes (b * 4096 + off) bs m"
  shows "file_ok m' f" and "within f m m'"
proof -
  note S = store_block_file [OF m f k b n, folded m'_def]
  have o: "b \<in> owned m f" using owned_fmap [OF k, of m f] b by simp
  show "file_ok m' f" by (rule same_map_file_ok(1) [OF S(4) f S(1,2)])
  have ow: "owned m' f = owned m f" by (rule same_map_file_ok(2) [OF S(4) f S(1,2)])
  have "x div 4096 \<in> owned m f" if "m' x \<noteq> m x" for x using store_block_other [OF _ n, of x b m] that o unfolding m'_def by blast
  then show "within f m m'" using same_meta(1,3) [OF S(4)] ow by (auto simp: within_def)
qed

lemma store_block_contents:
  assumes m: "meta_ok m" and f: "file_ok m f" and k: "k < 1034" and b: "fmap m f k = b" "b \<noteq> 0" and n: "off + length bs \<le> 4096"
    and i: "i < 4235264"
  shows "contents (put_bytes (b * 4096 + off) bs m) f i = put_bytes (k * 4096 + off) bs (contents m f) i"
proof -
  let ?m = "put_bytes (b * 4096 + off) bs m" and ?j = "i div 4096"
  have j: "?j < 1034" using i by (simp add: div_less_iff_less_mult)
  have fj: "fmap ?m f ?j = fmap m f ?j" by (rule store_block_file(2) [OF m f k b n j])
  show ?thesis
  proof (cases "?j = k")
    case True
    define r where "r = i mod 4096"
    have i': "i = k * 4096 + r" using True div_mult_mod_eq [of i 4096] by (simp add: r_def)
    have c: "contents m f i = m (b * 4096 + r)" "contents ?m f i = ?m (b * 4096 + r)"
      using fj b True by (simp_all add: contents_def r_def)
    show ?thesis unfolding c(2) using c(1) unfolding i' by (simp add: put_bytes_def)
  next
    case False
    have "fmap m f ?j \<noteq> b \<or> fmap m f ?j = 0" using file_okD(5) [OF f j k] False b by auto
    then have "contents ?m f i = contents m f i" using fj store_block_other [OF _ n, of "fmap m f ?j * 4096 + i mod 4096" b m]
      by (auto simp: contents_def)
    then show ?thesis using store_block_other [OF False n, of "contents m f"] by simp
  qed
qed

lemma no_space_same: "same_meta m m' \<Longrightarrow> no_space m' \<longleftrightarrow> no_space m"
  using same_meta(1,3) [of m m'] by (simp add: no_space_def)

text \<open>Positions in a file that the signed arithmetic of the code handles as intended.\<close>

lemma pos_arith:
  assumes "unat pos < 2147483648" and "pos < e"
  shows "unat (int_div pos BLKSIZE) = unat pos div 4096" "block_pos blk pos = blk + unat pos mod 4096"
    "unat (chunk pos e) = min (4096 - unat pos mod 4096) (unat e - unat pos)" "unat (pos + chunk pos e) = unat pos + unat (chunk pos e)"
proof -
  show "unat (int_div pos BLKSIZE) = unat pos div 4096" using int_div_small [OF assms(1)] by (simp add: BLKSIZE_def)
  have im: "int_mod pos BLKSIZE = int (unat pos mod 4096)" using int_mod_small [OF assms(1)] by (simp add: BLKSIZE_def)
  show "block_pos blk pos = blk + unat pos mod 4096" unfolding block_pos_def im by linarith
  have "int BLKSIZE - int_mod pos BLKSIZE = int (4096 - unat pos mod 4096)"
    unfolding im using mod_less_divisor [of 4096 "unat pos"] by (simp add: BLKSIZE_def)
  then have w: "word_of_int (int BLKSIZE - int_mod pos BLKSIZE) = (word_of_nat (4096 - unat pos mod 4096) :: u32)" by simp
  have u: "unat (word_of_nat q :: u32) = q" if "q \<le> 4096" for q using that by (simp add: unat_of_nat)
  note u [OF diff_le_self, of "unat pos mod 4096"]
  moreover have d: "unat (e - pos) = unat e - unat pos" using assms(2) by (simp add: unat_sub)
  ultimately show c: "unat (chunk pos e) = min (4096 - unat pos mod 4096) (unat e - unat pos)"
    unfolding chunk_def w by (simp add: min_def word_le_nat_alt)
  have "unat pos < unat e" using assms(2) by (simp add: word_less_nat_alt)
  then have "unat pos + unat (chunk pos e) < 4294967296" using unat_lt_4G [of e] unfolding c by linarith
  then show "unat (pos + chunk pos e) = unat pos + unat (chunk pos e)" by (simp add: unat_word_ariths)
qed

text \<open>One chunk of a transfer: the block at a position, filled in if it was a hole.\<close>

definition chunk_post :: "nat \<Rightarrow> u32 \<Rightarrow> fs \<Rightarrow> u32 + nat \<Rightarrow> fs \<Rightarrow> bool" where
  "chunk_post f pos s r t \<longleftrightarrow> bc_ok t \<and> grows s t \<and> extends f (vis s) (vis t) \<and> get_post f (unat pos div 4096) (vis t) r"

lemma chunk_block:
  assumes "bc_ok s" and "file_ok (vis s) f" and "unat pos < 4235264" and "pos < e"
  obtains r t where "file_get_block f (int_div pos BLKSIZE) s = Ret r t" "chunk_post f pos s r t" "unat pos div 4096 < 1034"
proof -
  have k: "unat pos div 4096 < 1034" using assms(3) by (simp add: div_less_iff_less_mult)
  have w: "unat (int_div pos BLKSIZE) = unat pos div 4096" using pos_arith(1) [of pos e] assms(3,4) by simp
  show ?thesis using file_get_block_runs [OF assms(1,2), of "int_div pos BLKSIZE"] w k that by (auto simp: runs_def chunk_post_def)
qed

lemma chunk_addr:
  assumes "meta_ok m" and "file_ok m f" and "k < 1034" and "fmap m f k \<noteq> 0" and "i < 4096"
  shows "accessible m ((fmap m f k * 4096 + i) div 4096)" and "\<not> meta_addr m (fmap m f k * 4096 + i)"
proof -
  have d: "data_block m (fmap m f k)" using file_okD(2) [OF assms(2) owned_fmap [OF assms(3,4)]] .
  then show "accessible m ((fmap m f k * 4096 + i) div 4096)" using assms(5) by (simp add: accessible_def data_block_def)
  have "first_data m * 4096 \<le> fmap m f k * 4096" using d by (simp add: data_block_def)
  then show "\<not> meta_addr m (fmap m f k * 4096 + i)" using first_data_ge [OF assms(1)] unfolding meta_addr_def by linarith
qed

lemma chunk_store:
  assumes "bc_ok s" and "file_ok (vis s) f" and "k < 1034" and "fmap (vis s) f k \<noteq> 0" and "off + length bs \<le> 4096"
  shows "runs s (store_bytes (fmap (vis s) f k * 4096 + off) bs) () (put_bytes (fmap (vis s) f k * 4096 + off) bs (vis s))"
proof (rule store_bytes_runs [OF assms(1)])
  fix i
  assume "i < length bs"
  then have "off + i < 4096" using assms(5) by simp
  from chunk_addr [OF bc_okD(5) [OF assms(1)] assms(2-4) this]
  show "accessible (vis s) ((fmap (vis s) f k * 4096 + off + i) div 4096) \<and> \<not> meta_addr (vis s) (fmap (vis s) f k * 4096 + off + i)"
    by (simp only: add.assoc simp_thms)
qed

lemma chunk_load:
  assumes "bc_ok s" and "file_ok (vis s) f" and "k < 1034" and "fmap (vis s) f k \<noteq> 0" and "off + n \<le> 4096"
  shows "runs s (load_bytes (fmap (vis s) f k * 4096 + off) n) (map (contents (vis s) f) [k * 4096 + off ..< k * 4096 + off + n]) (vis s)"
proof -
  let ?b = "fmap (vis s) f k"
  have "runs s (load_bytes (?b * 4096 + off) n) (map (vis s) [?b * 4096 + off ..< ?b * 4096 + off + n]) (vis s)"
  proof (rule load_bytes_runs [OF assms(1)])
    fix i
    assume "i < n"
    then have "off + i < 4096" using assms(5) by simp
    from chunk_addr(1) [OF bc_okD(5) [OF assms(1)] assms(2-4) this]
    show "accessible (vis s) ((?b * 4096 + off + i) div 4096)" by (simp only: add.assoc)
  qed
  moreover have "map (vis s) [?b * 4096 + off ..< ?b * 4096 + off + n] = map (contents (vis s) f) [k * 4096 + off ..< k * 4096 + off + n]"
  proof (rule nth_equalityI)
    fix i
    assume "i < length (map (vis s) [?b * 4096 + off ..< ?b * 4096 + off + n])"
    then have i: "i < n" "off + i < 4096" using assms(5) by simp_all
    have "(k * 4096 + off + i) div 4096 = k" "(k * 4096 + off + i) mod 4096 = off + i" using i(2) by (simp_all add: add.assoc)
    then show "map (vis s) [?b * 4096 + off ..< ?b * 4096 + off + n] ! i = map (contents (vis s) f) [k * 4096 + off ..< k * 4096 + off + n] ! i"
      using i(1) assms(4) by (simp add: contents_def add.assoc)
  qed simp
  ultimately show ?thesis by simp
qed

text \<open>No hole between two positions.\<close>

definition mapped :: "(nat \<Rightarrow> u8) \<Rightarrow> nat \<Rightarrow> nat \<Rightarrow> nat \<Rightarrow> bool" where
  "mapped m f p q \<longleftrightarrow> (\<forall>j. p \<le> j \<longrightarrow> j < q \<longrightarrow> fmap m f (j div 4096) \<noteq> 0)"

lemma mapped_keeps: "keeps f m m' \<Longrightarrow> q \<le> 4235264 \<Longrightarrow> mapped m f p q \<Longrightarrow> mapped m' f p q"
  by (auto simp: keeps_def mapped_def div_less_iff_less_mult)

lemma mapped_chunk:
  assumes "fmap m f (p div 4096) \<noteq> 0" and "p mod 4096 + n \<le> 4096"
  shows "mapped m f p (p + n)"
  unfolding mapped_def
proof (intro allI impI)
  fix j
  assume "p \<le> j" "j < p + n"
  then have "j div 4096 = p div 4096" using div_mult_mod_eq [of p 4096] assms(2) unfolding in_block by linarith
  then show "fmap m f (j div 4096) \<noteq> 0" using assms(1) by simp
qed

lemma extends_bytes: "extends f m m' \<Longrightarrow> q \<le> 4235264 \<Longrightarrow> map (contents m' f) [p ..< q] = map (contents m f) [p ..< q]"
  by (auto simp: extends_def)

subsection \<open>The size of a file\<close>

lemma size_store:
  fixes w :: u32
  assumes m: "meta_ok m" and f: "file_ok m f"
  defines "m' \<equiv> wr32 (f + 128) w m"
  shows "same_meta m m'" "file_ok m' f" "within f m m'" "fsize m' f = unat w" "i < 4235264 \<Longrightarrow> contents m' f i = contents m f i" "keeps f m m'"
proof -
  have sl: "slot m (f + 128)" using descriptor_slot [OF file_okD(1) [OF f], of 32] by simp
  have out: "m' x = m x" if "x < f + 128 \<or> f + 132 \<le> x" for x unfolding m'_def using that by (intro wr32_outside) linarith
  have al: "f mod 4 = 0" using file_okD(1) [OF f] by (simp add: file_at_def)
  have "x < f + 128 \<or> f + 132 \<le> x" if "meta_addr m x" for x
  proof (rule ccontr)
    assume "\<not> (x < f + 128 \<or> f + 132 \<le> x)"
    then have "x - (f + 128) < 4" "f + 128 + (x - (f + 128)) = x" by linarith+
    then show False using slotD(5) [OF m sl] that by metis
  qed
  then show sm: "same_meta m m'" using out by (simp add: same_meta_def)
  have wd: "rd32 m' a = rd32 m a" if "a mod 4 = 0" "a \<noteq> f + 128" for a
    unfolding m'_def using slots_apart [of "f + 128" a] that al mod4_add [of f 32] by (intro rd32_wr32_other) auto
  have i: "ind m' f = ind m f" using wd [of "f + 176"] mod4_add [OF al, of 44] by (simp add: ind_def)
  have fm: "fmap m' f j = fmap m f j" if "j < 1034" for j
  proof (cases "j < 10 \<or> ind m f \<noteq> 0")
    case True
    have "(f + 128) div 4096 = f div 4096" by (rule descriptor_block [OF file_okD(1) [OF f]]) simp
    then have "slot_of m f j \<noteq> f + 128"
      using slot_of_block(1) [OF f that True] ind_block [OF f] True by (auto simp: slot_of_def split: if_splits)
    then show ?thesis using wd slotD(2) [OF m slot_of_slot(1) [OF f that True]] slot_of_slot(2) [OF f that True] fmap_slot_of(1) [OF i True] by simp
  next
    case False
    then show ?thesis using fmap_slot_of(2) [OF i] fmap_slot_of(2) [of m f m j] by auto
  qed
  show "file_ok m' f" by (rule same_map_file_ok(1) [OF sm f i fm])
  show "keeps f m m'" using fm by (simp add: keeps_def)
  show "fsize m' f = unat w" by (simp add: fsize_def m'_def)
  have ow: "owned m' f = owned m f" by (rule same_map_file_ok(2) [OF sm f i fm])
  have "f + 128 \<le> x \<and> x < f + 180" if "m' x \<noteq> m x" for x using out [of x] that by linarith
  then show "within f m m'" using same_meta(1,3) [OF sm] ow by (auto simp: within_def)
  show "contents m' f i = contents m f i" if "i < 4235264"
  proof -
    let ?k = "i div 4096"
    have k: "?k < 1034" using that by (simp add: div_less_iff_less_mult)
    have "m' (fmap m f ?k * 4096 + i mod 4096) = m (fmap m f ?k * 4096 + i mod 4096)" if "fmap m f ?k \<noteq> 0"
    proof (rule out, rule ccontr)
      let ?x = "fmap m f ?k * 4096 + i mod 4096"
      assume "\<not> (?x < f + 128 \<or> f + 132 \<le> ?x)"
      then have "?x - f < 256" "f + (?x - f) = ?x" by linarith+
      then have "?x div 4096 = f div 4096" using descriptor_block [OF file_okD(1) [OF f], of "?x - f"] by simp
      then show False using file_okD(3) [OF f owned_fmap [OF k that]] by simp
    qed
    then show ?thesis using fm [OF k] by (simp add: contents_def)
  qed
qed

lemma size_store_runs:
  assumes ok: "bc_ok s" and f: "file_ok (vis s) f"
  shows "runs s (andthen (store_word (f_size f) w) (\<lambda>_. andthen (flush_block f) (\<lambda>_. ret 0))) 0 (wr32 (f + 128) w (vis s))"
proof -
  have m: "meta_ok (vis s)" by (rule bc_okD(5) [OF ok])
  have sl: "slot (vis s) (f + 128)" "slot (vis s) f" using descriptor_slot [OF file_okD(1) [OF f], of 32] descriptor_slot [OF file_okD(1) [OF f], of 0] by simp_all
  note sm = same_meta [OF size_store(1) [OF m f, of w]]
  have st: "runs s (store_word (f_size f) w) () (wr32 (f + 128) w (vis s))" unfolding f_addrs
    by (rule store_word_runs [OF ok slotD(1,2) [OF m sl(1)]]) (simp_all add: sm(1,5) m)
  have "f div 4096 < 786432" using slotD(1) [OF m sl(2)] m by (simp add: accessible_def meta_ok_def)
  then have "f < DISKSIZE" by (simp add: DISKSIZE_def div_less_iff_less_mult)
  then have fl: "runs t (flush_block f) () (vis t)" if "bc_ok t" for t using flush_block_runs [OF that] by simp
  show ?thesis
  proof (rule runs_andthen [OF st])
    show "runs t (andthen (flush_block f) (\<lambda>_. ret 0)) 0 (wr32 (f + 128) w (vis s))" if "bc_ok t" "vis t = wr32 (f + 128) w (vis s)" for t
      using runs_bind_ret [OF fl [OF that(1)], of "\<lambda>_. 0"] that(2) by simp
  qed
qed

lemma sint_less_small:
  assumes "unat (a :: u32) < 2147483648" and "unat (b :: u32) < 2147483648"
  shows "sint a < sint b \<longleftrightarrow> unat a < unat b"
  by (simp only: sint_small [OF assms(1)] sint_small [OF assms(2)] of_nat_less_iff)

lemma set_size_grows:
  assumes ok: "bc_ok s" and f: "file_ok (vis s) f" and sz: "fsize (vis s) f \<le> unat w" "unat w < 2147483648"
  shows "runs s (file_set_size f w) 0 (wr32 (f + 128) w (vis s))"
proof -
  have sl: "slot (vis s) (f + 128)" using descriptor_slot [OF file_okD(1) [OF f], of 32] by simp
  have "\<not> sint w < sint (rd32 (vis s) (f + 128))" using sz sint_less_small [of w "rd32 (vis s) (f + 128)"] by (simp add: fsize_def)
  then have K: "runs t (andthen (if sint w < sint (rd32 (vis s) (f + 128)) then file_truncate_blocks f w else ret ())
      (\<lambda>_. andthen (store_word (f + 128) w) (\<lambda>_. andthen (flush_block f) (\<lambda>_. ret 0)))) 0 (wr32 (f + 128) w (vis s))"
    if "bc_ok t" "vis t = vis s" for t
    using size_store_runs [OF that(1), of f w] f that(2) by (simp add: f_addrs)
  show ?thesis unfolding file_set_size_def f_addrs by (rule runs_andthen [OF slot_load [OF ok sl]]) (rule K)
qed

subsection \<open>Transfers between a file and a buffer\<close>

text \<open>
  A buffer of \<open>cap\<close> bytes outside the disk map. Taking bytes out changes nothing; putting bytes in changes
  these bytes only; and operations that leave the request page alone leave the buffer alone.
\<close>

locale client_buffer =
  fixes get :: "nat \<Rightarrow> nat \<Rightarrow> (fs, u8 list) op"
    and put :: "nat \<Rightarrow> u8 list \<Rightarrow> (fs, unit) op"
    and bytes :: "fs \<Rightarrow> nat \<Rightarrow> u8"
    and cap :: nat
  assumes get_bytes: "i + n \<le> cap \<Longrightarrow> get i n s = Ret (map (bytes s) [i ..< i + n]) s"
    and put_outside: "i + length bs \<le> cap \<Longrightarrow> \<exists>t. put i bs s = Ret () t \<and> (bc_ok s \<longrightarrow> bc_ok t) \<and> vis t = vis s \<and>
      (\<forall>j < cap. bytes t j = put_bytes i bs (bytes s) j)"
    and bytes_grows: "grows s t \<Longrightarrow> bytes t = bytes s"
begin

text \<open>The outcome of writing the buffer's bytes from \<open>i\<close> on to the positions from \<open>p\<close> to \<open>q\<close>.\<close>

definition wrote :: "nat \<Rightarrow> nat \<Rightarrow> nat \<Rightarrow> nat \<Rightarrow> fs \<Rightarrow> u32 option \<Rightarrow> fs \<Rightarrow> bool" where
  "wrote f i p q s r t \<longleftrightarrow> bc_ok t \<and> grows s t \<and> file_ok (vis t) f \<and> within f (vis s) (vis t) \<and> fsize (vis t) f = fsize (vis s) f \<and>
     keeps f (vis s) (vis t) \<and>
     (\<exists>n \<le> q - p. (\<forall>j < 4235264. contents (vis t) f j = put_bytes p (map (bytes s) [i ..< i + n]) (contents (vis s) f) j) \<and>
        (case r of None \<Rightarrow> n = q - p \<and> mapped (vis t) f p q | Some e \<Rightarrow> e = err E_NO_DISK \<and> no_space (vis t) \<and> \<not> mapped (vis s) f p q))"

lemma wrote_chunk:
  assumes ok: "bc_ok s" and f: "file_ok (vis s) f" and p: "unat pos < 4235264" "pos < e" and c: "i + unat (chunk pos e) \<le> cap"
  shows "\<exists>t. file_write_from f get i e pos s = Ret (Some (err E_NO_DISK)) t \<and> wrote f i (unat pos) (unat e) s (Some (err E_NO_DISK)) t \<or>
    file_write_from f get i e pos s = file_write_from f get (i + unat (chunk pos e)) e (pos + chunk pos e) t \<and>
    wrote f i (unat pos) (unat pos + unat (chunk pos e)) s None t"
proof -
  let ?k = "unat pos div 4096" and ?off = "unat pos mod 4096" and ?n = "unat (chunk pos e)"
  obtain r t where r: "file_get_block f (int_div pos BLKSIZE) s = Ret r t" "chunk_post f pos s r t" "?k < 1034"
    using chunk_block [OF ok f p] .
  note P = pos_arith [OF _ p(2)]
  have t: "bc_ok t" "grows s t" "file_ok (vis t) f" "within f (vis s) (vis t)" "fsize (vis t) f = fsize (vis s) f"
      "\<And>j. j < 4235264 \<Longrightarrow> contents (vis t) f j = contents (vis s) f j" "get_post f ?k (vis t) r"
      "keeps f (vis s) (vis t)"
    using r(2) by (simp_all add: chunk_post_def extends_def)
  show ?thesis
  proof (cases r)
    case (Inl x)
    then have "file_write_from f get i e pos s = Ret (Some (err E_NO_DISK)) t" "no_space (vis t)" "fmap (vis t) f ?k = 0"
      using r(1) t(7) p(2) by (simp_all add: file_write_from.simps [of f get i e pos s])
    moreover have "\<not> mapped (vis s) f (unat pos) (unat e)"
      using t(8) r(3) p(2) \<open>fmap (vis t) f ?k = 0\<close> by (auto simp: keeps_def mapped_def word_less_nat_alt)
    moreover from this have "wrote f i (unat pos) (unat e) s (Some (err E_NO_DISK)) t"
      unfolding wrote_def using t(1-6,8) \<open>no_space (vis t)\<close> by (auto intro!: exI [of _ 0] simp: put_bytes_def)
    ultimately show ?thesis by blast
  next
    case (Inr blk)
    let ?bs = "map (bytes s) [i ..< i + ?n]"
    have b: "fmap (vis t) f ?k \<noteq> 0" "blk = fmap (vis t) f ?k * 4096" using Inr t(7) by simp_all
    have n: "?off + length ?bs \<le> 4096" using P(3) p(1) by simp
    have m: "meta_ok (vis t)" by (rule bc_okD(5) [OF t(1)])
    have "runs t (store_bytes (blk + ?off) ?bs) () (put_bytes (blk + ?off) ?bs (vis t))"
      using chunk_store [OF t(1,3) r(3) b(1) n] unfolding b(2) .
    then obtain u where u: "store_bytes (blk + ?off) ?bs t = Ret () u" "bc_ok u" "vis u = put_bytes (blk + ?off) ?bs (vis t)" "grows t u"
      by (auto simp: runs_def)
    have step: "file_write_from f get i e pos s = file_write_from f get (i + ?n) e (pos + chunk pos e) u"
      using r(1) Inr p u(1) get_bytes [OF c, of t] bytes_grows [OF t(2)] P(2) [of blk]
      by (simp add: file_write_from.simps [of f get i e pos s] Let_def)
    note W = store_block_within [OF m t(3) r(3) refl b(1) n] store_block_file(3) [OF m t(3) r(3) refl b(1) n]
    have "contents (vis u) f j = put_bytes (unat pos) ?bs (contents (vis s) f) j" if "j < 4235264" for j
      using store_block_contents [OF m t(3) r(3) refl b(1) n that] t(6) [OF that] unfolding u(3) b(2) by (simp add: put_bytes_def)
    moreover have "file_ok (vis u) f" "fsize (vis u) f = fsize (vis s) f" "within f (vis s) (vis u)"
      using W t(5) within_trans [OF t(4) W(2)] unfolding u(3) b(2) by simp_all
    moreover have fm: "fmap (vis u) f j = fmap (vis t) f j" if "j < 1034" for j
      using store_block_file(2) [OF m t(3) r(3) refl b(1) n that] unfolding u(3) b(2) .
    then have "keeps f (vis t) (vis u)" unfolding keeps_def by simp
    from keeps_trans [OF t(8) this] have "keeps f (vis s) (vis u)" .
    moreover have "mapped (vis u) f (unat pos) (unat pos + ?n)" using b(1) fm [OF r(3)] n by (intro mapped_chunk) simp_all
    ultimately have "wrote f i (unat pos) (unat pos + ?n) s None u"
      unfolding wrote_def using u(2) grows_trans [OF t(2) u(4)] by (intro conjI exI [of _ ?n]) simp_all
    then show ?thesis using step by blast
  qed
qed

lemma wrote_trans:
  assumes "wrote f i p q s None t" and "wrote f (i + (q - p)) q q' t r u" and "p \<le> q" "q \<le> q'" "q' \<le> 4235264"
  shows "wrote f i p q' s r u"
proof -
  have bt: "bytes t = bytes s" using assms(1) bytes_grows by (simp add: wrote_def)
  obtain n where n: "n \<le> q' - q"
    "\<And>j. j < 4235264 \<Longrightarrow> contents (vis u) f j = put_bytes q (map (bytes s) [i + (q - p) ..< i + (q - p) + n]) (contents (vis t) f) j"
    "case r of None \<Rightarrow> n = q' - q \<and> mapped (vis u) f q q' | Some e \<Rightarrow> e = err E_NO_DISK \<and> no_space (vis u) \<and> \<not> mapped (vis t) f q q'"
    using assms(2) unfolding wrote_def bt by blast
  have t: "\<And>j. j < 4235264 \<Longrightarrow> contents (vis t) f j = put_bytes p (map (bytes s) [i ..< i + (q - p)]) (contents (vis s) f) j"
    using assms(1) by (simp add: wrote_def)
  have sp: "[i ..< i + ((q - p) + n)] = [i ..< i + (q - p)] @ [i + (q - p) ..< i + (q - p) + n]"
    using upt_add_eq_append [of i "i + (q - p)" n] by (simp add: add.assoc)
  have cu: "contents (vis u) f j = put_bytes p (map (bytes s) [i ..< i + ((q - p) + n)]) (contents (vis s) f) j" if "j < 4235264" for j
    using n(2) [OF that] t [OF that] assms(3) unfolding sp map_append put_bytes_append by (simp add: put_bytes_def)
  have "mapped (vis u) f p q"
    using assms(1-5) mapped_keeps [of f "vis t" "vis u" q p] unfolding wrote_def by simp
  then have "mapped (vis u) f p q'" if "mapped (vis u) f q q'" using that unfolding mapped_def by (meson not_less)
  moreover have "mapped (vis t) f q q'" if "mapped (vis s) f p q'"
    using mapped_keeps [of f "vis s" "vis t" q' q] assms(1,3,5) that by (simp add: wrote_def mapped_def)
  ultimately have "(q - p) + n \<le> q' - p"
    "case r of None \<Rightarrow> (q - p) + n = q' - p \<and> mapped (vis u) f p q' | Some e \<Rightarrow> e = err E_NO_DISK \<and> no_space (vis u) \<and> \<not> mapped (vis s) f p q'"
    using n(1,3) assms(3,4) by (auto split: option.splits)
  then have "\<exists>n \<le> q' - p. (\<forall>j < 4235264. contents (vis u) f j = put_bytes p (map (bytes s) [i ..< i + n]) (contents (vis s) f) j) \<and>
        (case r of None \<Rightarrow> n = q' - p \<and> mapped (vis u) f p q' | Some e \<Rightarrow> e = err E_NO_DISK \<and> no_space (vis u) \<and> \<not> mapped (vis s) f p q')"
    using cu by blast
  moreover have "bc_ok u" "file_ok (vis u) f" "grows s u" "within f (vis s) (vis u)" "fsize (vis u) f = fsize (vis s) f"
      "keeps f (vis s) (vis u)"
    using assms(1,2) grows_trans within_trans keeps_trans unfolding wrote_def by auto
  ultimately show ?thesis unfolding wrote_def by blast
qed

lemma write_from:
  assumes "bc_ok s" and "file_ok (vis s) f" and "unat e \<le> 4235264" and "unat pos \<le> unat e" and "i + (unat e - unat pos) \<le> cap"
  shows "\<exists>r t. file_write_from f get i e pos s = Ret r t \<and> wrote f i (unat pos) (unat e) s r t"
  using assms
proof (induction "unat e - unat pos" arbitrary: i pos s rule: less_induct)
  case less
  show ?case
  proof (cases "pos < e")
    case False
    then have "unat pos = unat e" using less.prems(4) by (simp add: word_less_nat_alt)
    moreover have "file_write_from f get i e pos s = Ret None s" using False by (simp add: file_write_from.simps)
    ultimately show ?thesis using less.prems(1,2) by (auto simp: wrote_def put_bytes_def mapped_def)
  next
    case True
    let ?n = "unat (chunk pos e)"
    have p: "unat pos < 4235264" "unat pos < unat e" using True less.prems(3) by (simp_all add: word_less_nat_alt)
    note P = pos_arith [OF _ True]
    have n: "?n \<le> unat e - unat pos" "0 < ?n" "unat (pos + chunk pos e) = unat pos + ?n"
      using P(3,4) p mod_less_divisor [of 4096 "unat pos"] by (simp_all add: min_def)
    have c: "i + ?n \<le> cap" using n(1) less.prems(5) by linarith
    from wrote_chunk [OF less.prems(1,2) p(1) True c] consider
      (full) t where "file_write_from f get i e pos s = Ret (Some (err E_NO_DISK)) t" "wrote f i (unat pos) (unat e) s (Some (err E_NO_DISK)) t"
      | (step) t where "file_write_from f get i e pos s = file_write_from f get (i + ?n) e (pos + chunk pos e) t"
          "wrote f i (unat pos) (unat pos + ?n) s None t" by blast
    then show ?thesis
    proof cases
      case full
      then show ?thesis by blast
    next
      case step
      have t: "bc_ok t" "file_ok (vis t) f" using step(2) by (simp_all add: wrote_def)
      have "\<exists>r u. file_write_from f get (i + ?n) e (pos + chunk pos e) t = Ret r u \<and> wrote f (i + ?n) (unat pos + ?n) (unat e) t r u"
        using less.hyps [of "pos + chunk pos e" t "i + ?n"] n t less.prems(3,5) p(2) by simp
      then show ?thesis using wrote_trans [OF step(2)] n(1) p(2) less.prems(3) step(1) by auto
    qed
  qed
qed

text \<open>The outcome of reading the positions from \<open>p\<close> to \<open>q\<close> into the buffer from \<open>i\<close> on.\<close>

definition fetched :: "nat \<Rightarrow> nat \<Rightarrow> nat \<Rightarrow> nat \<Rightarrow> fs \<Rightarrow> u32 option \<Rightarrow> fs \<Rightarrow> bool" where
  "fetched f i p q s r t \<longleftrightarrow> bc_ok t \<and> extends f (vis s) (vis t) \<and>
     (\<exists>n \<le> q - p. (\<forall>j < cap. bytes t j = put_bytes i (map (contents (vis s) f) [p ..< p + n]) (bytes s) j) \<and>
        (case r of None \<Rightarrow> n = q - p | Some e \<Rightarrow> e = err E_NO_DISK \<and> no_space (vis t) \<and> \<not> mapped (vis s) f p q))"

lemma fetched_chunk:
  assumes ok: "bc_ok s" and f: "file_ok (vis s) f" and p: "unat pos < 4235264" "unat e \<le> 4235264" "pos < e" and c: "i + unat (chunk pos e) \<le> cap"
  shows "\<exists>t. file_read_from f put i e pos s = Ret (Some (err E_NO_DISK)) t \<and> fetched f i (unat pos) (unat e) s (Some (err E_NO_DISK)) t \<or>
    file_read_from f put i e pos s = file_read_from f put (i + unat (chunk pos e)) e (pos + chunk pos e) t \<and>
    fetched f i (unat pos) (unat pos + unat (chunk pos e)) s None t"
proof -
  let ?k = "unat pos div 4096" and ?off = "unat pos mod 4096" and ?n = "unat (chunk pos e)"
  obtain r t where r: "file_get_block f (int_div pos BLKSIZE) s = Ret r t" "chunk_post f pos s r t" "?k < 1034"
    using chunk_block [OF ok f p(1,3)] .
  note P = pos_arith [OF _ p(3)]
  have t: "bc_ok t" "grows s t" "extends f (vis s) (vis t)" "file_ok (vis t) f" "get_post f ?k (vis t) r"
    using r(2) by (simp_all add: chunk_post_def extends_def)
  show ?thesis
  proof (cases r)
    case (Inl x)
    then have "file_read_from f put i e pos s = Ret (Some (err E_NO_DISK)) t" "no_space (vis t)" "fmap (vis t) f ?k = 0"
      using r(1) t(5) p(3) by (simp_all add: file_read_from.simps [of f put i e pos s])
    moreover have "\<not> mapped (vis s) f (unat pos) (unat e)"
      using t(3) r(3) p(3) \<open>fmap (vis t) f ?k = 0\<close> by (auto simp: extends_def keeps_def mapped_def word_less_nat_alt)
    ultimately have "fetched f i (unat pos) (unat e) s (Some (err E_NO_DISK)) t"
      unfolding fetched_def using t(1,3) bytes_grows [OF t(2)] by (auto intro!: exI [of _ 0])
    then show ?thesis using \<open>file_read_from f put i e pos s = _\<close> by blast
  next
    case (Inr blk)
    have b: "fmap (vis t) f ?k \<noteq> 0" "blk = fmap (vis t) f ?k * 4096" using Inr t(5) by simp_all
    have n: "?off + ?n \<le> 4096" "unat pos + ?n \<le> 4235264" using P(3) p by (simp_all add: word_less_nat_alt)
    let ?bs = "map (contents (vis s) f) [unat pos ..< unat pos + ?n]"
    have "runs t (load_bytes (blk + ?off) ?n) ?bs (vis t)"
      using chunk_load [OF t(1,4) r(3) b(1) n(1)] unfolding b(2) div_mult_mod_eq extends_bytes [OF t(3) n(2)] .
    then obtain u where u: "load_bytes (blk + ?off) ?n t = Ret ?bs u" "bc_ok u" "vis u = vis t" "grows t u" by (auto simp: runs_def)
    obtain v where v: "put i ?bs u = Ret () v" "bc_ok v" "vis v = vis u" "\<And>j. j < cap \<Longrightarrow> bytes v j = put_bytes i ?bs (bytes u) j"
      using put_outside [of i ?bs u] c u(2) by auto
    have "file_read_from f put i e pos s = file_read_from f put (i + ?n) e (pos + chunk pos e) v"
      using r(1) Inr p u(1) v(1) P(2) [of blk] by (simp add: file_read_from.simps [of f put i e pos s] Let_def)
    moreover have "bytes u = bytes s" using bytes_grows grows_trans [OF t(2) u(4)] by blast
    then have "fetched f i (unat pos) (unat pos + ?n) s None v"
      unfolding fetched_def using v(2-4) t(3) u(3) by (intro conjI exI [of _ ?n]) simp_all
    ultimately show ?thesis by blast
  qed
qed

lemma fetched_trans:
  assumes "fetched f i p q s None t" and "fetched f (i + (q - p)) q q' t r u" and "p \<le> q" "q \<le> q'" "q' \<le> 4235264"
  shows "fetched f i p q' s r u"
proof -
  have ex: "extends f (vis s) (vis t)" using assms(1) by (simp add: fetched_def)
  obtain n where n: "n \<le> q' - q"
    "\<And>j. j < cap \<Longrightarrow> bytes u j = put_bytes (i + (q - p)) (map (contents (vis t) f) [q ..< q + n]) (bytes t) j"
    "case r of None \<Rightarrow> n = q' - q | Some e \<Rightarrow> e = err E_NO_DISK \<and> no_space (vis u) \<and> \<not> mapped (vis t) f q q'"
    using assms(2) unfolding fetched_def by blast
  have t: "\<And>j. j < cap \<Longrightarrow> bytes t j = put_bytes i (map (contents (vis s) f) [p ..< p + (q - p)]) (bytes s) j"
    using assms(1) by (simp add: fetched_def)
  have c: "map (contents (vis t) f) [q ..< q + n] = map (contents (vis s) f) [q ..< q + n]"
    using n(1) assms(4,5) by (intro extends_bytes [OF ex]) linarith
  have sp: "[p ..< p + ((q - p) + n)] = [p ..< p + (q - p)] @ [q ..< q + n]"
    using upt_add_eq_append [of p "p + (q - p)" n] assms(3) by (simp add: add.assoc)
  have "bytes u j = put_bytes i (map (contents (vis s) f) [p ..< p + ((q - p) + n)]) (bytes s) j" if "j < cap" for j
    using n(2) [OF that] t [OF that] unfolding sp map_append put_bytes_append c by (simp add: put_bytes_def)
  moreover have "mapped (vis t) f q q'" if "mapped (vis s) f p q'"
    using mapped_keeps [of f "vis s" "vis t" q' q] ex assms(3,5) that by (simp add: extends_def mapped_def)
  then have "(q - p) + n \<le> q' - p"
    "case r of None \<Rightarrow> (q - p) + n = q' - p | Some e \<Rightarrow> e = err E_NO_DISK \<and> no_space (vis u) \<and> \<not> mapped (vis s) f p q'"
    using n(1,3) assms(3,4) by (auto split: option.splits)
  ultimately have "\<exists>n \<le> q' - p. (\<forall>j < cap. bytes u j = put_bytes i (map (contents (vis s) f) [p ..< p + n]) (bytes s) j) \<and>
        (case r of None \<Rightarrow> n = q' - p | Some e \<Rightarrow> e = err E_NO_DISK \<and> no_space (vis u) \<and> \<not> mapped (vis s) f p q')" by blast
  moreover have "bc_ok u" "extends f (vis s) (vis u)" using assms(2) extends_trans [OF ex] by (auto simp: fetched_def)
  ultimately show ?thesis unfolding fetched_def by blast
qed

lemma read_from:
  assumes "bc_ok s" and "file_ok (vis s) f" and "unat e \<le> 4235264" and "unat pos \<le> unat e" and "i + (unat e - unat pos) \<le> cap"
  shows "\<exists>r t. file_read_from f put i e pos s = Ret r t \<and> fetched f i (unat pos) (unat e) s r t"
  using assms
proof (induction "unat e - unat pos" arbitrary: i pos s rule: less_induct)
  case less
  show ?case
  proof (cases "pos < e")
    case False
    then have "unat pos = unat e" using less.prems(4) by (simp add: word_less_nat_alt)
    moreover have "file_read_from f put i e pos s = Ret None s" using False by (simp add: file_read_from.simps)
    ultimately show ?thesis using less.prems(1,2) extends_refl by (auto simp: fetched_def)
  next
    case True
    let ?n = "unat (chunk pos e)"
    have p: "unat pos < 4235264" "unat pos < unat e" using True less.prems(3) by (simp_all add: word_less_nat_alt)
    note P = pos_arith [OF _ True]
    have n: "?n \<le> unat e - unat pos" "0 < ?n" "unat (pos + chunk pos e) = unat pos + ?n"
      using P(3,4) p mod_less_divisor [of 4096 "unat pos"] by (simp_all add: min_def)
    have c: "i + ?n \<le> cap" using n(1) less.prems(5) by linarith
    from fetched_chunk [OF less.prems(1,2) p(1) less.prems(3) True c] consider
      (full) t where "file_read_from f put i e pos s = Ret (Some (err E_NO_DISK)) t" "fetched f i (unat pos) (unat e) s (Some (err E_NO_DISK)) t"
      | (step) t where "file_read_from f put i e pos s = file_read_from f put (i + ?n) e (pos + chunk pos e) t"
          "fetched f i (unat pos) (unat pos + ?n) s None t" by blast
    then show ?thesis
    proof cases
      case full
      then show ?thesis by blast
    next
      case step
      have t: "bc_ok t" "file_ok (vis t) f" using step(2) by (simp_all add: fetched_def extends_def)
      have "\<exists>r u. file_read_from f put (i + ?n) e (pos + chunk pos e) t = Ret r u \<and> fetched f (i + ?n) (unat pos + ?n) (unat e) t r u"
        using less.hyps [of "pos + chunk pos e" t "i + ?n"] n t less.prems(3,5) p(2) by simp
      then show ?thesis using fetched_trans [OF step(2)] n(1) p(2) less.prems(3) step(1) by auto
    qed
  qed
qed

definition write_post :: "nat \<Rightarrow> nat \<Rightarrow> nat \<Rightarrow> fs \<Rightarrow> u32 \<Rightarrow> fs \<Rightarrow> bool" where
  "write_post f count off s r t \<longleftrightarrow> bc_ok t \<and> grows s t \<and> file_ok (vis t) f \<and> within f (vis s) (vis t) \<and>
     fsize (vis t) f = max (fsize (vis s) f) (off + count) \<and>
     (\<exists>n \<le> count. (\<forall>j < 4235264. contents (vis t) f j = put_bytes off (map (bytes s) [0 ..< n]) (contents (vis s) f) j) \<and>
        (r = word_of_nat count \<and> n = count \<and> mapped (vis t) f off (off + count) \<or>
         r = err E_NO_DISK \<and> no_space (vis t) \<and> \<not> mapped (vis s) f off (off + count)))"

lemma size_first:
  assumes ok: "bc_ok s" and f: "file_ok (vis s) f" and sz: "fsize (vis s) f < 2147483648" and e: "unat e < 2147483648"
  obtains t where "(if rd32 (vis s) (f + 128) < e then file_set_size f e else ret 0) s = Ret 0 t"
    "bc_ok t" "grows s t" "file_ok (vis t) f" "within f (vis s) (vis t)" "fsize (vis t) f = max (fsize (vis s) f) (unat e)"
    "\<And>j. j < 4235264 \<Longrightarrow> contents (vis t) f j = contents (vis s) f j" "keeps f (vis s) (vis t)"
proof (cases "rd32 (vis s) (f + 128) < e")
  case True
  then have le: "fsize (vis s) f \<le> unat e" by (simp add: fsize_def word_less_nat_alt)
  note Z = size_store [OF bc_okD(5) [OF ok] f, where w = e]
  obtain t where t: "file_set_size f e s = Ret 0 t" "bc_ok t" "grows s t" "vis t = wr32 (f + 128) e (vis s)"
    using set_size_grows [OF ok f le e] by (auto simp: runs_def)
  show ?thesis using that [of t] True t Z(2-6) le by simp
next
  case False
  then have "fsize (vis s) f = max (fsize (vis s) f) (unat e)" by (simp add: fsize_def word_less_nat_alt)
  then show ?thesis using that [of s] False ok f by simp
qed

lemma file_write_ok:
  assumes ok: "bc_ok s" and f: "file_ok (vis s) f" and sz: "fsize (vis s) f < 2147483648"
    and c: "unat count \<le> cap" and e: "unat offset + unat count \<le> 4235264"
  shows "\<exists>r t. file_write f get count offset s = Ret r t \<and> write_post f (unat count) (unat offset) s r t"
proof -
  have e': "unat (offset + count) = unat offset + unat count" using e by (simp add: unat_word_ariths)
  have sl: "slot (vis s) (f + 128)" using descriptor_slot [OF file_okD(1) [OF f], of 32] by simp
  obtain s0 where s0: "load_word (f_size f) s = Ret (rd32 (vis s) (f + 128)) s0" "bc_ok s0" "vis s0 = vis s" "grows s s0"
    using slot_load [OF ok sl] by (auto simp: runs_def f_addrs)
  obtain t where t: "(if rd32 (vis s) (f + 128) < offset + count then file_set_size f (offset + count) else ret 0) s0 = Ret 0 t"
    "bc_ok t" "grows s0 t" "file_ok (vis t) f" "within f (vis s) (vis t)" "fsize (vis t) f = max (fsize (vis s) f) (unat (offset + count))"
    "\<And>j. j < 4235264 \<Longrightarrow> contents (vis t) f j = contents (vis s) f j" "keeps f (vis s) (vis t)"
    using size_first [OF s0(2), of f "offset + count"] f sz e unfolding s0(3) e' by auto
  have bt: "bytes t = bytes s" using bytes_grows [OF grows_trans [OF s0(4) t(3)]] .
  obtain r u where u: "file_write_from f get 0 (offset + count) offset t = Ret r u" "wrote f 0 (unat offset) (unat (offset + count)) t r u"
    using write_from [OF t(2,4), of "offset + count" offset 0] c e unfolding e' by auto
  obtain n where n: "n \<le> unat count"
    "\<And>j. j < 4235264 \<Longrightarrow> contents (vis u) f j = put_bytes (unat offset) (map (bytes s) [0 ..< n]) (contents (vis t) f) j"
    "case r of None \<Rightarrow> n = unat count \<and> mapped (vis u) f (unat offset) (unat offset + unat count) |
       Some x \<Rightarrow> x = err E_NO_DISK \<and> no_space (vis u) \<and> \<not> mapped (vis t) f (unat offset) (unat offset + unat count)"
    using u(2) unfolding wrote_def e' bt diff_add_inverse add_0 by blast
  have "file_write f get count offset s = Ret (case r of Some x \<Rightarrow> x | None \<Rightarrow> count) u"
    using s0(1) t(1) u(1) by (simp add: file_write_def split del: if_split)
  moreover have "contents (vis u) f j = put_bytes (unat offset) (map (bytes s) [0 ..< n]) (contents (vis s) f) j" if "j < 4235264" for j
    using n(2) [OF that] t(7) [OF that] by (simp add: put_bytes_def)
  moreover have "bc_ok u" "grows s u" "file_ok (vis u) f" "within f (vis s) (vis u)" "fsize (vis u) f = max (fsize (vis s) f) (unat offset + unat count)"
    using u(2) t(5,6) grows_trans [OF grows_trans [OF s0(4) t(3)]] within_trans [OF t(5)] unfolding e' by (simp_all add: wrote_def)
  moreover have "mapped (vis t) f (unat offset) (unat offset + unat count)" if "mapped (vis s) f (unat offset) (unat offset + unat count)"
    using mapped_keeps [OF t(8) e that] .
  ultimately show ?thesis using n(1,3) unfolding write_post_def by (cases r) auto
qed

definition read_post :: "nat \<Rightarrow> nat \<Rightarrow> nat \<Rightarrow> fs \<Rightarrow> u32 \<Rightarrow> fs \<Rightarrow> bool" where
  "read_post f count off s r t \<longleftrightarrow> bc_ok t \<and> extends f (vis s) (vis t) \<and>
     (\<exists>n \<le> min count (fsize (vis s) f - off). (\<forall>j < cap. bytes t j = put_bytes 0 (map (contents (vis s) f) [off ..< off + n]) (bytes s) j) \<and>
        (r = word_of_nat n \<and> n = min count (fsize (vis s) f - off) \<or>
         r = err E_NO_DISK \<and> no_space (vis t) \<and> \<not> mapped (vis s) f off (off + min count (fsize (vis s) f - off))))"

lemma file_read_ok:
  assumes ok: "bc_ok s" and f: "file_ok (vis s) f" and sz: "fsize (vis s) f \<le> 4235264"
    and c: "unat count \<le> cap" and off: "unat offset < 2147483648"
  shows "\<exists>r t. file_read f put count offset s = Ret r t \<and> read_post f (unat count) (unat offset) s r t"
proof -
  let ?sz = "rd32 (vis s) (f + 128)"
  have sz': "unat ?sz < 2147483648" using sz by (simp add: fsize_def)
  have sl: "slot (vis s) (f + 128)" using descriptor_slot [OF file_okD(1) [OF f], of 32] by simp
  obtain s0 where s0: "load_word (f_size f) s = Ret ?sz s0" "bc_ok s0" "vis s0 = vis s" "grows s s0"
    using slot_load [OF ok sl] by (auto simp: runs_def f_addrs)
  have b0: "bytes s0 = bytes s" using bytes_grows [OF s0(4)] .
  have cmp: "sint ?sz \<le> sint offset \<longleftrightarrow> unat ?sz \<le> unat offset" using sint_less_small [OF off sz'] by (simp add: not_less [symmetric])
  show ?thesis
  proof (cases "unat ?sz \<le> unat offset")
    case True
    then have "file_read f put count offset s = Ret 0 s0" using s0(1) cmp by (simp add: file_read_def)
    moreover have "read_post f (unat count) (unat offset) s 0 s0"
      unfolding read_post_def using True s0(2,3) extends_refl [OF f] b0 by (simp add: fsize_def)
    ultimately show ?thesis by blast
  next
    case False
    let ?c = "min count (?sz - offset)"
    have c': "unat ?c = min (unat count) (fsize (vis s) f - unat offset)"
      using False by (simp add: min_def word_le_nat_alt unat_sub fsize_def)
    then have e': "unat (offset + ?c) = unat offset + unat ?c" "unat (offset + ?c) \<le> 4235264"
      using False sz by (simp_all add: unat_word_ariths fsize_def)
    obtain r u where u: "file_read_from f put 0 (offset + ?c) offset s0 = Ret r u" "fetched f 0 (unat offset) (unat (offset + ?c)) s0 r u"
      using read_from [OF s0(2), of f "offset + ?c" offset 0] f min.coboundedI1 [OF c] e' s0(3) unfolding c' by auto
    have "file_read f put count offset s = Ret (case r of Some x \<Rightarrow> x | None \<Rightarrow> ?c) u"
      using s0(1) cmp False u(1) by (simp add: file_read_def Let_def)
    moreover have "read_post f (unat count) (unat offset) s (case r of Some x \<Rightarrow> x | None \<Rightarrow> ?c) u"
      using u(2) unfolding read_post_def fetched_def e'(1) c' [symmetric] s0(3) b0 by (cases r) auto
    ultimately show ?thesis by blast
  qed
qed

end

end
