(* ===== verification/Fs_Serv_Spec.thy ===== *)
theory Fs_Serv_Spec
  imports Fs_Serv Fs_Rw
begin

text \<open>
  The file server's requests. The two places in the request page where clients put data are buffers in
  the sense of the transfer lemmas, so reads and writes of clients act on files as described there; other
  files are not affected; and the table of open files leads each file id to the file it was opened for.
\<close>

unbundle bit_operations_syntax

subsection \<open>The request page as a buffer\<close>

lemma req_irrelevant [simp]: "vis (s\<lparr>fs_req := r\<rparr>) = vis s" "bc_ok (s\<lparr>fs_req := r\<rparr>) = bc_ok s"
proof -
  have d: "disk_byte (s\<lparr>fs_req := r\<rparr>) = disk_byte s" by (simp add: disk_byte_def drive_def)
  then show v: "vis (s\<lparr>fs_req := r\<rparr>) = vis s" by (simp add: fun_eq_iff vis_def)
  show "bc_ok (s\<lparr>fs_req := r\<rparr>) = bc_ok s" unfolding bc_ok_def v d by simp
qed

lemma req_get_page: "base + i + n \<le> 4096 \<Longrightarrow> req_get base i n s = Ret (map (\<lambda>j. fs_req s (base + j)) [i ..< i + n]) s"
proof -
  assume n: "base + i + n \<le> 4096"
  have "foldr (\<lambda>j m. andthen (req_byte (base + i + j)) (\<lambda>b. andthen m (\<lambda>bs. ret (b # bs)))) js (ret []) s =
      Ret (map (\<lambda>j. fs_req s (base + i + j)) js) s" if "set js \<subseteq> {..< n}" for js
    using that n by (induction js) (simp_all add: req_byte_def)
  from this [of "[0 ..< n]"] have "req_get base i n s = Ret (map (\<lambda>j. fs_req s (base + i + j)) [0 ..< n]) s"
    by (simp add: req_get_def atLeast0LessThan)
  moreover have "map (\<lambda>j. fs_req s (base + i + j)) [0 ..< n] = map (\<lambda>j. fs_req s (base + j)) [i ..< i + n]"
    by (rule nth_equalityI) (simp_all add: add.assoc)
  ultimately show ?thesis by simp
qed

lemma req_put_page: "base + i + length bs \<le> 4096 \<Longrightarrow> req_put base i bs s = Ret () (s\<lparr>fs_req := put_bytes (base + i) bs (fs_req s)\<rparr>)"
proof -
  assume n: "base + i + length bs \<le> 4096"
  have "each (\<lambda>j. req_store (base + i + j) (bs ! j)) [0 ..< k] s = Ret () (s\<lparr>fs_req := put_bytes (base + i) (take k bs) (fs_req s)\<rparr>)"
    if "k \<le> length bs" for k using that
  proof (induction k)
    case (Suc k)
    have e: "put_bytes (base + i) (take (Suc k) bs) (fs_req s) = (put_bytes (base + i) (take k bs) (fs_req s))(base + i + k := bs ! k)"
      using Suc(2) by (auto simp: put_bytes_def fun_eq_iff nth_append take_Suc_conv_app_nth)
    have "req_store (base + i + k) (bs ! k) (s\<lparr>fs_req := T\<rparr>) = Ret () (s\<lparr>fs_req := T(base + i + k := bs ! k)\<rparr>)" for T
      using Suc(2) n by (simp add: req_store_def)
    moreover have "each (\<lambda>j. req_store (base + i + j) (bs ! j)) [0 ..< Suc k] s =
        req_store (base + i + k) (bs ! k) (s\<lparr>fs_req := put_bytes (base + i) (take k bs) (fs_req s)\<rparr>)"
      using Suc by (simp add: each_append andthen_def split: outcome.split)
    ultimately show ?case unfolding e by (simp only:)
  qed simp
  from this [of "length bs"] show ?thesis by (simp add: req_put_def)
qed

lemma req_buffer:
  assumes "base \<le> 4096"
  shows "client_buffer (req_get base) (req_put base) (\<lambda>s i. fs_req s (base + i)) (4096 - base)"
proof unfold_locales
  show "req_get base i n s = Ret (map (\<lambda>i. fs_req s (base + i)) [i ..< i + n]) s" if "i + n \<le> 4096 - base" for i n s
    using req_get_page [of base i n s] that assms by simp
  show "\<exists>t. req_put base i bs s = Ret () t \<and> (bc_ok s \<longrightarrow> bc_ok t) \<and> vis t = vis s \<and>
      (\<forall>j < 4096 - base. fs_req t (base + j) = put_bytes i bs (\<lambda>i. fs_req s (base + i)) j)" if "i + length bs \<le> 4096 - base" for i bs s
    using req_put_page [of base i bs s] that assms by (simp add: put_bytes_def add.assoc)
  show "(\<lambda>i. fs_req t (base + i)) = (\<lambda>i. fs_req s (base + i))" if "grows s t" for s t
    using that by (simp add: grows_def)
qed

text \<open>The buffer of write requests, after the file id and the length, and the buffer for the bytes read.\<close>

interpretation wbuf: client_buffer "req_get 8" "req_put 8" "\<lambda>s i. fs_req s (8 + i)" 4088
  using req_buffer [of 8] by simp

interpretation rbuf: client_buffer "req_get 0" "req_put 0" "\<lambda>s i. fs_req s (0 + i)" 4096
  using req_buffer [of 0] by simp

subsection \<open>Other files\<close>

text \<open>Two files with nothing in common.\<close>

definition apart :: "(nat \<Rightarrow> u8) \<Rightarrow> nat \<Rightarrow> nat \<Rightarrow> bool" where
  "apart m f g \<longleftrightarrow> owned m f \<inter> owned m g = {} \<and> g div 4096 \<notin> owned m f \<and> f div 4096 \<notin> owned m g \<and>
     (f + 256 \<le> g \<or> g + 256 \<le> f)"

lemma within_other:
  assumes m: "meta_ok m" and f: "file_ok m f" and g: "file_ok m g" and a: "apart m f g" and w: "within f m m'"
  shows "i < 256 \<Longrightarrow> m' (g + i) = m (g + i)" and "b \<in> owned m g \<Longrightarrow> x div 4096 = b \<Longrightarrow> m' x = m x"
proof -
  have ch: "8192 \<le> x \<and> x < first_data m * 4096 \<or> f + 128 \<le> x \<and> x < f + 180 \<or> x div 4096 \<in> owned m f \<or> free_bit m (x div 4096)"
    if "m' x \<noteq> m x" for x using w that unfolding within_def by blast
  have fd: "x div 4096 = f div 4096" if "f + 128 \<le> x" "x < f + 180" for x
    using descriptor_block [OF file_okD(1) [OF f], of "x - f"] that by simp
  show "m' (g + i) = m (g + i)" if i: "i < 256"
  proof (rule ccontr)
    assume n: "m' (g + i) \<noteq> m (g + i)"
    have b: "(g + i) div 4096 = g div 4096" by (rule descriptor_block [OF file_okD(1) [OF g] i])
    have s: "slot m (g + 4 * (i div 4))" using i by (intro descriptor_slot [OF file_okD(1) [OF g]]) linarith
    have "g + 4 * (i div 4) + i mod 4 = g + i" "i mod 4 < 4" by simp_all
    then have "\<not> meta_addr m (g + i)" using slotD(5) [OF m s, of "i mod 4"] by metis
    then have "\<not> (8192 \<le> g + i \<and> g + i < first_data m * 4096)" by (simp add: meta_addr_def)
    moreover have "\<not> free_bit m (g div 4096)"
      using file_okD(1) [OF g] m first_data_ge [OF m] by (auto simp: file_at_def data_block_def meta_ok_def)
    moreover have "\<not> (f + 128 \<le> g + i \<and> g + i < f + 180)" using a i by (auto simp: apart_def)
    ultimately show False using ch [OF n] b a by (auto simp: apart_def)
  qed
  show "m' x = m x" if "b \<in> owned m g" "x div 4096 = b"
  proof (rule ccontr)
    assume n: "m' x \<noteq> m x"
    have d: "data_block m b" by (rule file_okD(2) [OF g that(1)])
    then have "first_data m * 4096 \<le> x" using that(2) div_mult_mod_eq [of x 4096] by (simp add: data_block_def in_block)
    then show False using ch [OF n] fd [of x] a d that by (auto simp: apart_def data_block_def)
  qed
qed

lemma within_other_file:
  assumes m: "meta_ok m" and f: "file_ok m f" and g: "file_ok m g" and a: "apart m f g" and w: "within f m m'"
  shows "file_ok m' g" and "fsize m' g = fsize m g" and "i < 4235264 \<Longrightarrow> contents m' g i = contents m g i"
proof -
  note W = within_other [OF m f g a w]
  have d: "rd32 m' (g + k) = rd32 m (g + k)" if "k \<le> 252" for k
    using W(1) that by (intro rd32_cong) (simp add: add.assoc)
  have i: "ind m' g = ind m g" using d [of 176] by (simp add: ind_def)
  have fm: "fmap m' g k = fmap m g k" if k: "k < 1034" for k
  proof (cases "k < 10 \<or> ind m g = 0")
    case True
    then show ?thesis using i d [of "136 + 4 * k"] by (auto simp: fmap_def add.assoc)
  next
    case False
    have "(ind m g * 4096 + 4 * (k - 10) + j) div 4096 = ind m g" if "j < 4" for j using k that unfolding in_block by linarith
    then have "rd32 m' (ind m g * 4096 + 4 * (k - 10)) = rd32 m (ind m g * 4096 + 4 * (k - 10))"
      using W(2) [OF owned_ind] False by (intro rd32_cong) blast
    then show ?thesis using False i by (simp add: fmap_def)
  qed
  show "fsize m' g = fsize m g" using d [of 128] by (simp add: fsize_def)
  show "contents m' g i = contents m g i" if "i < 4235264"
  proof -
    have k: "i div 4096 < 1034" using that by (simp add: div_less_iff_less_mult)
    have "(fmap m g (i div 4096) * 4096 + i mod 4096) div 4096 = fmap m g (i div 4096)" by simp
    then show ?thesis using fm [OF k] W(2) [OF owned_fmap [OF k]] by (auto simp: contents_def)
  qed
  have ow: "owned m' g = owned m g" using i fm by (auto simp: owned_def)
  have nb: "nblocks m' = nblocks m" "first_data m' = first_data m" using w by (simp_all add: within_def first_data_def)
  have db: "data_block m' b" if "data_block m b" "b \<notin> owned m f" for b using that w nb unfolding data_block_def within_def by auto
  have "file_at m' g" using file_okD(1) [OF g] db [of "g div 4096"] a by (auto simp: file_at_def apart_def)
  moreover have "data_block m' b \<and> b \<noteq> g div 4096" if "b \<in> owned m' g" for b
    using that file_okD(2,3) [OF g] db [of b] a unfolding ow apart_def by blast
  moreover have "fmap m' g k \<noteq> ind m' g" if "k < 1034" "fmap m' g k \<noteq> 0" for k
    using that file_okD(4) [OF g] fm i by simp
  moreover have "j = k" if "j < 1034" "k < 1034" "fmap m' g j \<noteq> 0" "fmap m' g j = fmap m' g k" for j k
    using that fm [of j] fm [of k] file_okD(5) [OF g, of j k] by simp
  ultimately show "file_ok m' g" unfolding file_ok_def by blast
qed

lemma MAXFILESIZE_nat: "MAXFILESIZE = 4235264"
  by (simp add: MAXFILESIZE_def NDIRECT_def NINDIRECT_def BLKSIZE_def)

subsection \<open>Reading and writing\<close>

text \<open>
  \<^bold>\<open>C14.\<close> Writing a file with the bytes of a client's request is storing them at the offset. For a
  well-formed file and a range within the largest file size, \<^verbatim>\<open>file_write\<close> returns the number of bytes,
  the file's contents are the old ones with the new bytes in place and its size covers them; or the disk is
  full, a block was missing, and it returns \<open>- E_NO_DISK\<close>. Either way the file stays well formed, and every other well-formed
  file that shares no block with it stays well formed with the same size and contents.
\<close>

theorem file_write_refines:
  assumes "bc_ok s" and "file_ok (vis s) f" and "fsize (vis s) f \<le> MAXFILESIZE"
    and "unat count \<le> 4088" and "unat offset + unat count \<le> MAXFILESIZE"
  shows "\<exists>r t. file_write f (req_get 8) count offset s = Ret r t \<and> bc_ok t \<and> file_ok (vis t) f \<and>
    fsize (vis t) f = max (fsize (vis s) f) (unat offset + unat count) \<and>
    (r = count \<and> (\<forall>j < MAXFILESIZE. contents (vis t) f j =
         put_bytes (unat offset) (map (\<lambda>i. fs_req s (8 + i)) [0 ..< unat count]) (contents (vis s) f) j) \<or>
     r = err E_NO_DISK \<and> no_space (vis t) \<and> \<not> mapped (vis s) f (unat offset) (unat offset + unat count)) \<and>
    (\<forall>g. file_ok (vis s) g \<and> apart (vis s) f g \<longrightarrow> file_ok (vis t) g \<and> fsize (vis t) g = fsize (vis s) g \<and>
       (\<forall>j < MAXFILESIZE. contents (vis t) g j = contents (vis s) g j))"
proof -
  obtain r t where r: "file_write f (req_get 8) count offset s = Ret r t" "wbuf.write_post f (unat count) (unat offset) s r t"
    using wbuf.file_write_ok [OF assms(1,2)] assms(3-5) unfolding MAXFILESIZE_nat by fastforce
  have "file_ok (vis t) g \<and> fsize (vis t) g = fsize (vis s) g \<and> (\<forall>j < 4235264. contents (vis t) g j = contents (vis s) g j)"
    if "file_ok (vis s) g \<and> apart (vis s) f g" for g
    using within_other_file [OF bc_okD(5) [OF assms(1)] assms(2)] that r(2) unfolding wbuf.write_post_def by blast
  then show ?thesis using r unfolding wbuf.write_post_def MAXFILESIZE_nat by auto
qed

text \<open>On the small disk the root directory is an empty file.\<close>

lemma small_disk_root: "file_ok small_disk 4104" "fsize small_disk 4104 = 0" "fmap small_disk 4104 k = 0" "ind small_disk 4104 = 0"
proof -
  have z: "rd32 small_disk (4104 + i) = 0" if "i < 4000" for i
    using that by (intro rd32_zero) (simp add: small_disk_def)
  show f: "fsize small_disk 4104 = 0" "ind small_disk 4104 = 0" using z [of 128] z [of 176] by (simp_all add: fsize_def ind_def)
  show fm: "fmap small_disk 4104 k = 0" for k using z [of "136 + 4 * k"] f(2) by (simp add: fmap_def)
  have "owned small_disk 4104 = {}" using fm f(2) by (auto simp: owned_def)
  then show "file_ok small_disk 4104" using fm by (simp add: file_ok_def file_at_def)
qed

theorem file_write_refines_witness:
  "\<exists>r t. file_write 4104 (req_get 8) 1 0 (fs_of small_disk) = Ret r t \<and> file_ok (vis t) 4104 \<and> fsize (vis t) 4104 = 1"
  using file_write_refines [OF bc_ok_fs_of [OF small_disk_meta(1) [of 0]], of 4104 1 0] small_disk_root
  by (auto simp: MAXFILESIZE_nat)

text \<open>
  \<^bold>\<open>C18.\<close> Reading a file into a client's request page. For a well-formed file, \<^verbatim>\<open>file_read\<close> returns the
  number of bytes between the offset and the end of the file, at most the number asked for, and the page
  starts with exactly these bytes of the file; beyond the end it returns 0. It keeps the file well formed
  and does not change its contents. It can fail only with \<open>- E_NO_DISK\<close>, and only if the range has a
  hole, for which it wants to allocate a block.
\<close>

theorem file_read_spec:
  assumes "bc_ok s" and "file_ok (vis s) f" and "fsize (vis s) f \<le> MAXFILESIZE"
    and "unat count \<le> 4096" and "unat offset < 2147483648"
  defines "n \<equiv> min (unat count) (fsize (vis s) f - unat offset)"
  shows "\<exists>r t. file_read f (req_put 0) count offset s = Ret r t \<and> bc_ok t \<and> file_ok (vis t) f \<and>
    fsize (vis t) f = fsize (vis s) f \<and> (\<forall>j < MAXFILESIZE. contents (vis t) f j = contents (vis s) f j) \<and>
    (r = word_of_nat n \<and> (\<forall>j < n. fs_req t j = contents (vis s) f (unat offset + j)) \<or>
     r = err E_NO_DISK \<and> no_space (vis t) \<and> \<not> mapped (vis s) f (unat offset) (unat offset + n))"
proof -
  obtain r t where r: "file_read f (req_put 0) count offset s = Ret r t" "rbuf.read_post f (unat count) (unat offset) s r t"
    using rbuf.file_read_ok [OF assms(1,2)] assms(3-5) unfolding MAXFILESIZE_nat by blast
  have "n \<le> 4096" using assms(4) by (simp add: n_def)
  then show ?thesis using r unfolding rbuf.read_post_def extends_def MAXFILESIZE_nat n_def [symmetric]
    by (intro exI [of _ r] exI [of _ t]) (auto simp: put_bytes_def)
qed

theorem file_read_spec_witness: "\<exists>t. file_read 4104 (req_put 0) 10 0 (fs_of small_disk) = Ret 0 t"
  using file_read_spec [OF bc_ok_fs_of [OF small_disk_meta(1) [of 0]], of 4104 10 0] small_disk_root
  by (auto simp: MAXFILESIZE_nat mapped_def)

subsection \<open>Requests of clients\<close>

text \<open>\<open>leads s fileid i\<close>: the file id is that of entry \<open>i\<close>, and a client has the entry's page mapped.\<close>

definition leads :: "serv \<Rightarrow> u32 \<Rightarrow> nat \<Rightarrow> bool" where
  "leads s fileid i \<longleftrightarrow> i = unat fileid mod 1024 \<and> o_fileid (opentab s i) = fileid \<and> 1 < fd_refs s (o_fd (opentab s i))"

lemma lookup_leads: "leads s fileid i \<Longrightarrow> openfile_lookup fileid s = Ret (Inr i) s"
  by (auto simp: leads_def openfile_lookup_def pageref_def MAXOPEN_def unat_mod Let_def)

lemma req_word_page: "req_word (x\<lparr>fs_req := page\<rparr>) a = rd32 page a"
  by (simp add: req_word_def rd32_def)

lemma transfer_step:
  assumes l: "leads s (rd32 page 0) i" and p: "perm AND PTE_P \<noteq> 0"
  defines "v \<equiv> o_fd (opentab s i)"
  defines "done \<equiv> \<lambda>r t. s\<lparr>sv_fs := t, fd_pages := (fd_pages s)(v := (fd_pages s v)\<lparr>fd_offset := fd_offset (fd_pages s v) + r\<rparr>)\<rparr>"
  shows "file_write (o_file (opentab s i)) (req_get 8) (rd32 page 4) (fd_offset (fd_pages s v)) ((sv_fs s)\<lparr>fs_req := page\<rparr>) = Ret r t \<Longrightarrow>
      serve_one 4 perm page s = Ret (Some (r, None, perm)) (if sint r < 0 then s\<lparr>sv_fs := t\<rparr> else done r t)"
    and "file_read (o_file (opentab s i)) (req_put 0) (rd32 page 4) (fd_offset (fd_pages s v)) ((sv_fs s)\<lparr>fs_req := page\<rparr>) = Ret r t \<Longrightarrow>
      serve_one 3 perm page s = Ret (Some (r, None, perm)) (if sint r < 0 then s\<lparr>sv_fs := t\<rparr> else done r t)"
proof -
  let ?s = "s\<lparr>sv_fs := (sv_fs s)\<lparr>fs_req := page\<rparr>\<rparr>"
  have "leads ?s (rd32 page 0) i" using l by (auto simp: leads_def)
  note L = lookup_leads [OF this]
  show "serve_one 4 perm page s = Ret (Some (r, None, perm)) (if sint r < 0 then s\<lparr>sv_fs := t\<rparr> else done r t)"
    if "file_write (o_file (opentab s i)) (req_get 8) (rd32 page 4) (fd_offset (fd_pages s v)) ((sv_fs s)\<lparr>fs_req := page\<rparr>) = Ret r t"
    using that p L by (simp add: serve_one_def handlers_def serve_write_def with_open_file_def req_word_page on_fs_def add_offset_def v_def done_def Let_def)
  show "serve_one 3 perm page s = Ret (Some (r, None, perm)) (if sint r < 0 then s\<lparr>sv_fs := t\<rparr> else done r t)"
    if "file_read (o_file (opentab s i)) (req_put 0) (rd32 page 4) (fd_offset (fd_pages s v)) ((sv_fs s)\<lparr>fs_req := page\<rparr>) = Ret r t"
    using that p L by (simp add: serve_one_def handlers_def serve_read_def with_open_file_def req_word_page on_fs_def add_offset_def v_def done_def Let_def)
qed

lemma sint_count: "unat n \<le> 4096 \<Longrightarrow> \<not> sint (n :: u32) < 0"
  using sint_small [of n] by simp

text \<open>
  \<^bold>\<open>C15.\<close> What a client writes it reads back. When the server answers a write request of \<open>n\<close> bytes with
  \<open>n\<close>, the seek position has advanced by \<open>n\<close>; if the client moves it back and sends a read request for
  \<open>n\<close> bytes, the server answers \<open>n\<close> again and the request page starts with the bytes of the write request.
  The second request cannot run out of disk space, as the blocks are there.
\<close>

theorem serve_write_read:
  assumes ok: "bc_ok (sv_fs s)" and l: "leads s fileid i" and p: "perm AND PTE_P \<noteq> 0"
    and f: "file_ok (vis (sv_fs s)) (o_file (opentab s i))" "fsize (vis (sv_fs s)) (o_file (opentab s i)) \<le> MAXFILESIZE"
    and pg: "rd32 page 0 = fileid" "rd32 page 4 = n" "rd32 page' 0 = fileid" "rd32 page' 4 = n"
    and n: "unat n \<le> 4088" "unat off + unat n \<le> MAXFILESIZE" "fd_offset (fd_pages s (o_fd (opentab s i))) = off"
    and w: "serve_one 4 perm page s = Ret (Some (n, None, perm)) t"
  defines "fd \<equiv> o_fd (opentab s i)"
  shows "fd_offset (fd_pages t fd) = off + n \<and>
    (\<exists>u. serve_one 3 perm page' (t\<lparr>fd_pages := (fd_pages t)(fd := (fd_pages t fd)\<lparr>fd_offset := off\<rparr>)\<rparr>) = Ret (Some (n, None, perm)) u \<and>
      (\<forall>j < unat n. fs_req (sv_fs u) j = page (8 + j)))"
proof -
  let ?f = "o_file (opentab s i)" and ?x = "(sv_fs s)\<lparr>fs_req := page\<rparr>"
  have sn: "\<not> sint n < 0" "n \<noteq> err E_NO_DISK" using sint_count [of n] sint_err [of E_NO_DISK] n(1) by auto
  obtain r y where r: "file_write ?f (req_get 8) n off ?x = Ret r y" "wbuf.write_post ?f (unat n) (unat off) ?x r y"
    using wbuf.file_write_ok [of ?x ?f n off] ok f n unfolding MAXFILESIZE_nat by auto
  have "serve_one 4 perm page s = Ret (Some (r, None, perm)) (if sint r < 0 then s\<lparr>sv_fs := y\<rparr>
      else s\<lparr>sv_fs := y, fd_pages := (fd_pages s)(fd := (fd_pages s fd)\<lparr>fd_offset := fd_offset (fd_pages s fd) + r\<rparr>)\<rparr>)"
    using transfer_step(1) [of s page i perm r y] l p pg(1,2) n(3) r(1) unfolding fd_def by simp
  then have t: "r = n" "t = s\<lparr>sv_fs := y, fd_pages := (fd_pages s)(fd := (fd_pages s fd)\<lparr>fd_offset := off + n\<rparr>)\<rparr>"
    using w sn(1) n(3) by (simp_all add: fd_def)
  have y: "bc_ok y" "file_ok (vis y) ?f" "unat off + unat n \<le> fsize (vis y) ?f" "fsize (vis y) ?f \<le> 4235264" "mapped (vis y) ?f (unat off) (unat off + unat n)"
    "\<And>j. j < unat n \<Longrightarrow> contents (vis y) ?f (unat off + j) = page (8 + j)"
    using r(2) t(1) sn(2) f(2) n(2) unfolding wbuf.write_post_def MAXFILESIZE_nat by (auto simp: put_bytes_def)
  let ?t = "t\<lparr>fd_pages := (fd_pages t)(fd := (fd_pages t fd)\<lparr>fd_offset := off\<rparr>)\<rparr>" and ?z = "y\<lparr>fs_req := page'\<rparr>"
  obtain r' z where z: "file_read ?f (req_put 0) n off ?z = Ret r' z" "rbuf.read_post ?f (unat n) (unat off) ?z r' z"
    using rbuf.file_read_ok [of ?z ?f n off] y n unfolding MAXFILESIZE_nat by auto
  have mn: "min (unat n) (fsize (vis y) ?f - unat off) = unat n" using y(3) by simp
  have r': "r' = n" "\<And>j. j < unat n \<Longrightarrow> fs_req z j = page (8 + j)"
    using z(2) y(5,6) n(1) unfolding rbuf.read_post_def req_irrelevant mn by (auto simp: put_bytes_def)
  have "leads ?t fileid i" "sv_fs ?t = y" "opentab ?t = opentab s" "fd_offset (fd_pages ?t (o_fd (opentab ?t i))) = off"
    using l t(2) by (auto simp: leads_def fd_def)
  then have "\<exists>u. serve_one 3 perm page' ?t = Ret (Some (n, None, perm)) u \<and> sv_fs u = z"
    using transfer_step(2) [of ?t page' i perm n z] p pg(3,4) z(1) r'(1) sn(1) by (auto simp del: o_apply)
  moreover have "fd_offset (fd_pages t fd) = off + n" using t(2) by simp
  ultimately show ?thesis using r'(2) by auto
qed

text \<open>A disk whose root file has one block, open under file id 0, and a request to write one byte.\<close>

definition demo_disk :: "nat \<Rightarrow> u8" where
  "demo_disk a = (if a = 4100 then 5 else if a = 8192 then 0x10 else if a = 4233 then 0x10 else if a = 4240 then 3 else 0)"

definition demo_serv :: serv where
  "demo_serv = \<lparr>sv_fs = fs_of demo_disk, opentab = (\<lambda>_. \<lparr>o_fileid = 0, o_file = 4104, o_mode = 2, o_fd = FILEVA\<rparr>),
     fd_pages = (\<lambda>_. no_fd), fd_refs = (\<lambda>_. 2)\<rparr>"

definition demo_page :: "nat \<Rightarrow> u8" where
  "demo_page a = (if a = 4 then 1 else if a = 8 then 65 else 0)"

lemma demo_disk_ok: "meta_ok demo_disk" "file_ok demo_disk 4104" "fsize demo_disk 4104 = 4096" "fmap demo_disk 4104 0 = 3"
proof -
  have nb: "nblocks demo_disk = 5" by (simp add: nblocks_def rd32_def nblocks_addr_def BLKSIZE_def demo_disk_def le_word_def)
  then have fd: "first_data demo_disk = 3" by (simp add: first_data_def)
  have w: "rd32 demo_disk 8192 = 0x10" by (simp add: rd32_def demo_disk_def le_word_def)
  have fb: "free_bit demo_disk b \<longleftrightarrow> b = 4" if "b < 5" for b
  proof -
    have "b \<in> {0, 1, 2, 3, 4}" using that by auto
    then show ?thesis using w by (auto simp: free_bit_def BLKSIZE_def bit_iff_odd_drop_bit drop_bit_eq_div)
  qed
  show "meta_ok demo_disk" unfolding meta_ok_def nb fd using fb by simp
  show "fsize demo_disk 4104 = 4096" by (simp add: fsize_def rd32_def demo_disk_def le_word_def)
  have i: "ind demo_disk 4104 = 0" by (simp add: ind_def rd32_def demo_disk_def le_word_def)
  have z: "rd32 demo_disk (4240 + 4 * k) = 0" if "k \<noteq> 0" "k < 10" for k
    using that by (intro rd32_zero) (simp add: demo_disk_def)
  show f0: "fmap demo_disk 4104 0 = 3" by (simp add: fmap_def rd32_def demo_disk_def le_word_def)
  have fm: "fmap demo_disk 4104 k = (if k = 0 then 3 else 0)" for k using f0 z [of k] i by (simp add: fmap_def)
  have "owned demo_disk 4104 = {3}" using fm i by (auto simp: owned_def)
  then show "file_ok demo_disk 4104" using fm i fb nb fd by (simp add: file_ok_def file_at_def data_block_def)
qed

lemma demo_write: "\<exists>t. serve_one 4 PTE_P demo_page demo_serv = Ret (Some (1, None, PTE_P)) t"
proof -
  let ?x = "(fs_of demo_disk)\<lparr>fs_req := demo_page\<rparr>"
  have pg: "rd32 demo_page 0 = 0" "rd32 demo_page 4 = 1" by (simp_all add: rd32_def demo_page_def le_word_def)
  have m: "mapped demo_disk 4104 0 1" using demo_disk_ok(4) by (simp add: mapped_def)
  obtain r y where r: "file_write 4104 (req_get 8) 1 0 ?x = Ret r y" "wbuf.write_post 4104 (unat (1 :: u32)) (unat (0 :: u32)) ?x r y"
    using wbuf.file_write_ok [of ?x 4104 1 0] bc_ok_fs_of [OF demo_disk_ok(1)] demo_disk_ok(2,3) by auto
  then have "r = 1" using m by (auto simp: wbuf.write_post_def)
  then show ?thesis using transfer_step(1) [of demo_serv demo_page 0 PTE_P r y] r(1) pg
    by (simp add: demo_serv_def leads_def no_fd_def PTE_P_def)
qed

theorem serve_write_read_witness:
  "\<exists>t u. serve_one 4 PTE_P demo_page demo_serv = Ret (Some (1, None, PTE_P)) t \<and> fd_offset (fd_pages t FILEVA) = 1 \<and>
    serve_one 3 PTE_P demo_page (t\<lparr>fd_pages := (fd_pages t)(FILEVA := (fd_pages t FILEVA)\<lparr>fd_offset := 0\<rparr>)\<rparr>) =
      Ret (Some (1, None, PTE_P)) u \<and> fs_req (sv_fs u) 0 = 65"
proof -
  obtain t where t: "serve_one 4 PTE_P demo_page demo_serv = Ret (Some (1, None, PTE_P)) t" using demo_write by blast
  have pg: "rd32 demo_page 0 = 0" "rd32 demo_page 4 = 1" by (simp_all add: rd32_def demo_page_def le_word_def)
  show ?thesis
    using serve_write_read [of demo_serv 0 0 PTE_P demo_page 1 demo_page 0 t] t pg demo_disk_ok bc_ok_fs_of [OF demo_disk_ok(1)]
    by (auto simp: demo_serv_def leads_def no_fd_def PTE_P_def MAXFILESIZE_nat demo_page_def)
qed

end
