(* ===== verification/Fs_Open.thy ===== *)
theory Fs_Open
  imports Fs_Serv
begin

text \<open>
  The table of open files: every file id leads to its own entry, opening a file changes one entry that no
  client has mapped, and the id given out before for that entry is no longer accepted.
\<close>

unbundle bit_operations_syntax

definition tab_ok :: "serv \<Rightarrow> bool" where
  "tab_ok s \<longleftrightarrow> (\<forall>i < 1024. unat (o_fileid (opentab s i)) mod 1024 = i \<and>
     o_fd (opentab s i) = FILEVA + word_of_nat i * word_of_nat BLKSIZE)"

lemma tab_ok_opentab: "opentab t = opentab s \<Longrightarrow> tab_ok t = tab_ok s"
  by (simp add: tab_ok_def)

lemma serve_init_entries:
  "each serve_init_slot is s = Ret () t \<Longrightarrow> opentab t i = (if i \<in> set is then (opentab s i)
     \<lparr>o_fileid := word_of_nat i, o_fd := FILEVA + word_of_nat i * word_of_nat BLKSIZE\<rparr> else opentab s i)"
proof (induction "is" arbitrary: s)
  case (Cons j js)
  then show ?case by (auto simp: serve_init_slot_def dest!: Cons.IH)
qed simp

lemma serve_init_ok: "\<exists>t. serve_init s = Ret () t \<and> tab_ok t"
proof -
  have "\<exists>t. each serve_init_slot is s = Ret () t" for "is" s
    by (induction "is" arbitrary: s) (auto simp: serve_init_slot_def)
  then obtain t where t: "each serve_init_slot [0 ..< 1024] s = Ret () t" by blast
  have "tab_ok t" using serve_init_entries [OF t] by (simp add: tab_ok_def unat_of_nat)
  then show ?thesis using t by (simp add: serve_init_def MAXOPEN_def)
qed

lemma sint_err_neg: "sint (err e) < 0"
  by (cases e) (simp_all add: err_def)

lemma wlp_eq: "wlp m' Q E s \<Longrightarrow> m s = m' s \<Longrightarrow> wlp m Q E s"
  by (simp add: wlp_def)

lemma wlp_on_fs:
  assumes "\<And>a x. Q a (s\<lparr>sv_fs := x\<rparr>)" and "\<And>k x. E k (s\<lparr>sv_fs := x\<rparr>)"
  shows "wlp (on_fs m) Q E s"
  using assms by (simp add: wlp_def on_fs_def split: outcome.split)

lemma id_next: "unat (w + word_of_nat 1024 :: u32) mod 1024 = unat w mod 1024"
proof -
  have "(unat w + 1024) mod 4294967296 mod 1024 = (unat w + 1024) mod 1024" by (rule mod_mod_cancel) simp
  then show ?thesis by (simp add: unat_word_ariths)
qed

text \<open>The entry taken by \<^verbatim>\<open>openfile_alloc\<close>.\<close>

definition taken :: "serv \<Rightarrow> nat \<Rightarrow> serv \<Rightarrow> bool" where
  "taken s i t \<longleftrightarrow> i < 1024 \<and> fd_refs s (o_fd (opentab s i)) \<le> 1 \<and>
     opentab t = (opentab s)(i := (opentab s i)\<lparr>o_fileid := o_fileid (opentab s i) + word_of_nat 1024\<rparr>)"

lemma openfile_take_taken:
  assumes "i < 1024" and "fd_refs s (o_fd (opentab s i)) \<le> 1" and "opentab u = opentab s"
  shows "wlp (openfile_take i) (\<lambda>r t. (\<forall>j. r = Inr j \<longrightarrow> j = i) \<and> taken s i t) (\<lambda>_ _. True) u"
  using assms by (simp add: openfile_take_def taken_def MAXOPEN_def)

lemma openfile_alloc_from_taken:
  assumes "set is \<subseteq> {..< 1024}"
  shows "wlp (openfile_alloc_from is) (\<lambda>r t. (case r of Inr i \<Rightarrow> taken s i t | Inl e \<Rightarrow> opentab t = opentab s \<or> (\<exists>i. taken s i t)))
    (\<lambda>_ _. True) s"
  using assms
proof (induction "is")
  case (Cons i js)
  let ?Q = "\<lambda>r t. (case r of Inr i \<Rightarrow> taken s i t | Inl e \<Rightarrow> opentab t = opentab s \<or> (\<exists>i. taken s i t))"
  let ?v = "o_fd (opentab s i)"
  have take: "wlp (openfile_take i) ?Q (\<lambda>_ _. True) u" if "fd_refs s ?v \<le> 1" "opentab u = opentab s" for u
    by (rule wlp_mono [OF openfile_take_taken [of i s u]]) (use that Cons(2) in \<open>auto split: sum.splits\<close>)
  consider "pageref s ?v = 0" | "pageref s ?v = 1" | "1 < pageref s ?v" by linarith
  then show ?case
  proof cases
    case 1
    have "wlp (fd_page_alloc ?v) (\<lambda>r. wlp (if sint r < 0 then ret (Inl r) else openfile_take i) ?Q (\<lambda>_ _. True)) (\<lambda>_ _. True) s"
      using take 1 by (subst wlp_def) (simp add: fd_page_alloc_def pageref_def sint_err_neg)
    then have "wlp (andthen (fd_page_alloc ?v) (\<lambda>r. if sint r < 0 then ret (Inl r) else openfile_take i)) ?Q (\<lambda>_ _. True) s" by simp
    then show ?thesis by (rule wlp_eq) (simp add: Let_def 1)
  next
    case 2
    then show ?thesis using take [of s] by (simp add: wlp_def Let_def pageref_def)
  next
    case 3
    then show ?thesis using Cons by (simp add: wlp_def Let_def)
  qed
qed simp

lemma taken_tab_ok: "tab_ok s \<Longrightarrow> taken s i t \<Longrightarrow> tab_ok t"
  using id_next [of "o_fileid (opentab s i)"] by (auto simp: tab_ok_def taken_def)

text \<open>Opening a file, and the requests on open files.\<close>

definition opened :: "serv \<Rightarrow> u32 \<times> (u32 \<times> u32) option \<Rightarrow> serv \<Rightarrow> bool" where
  "opened s r t \<longleftrightarrow> (tab_ok s \<longrightarrow> tab_ok t) \<and> (\<forall>v p. snd r = Some (v, p) \<longrightarrow> fst r = 0 \<and>
     (\<exists>i < 1024. v = o_fd (opentab s i) \<and> fd_refs s v \<le> 1 \<and> (\<forall>j. j \<noteq> i \<longrightarrow> opentab t j = opentab s j) \<and>
        o_fd (opentab t i) = v \<and>
        o_fileid (opentab t i) = o_fileid (opentab s i) + word_of_nat 1024 \<and> fd_file_id (fd_pages t v) = o_fileid (opentab t i)))"

lemma opened_tab: "opened s r t \<Longrightarrow> tab_ok s \<Longrightarrow> tab_ok t"
  by (simp add: opened_def)

lemma opened_failed: "opentab t = opentab s \<or> (\<exists>i. taken s i t) \<Longrightarrow> opened s (e, None) t"
  using taken_tab_ok [of s _ t] tab_ok_opentab [of t s] by (elim disjE exE) (simp_all add: opened_def)

lemma open_fill_opened:
  assumes "taken s i u" and "opentab w = opentab u"
  shows "wlp (open_fill i f omode) (opened s) (\<lambda>_ _. True) w"
proof -
  let ?v = "o_fd (opentab w i)"
  define t where "t = w\<lparr>opentab := (opentab w)(i := (opentab w i)\<lparr>o_file := f, o_mode := omode\<rparr>),
         fd_pages := (fd_pages w)(?v := (fd_pages w ?v)\<lparr>fd_file_id := o_fileid (opentab w i),
           fd_omode := omode AND O_ACCMODE, fd_dev_id := devfile_id\<rparr>)\<rparr>"
  have "tab_ok t" if "tab_ok s" using taken_tab_ok [OF that assms(1)] assms(2) by (auto simp: tab_ok_def t_def)
  then have "opened s (0, Some (o_fd (opentab t i), p)) t" for p using assms by (auto simp: opened_def taken_def t_def)
  then show ?thesis by (simp add: open_fill_def Let_def t_def)
qed

lemma open_at_opened:
  assumes "taken s i u" and "opentab w = opentab u"
  shows "wlp (open_at i path omode) (opened s) (\<lambda>_ _. True) w"
proof -
  have bad: "opened s (e, None) w" if "opentab w = opentab u" for e w
    using that assms(1) by (intro opened_failed) (auto simp: taken_def)
  show ?thesis unfolding open_at_def wlp_andthen
    by (rule wlp_on_fs, auto split: sum.split simp: bad assms(2) intro!: wlp_on_fs open_fill_opened [OF assms(1)])
qed

lemma serve_open_opened: "wlp serve_open (opened s) (\<lambda>_ _. True) s"
proof -
  have "wlp openfile_alloc (\<lambda>r. wlp (case r of Inl e \<Rightarrow> ret (e, None)
      | Inr i \<Rightarrow> open_at i (req_path (sv_fs s)) (req_word (sv_fs s) MAXPATHLEN)) (opened s) (\<lambda>_ _. True)) (\<lambda>_ _. True) s"
    unfolding openfile_alloc_def
    by (rule wlp_mono [OF openfile_alloc_from_taken]) (auto simp: MAXOPEN_def opened_failed intro: open_at_opened split: sum.splits)
  then have "wlp (andthen openfile_alloc (\<lambda>r. case r of Inl e \<Rightarrow> ret (e, None)
      | Inr i \<Rightarrow> open_at i (req_path (sv_fs s)) (req_word (sv_fs s) MAXPATHLEN))) (opened s) (\<lambda>_ _. True) s" by simp
  then show ?thesis by (rule wlp_eq) (simp add: serve_open_def)
qed

text \<open>The other requests leave the table alone.\<close>

abbreviation keeps_tab :: "(serv, 'a) op \<Rightarrow> serv \<Rightarrow> bool" where
  "keeps_tab m s \<equiv> wlp m (\<lambda>_ t. opentab t = opentab s) (\<lambda>_ _. True) s"

lemma keeps_tab_on_fs: "keeps_tab (on_fs m) s"
  by (rule wlp_on_fs) simp_all

lemma keeps_tab_with:
  assumes "\<And>i. keeps_tab (k i) s"
  shows "keeps_tab (with_open_file fileid k) s"
proof -
  have "\<exists>x. openfile_lookup fileid s = Ret x s" by (simp add: openfile_lookup_def Let_def)
  then obtain x where x: "openfile_lookup fileid s = Ret x s" by blast
  show ?thesis using assms x by (cases x) (simp_all add: with_open_file_def wlp_def del: wlp_andthen)
qed

lemma keeps_tab_transfer: "keeps_tab (andthen (on_fs m) (\<lambda>r. if sint r < 0 then ret r else andthen (add_offset i r) (\<lambda>_. ret r))) s"
  unfolding wlp_andthen by (rule wlp_on_fs) (simp_all add: add_offset_def Let_def)

lemma keeps_tab_then: "keeps_tab (andthen (on_fs m) (\<lambda>_. ret r)) s"
  unfolding wlp_andthen by (rule wlp_on_fs) simp_all

lemma keeps_tab_state: "keeps_tab (m s) s \<Longrightarrow> keeps_tab (\<lambda>s. m s s) s"
  by (simp add: wlp_def)

lemma handlers_keep_tab:
  assumes "handlers q = Some h"
  shows "keeps_tab h s"
proof -
  have "keeps_tab serve_read s" "keeps_tab serve_write s" "keeps_tab serve_set_size s" "keeps_tab serve_stat s" "keeps_tab serve_flush s"
    unfolding serve_read_def serve_write_def serve_set_size_def serve_stat_def serve_flush_def Let_def
    by (rule keeps_tab_state, rule keeps_tab_with, rule keeps_tab_state, rule keeps_tab_transfer keeps_tab_on_fs keeps_tab_then)+
  moreover have "keeps_tab serve_sync s" unfolding serve_sync_def by (rule keeps_tab_then)
  ultimately show ?thesis using assms by (auto simp: handlers_def split: fsreq.splits)
qed

definition served :: "serv \<Rightarrow> (u32 \<times> u32 option \<times> u32) option \<Rightarrow> serv \<Rightarrow> bool" where
  "served s rep t \<longleftrightarrow> (tab_ok s \<longrightarrow> tab_ok t) \<and> (\<forall>r v p. rep = Some (r, Some v, p) \<longrightarrow> opened s (r, Some (v, p)) t)"

lemma serve_one_served: "wlp (serve_one req perm page) (served s) (\<lambda>_ _. True) s"
proof -
  let ?s = "s\<lparr>sv_fs := (sv_fs s)\<lparr>fs_req := page\<rparr>\<rparr>"
  have same: "served s (Some (r, None, p)) t" "served s None t" if "opentab t = opentab s" for r p t
    using that tab_ok_opentab [of t s] by (simp_all add: served_def)
  have o: "opened ?s r t \<Longrightarrow> opened s r t" for r t by (simp add: opened_def tab_ok_def)
  have op: "wlp (andthen serve_open (\<lambda>(r, pg). ret (Some (case pg of Some (v, p) \<Rightarrow> (r, Some v, p) | None \<Rightarrow> (r, None, perm)))))
      (served s) (\<lambda>_ _. True) ?s"
    unfolding wlp_andthen
    by (rule wlp_mono [OF serve_open_opened])
      (auto simp: served_def dest!: o dest: opened_tab split: option.splits)
  have ha: "wlp (case handlers q of Some h \<Rightarrow> andthen h (\<lambda>r. ret (Some (r, None, perm))) | None \<Rightarrow> ret (Some (err E_INVAL, None, perm)))
      (served s) (\<lambda>_ _. True) ?s" for q
    by (cases "handlers q") (auto simp: same intro!: wlp_mono [OF handlers_keep_tab])
  show ?thesis unfolding serve_one_def
    by (cases "fsreq_of req"; simp add: same del: fsreq_of.simps; cases "the (fsreq_of req)") (use op ha in \<open>auto simp: same simp del: fsreq_of.simps\<close>)
qed

text \<open>
  \<^bold>\<open>C19.\<close> File ids. Every request keeps the table of open files in order. When the server answers with a
  page, an open request has succeeded: it took an entry whose page no client had mapped, left all other
  entries alone, and the id it put in the page leads to that entry as long as a client has the page
  mapped, while the id the entry had before is rejected.
\<close>

theorem open_file_ids:
  assumes "tab_ok s" and "serve_one req perm page s = Ret rep t"
  shows "tab_ok t \<and> (\<forall>r v p. rep = Some (r, Some v, p) \<longrightarrow> r = 0 \<and>
    (\<exists>i < MAXOPEN. v = o_fd (opentab s i) \<and> pageref s v \<le> 1 \<and> (\<forall>j. j \<noteq> i \<longrightarrow> opentab t j = opentab s j) \<and>
      (\<forall>u. opentab u = opentab t \<longrightarrow> 1 < pageref u v \<longrightarrow>
         openfile_lookup (fd_file_id (fd_pages t v)) u = Ret (Inr i) u \<and>
         openfile_lookup (o_fileid (opentab s i)) u = Ret (Inl (err E_INVAL)) u)))"
proof -
  have S: "served s rep t" using serve_one_served [of req perm page s] assms(2) by (simp add: wlp_def)
  then have t: "tab_ok t" using assms(1) by (simp add: served_def)
  have "r = 0 \<and> (\<exists>i < MAXOPEN. v = o_fd (opentab s i) \<and> pageref s v \<le> 1 \<and> (\<forall>j. j \<noteq> i \<longrightarrow> opentab t j = opentab s j) \<and>
      (\<forall>u. opentab u = opentab t \<longrightarrow> 1 < pageref u v \<longrightarrow>
         openfile_lookup (fd_file_id (fd_pages t v)) u = Ret (Inr i) u \<and>
         openfile_lookup (o_fileid (opentab s i)) u = Ret (Inl (err E_INVAL)) u))" if "rep = Some (r, Some v, p)" for r v p
  proof -
    have "opened s (r, Some (v, p)) t" using S that by (simp add: served_def)
    then obtain i where i: "r = 0" "i < 1024" "v = o_fd (opentab s i)" "fd_refs s v \<le> 1" "\<forall>j. j \<noteq> i \<longrightarrow> opentab t j = opentab s j"
        "o_fd (opentab t i) = v" "o_fileid (opentab t i) = o_fileid (opentab s i) + word_of_nat 1024"
        "fd_file_id (fd_pages t v) = o_fileid (opentab t i)" by (auto simp: opened_def)
    have m: "unat (o_fileid (opentab t i)) mod 1024 = i" "unat (o_fileid (opentab s i)) mod 1024 = i"
      using t assms(1) i(2) by (simp_all add: tab_ok_def)
    have "o_fileid (opentab t i) \<noteq> o_fileid (opentab s i)" using i(7) by simp
    then have "openfile_lookup (fd_file_id (fd_pages t v)) u = Ret (Inr i) u \<and> openfile_lookup (o_fileid (opentab s i)) u = Ret (Inl (err E_INVAL)) u"
      if "opentab u = opentab t" "1 < pageref u v" for u
      using that i(6,8) m by (simp add: openfile_lookup_def Let_def MAXOPEN_def unat_mod)
    then show ?thesis using i(1-5) by (auto simp: MAXOPEN_def pageref_def)
  qed
  then show ?thesis using t by blast
qed

text \<open>A server right after \<^verbatim>\<open>serve_init\<close>, and a request to open the root directory.\<close>

definition fresh_serv :: serv where
  "fresh_serv = \<lparr>sv_fs = \<lparr>fs_ide = \<lparr>diskno = 1, ide_status = sconst 0x40, ide_regs = (\<lambda>_. 0), ide_sector = 0, ide_media = (\<lambda>_ _. 0)\<rparr>,
       fs_cache = (\<lambda>_. 0), fs_present = (\<lambda>_. False), fs_dirty = (\<lambda>_. False), fs_super = True, fs_bitmap = True, fs_frames = 10, fs_req = (\<lambda>_. 0)\<rparr>,
     opentab = (\<lambda>i. \<lparr>o_fileid = word_of_nat i, o_file = 0, o_mode = 0, o_fd = FILEVA + word_of_nat i * word_of_nat BLKSIZE\<rparr>),
     fd_pages = (\<lambda>_. no_fd), fd_refs = (\<lambda>_. 0)\<rparr>"

lemma fresh_serv_ok: "tab_ok fresh_serv"
  by (simp add: tab_ok_def fresh_serv_def unat_of_nat)

lemma fresh_open: "\<exists>t. serve_one 1 PTE_P (\<lambda>_. 0) fresh_serv = Ret (Some (0, Some FILEVA, PTE_P OR (PTE_U OR (PTE_W OR PTE_SHARE)))) t"
proof -
  have "[0 ..< MAXOPEN] = 0 # [1 ..< MAXOPEN]" using upt_conv_Cons [of 0 MAXOPEN] by (simp add: MAXOPEN_def)
  then have al: "openfile_alloc = openfile_alloc_from (0 # [1 ..< MAXOPEN])" by (simp only: openfile_alloc_def)
  have m: "(word_of_nat MAXOPEN :: u32) = 1024" by (simp add: MAXOPEN_def)
  have "takeWhile (\<lambda>c. c \<noteq> 0) (map (\<lambda>_. 0 :: u8) xs) = []" for xs :: "nat list" by (cases xs) simp_all
  then have pth: "req_path (x\<lparr>fs_req := \<lambda>_. 0\<rparr>) = []" for x by (simp add: req_path_def)
  have fo: "file_open [] x = Ret (Inr s_root) x" for x
    by (simp add: file_open_def walk_path_def skip_slash_def walk_path_from.simps)
  have md: "req_word (x\<lparr>fs_req := \<lambda>_. 0\<rparr>) a = 0" for x a by (simp add: req_word_def le_word_def)
  have opn: "\<exists>t. open_at i [] 0 w = Ret (0, Some (o_fd (opentab w i), PTE_P OR (PTE_U OR (PTE_W OR PTE_SHARE)))) t" for i w
    by (simp add: open_at_def open_file_def on_fs_def fo open_fill_def Let_def)
  define s1 where "s1 = fresh_serv\<lparr>sv_fs := (sv_fs fresh_serv)\<lparr>fs_req := \<lambda>_. 0\<rparr>\<rparr>"
  have s1: "fd_refs s1 v = 0" "o_fd (opentab s1 0) = FILEVA" "o_fileid (opentab s1 0) = 0" "fs_frames (sv_fs s1) = 10"
      "sv_fs s1 = (sv_fs fresh_serv)\<lparr>fs_req := \<lambda>_. 0\<rparr>" for v
    by (simp_all add: s1_def fresh_serv_def)
  have tk: "\<exists>t. openfile_take 0 u = Ret (Inr 0) t \<and> o_fd (opentab t 0) = FILEVA" if "opentab u = opentab s1" for u
    using that s1(2,3) by (simp add: openfile_take_def m)
  have "\<exists>t. openfile_alloc s1 = Ret (Inr 0) t \<and> o_fd (opentab t 0) = FILEVA"
    unfolding al using s1 by (simp add: Let_def pageref_def fd_page_alloc_def tk)
  then obtain t where t: "openfile_alloc s1 = Ret (Inr 0) t" "o_fd (opentab t 0) = FILEVA" by blast
  obtain t' where t': "open_at 0 [] 0 t = Ret (0, Some (FILEVA, PTE_P OR (PTE_U OR (PTE_W OR PTE_SHARE)))) t'"
    using opn [of 0 t] t(2) by auto
  have "serve_open s1 = Ret (0, Some (FILEVA, PTE_P OR (PTE_U OR (PTE_W OR PTE_SHARE)))) t'"
    using t(1) t' by (simp add: serve_open_def s1(5) pth md)
  then show ?thesis unfolding s1_def by (simp add: serve_one_def PTE_P_def)
qed

theorem open_file_ids_witness:
  "\<exists>t i. serve_one 1 PTE_P (\<lambda>_. 0) fresh_serv = Ret (Some (0, Some FILEVA, PTE_P OR (PTE_U OR (PTE_W OR PTE_SHARE)))) t \<and>
     tab_ok t \<and> i < MAXOPEN \<and> FILEVA = o_fd (opentab fresh_serv i)"
proof -
  obtain t where t: "serve_one 1 PTE_P (\<lambda>_. 0) fresh_serv = Ret (Some (0, Some FILEVA, PTE_P OR (PTE_U OR (PTE_W OR PTE_SHARE)))) t"
    using fresh_open by blast
  from open_file_ids [OF fresh_serv_ok t] show ?thesis using t by blast
qed

end
