(* ===== verification/Lib_String.thy ===== *)
theory Lib_String
  imports JOS_Loops
begin

text \<open>
  The string routines (\<^verbatim>\<open>lib/string.c\<close>) on a flat memory of bytes with 32-bit addresses. A loop that
  runs until it meets a zero byte may not end; such a routine is a partial function with result \<open>None\<close> in
  that case. The string instructions of the processor are modelled step by step.
\<close>

unbundle bit_operations_syntax

type_synonym bytes_mem = "u32 \<Rightarrow> u8"

subsection \<open>Strings\<close>

partial_function (option) strlen_from :: "bytes_mem \<Rightarrow> u32 \<Rightarrow> u32 \<Rightarrow> u32 option" where
  "strlen_from m s n = (if m s \<noteq> 0 then strlen_from m (s + 1) (n + 1) else Some n)"

definition strlen :: "bytes_mem \<Rightarrow> u32 \<Rightarrow> u32 option" where
  "strlen m s = strlen_from m s 0"

primrec strnlen_from :: "nat \<Rightarrow> bytes_mem \<Rightarrow> u32 \<Rightarrow> u32 \<Rightarrow> u32" where
  "strnlen_from 0 m s n = n"
| "strnlen_from (Suc sz) m s n = (if m s \<noteq> 0 then strnlen_from sz m (s + 1) (n + 1) else n)"

definition strnlen :: "bytes_mem \<Rightarrow> u32 \<Rightarrow> u32 \<Rightarrow> u32" where
  "strnlen m s sz = strnlen_from (unat sz) m s 0"

partial_function (option) strcpy :: "bytes_mem \<Rightarrow> u32 \<Rightarrow> u32 \<Rightarrow> bytes_mem option" where
  "strcpy m dst src = (let m' = m(dst := m src) in
     if m src \<noteq> 0 then strcpy m' (dst + 1) (src + 1) else Some m')"

definition strcat :: "bytes_mem \<Rightarrow> u32 \<Rightarrow> u32 \<Rightarrow> bytes_mem option" where
  "strcat m dst src = (case strlen m dst of None \<Rightarrow> None | Some len \<Rightarrow> strcpy m (dst + len) src)"

primrec strncpy_from :: "nat \<Rightarrow> bytes_mem \<Rightarrow> u32 \<Rightarrow> u32 \<Rightarrow> bytes_mem" where
  "strncpy_from 0 m dst src = m"
| "strncpy_from (Suc sz) m dst src =
     (let m' = m(dst := m src) in strncpy_from sz m' (dst + 1) (if m' src \<noteq> 0 then src + 1 else src))"

definition strncpy :: "bytes_mem \<Rightarrow> u32 \<Rightarrow> u32 \<Rightarrow> u32 \<Rightarrow> bytes_mem" where
  "strncpy m dst src sz = strncpy_from (unat sz) m dst src"

text \<open>The loop of \<^verbatim>\<open>strlcpy\<close> with at most \<open>k\<close> rounds; the result is the memory and the pointer behind the copy.\<close>

primrec strlcpy_from :: "nat \<Rightarrow> bytes_mem \<Rightarrow> u32 \<Rightarrow> u32 \<Rightarrow> bytes_mem \<times> u32" where
  "strlcpy_from 0 m dst src = (m, dst)"
| "strlcpy_from (Suc k) m dst src =
     (if m src \<noteq> 0 then strlcpy_from k (m(dst := m src)) (dst + 1) (src + 1) else (m, dst))"

definition strlcpy :: "bytes_mem \<Rightarrow> u32 \<Rightarrow> u32 \<Rightarrow> u32 \<Rightarrow> bytes_mem \<times> u32" where
  "strlcpy m dst src sz =
     (if 0 < sz
      then let (m', d) = strlcpy_from (unat sz - 1) m dst src in (m'(d := 0), d - dst)
      else (m, 0))"

partial_function (option) strcmp :: "bytes_mem \<Rightarrow> u32 \<Rightarrow> u32 \<Rightarrow> int option" where
  "strcmp m p q = (if m p \<noteq> 0 \<and> m p = m q then strcmp m (p + 1) (q + 1) else Some (uint (m p) - uint (m q)))"

primrec strncmp_from :: "nat \<Rightarrow> bytes_mem \<Rightarrow> u32 \<Rightarrow> u32 \<Rightarrow> int" where
  "strncmp_from 0 m p q = 0"
| "strncmp_from (Suc n) m p q =
     (if m p \<noteq> 0 \<and> m p = m q then strncmp_from n m (p + 1) (q + 1) else uint (m p) - uint (m q))"

definition strncmp :: "bytes_mem \<Rightarrow> u32 \<Rightarrow> u32 \<Rightarrow> u32 \<Rightarrow> int" where
  "strncmp m p q n = strncmp_from (unat n) m p q"

text \<open>\<^verbatim>\<open>strchr\<close> returns 0, the null pointer, when the character does not occur.\<close>

partial_function (option) strchr :: "bytes_mem \<Rightarrow> u32 \<Rightarrow> u8 \<Rightarrow> u32 option" where
  "strchr m s c = (if m s \<noteq> 0 then if m s = c then Some s else strchr m (s + 1) c else Some 0)"

partial_function (option) strfind :: "bytes_mem \<Rightarrow> u32 \<Rightarrow> u8 \<Rightarrow> u32 option" where
  "strfind m s c = (if m s \<noteq> 0 then if m s = c then Some s else strfind m (s + 1) c else Some s)"

subsection \<open>Blocks of memory\<close>

text \<open>\<^verbatim>\<open>rep stosb\<close> and \<^verbatim>\<open>rep stosl\<close>.\<close>

definition put32 :: "bytes_mem \<Rightarrow> u32 \<Rightarrow> u32 \<Rightarrow> bytes_mem" where
  "put32 m a w = m(a := ucast w, a + 1 := ucast (drop_bit 8 w), a + 2 := ucast (drop_bit 16 w), a + 3 := ucast (drop_bit 24 w))"

primrec rep_stosb :: "nat \<Rightarrow> u8 \<Rightarrow> u32 \<Rightarrow> bytes_mem \<Rightarrow> bytes_mem" where
  "rep_stosb 0 c d m = m"
| "rep_stosb (Suc k) c d m = rep_stosb k c (d + 1) (m(d := c))"

primrec rep_stosl :: "nat \<Rightarrow> u32 \<Rightarrow> u32 \<Rightarrow> bytes_mem \<Rightarrow> bytes_mem" where
  "rep_stosl 0 c d m = m"
| "rep_stosl (Suc k) c d m = rep_stosl k c (d + 4) (put32 m d c)"

definition memset :: "bytes_mem \<Rightarrow> u32 \<Rightarrow> u32 \<Rightarrow> u32 \<Rightarrow> bytes_mem" where
  "memset m v c n =
     (if n = 0 then m
      else if int_mod v 4 = 0 \<and> n mod 4 = 0
      then let c = c AND 0xFF; c = push_bit 24 c OR (push_bit 16 c OR (push_bit 8 c OR c)) in rep_stosl (unat (n div 4)) c v m
      else rep_stosb (unat n) (ucast c) v m)"

text \<open>\<^verbatim>\<open>rep movsb\<close> and \<^verbatim>\<open>rep movsl\<close>, upwards and downwards.\<close>

definition movl :: "u32 \<Rightarrow> u32 \<Rightarrow> bytes_mem \<Rightarrow> bytes_mem" where
  "movl d s m = m(d := m s, d + 1 := m (s + 1), d + 2 := m (s + 2), d + 3 := m (s + 3))"

primrec rep_movsb :: "nat \<Rightarrow> u32 \<Rightarrow> u32 \<Rightarrow> bytes_mem \<Rightarrow> bytes_mem" where
  "rep_movsb 0 d s m = m"
| "rep_movsb (Suc k) d s m = rep_movsb k (d + 1) (s + 1) (m(d := m s))"

primrec rep_movsl :: "nat \<Rightarrow> u32 \<Rightarrow> u32 \<Rightarrow> bytes_mem \<Rightarrow> bytes_mem" where
  "rep_movsl 0 d s m = m"
| "rep_movsl (Suc k) d s m = rep_movsl k (d + 4) (s + 4) (movl d s m)"

primrec std_movsb :: "nat \<Rightarrow> u32 \<Rightarrow> u32 \<Rightarrow> bytes_mem \<Rightarrow> bytes_mem" where
  "std_movsb 0 d s m = m"
| "std_movsb (Suc k) d s m = std_movsb k (d - 1) (s - 1) (m(d := m s))"

primrec std_movsl :: "nat \<Rightarrow> u32 \<Rightarrow> u32 \<Rightarrow> bytes_mem \<Rightarrow> bytes_mem" where
  "std_movsl 0 d s m = m"
| "std_movsl (Suc k) d s m = std_movsl k (d - 4) (s - 4) (movl d s m)"

definition memmove :: "bytes_mem \<Rightarrow> u32 \<Rightarrow> u32 \<Rightarrow> u32 \<Rightarrow> bytes_mem" where
  "memmove m dst src n =
     (if src < dst \<and> dst < src + n
      then let s = src + n; d = dst + n in
        if int_mod s 4 = 0 \<and> int_mod d 4 = 0 \<and> n mod 4 = 0
        then std_movsl (unat (n div 4)) (d - 4) (s - 4) m
        else std_movsb (unat n) (d - 1) (s - 1) m
      else
        if int_mod src 4 = 0 \<and> int_mod dst 4 = 0 \<and> n mod 4 = 0
        then rep_movsl (unat (n div 4)) dst src m
        else rep_movsb (unat n) dst src m)"

text \<open>The version without string instructions.\<close>

primrec copy_up :: "nat \<Rightarrow> u32 \<Rightarrow> u32 \<Rightarrow> bytes_mem \<Rightarrow> bytes_mem" where
  "copy_up 0 d s m = m"
| "copy_up (Suc k) d s m = copy_up k (d + 1) (s + 1) (m(d := m s))"

primrec copy_down :: "nat \<Rightarrow> u32 \<Rightarrow> u32 \<Rightarrow> bytes_mem \<Rightarrow> bytes_mem" where
  "copy_down 0 d s m = m"
| "copy_down (Suc k) d s m = copy_down k (d - 1) (s - 1) (m(d - 1 := m (s - 1)))"

definition memmove_c :: "bytes_mem \<Rightarrow> u32 \<Rightarrow> u32 \<Rightarrow> u32 \<Rightarrow> bytes_mem" where
  "memmove_c m dst src n =
     (if src < dst \<and> dst < src + n then copy_down (unat n) (dst + n) (src + n) m else copy_up (unat n) dst src m)"

definition memset_c :: "bytes_mem \<Rightarrow> u32 \<Rightarrow> u32 \<Rightarrow> u32 \<Rightarrow> bytes_mem" where
  "memset_c m v c n = rep_stosb (if sint n < 0 then 0 else unat n) (ucast c) v m"

primrec memcmp_from :: "nat \<Rightarrow> bytes_mem \<Rightarrow> u32 \<Rightarrow> u32 \<Rightarrow> int" where
  "memcmp_from 0 m a b = 0"
| "memcmp_from (Suc k) m a b = (if m a \<noteq> m b then uint (m a) - uint (m b) else memcmp_from k m (a + 1) (b + 1))"

definition memcmp :: "bytes_mem \<Rightarrow> u32 \<Rightarrow> u32 \<Rightarrow> u32 \<Rightarrow> int" where
  "memcmp m a b n = memcmp_from (unat n) m a b"

definition memcpy :: "bytes_mem \<Rightarrow> u32 \<Rightarrow> u32 \<Rightarrow> u32 \<Rightarrow> bytes_mem" where
  "memcpy m dst src n = memmove m dst src n"

function memfind_from :: "bytes_mem \<Rightarrow> u8 \<Rightarrow> u32 \<Rightarrow> u32 \<Rightarrow> u32" where
  "memfind_from m c ends s = (if s < ends then if m s = c then s else memfind_from m c ends (s + 1) else s)"
  by pat_completeness auto

termination memfind_from
  by (relation "measure (\<lambda>(_, _, ends, s). unat ends - unat s)") (auto simp: unat_Suc_less word_less_nat_alt)

declare memfind_from.simps [simp del]

definition memfind :: "bytes_mem \<Rightarrow> u32 \<Rightarrow> u32 \<Rightarrow> u32 \<Rightarrow> u32" where
  "memfind m s c n = memfind_from m (ucast c) (s + n) s"

subsection \<open>Numbers\<close>

partial_function (option) gobble :: "bytes_mem \<Rightarrow> u32 \<Rightarrow> u32 option" where
  "gobble m s = (if m s = 32 \<or> m s = 9 then gobble m (s + 1) else Some s)"

definition digit_of :: "u8 \<Rightarrow> nat option" where
  "digit_of c = (if 48 \<le> c \<and> c \<le> 57 then Some (unat c - 48)
     else if 97 \<le> c \<and> c \<le> 122 then Some (unat c - 97 + 10)
     else if 65 \<le> c \<and> c \<le> 90 then Some (unat c - 65 + 10)
     else None)"

partial_function (option) strtol_digits :: "bytes_mem \<Rightarrow> u32 \<Rightarrow> u32 \<Rightarrow> u32 \<Rightarrow> (u32 \<times> u32) option" where
  "strtol_digits m base s val = (case digit_of (m s) of
       None \<Rightarrow> Some (val, s)
     | Some dig \<Rightarrow> if sint base \<le> int dig then Some (val, s)
                   else strtol_digits m base (s + 1) (val * base + word_of_nat dig))"

text \<open>The result is the value and the pointer stored in \<^verbatim>\<open>*endptr\<close>. A digit too many wraps the value.\<close>

definition strtol :: "bytes_mem \<Rightarrow> u32 \<Rightarrow> u32 \<Rightarrow> (u32 \<times> u32) option" where
  "strtol m s base = (case gobble m s of None \<Rightarrow> None | Some s \<Rightarrow>
     let (s, neg) = (if m s = 43 then (s + 1, False) else if m s = 45 then (s + 1, True) else (s, False));
         (s, base) = (if (base = 0 \<or> base = 16) \<and> m s = 48 \<and> m (s + 1) = 120 then (s + 2, 16)
                      else if base = 0 \<and> m s = 48 then (s + 1, 8)
                      else if base = 0 then (s, 10)
                      else (s, base))
     in case strtol_digits m base s 0 of
          None \<Rightarrow> None
        | Some (val, e) \<Rightarrow> Some (if neg then - val else val, e))"

end
