(* ===== verification/Lib_Printfmt.thy ===== *)
theory Lib_Printfmt
  imports Lib_String "HOL-Library.Monad_Syntax"
begin

text \<open>
  Formatted output (\<^verbatim>\<open>lib/printfmt.c\<close>). The output routine \<^verbatim>\<open>putch\<close> is a function on the state it
  works on, memory included, because the characters may be stored where a string is still to be read.
  Strings and formats are read one character at a time in the current state: a string is a function from
  the state and a position to a character, either a literal of the program or the memory behind a
  pointer. The words of the variable argument list are a list; a 64-bit argument takes two of them.
  Everything that waits for a zero byte is a partial function, with result \<open>None\<close> if there is none.
\<close>

unbundle bit_operations_syntax

type_synonym 's cstr = "'s \<Rightarrow> nat \<Rightarrow> u8"
type_synonym 's putch_fn = "u32 \<Rightarrow> 's \<Rightarrow> 's"

abbreviation char_code :: "char \<Rightarrow> 'a :: len word" where
  "char_code c \<equiv> of_char c"

definition lit :: "string \<Rightarrow> 's cstr" where
  "lit cs = (\<lambda>_ i. if i < length cs then char_code (cs ! i) else 0)"

definition str_at :: "('s \<Rightarrow> bytes_mem) \<Rightarrow> u32 \<Rightarrow> 's cstr" where
  "str_at mem p = (\<lambda>s i. mem s (p + word_of_nat i))"

subsection \<open>Error messages\<close>

definition MAXERROR :: u32 where "MAXERROR = 16"

definition error_string :: "string list" where
  "error_string = [''unspecified error'', ''bad environment'', ''invalid parameter'', ''out of memory'',
     ''out of environments'', ''segmentation fault'', ''env is not recving'', ''unexpected end of file'',
     ''no free space on disk'', ''too many files are open'', ''file or block not found'', ''invalid path'',
     ''file already exists'', ''file is not a valid executable'', ''operation not supported'']"

text \<open>Entry 0 of the table is \<^verbatim>\<open>NULL\<close>; the list starts with entry 1.\<close>

definition error_message :: "u32 \<Rightarrow> string option" where
  "error_message e = (if e = 0 then None else Some (error_string ! (unat e - 1)))"

subsection \<open>Numbers and arguments\<close>

definition pad :: "'s putch_fn \<Rightarrow> u32 \<Rightarrow> u8 \<Rightarrow> 's \<Rightarrow> 's" where
  "pad putch width padc = putch (scast padc) ^^ nat (sint width)"

definition digit_char :: "u64 \<Rightarrow> u32" where
  "digit_char d = char_code (''0123456789abcdef'' ! unat d)"

partial_function (option) printnum :: "'s putch_fn \<Rightarrow> u64 \<Rightarrow> u32 \<Rightarrow> u32 \<Rightarrow> u8 \<Rightarrow> 's \<Rightarrow> 's option" where
  "printnum putch num base width padc s =
     do { s \<leftarrow> (if ucast base \<le> num then printnum putch (num div ucast base) base (width - 1) padc s
                else Some (pad putch (width - 1) padc s));
          Some (putch (digit_char (num mod ucast base)) s) }"

definition va_word :: "u32 list \<Rightarrow> u32 \<times> u32 list" where
  "va_word ap = (case ap of [] \<Rightarrow> (0, []) | w # ap \<Rightarrow> (w, ap))"

definition va_long_long :: "u32 list \<Rightarrow> u64 \<times> u32 list" where
  "va_long_long ap = (let (lo, ap) = va_word ap; (hi, ap) = va_word ap in (push_bit 32 (ucast hi) OR ucast lo, ap))"

definition getuint :: "u32 list \<Rightarrow> nat \<Rightarrow> u64 \<times> u32 list" where
  "getuint ap lflag = (if 2 \<le> lflag then va_long_long ap else let (w, ap) = va_word ap in (ucast w, ap))"

definition getint :: "u32 list \<Rightarrow> nat \<Rightarrow> u64 \<times> u32 list" where
  "getint ap lflag = (if 2 \<le> lflag then va_long_long ap else let (w, ap) = va_word ap in (scast w, ap))"

subsection \<open>Strings\<close>

primrec len_from :: "nat \<Rightarrow> 's cstr \<Rightarrow> 's \<Rightarrow> nat \<Rightarrow> u32 \<Rightarrow> u32" where
  "len_from 0 p s i n = n"
| "len_from (Suc k) p s i n = (if p s i \<noteq> 0 then len_from k p s (i + 1) (n + 1) else n)"

text \<open>The middle loop of \<^verbatim>\<open>%s\<close>; the result is the state and what is left of the width.\<close>

partial_function (option) put_chars ::
  "'s putch_fn \<Rightarrow> bool \<Rightarrow> 's cstr \<Rightarrow> nat \<Rightarrow> u32 \<Rightarrow> u32 \<Rightarrow> 's \<Rightarrow> ('s \<times> u32) option" where
  "put_chars putch altflag p i precision width s =
     (let ch = p s i in
      if ch \<noteq> 0 \<and> (sint precision < 0 \<or> 0 \<le> sint (precision - 1))
      then put_chars putch altflag p (i + 1) (if sint precision < 0 then precision else precision - 1) (width - 1)
             (putch (if altflag \<and> (sint ch < 32 \<or> 126 < sint ch) then char_code CHR ''?'' else scast ch) s)
      else Some (s, width))"

definition put_string :: "'s putch_fn \<Rightarrow> 's cstr \<Rightarrow> u8 \<Rightarrow> u32 \<Rightarrow> u32 \<Rightarrow> bool \<Rightarrow> 's \<Rightarrow> 's option" where
  "put_string putch p padc width precision altflag s =
     (let (width, s) =
        (if 0 < sint width \<and> padc \<noteq> char_code CHR ''-''
         then let w = width - len_from (unat precision) p s 0 0
              in (if 0 < sint w then 0 else w, pad putch w padc s)
         else (width, s))
      in do { (s, width) \<leftarrow> put_chars putch altflag p 0 precision width s;
              Some (pad putch width (char_code CHR '' '') s) })"

subsection \<open>The format\<close>

record flags =
  padc :: u8
  width :: u32
  precision :: u32
  lflag :: nat
  altflag :: bool

definition no_flags :: flags where
  "no_flags = \<lparr>padc = char_code CHR '' '', width = - 1, precision = - 1, lflag = 0, altflag = False\<rparr>"

definition is_digit :: "u8 \<Rightarrow> bool" where
  "is_digit ch \<longleftrightarrow> char_code CHR ''0'' \<le> ch \<and> ch \<le> char_code CHR ''9''"

text \<open>The loop over the digits of a width, from the digit \<open>ch\<close> on, with the format at position \<open>i\<close>.\<close>

partial_function (option) scan_number :: "'s cstr \<Rightarrow> 's \<Rightarrow> nat \<Rightarrow> u8 \<Rightarrow> u32 \<Rightarrow> (u32 \<times> nat) option" where
  "scan_number fmt s i ch prec =
     (let prec = prec * 10 + ucast ch - 48; ch = fmt s i in
      if \<not> is_digit ch then Some (prec, i) else scan_number fmt s (i + 1) ch prec)"

definition process_precision :: "flags \<Rightarrow> flags" where
  "process_precision f = (if sint (width f) < 0 then f\<lparr>width := precision f, precision := - 1\<rparr> else f)"

text \<open>
  From the label \<^verbatim>\<open>reswitch\<close>: flags, width and precision are taken in until some other character comes;
  the result is that character, the position behind it, the flags and the remaining arguments.
\<close>

partial_function (option) reswitch ::
  "'s cstr \<Rightarrow> 's \<Rightarrow> nat \<Rightarrow> flags \<Rightarrow> u32 list \<Rightarrow> (u8 \<times> nat \<times> flags \<times> u32 list) option" where
  "reswitch fmt s i f ap =
     (let ch = fmt s i; i = i + 1 in
      if ch = char_code CHR ''-'' then reswitch fmt s i (f\<lparr>padc := char_code CHR ''-''\<rparr>) ap
      else if ch = char_code CHR ''0'' then reswitch fmt s i (f\<lparr>padc := char_code CHR ''0''\<rparr>) ap
      else if is_digit ch
      then do { (prec, i) \<leftarrow> scan_number fmt s i ch 0;
                reswitch fmt s i (process_precision (f\<lparr>precision := prec\<rparr>)) ap }
      else if ch = char_code CHR ''*''
      then let (prec, ap) = va_word ap in reswitch fmt s i (process_precision (f\<lparr>precision := prec\<rparr>)) ap
      else if ch = char_code CHR ''.'' then reswitch fmt s i (if sint (width f) < 0 then f\<lparr>width := 0\<rparr> else f) ap
      else if ch = char_code CHR ''#'' then reswitch fmt s i (f\<lparr>altflag := True\<rparr>) ap
      else if ch = char_code CHR ''l'' then reswitch fmt s i (f\<lparr>lflag := lflag f + 1\<rparr>) ap
      else Some (ch, i, f, ap))"

text \<open>Back to the character behind the last \<^verbatim>\<open>%\<close>.\<close>

primrec to_percent :: "'s cstr \<Rightarrow> 's \<Rightarrow> nat \<Rightarrow> nat" where
  "to_percent fmt s 0 = 0"
| "to_percent fmt s (Suc i) = (if fmt s i \<noteq> char_code CHR ''%'' then to_percent fmt s i else Suc i)"

definition put_int :: "'s putch_fn \<Rightarrow> flags \<Rightarrow> u32 list \<Rightarrow> 's \<Rightarrow> ('s \<times> u32 list) option" where
  "put_int putch f ap s =
     (let (num, ap) = getint ap (lflag f);
          (num, s) = (if sint num < 0 then (- num, putch (char_code CHR ''-'') s) else (num, s))
      in do { s \<leftarrow> printnum putch num 10 (width f) (padc f) s; Some (s, ap) })"

definition put_uint :: "'s putch_fn \<Rightarrow> u32 \<Rightarrow> flags \<Rightarrow> u32 list \<Rightarrow> 's \<Rightarrow> ('s \<times> u32 list) option" where
  "put_uint putch base f ap s =
     (let (num, ap) = getuint ap (lflag f)
      in do { s \<leftarrow> printnum putch num base (width f) (padc f) s; Some (s, ap) })"

definition put_pointer :: "'s putch_fn \<Rightarrow> flags \<Rightarrow> u32 list \<Rightarrow> 's \<Rightarrow> ('s \<times> u32 list) option" where
  "put_pointer putch f ap s =
     (let s = putch (char_code CHR ''x'') (putch (char_code CHR ''0'') s); (w, ap) = va_word ap
      in do { s \<leftarrow> printnum putch (ucast w) 16 (width f) (padc f) s; Some (s, ap) })"

definition put_str_arg :: "('s \<Rightarrow> bytes_mem) \<Rightarrow> 's putch_fn \<Rightarrow> flags \<Rightarrow> u32 list \<Rightarrow> 's \<Rightarrow> ('s \<times> u32 list) option" where
  "put_str_arg mem putch f ap s =
     (let (p, ap) = va_word ap
      in do { s \<leftarrow> put_string putch (if p = 0 then lit ''(null)'' else str_at mem p)
                     (padc f) (width f) (precision f) (altflag f) s;
              Some (s, ap) })"

text \<open>
  The cases of the switch other than the flags and \<^verbatim>\<open>%e\<close>: those characters, and what is done for each.
\<close>

definition is_conversion :: "u8 \<Rightarrow> bool" where
  "is_conversion ch \<longleftrightarrow> ch \<in> set (map char_code ''csduopx%'')"

definition convert ::
  "('s \<Rightarrow> bytes_mem) \<Rightarrow> 's putch_fn \<Rightarrow> u8 \<Rightarrow> flags \<Rightarrow> u32 list \<Rightarrow> 's \<Rightarrow> ('s \<times> u32 list) option" where
  "convert mem putch ch f ap s =
     (if ch = char_code CHR ''c'' then let (w, ap) = va_word ap in Some (putch w s, ap)
      else if ch = char_code CHR ''s'' then put_str_arg mem putch f ap s
      else if ch = char_code CHR ''d'' then put_int putch f ap s
      else if ch = char_code CHR ''u'' then put_uint putch 10 f ap s
      else if ch = char_code CHR ''o'' then put_uint putch 8 f ap s
      else if ch = char_code CHR ''p'' then put_pointer putch f ap s
      else if ch = char_code CHR ''x'' then put_uint putch 16 f ap s
      else Some (putch (ucast ch) s, ap))"

text \<open>
  The messages go out by \<^verbatim>\<open>printfmt\<close> with the formats \<^verbatim>\<open>"%s"\<close> and \<^verbatim>\<open>"error %d"\<close>, which put a string,
  or a string and a number, without any flags. The number \<open>- 2\<^sup>3\<^sup>1\<close> is its own negation; the code would
  index its table with it, and the model has no result.
\<close>

definition put_error :: "'s putch_fn \<Rightarrow> u32 list \<Rightarrow> 's \<Rightarrow> ('s \<times> u32 list) option" where
  "put_error putch ap s =
     (let (e, ap) = va_word ap; e = (if sint e < 0 then - e else e)
      in if sint MAXERROR \<le> sint e \<or> error_message e = None
         then do { s \<leftarrow> put_string putch (lit ''error '') (char_code CHR '' '') (- 1) (- 1) False s;
                   (s, _) \<leftarrow> put_int putch no_flags [e] s;
                   Some (s, ap) }
         else if sint e < 0 then None
         else do { s \<leftarrow> put_string putch (lit (the (error_message e))) (char_code CHR '' '') (- 1) (- 1) False s;
                   Some (s, ap) })"

text \<open>One escape sequence, from behind the \<^verbatim>\<open>%\<close> at position \<open>i - 1\<close>; the result is where the format goes on.\<close>

definition escape ::
  "('s \<Rightarrow> bytes_mem) \<Rightarrow> 's putch_fn \<Rightarrow> 's cstr \<Rightarrow> nat \<Rightarrow> u32 list \<Rightarrow> 's \<Rightarrow> (nat \<times> u32 list \<times> 's) option" where
  "escape mem putch fmt i ap s =
     do { (ch, i, f, ap) \<leftarrow> reswitch fmt s i no_flags ap;
          if ch = char_code CHR ''e'' then do { (s, ap) \<leftarrow> put_error putch ap s; Some (i, ap, s) }
          else if is_conversion ch then do { (s, ap) \<leftarrow> convert mem putch ch f ap s; Some (i, ap, s) }
          else let s = putch (char_code CHR ''%'') s in Some (to_percent fmt s (i - 1), ap, s) }"

partial_function (option) vprintfmt ::
  "('s \<Rightarrow> bytes_mem) \<Rightarrow> 's putch_fn \<Rightarrow> 's cstr \<Rightarrow> nat \<Rightarrow> u32 list \<Rightarrow> 's \<Rightarrow> 's option" where
  "vprintfmt mem putch fmt i ap s =
     (let ch = fmt s i in
      if ch \<noteq> char_code CHR ''%''
      then if ch = 0 then Some s else vprintfmt mem putch fmt (i + 1) ap (putch (ucast ch) s)
      else do { (i, ap, s) \<leftarrow> escape mem putch fmt (i + 1) ap s; vprintfmt mem putch fmt i ap s })"

definition printfmt :: "('s \<Rightarrow> bytes_mem) \<Rightarrow> 's putch_fn \<Rightarrow> 's cstr \<Rightarrow> u32 list \<Rightarrow> 's \<Rightarrow> 's option" where
  "printfmt mem putch fmt args s = vprintfmt mem putch fmt 0 args s"

subsection \<open>Output into a buffer\<close>

record sprintbuf =
  buf :: u32
  ebuf :: u32
  cnt :: u32

type_synonym bufstate = "bytes_mem \<times> sprintbuf"

definition sprintputch :: "bufstate putch_fn" where
  "sprintputch ch = (\<lambda>(m, b).
     let b = b\<lparr>cnt := cnt b + 1\<rparr> in
     if buf b < ebuf b then (m(buf b := ucast ch), b\<lparr>buf := buf b + 1\<rparr>) else (m, b))"

definition vsnprintf :: "bytes_mem \<Rightarrow> u32 \<Rightarrow> u32 \<Rightarrow> bufstate cstr \<Rightarrow> u32 list \<Rightarrow> (bytes_mem \<times> u32) option" where
  "vsnprintf m dst n fmt ap =
     (if dst = 0 \<or> sint n < 1 then Some (m, - error_code E_INVAL)
      else do {
        (m, b) \<leftarrow> vprintfmt fst sprintputch fmt 0 ap (m, \<lparr>buf = dst, ebuf = dst + n - 1, cnt = 0\<rparr>);
        Some (m(buf b := 0), cnt b) })"

definition snprintf :: "bytes_mem \<Rightarrow> u32 \<Rightarrow> u32 \<Rightarrow> bufstate cstr \<Rightarrow> u32 list \<Rightarrow> (bytes_mem \<times> u32) option" where
  "snprintf m dst n fmt args = vsnprintf m dst n fmt args"

end
