(* ===== verification/Lib_String_Spec.thy ===== *)
theory Lib_String_Spec
  imports Lib_String
begin

text \<open>
  The block copy routines. However they proceed, upwards or downwards, by bytes or by words, the result
  is that of reading all bytes first and then writing them; the length and comparison routines are the
  list functions on the characters of a string.
\<close>

unbundle bit_operations_syntax

subsection \<open>Copying all at once\<close>

definition moved :: "u32 \<Rightarrow> u32 \<Rightarrow> nat \<Rightarrow> bytes_mem \<Rightarrow> bytes_mem" where
  "moved d s n m = (\<lambda>a. if unat (a - d) < n then m (s + (a - d)) else m a)"

text \<open>Two blocks copied after each other, the lower one or the upper one first.\<close>

lemma diff_step: "unat (a - (d + word_of_nat n)) = unat (a - d) - n" if "n \<le> unat (a - d)" for a d :: u32
proof -
  have n: "unat (word_of_nat n :: u32) = n" using that unat_lt_4G [of "a - d"] by (simp add: unat_of_nat)
  have "unat (a - d - word_of_nat n) = unat (a - d) - n" using that n unat_sub [of "word_of_nat n" "a - d"] by (simp add: word_le_nat_alt)
  then show ?thesis by (simp only: diff_diff_eq)
qed

lemma diff_below: "unat (a - (d + word_of_nat n)) = 4294967296 + unat (a - d) - n"
  if "unat (a - d) < n" "n < 4294967296" for a d :: u32
proof -
  have n: "unat (word_of_nat n :: u32) = n" using that by (simp add: unat_of_nat)
  have "unat (a - d - word_of_nat n) = unat (a - d) + 4294967296 - n"
    using unat_sub_if_size [of "a - d" "word_of_nat n"] n that(1) by (simp add: size_word.rep_eq)
  then show ?thesis by (simp only: diff_diff_eq add.commute)
qed

lemma moved_up:
  assumes "\<And>i j. i < a \<Longrightarrow> a \<le> j \<Longrightarrow> j < a + b \<Longrightarrow> d + word_of_nat i \<noteq> s + word_of_nat j" and "a + b < 4294967296"
  shows "moved (d + word_of_nat a) (s + word_of_nat a) b (moved d s a m) = moved d s (a + b) m"
proof
  fix x
  let ?k = "unat (x - d)"
  have k: "word_of_nat ?k = x - d" by simp
  consider "?k < a" | "a \<le> ?k" "?k < a + b" | "a + b \<le> ?k" by linarith
  then show "moved (d + word_of_nat a) (s + word_of_nat a) b (moved d s a m) x = moved d s (a + b) m x"
  proof cases
    case 1
    then have "\<not> unat (x - (d + word_of_nat a)) < b" using diff_below [of x d a] assms(2) by simp
    then show ?thesis using 1 by (simp add: moved_def)
  next
    case 2
    let ?y = "s + (x - d)"
    have e: "s + word_of_nat a + (x - (d + word_of_nat a)) = ?y" by (simp add: algebra_simps)
    have lt: "unat (x - (d + word_of_nat a)) < b" using diff_step [OF 2(1)] 2 by linarith
    have "\<not> unat (?y - d) < a"
    proof
      assume h: "unat (?y - d) < a"
      have "d + word_of_nat (unat (?y - d)) = s + word_of_nat ?k" unfolding k by simp
      then show False using assms(1) [OF h 2] by blast
    qed
    then show ?thesis using 2 lt e by (simp add: moved_def)
  next
    case 3
    then have "\<not> unat (x - (d + word_of_nat a)) < b" "\<not> ?k < a" using diff_step [of a x d] by linarith+
    then show ?thesis using 3 by (simp add: moved_def)
  qed
qed

lemma moved_down:
  assumes "\<And>i j. i < a \<Longrightarrow> a \<le> j \<Longrightarrow> j < a + b \<Longrightarrow> d + word_of_nat j \<noteq> s + word_of_nat i" and "a + b < 4294967296"
  shows "moved d s a (moved (d + word_of_nat a) (s + word_of_nat a) b m) = moved d s (a + b) m"
proof
  fix x
  let ?k = "unat (x - d)"
  have k: "word_of_nat ?k = x - d" by simp
  consider "?k < a" | "a \<le> ?k" "?k < a + b" | "a + b \<le> ?k" by linarith
  then show "moved d s a (moved (d + word_of_nat a) (s + word_of_nat a) b m) x = moved d s (a + b) m x"
  proof cases
    case 1
    let ?y = "s + (x - d)"
    have "\<not> unat (?y - (d + word_of_nat a)) < b"
    proof
      let ?j = "unat (?y - (d + word_of_nat a))"
      assume h: "?j < b"
      have "d + word_of_nat (a + ?j) = s + word_of_nat ?k" unfolding k by (simp add: algebra_simps)
      then show False using assms(1) [OF 1, of "a + ?j"] h by simp
    qed
    then show ?thesis using 1 by (simp add: moved_def)
  next
    case 2
    have e: "s + word_of_nat a + (x - (d + word_of_nat a)) = s + (x - d)" by (simp add: algebra_simps)
    have "unat (x - (d + word_of_nat a)) < b" using diff_step [OF 2(1)] 2 by linarith
    then show ?thesis using 2 e by (simp add: moved_def)
  next
    case 3
    then have "\<not> unat (x - (d + word_of_nat a)) < b" "\<not> ?k < a" using diff_step [of a x d] by linarith+
    then show ?thesis using 3 by (simp add: moved_def)
  qed
qed


subsection \<open>The loops and the string instructions\<close>

text \<open>A copy upwards never overwrites what it has still to read; neither does one downwards.\<close>

definition up_ok :: "u32 \<Rightarrow> u32 \<Rightarrow> nat \<Rightarrow> bool" where
  "up_ok d s n \<longleftrightarrow> n < 4294967296 \<and> (\<forall>j < n. \<forall>i < j. d + word_of_nat i \<noteq> s + word_of_nat j)"

definition down_ok :: "u32 \<Rightarrow> u32 \<Rightarrow> nat \<Rightarrow> bool" where
  "down_ok d s n \<longleftrightarrow> n < 4294967296 \<and> (\<forall>j < n. \<forall>i < j. d + word_of_nat j \<noteq> s + word_of_nat i)"

lemma up_step: "moved (d + word_of_nat a) (s + word_of_nat a) b (moved d s a m) = moved d s (a + b) m" if "up_ok d s (a + b)"
  using that by (intro moved_up) (auto simp: up_ok_def)

lemma down_step: "moved d s a (moved (d + word_of_nat a) (s + word_of_nat a) b m) = moved d s (a + b) m" if "down_ok d s (a + b)"
  using that by (intro moved_down) (auto simp: down_ok_def)

lemma up_ok_rest: "up_ok (d + word_of_nat a) (s + word_of_nat a) b" if "up_ok d s (a + b)"
  unfolding up_ok_def
proof (intro conjI allI impI)
  fix j i
  assume "j < b" "i < j"
  then have "d + word_of_nat (a + i) \<noteq> s + word_of_nat (a + j)" using that by (auto simp: up_ok_def)
  then show "d + word_of_nat a + word_of_nat i \<noteq> s + word_of_nat a + word_of_nat j" by (simp add: ac_simps)
qed (use that in \<open>simp add: up_ok_def\<close>)

lemma down_ok_rest: "down_ok d s a" if "down_ok d s (a + b)"
  using that by (auto simp: down_ok_def)

lemma moved_0 [simp]: "moved d s 0 m = m"
  by (simp add: moved_def)

lemma byte_moved: "m(d := m s) = moved d s 1 m"
  by (auto simp: moved_def fun_eq_iff unat_eq_zero)

lemma word_4: "unat (a - d) < 4 \<longleftrightarrow> a = d \<or> a = d + 1 \<or> a = d + 2 \<or> a = d + 3" for a d :: u32
proof
  assume "unat (a - d) < 4"
  then have "unat (a - d) = 0 \<or> unat (a - d) = 1 \<or> unat (a - d) = 2 \<or> unat (a - d) = 3" by linarith
  moreover have "a = d + word_of_nat (unat (a - d))" by simp
  ultimately show "a = d \<or> a = d + 1 \<or> a = d + 2 \<or> a = d + 3" by (elim disjE) simp_all
qed auto

lemma movl_moved: "movl d s m = moved d s 4 m"
  by (auto simp: movl_def moved_def fun_eq_iff word_4)

lemma rep_movsb_moved: "up_ok d s k \<Longrightarrow> rep_movsb k d s m = moved d s k m"
proof (induction k arbitrary: d s m)
  case (Suc k)
  then show ?case using up_ok_rest [of d s 1 k] up_step [of d s 1 k m] by (simp add: byte_moved)
qed simp

lemma rep_movsl_moved: "up_ok d s (4 * k) \<Longrightarrow> rep_movsl k d s m = moved d s (4 * k) m"
proof (induction k arbitrary: d s m)
  case (Suc k)
  then show ?case using up_ok_rest [of d s 4 "4 * k"] up_step [of d s 4 "4 * k" m] by (simp add: movl_moved)
qed simp

lemma std_movsb_moved: "down_ok d s k \<Longrightarrow> std_movsb k (d + word_of_nat k - 1) (s + word_of_nat k - 1) m = moved d s k m"
proof (induction k arbitrary: m)
  case (Suc k)
  then show ?case using down_ok_rest [of d s k 1] down_step [of d s k 1 m] by (simp add: byte_moved add.assoc [symmetric])
qed simp

lemma std_movsl_moved:
  "down_ok d s (4 * k) \<Longrightarrow> std_movsl k (d + word_of_nat (4 * k) - 4) (s + word_of_nat (4 * k) - 4) m = moved d s (4 * k) m"
proof (induction k arbitrary: m)
  case (Suc k)
  have "word_of_nat (4 * Suc k) - 4 = (word_of_nat (4 * k) :: u32)" by simp
  then have e: "x + word_of_nat (4 * Suc k) - 4 = x + word_of_nat (4 * k)" for x :: u32 by (metis add_diff_eq)
  from Suc.prems have "down_ok d s (4 * k + 4)" by (simp add: add.commute)
  then show ?case
    using Suc.IH [of "moved (d + word_of_nat (4 * k)) (s + word_of_nat (4 * k)) 4 m"] down_ok_rest [of d s "4 * k" 4] down_step [of d s "4 * k" 4 m]
    unfolding e by (simp add: movl_moved add.commute)
qed simp

lemma copy_up_moved: "copy_up k d s m = rep_movsb k d s m"
  by (induction k arbitrary: d s m) simp_all

lemma copy_down_moved: "copy_down k (d + word_of_nat k) (s + word_of_nat k) m = std_movsb k (d + word_of_nat k - 1) (s + word_of_nat k - 1) m"
proof (induction k arbitrary: m)
  case (Suc k)
  then show ?case by (simp add: add.assoc [symmetric] fun_upd_def)
qed simp


subsection \<open>The routines\<close>

lemma add_small: "unat (x + word_of_nat i) = unat x + i" if "unat x + i < 4294967296" for x :: u32
  using that by (simp add: unat_word_ariths unat_of_nat)

lemma up_okI:
  assumes "unat d + n < 4294967296" "unat s + n < 4294967296" "d \<le> s \<or> unat s + n \<le> unat d"
  shows "up_ok d s n"
  unfolding up_ok_def
proof (intro conjI allI impI)
  fix j i
  assume ji: "j < n" "i < j"
  then have "unat (d + word_of_nat i) = unat d + i" "unat (s + word_of_nat j) = unat s + j"
    using assms(1,2) by (simp_all add: add_small)
  moreover have "unat d + i \<noteq> unat s + j" using ji assms(3) by (auto simp: word_le_nat_alt)
  ultimately show "d + word_of_nat i \<noteq> s + word_of_nat j" by metis
qed (use assms in simp)

lemma down_okI:
  assumes "unat d + n < 4294967296" "unat s + n < 4294967296" "s < d"
  shows "down_ok d s n"
  unfolding down_ok_def
proof (intro conjI allI impI)
  fix j i
  assume ji: "j < n" "i < j"
  then have "unat (d + word_of_nat j) = unat d + j" "unat (s + word_of_nat i) = unat s + i"
    using assms(1,2) by (simp_all add: add_small)
  moreover have "unat d + j \<noteq> unat s + i" using ji assms(3) by (auto simp: word_less_nat_alt)
  ultimately show "d + word_of_nat j \<noteq> s + word_of_nat i" by metis
qed (use assms in simp)

lemma quarters: "4 * unat (n div 4) = unat n" if "n mod 4 = 0" for n :: u32
proof -
  have "unat (n mod 4) = unat n mod 4" by (simp add: unat_mod)
  with that have "unat n mod 4 = 0" by simp
  then have "4 * (unat n div 4) = unat n" by presburger
  then show ?thesis by (simp add: unat_div)
qed


lemma memmove_down:
  assumes "down_ok dst src (unat n)"
  shows "std_movsb (unat n) (dst + n - 1) (src + n - 1) m = moved dst src (unat n) m"
    and "n mod 4 = 0 \<Longrightarrow> std_movsl (unat (n div 4)) (dst + n - 4) (src + n - 4) m = moved dst src (unat n) m"
    and "copy_down (unat n) (dst + n) (src + n) m = moved dst src (unat n) m"
proof -
  show "std_movsb (unat n) (dst + n - 1) (src + n - 1) m = moved dst src (unat n) m"
    using std_movsb_moved [OF assms] by simp
  then show "copy_down (unat n) (dst + n) (src + n) m = moved dst src (unat n) m"
    using copy_down_moved [of "unat n" dst src m] by simp
  assume q: "n mod 4 = 0"
  have w: "word_of_nat (4 * unat (n div 4)) = n" unfolding quarters [OF q] by simp
  show "std_movsl (unat (n div 4)) (dst + n - 4) (src + n - 4) m = moved dst src (unat n) m"
    using std_movsl_moved [of dst src "unat (n div 4)" m] assms unfolding w quarters [OF q] by simp
qed

lemma memmove_up:
  fixes n :: u32
  assumes "up_ok dst src (unat n)"
  shows "rep_movsb (unat n) dst src m = moved dst src (unat n) m"
    and "n mod 4 = 0 \<Longrightarrow> rep_movsl (unat (n div 4)) dst src m = moved dst src (unat n) m"
    and "copy_up (unat n) dst src m = moved dst src (unat n) m"
proof -
  show b: "rep_movsb (unat n) dst src m = moved dst src (unat n) m" by (rule rep_movsb_moved [OF assms])
  show "copy_up (unat n) dst src m = moved dst src (unat n) m" unfolding copy_up_moved by (rule b)
  assume q: "n mod 4 = 0"
  show "rep_movsl (unat (n div 4)) dst src m = moved dst src (unat n) m"
    using rep_movsl_moved [of dst src "unat (n div 4)" m] assms unfolding quarters [OF q] by simp
qed

text \<open>
  \<^bold>\<open>C25.\<close> The optimised and the portable \<^const>\<open>memmove\<close> agree: as long as neither area reaches the end of
  the address space, both give the memory in which the destination holds the old bytes of the source,
  however the two areas overlap and whatever their alignment, and nothing else has changed.
\<close>

theorem memmove_correct:
  assumes "unat dst + unat n < 2 ^ 32" "unat src + unat n < 2 ^ 32"
  shows "memmove m dst src n = memmove_c m dst src n \<and>
    memmove m dst src n = (\<lambda>a. if unat (a - dst) < unat n then m (src + (a - dst)) else m a)"
proof -
  have e: "unat (src + n) = unat src + unat n" using add_small [of src "unat n"] assms(2) by simp
  have "memmove m dst src n = moved dst src (unat n) m \<and> memmove_c m dst src n = moved dst src (unat n) m"
  proof (cases "src < dst \<and> dst < src + n")
    case True
    then have "down_ok dst src (unat n)" using assms by (intro down_okI) simp_all
    then show ?thesis using True memmove_down [of dst src n m] by (simp add: memmove_def memmove_c_def Let_def)
  next
    case False
    then have "dst \<le> src \<or> unat src + unat n \<le> unat dst" using e by (auto simp: word_less_nat_alt word_le_nat_alt)
    then have "up_ok dst src (unat n)" using assms by (intro up_okI) simp_all
    then show ?thesis unfolding memmove_def memmove_c_def if_not_P [OF False] using memmove_up [of dst src n m] by simp
  qed
  then show ?thesis by (simp add: moved_def)
qed

theorem memmove_correct_witness:
  "memmove (\<lambda>a. ucast a) 0x1002 0x1000 8 0x1005 = 3 \<and> memmove (\<lambda>a. ucast a) 0x1002 0x1000 8 0x100A = 10 \<and>
   memmove_c (\<lambda>a. ucast a) 0x1002 0x1000 8 0x1009 = (7 :: u8)"
proof -
  have "unat (0x1002 :: u32) + unat (8 :: u32) < 2 ^ 32" "unat (0x1000 :: u32) + unat (8 :: u32) < 2 ^ 32" by simp_all
  note r = memmove_correct [OF this, of "\<lambda>a. ucast a"]
  show ?thesis unfolding conjunct1 [OF r, symmetric] unfolding conjunct2 [OF r] by simp
qed

end
