(* ===== verification/Lib_Printfmt_Spec.thy ===== *)
theory Lib_Printfmt_Spec
  imports Lib_Printfmt Lib_String_Spec
begin

text \<open>
  What formatted output prints. A number comes out as its digits after the padding, so that \<^const>\<open>strtol\<close>
  reads back what \<^const>\<open>snprintf\<close> printed; and \<^const>\<open>vsnprintf\<close> returns for every format and stays
  within its buffer.
\<close>

unbundle bit_operations_syntax

subsection \<open>Digits\<close>

fun digits :: "nat \<Rightarrow> nat \<Rightarrow> nat list" where
  "digits b n = (if b < 2 \<or> n < b then [n] else digits b (n div b) @ [n mod b])"

declare digits.simps [simp del]

definition digits_value :: "nat \<Rightarrow> nat list \<Rightarrow> nat" where
  "digits_value b ds = fold (\<lambda>d v. v * b + d) ds 0"

lemma digits_small: "2 \<le> b \<Longrightarrow> d \<in> set (digits b n) \<Longrightarrow> d < b"
proof (induction b n rule: digits.induct)
  case (1 b n)
  show ?case
  proof (cases "n < b")
    case True
    then show ?thesis using 1 by (simp add: digits.simps [of b n])
  next
    case False
    then show ?thesis using 1 by (auto simp: digits.simps [of b n])
  qed
qed

lemma digits_value: "2 \<le> b \<Longrightarrow> digits_value b (digits b n) = n"
proof (induction b n rule: digits.induct)
  case (1 b n)
  show ?case
  proof (cases "n < b")
    case True
    then show ?thesis by (simp add: digits.simps [of b n] digits_value_def)
  next
    case False
    then have "digits_value b (digits b (n div b)) = n div b" using 1 by simp
    then show ?thesis using False 1(2) by (simp add: digits.simps [of b n] digits_value_def)
  qed
qed

lemma digits_length: "2 \<le> b \<Longrightarrow> n < b ^ Suc k \<Longrightarrow> length (digits b n) \<le> Suc k"
proof (induction k arbitrary: n)
  case 0
  then show ?case by (simp add: digits.simps [of b n])
next
  case (Suc k)
  show ?case
  proof (cases "n < b")
    case True
    then show ?thesis by (simp add: digits.simps [of b n])
  next
    case False
    have "n div b < b ^ Suc k" using Suc.prems by (simp add: less_mult_imp_div_less mult.commute)
    then have "length (digits b (n div b)) \<le> Suc k" using Suc by blast
    then show ?thesis using False Suc.prems(1) by (simp add: digits.simps [of b n])
  qed
qed

subsection \<open>Printing a number\<close>

definition digit_code :: "nat \<Rightarrow> u32" where
  "digit_code d = char_code (''0123456789abcdef'' ! d)"

lemma pad_fold: "pad putch w c s = fold putch (replicate (nat (sint w)) (scast c)) s"
  by (simp add: pad_def fold_replicate)

lemma sint_pred: "sint (w - 1) = sint w - 1" if "- 2147483648 < sint w" for w :: u32
proof -
  have "sint w < 2147483648" using sint_lt [of w] by simp
  then show ?thesis using that signed_take_bit_int_eq_self [of 31 "sint w - 1"]
    by (simp add: sint_word_ariths)
qed

lemma unat_u64: "unat (ucast w :: u64) = unat w" for w :: u32
  using unat_lt_4G [of w] by (simp add: unsigned_ucast_eq take_bit_nat_eq_self)

lemma printnum_digits:
  assumes "2 \<le> base" "base \<le> 16"
  shows "int (length (digits (unat base) (unat num))) - 2147483648 \<le> sint w \<Longrightarrow>
    printnum putch num base w c s =
      Some (fold putch (replicate (nat (sint w - int (length (digits (unat base) (unat num))))) (scast c)
                        @ map digit_code (digits (unat base) (unat num))) s)"
proof (induction "unat base" "unat num" arbitrary: num w s rule: digits.induct)
  case 1
  let ?b = "ucast base :: u64"
  have b: "2 \<le> unat base" "unat ?b = unat base" using assms(1) by (simp_all add: word_le_nat_alt unat_u64)
  have d: "unat (num mod ?b) = unat num mod unat base" "unat (num div ?b) = unat num div unat base"
    by (simp_all add: unat_mod unat_div b(2))
  have le: "?b \<le> num \<longleftrightarrow> \<not> unat num < unat base" by (simp add: word_le_nat_alt b(2) not_less)
  have dc: "digit_char x = digit_code (unat x)" for x by (simp add: digit_char_def digit_code_def)
  show ?case
  proof (cases "unat num < unat base")
    case True
    then have ds: "digits (unat base) (unat num) = [unat num]" by (simp add: digits.simps)
    then have w: "sint (w - 1) = sint w - 1" using 1(2) by (simp add: sint_pred)
    show ?thesis using True le by (simp add: printnum.simps [of putch num] ds dc d w pad_fold)
  next
    case False
    then have ds: "digits (unat base) (unat num) = digits (unat base) (unat (num div ?b)) @ [unat num mod unat base]"
      using b by (simp add: digits.simps [of "unat base" "unat num"] d)
    then have w: "sint (w - 1) = sint w - 1" using 1(2) by (simp add: sint_pred)
    have "printnum putch (num div ?b) base (w - 1) c s =
      Some (fold putch (replicate (nat (sint (w - 1) - int (length (digits (unat base) (unat (num div ?b)))))) (scast c)
                        @ map digit_code (digits (unat base) (unat (num div ?b)))) s)"
      using 1(1) [of "num div ?b" "w - 1" s] 1(2) False b ds w d by simp
    then show ?thesis using False le by (simp add: printnum.simps [of putch num] ds dc d w diff_diff_eq)
  qed
qed


lemma printnum_u32:
  assumes "base = 8 \<or> base = 10 \<or> base = 16" "unat num < 2 ^ 32"
  shows "printnum putch num base (- 1) c s = Some (fold putch (map digit_code (digits (unat base) (unat num))) s)"
    and "length (digits (unat base) (unat num)) \<le> 11"
proof -
  have b: "2 \<le> base" "base \<le> 16" "8 \<le> unat base" using assms(1) by auto
  have "unat num < 8 ^ Suc 10" using assms(2) by simp
  also have "(8 :: nat) ^ Suc 10 \<le> unat base ^ Suc 10" using b(3) by (rule power_mono) simp
  finally have "unat num < unat base ^ Suc 10" .
  then show l: "length (digits (unat base) (unat num)) \<le> 11" using digits_length [of "unat base" "unat num" 10] b by simp
  show "printnum putch num base (- 1) c s = Some (fold putch (map digit_code (digits (unat base) (unat num))) s)"
    using printnum_digits [OF b(1,2), of num "- 1" putch c s] l by simp
qed

subsection \<open>Simple formats\<close>

definition conversion_format :: "char \<Rightarrow> string" where
  "conversion_format c = [CHR ''%'', c]"

lemma simple_format:
  assumes "c \<in> set ''duxo''"
  shows "vprintfmt mem putch (lit (conversion_format c)) 0 ap s = map_option fst (convert mem putch (char_code c) no_flags ap s)"
proof -
  let ?f = "lit (conversion_format c)"
  have f: "?f t 0 = char_code CHR ''%''" "?f t (Suc 0) = char_code c" "?f t 2 = 0" for t by (simp_all add: lit_def conversion_format_def)
  have c: "reswitch ?f t 1 no_flags ap = Some (char_code c, 2, no_flags, ap)" for t
    using assms by (subst reswitch.simps) (auto simp: f is_digit_def Let_def)
  have n: "char_code c \<noteq> (char_code CHR ''e'' :: u8)" "is_conversion (char_code c)"
    using assms by (auto simp: is_conversion_def)
  have e: "vprintfmt mem putch ?f 2 ap t = Some t" for ap t by (subst vprintfmt.simps) (simp add: f)
  have "escape mem putch ?f 1 ap s =
      (case convert mem putch (char_code c) no_flags ap s of None \<Rightarrow> None | Some (s, ap) \<Rightarrow> Some (2, ap, s))"
    unfolding escape_def c using n by (cases "convert mem putch (char_code c) no_flags ap s") (simp_all add: case_prod_beta)
  then show ?thesis
    by (subst vprintfmt.simps) (simp add: f Let_def e split: option.split prod.split)
qed

subsection \<open>Output into the buffer\<close>

definition stored :: "bytes_mem \<Rightarrow> u32 \<Rightarrow> u32 list \<Rightarrow> bytes_mem" where
  "stored m d cs = (\<lambda>a. if unat (a - d) < length cs then ucast (cs ! unat (a - d)) else m a)"

lemma stored_Cons:
  assumes "length cs < 4294967295"
  shows "stored (m(d := ucast c)) (d + 1) cs = stored m d (c # cs)"
proof
  fix a
  show "stored (m(d := ucast c)) (d + 1) cs a = stored m d (c # cs) a"
  proof (cases "a = d")
    case True
    then show ?thesis using assms diff_below [of d d 1] by (simp add: stored_def)
  next
    case False
    then have "unat (a - d) \<noteq> 0" by (simp add: unat_eq_zero)
    then obtain k where k: "unat (a - d) = Suc k" using not0_implies_Suc by blast
    then have "unat (a - (d + 1)) = k" using diff_step [of 1 a d] by simp
    then show ?thesis using False k by (simp add: stored_def)
  qed
qed

lemma sprint_fold:
  "unat d + length cs \<le> unat e \<Longrightarrow>
   fold sprintputch cs (m, \<lparr>buf = d, ebuf = e, cnt = k\<rparr>) =
     (stored m d cs, \<lparr>buf = d + word_of_nat (length cs), ebuf = e, cnt = k + word_of_nat (length cs)\<rparr>)"
proof (induction cs arbitrary: m d k)
  case Nil
  then show ?case by (simp add: stored_def)
next
  case (Cons c cs)
  then have lt: "d < e" by (simp add: word_less_nat_alt)
  then have u: "unat (d + 1) = unat d + 1" by (rule unat_Suc_less)
  then have "unat (d + 1) + length cs \<le> unat e" using Cons.prems by simp
  moreover have "length cs < 4294967295" using Cons.prems unat_lt_4G [of e] by simp
  ultimately show ?case using Cons.IH lt by (simp add: sprintputch_def Let_def stored_Cons [unfolded fun_upd_def] add.assoc)
qed


subsection \<open>Reading a number back\<close>

lemma digit_code_all:
  "\<forall>d \<in> set [0, 1, 2, 3, 4, 5, 6, 7, 8, 9, 10, 11, 12, 13, 14, 15].
     digit_of (ucast (digit_code d)) = Some d \<and> (ucast (digit_code d) :: u8) \<notin> {0, 9, 32, 43, 45, 120}"
  by (simp add: digit_code_def digit_of_def)

lemma digit_code_props:
  assumes "d < 16"
  shows "digit_of (ucast (digit_code d)) = Some d" "(ucast (digit_code d) :: u8) \<notin> {0, 9, 32, 43, 45, 120}"
proof -
  have "d \<in> set [0, 1, 2, 3, 4, 5, 6, 7, 8, 9, 10, 11, 12, 13, 14, 15]" using assms by simp arith
  then show "digit_of (ucast (digit_code d)) = Some d" "(ucast (digit_code d) :: u8) \<notin> {0, 9, 32, 43, 45, 120}"
    using digit_code_all by blast+
qed

definition text_at :: "bytes_mem \<Rightarrow> u32 \<Rightarrow> u32 list \<Rightarrow> bool" where
  "text_at m p cs \<longleftrightarrow> (\<forall>i < length cs. m (p + word_of_nat i) = ucast (cs ! i)) \<and> m (p + word_of_nat (length cs)) = 0"

lemma text_at_Cons: "text_at m p (c # cs) \<longleftrightarrow> m p = ucast c \<and> text_at m (p + 1) cs"
  by (auto simp: text_at_def All_less_Suc2 add.assoc)

lemma text_at_Nil: "text_at m p [] \<longleftrightarrow> m p = 0"
  by (simp add: text_at_def)

lemma strtol_digits_run:
  assumes "base \<le> 16" "text_at m p (map digit_code ds)" "\<forall>d \<in> set ds. d < base"
  shows "strtol_digits m (word_of_nat base) p v =
    Some (fold (\<lambda>d v. v * word_of_nat base + word_of_nat d) ds v, p + word_of_nat (length ds))"
  using assms(2,3)
proof (induction ds arbitrary: p v)
  case Nil
  then show ?case by (subst strtol_digits.simps) (simp add: text_at_Nil digit_of_def)
next
  case (Cons d ds)
  then have d: "d < base" "m p = ucast (digit_code d)" and r: "text_at m (p + 1) (map digit_code ds)" "\<forall>d \<in> set ds. d < base"
    by (simp_all add: text_at_Cons)
  have "digit_of (m p) = Some d" using d assms(1) digit_code_props(1) [of d] by simp
  moreover have "\<not> sint (word_of_nat base :: u32) \<le> int d"
    using d(1) assms(1) by (simp add: sint_small unat_of_nat)
  ultimately show ?case
    by (subst strtol_digits.simps) (simp add: Cons.IH [OF r] add.assoc)
qed

lemma fold_digits_word: "fold (\<lambda>d v. v * word_of_nat b + word_of_nat d) ds (word_of_nat v :: u32) = word_of_nat (fold (\<lambda>d v. v * b + d) ds v)"
proof (induction ds arbitrary: v)
  case (Cons d ds)
  show ?case using Cons [of "v * b + d"] by simp
qed simp

lemma strtol_digits_value:
  assumes "base = 8 \<or> base = 10 \<or> base = 16" "text_at m p (map digit_code (digits (unat base) n))"
  shows "strtol_digits m base p 0 = Some (word_of_nat n, p + word_of_nat (length (digits (unat base) n)))"
proof -
  have b: "2 \<le> unat base" "unat base \<le> 16" "word_of_nat (unat base) = base" using assms(1) by auto
  then have "\<forall>d \<in> set (digits (unat base) n). d < unat base" using digits_small by blast
  then have "strtol_digits m base p 0 =
      Some (fold (\<lambda>d v. v * base + word_of_nat d) (digits (unat base) n) 0, p + word_of_nat (length (digits (unat base) n)))"
    using strtol_digits_run [OF b(2) assms(2), of 0] b(3) by simp
  then show ?thesis
    using fold_digits_word [of "unat base" "digits (unat base) n" 0] digits_value [OF b(1), of n] b(3) by (simp add: digits_value_def)
qed


lemma digits_Cons:
  assumes "base = 8 \<or> base = 10 \<or> base = (16 :: u32)"
  obtains d ds where "digits (unat base) n = d # ds" "d < 16" "\<forall>d \<in> set ds. d < 16"
proof -
  have b: "2 \<le> unat base" "unat base \<le> 16" using assms by auto
  have "digits (unat base) n \<noteq> []" by (simp add: digits.simps)
  then obtain d ds where e: "digits (unat base) n = d # ds" by (cases "digits (unat base) n") auto
  have "\<forall>d \<in> set (d # ds). d < 16" unfolding e [symmetric] using digits_small [OF b(1), of _ n] b(2) by fastforce
  then show ?thesis using that e by simp
qed

lemma gobble_stop: "m p \<noteq> 32 \<Longrightarrow> m p \<noteq> 9 \<Longrightarrow> gobble m p = Some p"
  by (subst gobble.simps) simp

lemma strtol_unsigned:
  assumes base: "base = 8 \<or> base = 10 \<or> base = 16" and t: "text_at m p (map digit_code (digits (unat base) n))"
  shows "strtol m p base = Some (word_of_nat n, p + word_of_nat (length (digits (unat base) n)))"
proof -
  obtain d ds where ds: "digits (unat base) n = d # ds" "d < 16" "\<forall>d \<in> set ds. d < 16" using digits_Cons [OF base] .
  then have p: "m p = ucast (digit_code d)" "text_at m (p + 1) (map digit_code ds)" using t by (simp_all add: text_at_Cons)
  have x: "m (p + 1) \<noteq> 120"
    using p(2) ds(3) by (cases ds) (auto simp: text_at_Cons text_at_Nil dest: digit_code_props(2))
  have np: "m p \<noteq> 9" "m p \<noteq> 32" "m p \<noteq> 43" "m p \<noteq> 45" using digit_code_props(2) [OF ds(2)] p(1) by simp_all
  have "base \<noteq> 0" using base by auto
  then show ?thesis
    using strtol_digits_value [OF base t] x np by (simp add: strtol_def gobble_stop)
qed

lemma strtol_negative:
  assumes t: "text_at m p (45 # map digit_code (digits 10 n))"
  shows "strtol m p 10 = Some (- word_of_nat n, p + word_of_nat (Suc (length (digits 10 n))))"
proof -
  have p: "m p = 45" "text_at m (p + 1) (map digit_code (digits 10 n))" using t by (simp_all add: text_at_Cons)
  then show ?thesis
    using strtol_digits_value [of 10 m "p + 1" n] by (simp add: strtol_def gobble_stop add.assoc)
qed

lemma text_at_stored:
  assumes "length cs < 4294967296"
  shows "text_at ((stored m d cs)(d + word_of_nat (length cs) := 0)) d cs"
proof -
  have n: "unat (word_of_nat i :: u32) = i" if "i \<le> length cs" for i using that assms by (simp add: unat_of_nat)
  then have "(word_of_nat i :: u32) \<noteq> word_of_nat (length cs)" if "i < length cs" for i using that by (metis less_irrefl order_less_imp_le order_refl)
  then show ?thesis using n by (simp add: text_at_def stored_def)
qed

lemma vsnprintf_text:
  assumes out: "\<And>s. vprintfmt fst sprintputch fmt 0 ap s = Some (fold sprintputch cs s)"
    and d: "dst \<noteq> 0" "1 \<le> sint n" "unat dst + unat n \<le> 4294967296" and l: "length cs < unat n"
  shows "\<exists>m'. vsnprintf m dst n fmt ap = Some (m', word_of_nat (length cs)) \<and> text_at m' dst cs"
proof -
  have n: "word_of_nat (unat n - 1) = n - 1" using l by (simp add: of_nat_diff)
  have "unat (dst + word_of_nat (unat n - 1)) = unat dst + (unat n - 1)" using d(3) l by (intro add_small) simp
  then have e: "unat (dst + n - 1) = unat dst + (unat n - 1)" unfolding n by (simp add: add_diff_eq)
  then have "fold sprintputch cs (m, \<lparr>buf = dst, ebuf = dst + n - 1, cnt = 0\<rparr>) =
      (stored m dst cs, \<lparr>buf = dst + word_of_nat (length cs), ebuf = dst + n - 1, cnt = word_of_nat (length cs)\<rparr>)"
    using l by (subst sprint_fold) simp_all
  moreover have "text_at ((stored m dst cs)(dst + word_of_nat (length cs) := 0)) dst cs"
    using l unat_lt_4G [of n] by (intro text_at_stored) simp
  ultimately show ?thesis using d out by (simp add: vsnprintf_def del: fun_upd_apply)
qed


text \<open>What \<^verbatim>\<open>%d\<close> and the unsigned conversions print.\<close>

definition shown_int :: "u32 \<Rightarrow> u32 list" where
  "shown_int x = (if sint x < 0 then [45] else []) @ map digit_code (digits 10 (nat \<bar>sint x\<bar>))"

definition shown_uint :: "u32 \<Rightarrow> u32 \<Rightarrow> u32 list" where
  "shown_uint base x = map digit_code (digits (unat base) (unat x))"

lemma scast_u64: "sint (scast x :: u64) = sint x" for x :: u32
  by (simp add: sint_up_scast is_up)

lemma unat_nonneg: "0 \<le> sint w \<Longrightarrow> int (unat w) = sint w" for w :: u32
  using sint_lt [of w] uint_sint [of w] by (simp add: take_bit_int_eq_self)

lemma abs_u64:
  fixes x :: u32
  shows "sint x < 0 \<Longrightarrow> unat (- scast x :: u64) = nat \<bar>sint x\<bar>" and "0 \<le> sint x \<Longrightarrow> unat (scast x :: u64) = nat \<bar>sint x\<bar>"
    and "nat \<bar>sint x\<bar> \<le> 2147483648"
proof -
  have b: "- 2147483648 \<le> sint x" "sint x < 2147483648" using sint_ge [of x] sint_lt [of x] by simp_all
  show "nat \<bar>sint x\<bar> \<le> 2147483648" using b by simp
  have e: "(scast x :: u64) = word_of_int (sint x)" by (rule scast_eq)
  have m: "unat (word_of_int k :: u64) = nat k" if "0 \<le> k" "k \<le> 2147483648" for k
    using that by (simp add: unsigned_of_int take_bit_int_eq_self)
  have "(- scast x :: u64) = word_of_int (- sint x)" unfolding e by simp
  then show "unat (- scast x :: u64) = nat \<bar>sint x\<bar>" if "sint x < 0" using that b m [of "- sint x"] by simp
  show "unat (scast x :: u64) = nat \<bar>sint x\<bar>" if "0 \<le> sint x" unfolding e using that b m [of "sint x"] by simp
qed

lemma convert_int:
  "map_option fst (convert mem putch (char_code CHR ''d'') no_flags [x] s) = Some (fold putch (shown_int x) s)"
  "length (shown_int x) \<le> 11"
proof -
  let ?y = "if sint x < 0 then - scast x else scast x :: u64"
  have y: "unat ?y = nat \<bar>sint x\<bar>" using abs_u64(1,2) [of x] by simp
  then have "unat ?y < 2 ^ 32" using abs_u64(3) [of x] by simp
  note r = printnum_u32 [of 10, OF _ this]
  show "map_option fst (convert mem putch (char_code CHR ''d'') no_flags [x] s) = Some (fold putch (shown_int x) s)"
    using r(1) [of putch 32] y
    by (cases "sint x < 0") (simp_all add: convert_def put_int_def getint_def va_word_def no_flags_def scast_u64 shown_int_def)
  have "length (digits 10 (nat \<bar>sint x\<bar>)) \<le> 10" using digits_length [of 10 "nat \<bar>sint x\<bar>" 9] abs_u64(3) [of x] by simp
  then show "length (shown_int x) \<le> 11" by (cases "sint x < 0") (simp_all add: shown_int_def)
qed

lemma convert_uint:
  assumes "(c, base) \<in> {(CHR ''u'', 10), (CHR ''x'', 16), (CHR ''o'', 8)}"
  shows "map_option fst (convert mem putch (char_code c) no_flags [x] s) = Some (fold putch (shown_uint base x) s)"
    and "length (shown_uint base x) \<le> 11"
proof -
  have "unat (ucast x :: u64) < 2 ^ 32" using unat_lt_4G [of x] by (simp add: unat_u64)
  moreover have "base = 8 \<or> base = 10 \<or> base = 16" using assms by auto
  ultimately have r: "printnum putch (ucast x) base (- 1) 32 s = Some (fold putch (shown_uint base x) s)" "length (shown_uint base x) \<le> 11"
    using printnum_u32 [of base "ucast x"] by (simp_all add: unat_u64 shown_uint_def)
  show "length (shown_uint base x) \<le> 11" by (rule r)
  show "map_option fst (convert mem putch (char_code c) no_flags [x] s) = Some (fold putch (shown_uint base x) s)"
    using r(1) assms by (elim insertE) (simp_all add: convert_def put_uint_def getuint_def va_word_def no_flags_def)
qed


lemma strtol_shown_int: "text_at m p (shown_int x) \<Longrightarrow> strtol m p 10 = Some (x, p + word_of_nat (length (shown_int x)))"
proof (cases "sint x < 0")
  case True
  assume "text_at m p (shown_int x)"
  then have "strtol m p 10 = Some (- word_of_nat (nat \<bar>sint x\<bar>), p + word_of_nat (length (shown_int x)))"
    using True strtol_negative [of m p "nat \<bar>sint x\<bar>"] by (simp add: shown_int_def)
  moreover have "- word_of_nat (nat \<bar>sint x\<bar>) = x" using True by simp
  ultimately show ?thesis by simp
next
  case False
  assume "text_at m p (shown_int x)"
  then have "strtol m p 10 = Some (word_of_nat (nat \<bar>sint x\<bar>), p + word_of_nat (length (shown_int x)))"
    using False strtol_unsigned [of 10 m p "nat \<bar>sint x\<bar>"] by (simp add: shown_int_def)
  moreover have "word_of_nat (nat \<bar>sint x\<bar>) = x" using False by simp
  ultimately show ?thesis by simp
qed

lemma strtol_shown_uint:
  "base = 8 \<or> base = 10 \<or> base = 16 \<Longrightarrow> text_at m p (shown_uint base x) \<Longrightarrow>
   strtol m p base = Some (x, p + word_of_nat (length (shown_uint base x)))"
  using strtol_unsigned [of base m p "unat x"] by (simp add: shown_uint_def)

definition shown :: "char \<Rightarrow> u32 \<Rightarrow> u32 \<Rightarrow> u32 list" where
  "shown c base x = (if c = CHR ''d'' then shown_int x else shown_uint base x)"

text \<open>
  \<^bold>\<open>C22.\<close> Numbers survive printing and parsing: into a buffer of at least twelve bytes \<^const>\<open>snprintf\<close> with
  the format \<^verbatim>\<open>%d\<close>, \<^verbatim>\<open>%u\<close>, \<^verbatim>\<open>%x\<close> or \<^verbatim>\<open>%o\<close> always returns, and \<^const>\<open>strtol\<close> in the same base gives back
  every 32-bit number and stops behind exactly as many characters as \<^const>\<open>snprintf\<close> reported.
\<close>

theorem snprintf_strtol:
  assumes "dst \<noteq> 0" "12 \<le> sint n" "unat dst + unat n \<le> 2 ^ 32"
    and "(c, base) \<in> {(CHR ''d'', 10), (CHR ''u'', 10), (CHR ''x'', 16), (CHR ''o'', 8)}"
  shows "\<exists>m' r. snprintf m dst n (lit [CHR ''%'', c]) [x] = Some (m', r) \<and> strtol m' dst base = Some (x, dst + r)"
proof -
  let ?cs = "shown c base x"
  have cs: "map_option fst (convert fst sprintputch (char_code c) no_flags [x] s) = Some (fold sprintputch ?cs s)"
    "length ?cs \<le> 11" for s :: bufstate
    using assms(4) convert_int(1) [of fst sprintputch x s] convert_int(2) [of x]
      convert_uint(1) [of c base fst sprintputch x s] convert_uint(2) [of c base x] by (auto simp: shown_def)
  have n: "12 \<le> unat n" using assms(2) unat_nonneg [of n] by linarith
  have "vprintfmt fst sprintputch (lit [CHR ''%'', c]) 0 [x] s = Some (fold sprintputch ?cs s)" for s
    using simple_format [of c fst sprintputch "[x]" s] cs(1) assms(4) by (auto simp: conversion_format_def)
  then obtain m' where m': "vsnprintf m dst n (lit [CHR ''%'', c]) [x] = Some (m', word_of_nat (length ?cs))" "text_at m' dst ?cs"
    using vsnprintf_text [of "lit [CHR ''%'', c]" "[x]" ?cs dst n m] cs(2) n assms by auto
  then have "strtol m' dst base = Some (x, dst + word_of_nat (length ?cs))"
    using assms(4) strtol_shown_int [of m' dst x] strtol_shown_uint [of base m' dst x] by (auto simp: shown_def)
  then show ?thesis using m'(1) by (auto simp: snprintf_def)
qed


theorem snprintf_strtol_witness:
  "\<exists>m' r. snprintf (\<lambda>_. 7) 0x1000 16 (lit ''%d'') [- 123] = Some (m', r) \<and> strtol m' 0x1000 10 = Some (- 123, 0x1000 + r)"
  using snprintf_strtol [of "0x1000" 16 "CHR ''d''" 10 "\<lambda>_. 7" "- 123"] by simp

end
