(* ===== verification/Lib_Printfmt_Safe.thy ===== *)
theory Lib_Printfmt_Safe
  imports Lib_Printfmt_Spec
begin

text \<open>
  Formatted output returns and keeps every invariant of its output routine. The contract of an output
  routine is a locale: whatever one character keeps, all of \<^const>\<open>vprintfmt\<close> keeps, as long as format
  and strings end in the states the invariant allows. Its instance for \<^const>\<open>sprintputch\<close> is that the
  writes stay in the buffer.
\<close>

unbundle bit_operations_syntax

definition ends_at :: "('s \<Rightarrow> bool) \<Rightarrow> 's cstr \<Rightarrow> nat \<Rightarrow> bool" where
  "ends_at I p k \<longleftrightarrow> (\<forall>s. I s \<longrightarrow> p s k = 0)"

lemma ends_at_lit: "ends_at I (lit cs) (length cs)"
  by (simp add: ends_at_def lit_def)

lemma negated_positive: "sint e < 0 \<Longrightarrow> e \<noteq> 0x80000000 \<Longrightarrow> 0 \<le> sint (- e)" for e :: u32
proof -
  assume e: "sint e < 0" "e \<noteq> 0x80000000"
  have "sint e \<noteq> - 2147483648"
  proof
    assume h: "sint e = - 2147483648"
    have "word_of_int (sint e) = e" by simp
    then have "word_of_int (- 2147483648) = e" unfolding h .
    then show False using e(2) by simp
  qed
  then have "- 2147483648 < sint e" using sint_ge [of e] by simp
  then show ?thesis using e(1) signed_take_bit_int_eq_self [of 31 "- sint e"] by (simp add: sint_word_ariths)
qed

locale output_routine =
  fixes I :: "'s \<Rightarrow> bool" and putch :: "u32 \<Rightarrow> 's \<Rightarrow> 's"
  assumes keeps: "I s \<Longrightarrow> I (putch c s)"
begin

lemma pad_keeps: "I s \<Longrightarrow> I (pad putch w c s)"
proof -
  have "I s \<Longrightarrow> I ((putch (scast c) ^^ n) s)" for n by (induction n) (simp_all add: keeps)
  then show "I s \<Longrightarrow> I (pad putch w c s)" by (simp add: pad_def)
qed

lemma printnum_keeps:
  assumes "base = 8 \<or> base = 10 \<or> base = 16"
  shows "I s \<Longrightarrow> \<exists>t. printnum putch num base w c s = Some t \<and> I t"
proof (induction "unat num" arbitrary: num w rule: less_induct)
  case less
  show ?case
  proof (cases "ucast base \<le> num")
    case True
    have "unat (ucast base :: u64) > 1" using assms by auto
    moreover have "0 < unat num" using True \<open>unat (ucast base :: u64) > 1\<close> by (simp add: word_le_nat_alt)
    ultimately have "unat (num div ucast base) < unat num" by (simp add: unat_div)
    then obtain t where "printnum putch (num div ucast base) base (w - 1) c s = Some t" "I t" using less by blast
    then show ?thesis using True keeps by (subst printnum.simps) simp
  next
    case False
    then show ?thesis using less.prems keeps pad_keeps by (subst printnum.simps) simp
  qed
qed

lemma put_chars_keeps:
  "I s \<Longrightarrow> ends_at I p k \<Longrightarrow> i \<le> k \<Longrightarrow> \<exists>t w'. put_chars putch alt p i prec w s = Some (t, w') \<and> I t"
proof (induction "k - i" arbitrary: i prec w s)
  case 0
  then have "p s i = 0" by (simp add: ends_at_def)
  then show ?case using 0 by (subst put_chars.simps) simp
next
  case (Suc j)
  show ?case
  proof (cases "p s i \<noteq> 0 \<and> (sint prec < 0 \<or> 0 \<le> sint (prec - 1))")
    case True
    show ?thesis
      using Suc.hyps(1) [of "i + 1" "putch _ s" "if sint prec < 0 then prec else prec - 1" "w - 1"] Suc.hyps(2) Suc.prems True keeps
      by (subst put_chars.simps) (simp add: Let_def)
  next
    case False
    then show ?thesis using Suc.prems(1) by (subst put_chars.simps) (auto simp: Let_def)
  qed
qed

lemma put_string_keeps: "I s \<Longrightarrow> ends_at I p k \<Longrightarrow> \<exists>t. put_string putch p c w prec alt s = Some t \<and> I t"
proof -
  assume I: "I s" "ends_at I p k"
  have r: "\<exists>t. put_chars putch alt p 0 prec w s \<bind> (\<lambda>(s, w). Some (pad putch w 32 s)) = Some t \<and> I t" if "I s" for w s
    using put_chars_keeps [OF that I(2), of 0 alt prec w] pad_keeps by auto
  show ?thesis using I(1) r pad_keeps by (simp add: put_string_def Let_def)
qed

lemma put_int_keeps: "I s \<Longrightarrow> \<exists>t ap'. put_int putch f ap s = Some (t, ap') \<and> I t"
proof -
  assume I: "I s"
  obtain num ap' where g: "getint ap (lflag f) = (num, ap')" by (cases "getint ap (lflag f)")
  let ?r = "if sint num < 0 then (- num, putch 45 s) else (num, s)"
  have "I (snd ?r)" using I keeps by simp
  then show ?thesis
    using printnum_keeps [of 10 "snd ?r" "fst ?r" "width f" "padc f"] by (auto simp: put_int_def g case_prod_beta split: if_splits)
qed

lemma put_uint_keeps:
  "base = 8 \<or> base = 10 \<or> base = 16 \<Longrightarrow> I s \<Longrightarrow> \<exists>t ap'. put_uint putch base f ap s = Some (t, ap') \<and> I t"
  using printnum_keeps [of base s "fst (getuint ap (lflag f))" "width f" "padc f"]
  by (auto simp: put_uint_def case_prod_beta)

lemma put_pointer_keeps: "I s \<Longrightarrow> \<exists>t ap'. put_pointer putch f ap s = Some (t, ap') \<and> I t"
  using printnum_keeps [of 16 "putch 120 (putch 48 s)" "ucast (fst (va_word ap))" "width f" "padc f"] keeps
  by (auto simp: put_pointer_def case_prod_beta)

lemma put_str_arg_keeps:
  assumes "I s" "\<And>p. p \<noteq> 0 \<Longrightarrow> \<exists>k. ends_at I (str_at mem p) k"
  shows "\<exists>t ap'. put_str_arg mem putch f ap s = Some (t, ap') \<and> I t"
proof -
  let ?p = "fst (va_word ap)"
  have "\<exists>k. ends_at I (if ?p = 0 then lit ''(null)'' else str_at mem ?p) k" using assms(2) ends_at_lit by auto
  then obtain k where "ends_at I (if ?p = 0 then lit ''(null)'' else str_at mem ?p) k" ..
  from put_string_keeps [OF assms(1) this, of "padc f" "width f" "precision f" "altflag f"]
  show ?thesis by (auto simp: put_str_arg_def case_prod_beta)
qed

lemma put_error_keeps:
  assumes "I s" "fst (va_word ap) \<noteq> 0x80000000"
  shows "\<exists>t ap'. put_error putch ap s = Some (t, ap') \<and> I t"
proof -
  obtain e ap' where v: "va_word ap = (e, ap')" by (cases "va_word ap")
  let ?e = "if sint e < 0 then - e else e"
  have n: "\<not> sint ?e < 0" using assms(2) v negated_positive [of e] by auto
  have str: "\<exists>t. put_string putch (lit cs) 32 (- 1) (- 1) False s = Some t \<and> I t" for cs
    using put_string_keeps [OF assms(1) ends_at_lit] .
  obtain t where t: "put_string putch (lit ''error '') 32 (- 1) (- 1) False s = Some t" "I t" using str by blast
  obtain u x where u: "put_int putch no_flags [?e] t = Some (u, x)" "I u" using put_int_keeps [OF t(2)] by blast
  show ?thesis
  proof (cases "sint MAXERROR \<le> sint ?e \<or> error_message ?e = None")
    case True
    then show ?thesis using t u by (simp add: put_error_def v Let_def)
  next
    case False
    then show ?thesis using n str [of "the (error_message ?e)"] by (auto simp: put_error_def v Let_def)
  qed
qed

lemma convert_keeps:
  assumes "I s" "\<And>p. p \<noteq> 0 \<Longrightarrow> \<exists>k. ends_at I (str_at mem p) k"
  shows "\<exists>t ap'. convert mem putch ch f ap s = Some (t, ap') \<and> I t"
  using assms(1) keeps put_str_arg_keeps [OF assms] put_int_keeps put_uint_keeps put_pointer_keeps
  by (simp add: convert_def case_prod_beta)

end

subsection \<open>Scanning the format\<close>

text \<open>A format whose characters up to its end are \<open>cs\<close> in every state of the invariant.\<close>

definition format_is :: "('s \<Rightarrow> bool) \<Rightarrow> 's cstr \<Rightarrow> (nat \<Rightarrow> u8) \<Rightarrow> nat \<Rightarrow> bool" where
  "format_is I fmt cs k \<longleftrightarrow> cs k = 0 \<and> (\<forall>s. I s \<longrightarrow> (\<forall>i \<le> k. fmt s i = cs i))"

lemma scan_number_ends:
  "fmt s k = 0 \<Longrightarrow> i \<le> k \<Longrightarrow> \<exists>prec j. scan_number fmt s i ch p = Some (prec, j) \<and> i \<le> j \<and> j \<le> k"
proof (induction "k - i" arbitrary: i ch p)
  case 0
  then show ?case by (subst scan_number.simps) (simp add: is_digit_def)
next
  case (Suc n)
  show ?case
  proof (cases "is_digit (fmt s i)")
    case True
    have "n = k - (i + 1)" "i + 1 \<le> k" using Suc.hyps(2) by simp_all
    from Suc.hyps(1) [OF this(1) Suc.prems(1) this(2)]
    obtain prec j where "scan_number fmt s (i + 1) (fmt s i) (p * 10 + ucast ch - 48) = Some (prec, j)" "i + 1 \<le> j" "j \<le> k" by blast
    then show ?thesis using True by (subst scan_number.simps) (simp add: Let_def)
  next
    case False
    then show ?thesis using Suc.prems by (subst scan_number.simps) (simp add: Let_def)
  qed
qed

text \<open>The flags end before the format does; the skipped characters are no percent signs, and arguments are only taken away.\<close>

definition flags_end :: "(nat \<Rightarrow> u8) \<Rightarrow> nat \<Rightarrow> nat \<Rightarrow> u32 list \<Rightarrow> (u8 \<times> nat \<times> flags \<times> u32 list) option \<Rightarrow> bool" where
  "flags_end cs k i ap r \<longleftrightarrow> (\<exists>j f ap'. r = Some (cs j, j + 1, f, ap') \<and> i \<le> j \<and> j \<le> k \<and> set ap' \<subseteq> set ap)"

lemma flags_end_step: "flags_end cs k i' ap' r \<Longrightarrow> i \<le> i' \<Longrightarrow> set ap' \<subseteq> set ap \<Longrightarrow> flags_end cs k i ap r"
  unfolding flags_end_def by (elim exE conjE, intro exI conjI) (assumption, auto)

lemma flags_end_if:
  "(c \<Longrightarrow> flags_end cs k i ap a) \<Longrightarrow> (\<not> c \<Longrightarrow> flags_end cs k i ap b) \<Longrightarrow> flags_end cs k i ap (if c then a else b)"
  by simp

lemma flags_end_va:
  "flags_end cs k i ap (g (fst (va_word w)) (snd (va_word w))) \<Longrightarrow> flags_end cs k i ap (case va_word w of (x, y) \<Rightarrow> g x y)"
  by (simp add: case_prod_beta)

lemma va_word_subset: "set (snd (va_word ap)) \<subseteq> set ap" "fst (va_word ap) \<in> insert 0 (set ap)"
  by (auto simp: va_word_def split: list.split)

lemma reswitch_ends: "fmt s k = 0 \<Longrightarrow> i \<le> k \<Longrightarrow> flags_end (fmt s) k i ap (reswitch fmt s i f ap)"
proof (induction "k - i" arbitrary: i f ap rule: less_induct)
  case less
  have next_char: "flags_end (fmt s) k i ap (reswitch fmt s (i + 1) g ap')" if "fmt s i \<noteq> 0" "set ap' \<subseteq> set ap" for g ap'
  proof -
    have "i < k" using that less.prems by (metis le_neq_implies_less)
    then have "flags_end (fmt s) k (i + 1) ap' (reswitch fmt s (i + 1) g ap')" using less by (intro less.hyps) simp_all
    then show ?thesis by (rule flags_end_step) (use that(2) in simp_all)
  qed
  have number: "flags_end (fmt s) k i ap (scan_number fmt s (i + 1) (fmt s i) 0 \<bind>
      (\<lambda>(prec, i). reswitch fmt s i (process_precision (f\<lparr>precision := prec\<rparr>)) ap))" if "is_digit (fmt s i)"
  proof -
    have "i < k" using that less.prems by (cases "i = k") (auto simp: is_digit_def)
    then obtain prec j where j: "scan_number fmt s (i + 1) (fmt s i) 0 = Some (prec, j)" "i + 1 \<le> j" "j \<le> k"
      using scan_number_ends [of fmt s k "i + 1"] less.prems by fastforce
    then have "flags_end (fmt s) k j ap (reswitch fmt s j (process_precision (f\<lparr>precision := prec\<rparr>)) ap)"
      using less \<open>i < k\<close> by (intro less.hyps) simp_all
    then show ?thesis using j flags_end_step by fastforce
  qed
  have stop: "flags_end (fmt s) k i ap (Some (fmt s i, i + 1, f, ap))" using less.prems by (auto simp: flags_end_def)
  show ?case
    by (subst reswitch.simps, unfold Let_def)
      (intro flags_end_if flags_end_va next_char number stop; simp add: va_word_subset)
qed


lemma to_percent_between: "fmt s p = char_code CHR ''%'' \<Longrightarrow> p < i \<Longrightarrow> p < to_percent fmt s i \<and> to_percent fmt s i \<le> i"
  by (induction i) (auto simp: less_Suc_eq)

lemma get_args: "set (snd (getint ap l)) \<subseteq> set ap" "set (snd (getuint ap l)) \<subseteq> set ap"
proof -
  have "set (snd (va_long_long ap)) \<subseteq> set ap"
    using va_word_subset(1) [of ap] va_word_subset(1) [of "snd (va_word ap)"] by (simp add: va_long_long_def case_prod_beta)
  then show "set (snd (getint ap l)) \<subseteq> set ap" "set (snd (getuint ap l)) \<subseteq> set ap"
    using va_word_subset(1) [of ap] by (simp_all add: getint_def getuint_def case_prod_beta)
qed

definition args_shrink :: "u32 list \<Rightarrow> ('s \<times> u32 list) option \<Rightarrow> bool" where
  "args_shrink ap r \<longleftrightarrow> (\<forall>t ap'. r = Some (t, ap') \<longrightarrow> set ap' \<subseteq> set ap)"

lemma args_shrink_if: "args_shrink ap a \<Longrightarrow> args_shrink ap b \<Longrightarrow> args_shrink ap (if c then a else b)"
  by simp

lemma put_args:
  "args_shrink ap (put_int putch f ap s)"
  "args_shrink ap (put_uint putch base f ap s)"
  "args_shrink ap (put_pointer putch f ap s)"
  "args_shrink ap (put_str_arg mem putch f ap s)"
  "args_shrink ap (put_error putch ap s)"
  "args_shrink ap (let (w, ap) = va_word ap in Some (g w, ap))"
  using get_args [of ap "lflag f"] va_word_subset(1) [of ap]
  by (auto simp: args_shrink_def put_int_def put_uint_def put_pointer_def put_str_arg_def put_error_def case_prod_beta Let_def
        bind_eq_Some_conv split: if_splits)

lemma convert_args: "args_shrink ap (convert mem putch ch f ap s)"
  unfolding convert_def by (intro args_shrink_if put_args) (simp add: args_shrink_def)

context output_routine
begin

lemma escape_keeps:
  assumes I: "I s" and fmt: "format_is I fmt cs k" and i: "0 < i" "i \<le> k" "cs (i - 1) = char_code CHR ''%''"
    and ap: "0x80000000 \<notin> set ap" and str: "\<And>p. p \<noteq> 0 \<Longrightarrow> \<exists>k. ends_at I (str_at mem p) k"
  shows "\<exists>i' ap' t. escape mem putch fmt i ap s = Some (i', ap', t) \<and> I t \<and> i \<le> i' \<and> i' \<le> k \<and> set ap' \<subseteq> set ap"
proof -
  have f: "fmt t j = cs j" if "I t" "j \<le> k" for t j using fmt that by (simp add: format_is_def)
  have k: "cs k = 0" using fmt by (simp add: format_is_def)
  have "flags_end (fmt s) k i ap (reswitch fmt s i no_flags ap)" using f [OF I] k i(2) by (intro reswitch_ends) simp_all
  then obtain j g ap' where r: "reswitch fmt s i no_flags ap = Some (cs j, j + 1, g, ap')"
    and j: "i \<le> j" "j \<le> k" and sub: "set ap' \<subseteq> set ap" using f [OF I] by (auto simp: flags_end_def)
  have lt: "j + 1 \<le> k" if "cs j \<noteq> 0" using that j k by (metis Suc_eq_plus1 Suc_leI le_neq_implies_less)
  have e0: "fst (va_word ap') \<noteq> 0x80000000" using va_word_subset(2) [of ap'] sub ap by auto
  consider "cs j = char_code CHR ''e''" | "cs j \<noteq> char_code CHR ''e''" "is_conversion (cs j)" | "cs j \<noteq> char_code CHR ''e''" "\<not> is_conversion (cs j)" by blast
  then show ?thesis
  proof cases
    case 1
    obtain t ap'' where t: "put_error putch ap' s = Some (t, ap'')" "I t" using put_error_keeps [OF I e0] by blast
    then show ?thesis using 1 r j lt sub put_args(5) [of ap' putch s] by (auto simp: escape_def args_shrink_def)
  next
    case 2
    obtain t ap'' where t: "convert mem putch (cs j) g ap' s = Some (t, ap'')" "I t" using convert_keeps [OF I str] by blast
    moreover have "cs j \<noteq> 0" using 2(2) by (auto simp: is_conversion_def)
    ultimately show ?thesis using 2 r j lt sub convert_args [of ap' mem putch "cs j" g s] by (auto simp: escape_def args_shrink_def)
  next
    case 3
    let ?t = "putch (char_code CHR ''%'') s"
    have t: "I ?t" using I by (rule keeps)
    have "i - 1 < to_percent fmt ?t j \<and> to_percent fmt ?t j \<le> j" using f [OF t] i j by (intro to_percent_between) simp_all
    then show ?thesis using 3 r t j sub by (auto simp: escape_def Let_def)
  qed
qed

theorem vprintfmt_keeps:
  assumes fmt: "format_is I fmt cs k" and str: "\<And>p. p \<noteq> 0 \<Longrightarrow> \<exists>k. ends_at I (str_at mem p) k"
  shows "I s \<Longrightarrow> i \<le> k \<Longrightarrow> 0x80000000 \<notin> set ap \<Longrightarrow> \<exists>t. vprintfmt mem putch fmt i ap s = Some t \<and> I t"
proof (induction "k - i" arbitrary: i ap s rule: less_induct)
  case less
  have f: "fmt s i = cs i" and k: "cs k = 0" using fmt less.prems by (simp_all add: format_is_def)
  consider "cs i = 0" | "cs i \<noteq> 0" "cs i \<noteq> char_code CHR ''%''" | "cs i = char_code CHR ''%''" by blast
  then show ?case
  proof cases
    case 1
    then show ?thesis using f less.prems by (subst vprintfmt.simps) simp
  next
    case 2
    then have "i < k" using k less.prems by (metis le_neq_implies_less)
    then have "\<exists>t. vprintfmt mem putch fmt (i + 1) ap (putch (ucast (cs i)) s) = Some t \<and> I t"
      using less keeps by (intro less.hyps) simp_all
    then show ?thesis using f 2 by (subst vprintfmt.simps) (simp add: Let_def)
  next
    case 3
    then have "i < k" using k less.prems(2) by (cases "i = k") auto
    then obtain i' ap' t where e: "escape mem putch fmt (i + 1) ap s = Some (i', ap', t)" "I t" "i + 1 \<le> i'" "i' \<le> k" "set ap' \<subseteq> set ap"
      using escape_keeps [OF less.prems(1) fmt, of "i + 1" ap mem] 3 less.prems(3) str by auto
    then have "\<exists>u. vprintfmt mem putch fmt i' ap' t = Some u \<and> I u"
      using less.prems \<open>i < k\<close> by (intro less.hyps) auto
    then show ?thesis using f 3 e by (subst vprintfmt.simps) simp
  qed
qed

end


subsection \<open>The buffer of snprintf\<close>

definition outside :: "u32 \<Rightarrow> u32 \<Rightarrow> u32 \<Rightarrow> bool" where
  "outside dst n a \<longleftrightarrow> unat n \<le> unat (a - dst)"

definition in_buffer :: "bytes_mem \<Rightarrow> u32 \<Rightarrow> u32 \<Rightarrow> bufstate \<Rightarrow> bool" where
  "in_buffer m dst n = (\<lambda>(m', b). (\<forall>a. outside dst n a \<longrightarrow> m' a = m a) \<and>
     unat dst \<le> unat (buf b) \<and> unat (buf b) \<le> unat (ebuf b) \<and> unat (ebuf b) < unat dst + unat n)"

lemma buffer_inside: "\<not> outside dst n a" if "unat dst \<le> unat a" "unat a < unat dst + unat n"
  using that unat_sub [of dst a] by (simp add: outside_def word_le_nat_alt)

interpretation sprint: output_routine "in_buffer m dst n" sprintputch for m dst n
proof
  fix s :: bufstate and c
  assume I: "in_buffer m dst n s"
  obtain m' b where s: "s = (m', b)" by (cases s)
  show "in_buffer m dst n (sprintputch c s)"
  proof (cases "buf b < ebuf b")
    case True
    then have "unat (buf b + 1) = unat (buf b) + 1" by (rule unat_Suc_less)
    moreover have "\<not> outside dst n (buf b)" using I s by (intro buffer_inside) (auto simp: in_buffer_def)
    ultimately show ?thesis using I s True by (auto simp: in_buffer_def sprintputch_def Let_def word_less_nat_alt)
  next
    case False
    then show ?thesis using I s by (simp add: in_buffer_def sprintputch_def Let_def)
  qed
qed

text \<open>
  \<^bold>\<open>C23.\<close> \<^const>\<open>vsnprintf\<close> is total and memory safe: for every format string that lies outside the buffer and
  for all arguments it returns, whatever the conversions, widths and strings are; it changes no byte
  outside the \<open>n\<close> bytes of the buffer and leaves a terminating zero inside it. (The number \<open>- 2\<^sup>3\<^sup>1\<close> must not be
  among the arguments: \<^verbatim>\<open>%e\<close> would index the table of messages with it.)
\<close>

theorem vsnprintf_in_bounds:
  assumes "dst \<noteq> 0" "1 \<le> sint n" "unat dst + unat n \<le> 2 ^ 32"
    and "m (f + word_of_nat k) = 0" "\<forall>j \<le> k. outside dst n (f + word_of_nat j)" "0x80000000 \<notin> set ap"
  shows "\<exists>m' r. vsnprintf m dst n (str_at fst f) ap = Some (m', r) \<and> (\<forall>a. outside dst n a \<longrightarrow> m' a = m a) \<and>
    (\<exists>i < unat n. m' (dst + word_of_nat i) = 0)"
proof -
  let ?I = "in_buffer m dst n" and ?b = "\<lparr>buf = dst, ebuf = dst + n - 1, cnt = 0\<rparr>"
  have n: "1 \<le> unat n" using assms(2) unat_nonneg [of n] by linarith
  then have w: "word_of_nat (unat n - 1) = n - 1" by (simp add: of_nat_diff)
  have "unat (dst + word_of_nat (unat n - 1)) = unat dst + (unat n - 1)" using assms(3) n by (intro add_small) simp
  then have e: "unat (dst + n - 1) = unat dst + (unat n - 1)" unfolding w by (simp add: add_diff_eq)
  have fmt: "format_is ?I (str_at fst f) (\<lambda>j. m (f + word_of_nat j)) k"
    using assms(4,5) by (auto simp: format_is_def str_at_def in_buffer_def)
  have str: "\<exists>k. ends_at ?I (str_at fst p) k" for p
  proof
    have "p + word_of_nat (unat (f + word_of_nat k - p)) = f + word_of_nat k" by simp
    then show "ends_at ?I (str_at fst p) (unat (f + word_of_nat k - p))"
      using assms(4,5) by (auto simp: ends_at_def str_at_def in_buffer_def)
  qed
  have I0: "?I (m, ?b)" using e n by (simp add: in_buffer_def)
  obtain m' b where v: "vprintfmt fst sprintputch (str_at fst f) 0 ap (m, ?b) = Some (m', b)" and I: "?I (m', b)"
    using sprint.vprintfmt_keeps [OF fmt str I0 _ assms(6), of 0] by auto
  have b: "unat dst \<le> unat (buf b)" "unat (buf b) < unat dst + unat n" using I by (auto simp: in_buffer_def)
  then have o: "\<not> outside dst n (buf b)" by (rule buffer_inside)
  have "\<exists>i < unat n. (m'(buf b := 0)) (dst + word_of_nat i) = 0"
    using o by (intro exI [of _ "unat (buf b - dst)"]) (simp add: outside_def)
  moreover have "\<forall>a. outside dst n a \<longrightarrow> (m'(buf b := 0)) a = m a" using I o by (auto simp: in_buffer_def)
  ultimately show ?thesis using assms(1,2) v by (simp add: vsnprintf_def del: fun_upd_apply)
qed


definition percent_s :: bytes_mem where
  "percent_s = (\<lambda>_. 0)(0x1000 := 37, 0x1001 := 115)"

theorem vsnprintf_in_bounds_witness:
  "\<exists>m' r. vsnprintf percent_s 0x2000 16 (str_at fst 0x1000) [0x1000] = Some (m', r) \<and>
    (\<forall>a. outside 0x2000 16 a \<longrightarrow> m' a = percent_s a) \<and> (\<exists>i < 16. m' (0x2000 + word_of_nat i) = 0)"
proof -
  have "\<forall>j \<le> 2. outside 0x2000 16 (0x1000 + word_of_nat j)"
  proof (intro allI impI)
    fix j :: nat
    assume "j \<le> 2"
    then have "j = 0 \<or> j = 1 \<or> j = 2" by arith
    then show "outside 0x2000 16 (0x1000 + word_of_nat j)" by (elim disjE) (simp_all add: outside_def)
  qed
  then show ?thesis
    using vsnprintf_in_bounds [of "0x2000" 16 percent_s "0x1000" 2 "[0x1000]"] by (simp add: percent_s_def)
qed

end
