(* ===== verification/Lib_Printf.thy ===== *)
theory Lib_Printf
  imports Lib_Printfmt_Safe
begin

text \<open>
  \<^verbatim>\<open>cprintf\<close> of user programs (\<^verbatim>\<open>lib/printf.c\<close>): characters are collected in a buffer of 256 bytes and
  handed to the kernel by one system call per 255 characters. The calls of \<^verbatim>\<open>sys_cputs\<close> are recorded in
  the state.
\<close>

record printbuf =
  idx :: nat
  total :: u32
  chars_buf :: "nat \<Rightarrow> u8"
  cputs :: "u8 list list"

type_synonym printstate = "bytes_mem \<times> printbuf"

definition sys_cputs_buf :: "nat \<Rightarrow> printbuf \<Rightarrow> printbuf" where
  "sys_cputs_buf n b = b\<lparr>cputs := cputs b @ [map (chars_buf b) [0..<n]]\<rparr>"

definition putch :: "printstate putch_fn" where
  "putch ch = (\<lambda>(m, b).
     let b = b\<lparr>chars_buf := (chars_buf b)(idx b := ucast ch), idx := idx b + 1\<rparr>;
         b = (if idx b = 256 - 1 then (sys_cputs_buf (idx b) b)\<lparr>idx := 0\<rparr> else b)
     in (m, b\<lparr>total := total b + 1\<rparr>))"

definition vcprintf :: "bytes_mem \<Rightarrow> (nat \<Rightarrow> u8) \<Rightarrow> printstate cstr \<Rightarrow> u32 list \<Rightarrow> (u8 list list \<times> u32) option" where
  "vcprintf m garbage fmt ap =
     do { (m, b) \<leftarrow> vprintfmt fst putch fmt 0 ap (m, \<lparr>idx = 0, total = 0, chars_buf = garbage, cputs = []\<rparr>);
          let b = sys_cputs_buf (idx b) b;
          Some (cputs b, total b) }"

definition cprintf :: "bytes_mem \<Rightarrow> (nat \<Rightarrow> u8) \<Rightarrow> printstate cstr \<Rightarrow> u32 list \<Rightarrow> (u8 list list \<times> u32) option" where
  "cprintf m garbage fmt args = vcprintf m garbage fmt args"

text \<open>
  All output is buffered in order: at any moment the characters handed to the kernel followed by the
  first \<^const>\<open>idx\<close> of the buffer are the output so far, and the buffer is never full.
\<close>

definition printed :: "printbuf \<Rightarrow> u8 list" where
  "printed b = concat (cputs b) @ map (chars_buf b) [0..<idx b]"

definition buffered :: "bytes_mem \<Rightarrow> printstate \<Rightarrow> bool" where
  "buffered m = (\<lambda>(m', b). m' = m \<and> idx b < 255 \<and> (\<forall>c \<in> set (cputs b). length c = 255) \<and>
     total b = word_of_nat (length (printed b)))"

lemma putch_printed:
  assumes "idx b < 255"
  shows "printed (snd (putch ch (m, b))) = printed b @ [ucast ch]"
proof -
  have m: "map ((chars_buf b)(i := x)) [0..<Suc i] = map (chars_buf b) [0..<i] @ [x]" for i x by simp
  show ?thesis using m [of 254 "ucast ch"] m [of "idx b" "ucast ch"] by (simp add: putch_def Let_def printed_def sys_cputs_buf_def)
qed

interpretation user: output_routine "buffered m" putch for m
proof
  fix s :: printstate and c
  assume I: "buffered m s"
  obtain b where s: "s = (m, b)" "idx b < 255" using I by (cases s) (auto simp: buffered_def)
  have p: "length (printed (snd (putch c (m, b)))) = length (printed b) + 1" using putch_printed [OF s(2)] by simp
  have "total (snd (putch c (m, b))) = total b + 1" by (simp add: putch_def Let_def sys_cputs_buf_def)
  with p have t: "total (snd (putch c (m, b))) = word_of_nat (length (printed (snd (putch c (m, b)))))"
    using I s by (simp add: buffered_def)
  have "fst (putch c (m, b)) = m" "idx (snd (putch c (m, b))) < 255" "\<forall>x \<in> set (cputs (snd (putch c (m, b)))). length x = 255"
    using I s by (auto simp: putch_def Let_def sys_cputs_buf_def buffered_def)
  then show "buffered m (putch c s)" using t s by (simp add: buffered_def case_prod_beta)
qed

text \<open>
  \<open>cprintf\<close> returns for every format that ends, hands complete buffers of 255 characters and one rest to
  the kernel, and returns the number of characters.
\<close>

theorem cprintf_calls:
  assumes "m (f + word_of_nat k) = 0" "0x80000000 \<notin> set ap"
  shows "\<exists>cs r. cprintf m g (str_at fst f) ap = Some (cs @ [r], word_of_nat (length (concat cs) + length r)) \<and>
    (\<forall>c \<in> set cs. length c = 255) \<and> length r < 255"
proof -
  let ?b = "\<lparr>idx = 0, total = 0, chars_buf = g, cputs = []\<rparr>"
  have fmt: "format_is (buffered m) (str_at fst f) (\<lambda>j. m (f + word_of_nat j)) k"
    using assms(1) by (auto simp: format_is_def str_at_def buffered_def)
  have str: "\<exists>k. ends_at (buffered m) (str_at fst p) k" for p
    using assms(1) by (intro exI [of _ "unat (f + word_of_nat k - p)"]) (auto simp: ends_at_def str_at_def buffered_def)
  have "buffered m (m, ?b)" by (simp add: buffered_def printed_def)
  then obtain b where v: "vprintfmt fst putch (str_at fst f) 0 ap (m, ?b) = Some (m, b)" "buffered m (m, b)"
    using user.vprintfmt_keeps [OF fmt str, of "(m, ?b)" 0 ap] assms(2) by (auto simp: buffered_def)
  then show ?thesis
    by (auto simp: cprintf_def vcprintf_def sys_cputs_buf_def buffered_def printed_def
          intro!: exI [of _ "cputs b"] exI [of _ "map (chars_buf b) [0..<idx b]"])
qed

end
