(* ===== verification/Kern_Printf.thy ===== *)
theory Kern_Printf
  imports Kern_Console Lib_Printfmt_Safe
begin

text \<open>
  \<^verbatim>\<open>cprintf\<close> of the kernel (\<^verbatim>\<open>kern/printf.c\<close>) over the console. \<^verbatim>\<open>*cnt++\<close> advances the pointer and
  not the counter, so the routine counts nothing and the result is always 0.
\<close>

type_synonym kprint = "bytes_mem \<times> console \<times> u32"

definition kputch :: "kprint putch_fn" where
  "kputch ch = (\<lambda>(m, c, n). (m, cputchar ch c, n))"

definition kvcprintf :: "bytes_mem \<Rightarrow> kprint cstr \<Rightarrow> u32 list \<Rightarrow> console \<Rightarrow> (console \<times> u32) option" where
  "kvcprintf m fmt ap c =
     do { (m, c, n) \<leftarrow> vprintfmt fst kputch fmt 0 ap (m, c, 0);
          Some (c, n) }"

definition kcprintf :: "bytes_mem \<Rightarrow> kprint cstr \<Rightarrow> u32 list \<Rightarrow> console \<Rightarrow> (console \<times> u32) option" where
  "kcprintf m fmt args c = kvcprintf m fmt args c"

definition printing :: "bytes_mem \<Rightarrow> console \<Rightarrow> kprint \<Rightarrow> bool" where
  "printing m c = (\<lambda>(m', c', n). m' = m \<and> n = 0 \<and> on_screen c' \<and> below_screen_kept c c')"

interpretation kernel: output_routine "printing m c" kputch for m c
proof
  fix s :: kprint and ch
  assume I: "printing m c s"
  obtain c' where s: "s = (m, c', 0)" "on_screen c'" "below_screen_kept c c'" using I by (cases s) (auto simp: printing_def)
  then show "printing m c (kputch ch s)"
    using cons_putc_screen [OF s(2), of ch] by (simp add: printing_def kputch_def cputchar_def below_screen_kept_def)
qed

text \<open>
  Kernel messages always come out completely: \<^verbatim>\<open>cprintf\<close> returns for every format that ends, the cursor
  stays on the screen, no video memory outside it is written, and the result is 0.
\<close>

theorem kcprintf_on_screen:
  assumes "m (f + word_of_nat k) = 0" "0x80000000 \<notin> set ap" "on_screen c"
  shows "\<exists>c'. kcprintf m (str_at fst f) ap c = Some (c', 0) \<and> on_screen c' \<and> (\<forall>i. CRT_SIZE \<le> i \<longrightarrow> crt_buf c' i = crt_buf c i)"
proof -
  have fmt: "format_is (printing m c) (str_at fst f) (\<lambda>j. m (f + word_of_nat j)) k"
    using assms(1) by (auto simp: format_is_def str_at_def printing_def)
  have str: "\<exists>k. ends_at (printing m c) (str_at fst p) k" for p
    using assms(1) by (intro exI [of _ "unat (f + word_of_nat k - p)"]) (auto simp: ends_at_def str_at_def printing_def)
  have "printing m c (m, c, 0)" using assms(3) by (simp add: printing_def below_screen_kept_def)
  then obtain c' where "vprintfmt fst kputch (str_at fst f) 0 ap (m, c, 0) = Some (m, c', 0)" "printing m c (m, c', 0)"
    using kernel.vprintfmt_keeps [OF fmt str, of "(m, c, 0)" 0 ap] assms(2) by (auto simp: printing_def)
  then show ?thesis by (auto simp: kcprintf_def kvcprintf_def printing_def below_screen_kept_def)
qed

end
