(* ===== verification/Kern_Kdebug.thy ===== *)
theory Kern_Kdebug
  imports Lib_String "HOL-Library.While_Combinator" "HOL-Library.Monad_Syntax"
begin

text \<open>
  Debugging information (\<^verbatim>\<open>kern/kdebug.c\<close>): the search in the symbol table and the description of a code
  address. The table is a function from indices to entries; indices are integers, since tables that
  fit into memory have far fewer than \<open>2\<^sup>3\<^sup>0\<close> entries of twelve bytes. Memory is the byte memory of the string
  routines, and \<^verbatim>\<open>user_mem_check\<close> is an argument that says which ranges are readable for the user.
\<close>

record Stab =
  n_strx :: u32
  n_type :: u8
  n_other :: u8
  n_desc :: u16
  n_value :: u32

definition N_FUN :: u8 where "N_FUN = 0x24"
definition N_SLINE :: u8 where "N_SLINE = 0x44"
definition N_SO :: u8 where "N_SO = 0x64"
definition N_SOL :: u8 where "N_SOL = 0x84"
definition N_PSYM :: u8 where "N_PSYM = 0xa0"

subsection \<open>The search\<close>

text \<open>\<^verbatim>\<open>while (m >= l && stabs[m].n_type != type) m--\<close>\<close>

function match_from :: "(int \<Rightarrow> Stab) \<Rightarrow> u8 \<Rightarrow> int \<Rightarrow> int \<Rightarrow> int" where
  "match_from stabs ty l m = (if l \<le> m \<and> n_type (stabs m) \<noteq> ty then match_from stabs ty l (m - 1) else m)"
  by pat_completeness auto

termination match_from
  by (relation "measure (\<lambda>(_, _, l, m). nat (m - l + 1))") auto

declare match_from.simps [simp del]

record search =
  lo :: int
  hi :: int
  any_matches :: bool
  region_left :: int
  region_right :: int
  target :: u32

definition half :: "int \<Rightarrow> int" where
  "half x = (if x < 0 then - (- x div 2) else x div 2)"

definition search_step :: "(int \<Rightarrow> Stab) \<Rightarrow> u8 \<Rightarrow> search \<Rightarrow> search" where
  "search_step stabs ty q =
     (let true_m = half (lo q + hi q); m = match_from stabs ty (lo q) true_m in
      if m < lo q then q\<lparr>lo := true_m + 1\<rparr>
      else let q = q\<lparr>any_matches := True\<rparr> in
        if n_value (stabs m) < target q then q\<lparr>region_left := m, lo := true_m + 1\<rparr>
        else if target q < n_value (stabs m) then q\<lparr>region_right := m - 1, hi := m - 1\<rparr>
        else q\<lparr>region_left := m, lo := m, target := target q + 1\<rparr>)"

text \<open>\<^verbatim>\<open>for (l = *region_right; l > *region_left && stabs[l].n_type != type; l--)\<close>\<close>

function rightmost :: "(int \<Rightarrow> Stab) \<Rightarrow> u8 \<Rightarrow> int \<Rightarrow> int \<Rightarrow> int" where
  "rightmost stabs ty left l = (if left < l \<and> n_type (stabs l) \<noteq> ty then rightmost stabs ty left (l - 1) else l)"
  by pat_completeness auto

termination rightmost
  by (relation "measure (\<lambda>(_, _, left, l). nat (l - left))") auto

declare rightmost.simps [simp del]

definition search_result :: "(int \<Rightarrow> Stab) \<Rightarrow> u8 \<Rightarrow> search \<Rightarrow> int \<times> int" where
  "search_result stabs ty q =
     (if \<not> any_matches q then (region_left q, region_left q - 1)
      else (rightmost stabs ty (region_left q) (region_right q), region_right q))"

definition stab_binsearch :: "(int \<Rightarrow> Stab) \<Rightarrow> int \<Rightarrow> int \<Rightarrow> u8 \<Rightarrow> u32 \<Rightarrow> (int \<times> int) option" where
  "stab_binsearch stabs left right ty addr =
     map_option (search_result stabs ty)
       (while_option (\<lambda>q. lo q \<le> hi q) (search_step stabs ty)
          \<lparr>lo = left, hi = right, any_matches = False, region_left = left, region_right = right, target = addr\<rparr>)"

subsection \<open>Describing an address\<close>

datatype name = Literal string | Pointer u32

record Eipdebuginfo =
  eip_file :: name
  eip_line :: int
  eip_fn_name :: name
  eip_fn_namelen :: u32
  eip_fn_addr :: u32
  eip_fn_narg :: int

record symtab =
  stab_begin :: u32
  stab_end :: u32
  stabstr :: u32
  stabstr_end :: u32

definition get32 :: "bytes_mem \<Rightarrow> u32 \<Rightarrow> u32" where
  "get32 m a = word_cat (m (a + 3)) (word_cat (m (a + 2)) (word_cat (m (a + 1)) (m a) :: u16) :: 24 word)"

definition stab_at :: "bytes_mem \<Rightarrow> u32 \<Rightarrow> int \<Rightarrow> Stab" where
  "stab_at m base i =
     (let a = base + word_of_int (12 * i)
      in \<lparr>n_strx = get32 m a, n_type = m (a + 4), n_other = m (a + 5),
          n_desc = word_cat (m (a + 7)) (m (a + 6)), n_value = get32 m (a + 8)\<rparr>)"

definition USTABDATA :: u32 where "USTABDATA = PTSIZE div 2"

definition stab_count :: "symtab \<Rightarrow> int" where
  "stab_count t = sint (int_div (stab_end t - stab_begin t) 12)"

text \<open>Which table is used: the kernel's (given by the linker) or, if it is readable, that of the program.\<close>

definition find_symtab :: "bytes_mem \<Rightarrow> (u32 \<Rightarrow> u32 \<Rightarrow> bool) \<Rightarrow> symtab \<Rightarrow> u32 \<Rightarrow> symtab option" where
  "find_symtab m user_mem_ok ktab addr =
     (if ULIM \<le> addr then Some ktab
      else if \<not> user_mem_ok USTABDATA 16 then None
      else let t = \<lparr>stab_begin = get32 m USTABDATA, stab_end = get32 m (USTABDATA + 4),
                    stabstr = get32 m (USTABDATA + 8), stabstr_end = get32 m (USTABDATA + 12)\<rparr>
           in if \<not> user_mem_ok (stab_begin t) (word_of_int (stab_count t)) \<or>
                 \<not> user_mem_ok (stabstr t) (stabstr_end t - stabstr t)
              then None else Some t)"

definition name_length :: "bytes_mem \<Rightarrow> name \<Rightarrow> u32 option" where
  "name_length m n = (case n of
       Literal cs \<Rightarrow> Some (word_of_nat (length (takeWhile (\<lambda>c. c \<noteq> CHR '':'') cs)))
     | Pointer p \<Rightarrow> map_option (\<lambda>q. q - p) (strfind m p 58))"

text \<open>The loop that looks backwards for the file name, and the one that counts the parameters.\<close>

function file_stab :: "(int \<Rightarrow> Stab) \<Rightarrow> int \<Rightarrow> int \<Rightarrow> int" where
  "file_stab stabs lfile l =
     (if lfile \<le> l \<and> n_type (stabs l) \<noteq> N_SOL \<and> (n_type (stabs l) \<noteq> N_SO \<or> n_value (stabs l) = 0)
      then file_stab stabs lfile (l - 1) else l)"
  by pat_completeness auto

termination file_stab
  by (relation "measure (\<lambda>(_, lfile, l). nat (l - lfile + 1))") auto

declare file_stab.simps [simp del]

function count_args :: "(int \<Rightarrow> Stab) \<Rightarrow> int \<Rightarrow> int \<Rightarrow> int" where
  "count_args stabs l rfun =
     (if l < rfun \<and> n_type (stabs l) = N_PSYM then 1 + count_args stabs (l + 1) rfun else 0)"
  by pat_completeness auto

termination count_args
  by (relation "measure (\<lambda>(_, l, rfun). nat (rfun - l))") auto

declare count_args.simps [simp del]

definition unknown_info :: "u32 \<Rightarrow> Eipdebuginfo" where
  "unknown_info addr =
     \<lparr>eip_file = Literal ''<unknown>'', eip_line = 0, eip_fn_name = Literal ''<unknown>'', eip_fn_namelen = 9,
      eip_fn_addr = addr, eip_fn_narg = 0\<rparr>"

text \<open>The name of an entry, if it lies in the string table.\<close>

definition stab_name :: "symtab \<Rightarrow> Stab \<Rightarrow> name \<Rightarrow> name" where
  "stab_name t e old = (if n_strx e < stabstr_end t - stabstr t then Pointer (stabstr t + n_strx e) else old)"

text \<open>The last part: line number, file name and parameters; the result is the return value and the filled structure.\<close>

definition line_info ::
  "symtab \<Rightarrow> (int \<Rightarrow> Stab) \<Rightarrow> int \<Rightarrow> int \<Rightarrow> int \<Rightarrow> int \<Rightarrow> int \<Rightarrow> u32 \<Rightarrow> Eipdebuginfo \<Rightarrow> (int \<times> Eipdebuginfo) option" where
  "line_info t stabs lfile lfun rfun lline rline addr info =
     do { (lline, rline) \<leftarrow> stab_binsearch stabs lline rline N_SLINE addr;
          if lline \<le> rline
          then let info = info\<lparr>eip_line := uint (n_desc (stabs lline))\<rparr>;
                   l = file_stab stabs lfile lline;
                   info = (if lfile \<le> l then info\<lparr>eip_file := stab_name t (stabs l) (eip_file info)\<rparr> else info);
                   info = (if lfun < rfun
                           then info\<lparr>eip_fn_narg := eip_fn_narg info + count_args stabs (lfun + 1) rfun\<rparr> else info)
               in Some (0, info)
          else Some (- 1, info) }"

definition function_info ::
  "bytes_mem \<Rightarrow> symtab \<Rightarrow> (int \<Rightarrow> Stab) \<Rightarrow> int \<Rightarrow> int \<Rightarrow> u32 \<Rightarrow> Eipdebuginfo \<Rightarrow> (int \<times> Eipdebuginfo) option" where
  "function_info m t stabs lfile rfile addr info =
     do { (lfun, rfun) \<leftarrow> stab_binsearch stabs lfile rfile N_FUN addr;
          let (info, addr, lline, rline) =
            (if lfun \<le> rfun
             then let e = stabs lfun
                  in (info\<lparr>eip_fn_name := stab_name t e (eip_fn_name info), eip_fn_addr := n_value e\<rparr>,
                      addr - n_value e, lfun, rfun)
             else (info\<lparr>eip_fn_addr := addr\<rparr>, addr, lfile, rfile));
          n \<leftarrow> name_length m (eip_fn_name info);
          line_info t stabs lfile lfun rfun lline rline addr (info\<lparr>eip_fn_namelen := n\<rparr>) }"

definition debuginfo_eip ::
  "bytes_mem \<Rightarrow> (u32 \<Rightarrow> u32 \<Rightarrow> bool) \<Rightarrow> symtab \<Rightarrow> u32 \<Rightarrow> (int \<times> Eipdebuginfo) option" where
  "debuginfo_eip m user_mem_ok ktab addr =
     (let info = unknown_info addr in
      case find_symtab m user_mem_ok ktab addr of
        None \<Rightarrow> Some (- 1, info)
      | Some t \<Rightarrow>
          if stabstr_end t \<le> stabstr t \<or> m (stabstr_end t - 1) \<noteq> 0 then Some (- 1, info)
          else let stabs = stab_at m (stab_begin t)
               in do { (lfile, rfile) \<leftarrow> stab_binsearch stabs 0 (stab_count t - 1) N_SO addr;
                       if lfile = 0 then Some (- 1, info)
                       else function_info m t stabs lfile rfile addr info })"


subsection \<open>Termination\<close>

lemma half_between: "l \<le> r \<Longrightarrow> l \<le> half (l + r) \<and> half (l + r) \<le> r"
  unfolding half_def by presburger

lemma match_from_spec:
  "match_from stabs ty l m \<le> m \<and>
   (l \<le> match_from stabs ty l m \<longrightarrow> n_type (stabs (match_from stabs ty l m)) = ty) \<and>
   (\<forall>i. match_from stabs ty l m < i \<longrightarrow> l \<le> i \<longrightarrow> i \<le> m \<longrightarrow> n_type (stabs i) \<noteq> ty)"
proof (induction stabs ty l m rule: match_from.induct)
  case (1 stabs ty l m)
  show ?case
  proof (cases "l \<le> m \<and> n_type (stabs m) \<noteq> ty")
    case True
    have "n_type (stabs i) \<noteq> ty" if "i \<le> m" "\<not> i \<le> m - 1" for i
    proof -
      have "i = m" using that by simp
      then show ?thesis using True by simp
    qed
    then show ?thesis using 1 True unfolding match_from.simps [of stabs ty l m] if_P [OF True] by fastforce
  next
    case False
    then show ?thesis unfolding match_from.simps [of stabs ty l m] if_not_P [OF False] by auto
  qed
qed

text \<open>
  Every round but an exact hit shortens the interval. An exact hit moves the target past the entry, so
  that the same entry cannot be hit again.
\<close>

definition search_measure :: "(int \<Rightarrow> Stab) \<Rightarrow> u8 \<Rightarrow> search \<Rightarrow> nat" where
  "search_measure stabs ty q =
     2 * nat (hi q - lo q + 1) +
     (if n_value (stabs (match_from stabs ty (lo q) (half (lo q + hi q)))) = target q then 1 else 0)"

lemma search_step_decreases:
  assumes "lo q \<le> hi q"
  shows "search_measure stabs ty (search_step stabs ty q) < search_measure stabs ty q"
proof -
  let ?t = "half (lo q + hi q)" and ?m = "match_from stabs ty (lo q) (half (lo q + hi q))"
  have t: "lo q \<le> ?t" "?t \<le> hi q" using half_between [OF assms] by simp_all
  have m: "?m \<le> ?t" using match_from_spec by blast
  have small: "search_measure stabs ty q' < search_measure stabs ty q" if "hi q' - lo q' < hi q - lo q" for q'
  proof -
    have "nat (hi q' - lo q' + 1) < nat (hi q - lo q + 1)" using that assms by linarith
    then show ?thesis by (auto simp: search_measure_def)
  qed
  consider "?m < lo q" | "lo q \<le> ?m" "n_value (stabs ?m) < target q" | "lo q \<le> ?m" "target q < n_value (stabs ?m)"
    | "lo q \<le> ?m" "n_value (stabs ?m) = target q" by fastforce
  then show ?thesis
  proof cases
    case 4
    have s: "search_step stabs ty q = q\<lparr>any_matches := True, region_left := ?m, lo := ?m, target := target q + 1\<rparr>"
      using 4 by (simp add: search_step_def Let_def)
    show ?thesis
    proof (cases "?m = lo q")
      case True
      then show ?thesis unfolding s using 4 by (simp add: search_measure_def)
    next
      case False
      then show ?thesis using 4 by (intro small) (simp add: s)
    qed
  qed (use t m in \<open>intro small; simp add: search_step_def Let_def\<close>)+
qed

lemma stab_binsearch_returns: "\<exists>y. stab_binsearch stabs left right ty addr = Some y"
proof -
  let ?q = "\<lparr>lo = left, hi = right, any_matches = False, region_left = left, region_right = right, target = addr\<rparr>"
  have "\<exists>t. while_option (\<lambda>q. lo q \<le> hi q) (search_step stabs ty) ?q = Some t"
    by (rule measure_while_option_Some [where P = "\<lambda>_. True" and f = "search_measure stabs ty"])
      (simp_all add: search_step_decreases)
  then show ?thesis by (auto simp: stab_binsearch_def)
qed


subsection \<open>Correctness\<close>

definition is_match :: "(int \<Rightarrow> Stab) \<Rightarrow> u8 \<Rightarrow> int \<Rightarrow> int \<Rightarrow> int \<Rightarrow> bool" where
  "is_match stabs ty L R i \<longleftrightarrow> L \<le> i \<and> i \<le> R \<and> n_type (stabs i) = ty"

text \<open>
  The contract of the comment: entries of the type are in ascending order. Besides, no entry has the
  value \<open>addr + 1\<close>, to which the search moves its target after an exact hit, and \<open>addr + 1\<close> does not wrap.
\<close>

definition table_ok :: "(int \<Rightarrow> Stab) \<Rightarrow> u8 \<Rightarrow> int \<Rightarrow> int \<Rightarrow> u32 \<Rightarrow> bool" where
  "table_ok stabs ty L R addr \<longleftrightarrow> addr \<noteq> 0xFFFFFFFF \<and>
     (\<forall>i j. is_match stabs ty L R i \<longrightarrow> is_match stabs ty L R j \<longrightarrow> i \<le> j \<longrightarrow> n_value (stabs i) \<le> n_value (stabs j)) \<and>
     (\<forall>i. is_match stabs ty L R i \<longrightarrow> n_value (stabs i) \<noteq> addr + 1)"

definition search_inv :: "(int \<Rightarrow> Stab) \<Rightarrow> u8 \<Rightarrow> int \<Rightarrow> int \<Rightarrow> u32 \<Rightarrow> search \<Rightarrow> bool" where
  "search_inv stabs ty L R addr q \<longleftrightarrow>
     L \<le> lo q \<and> hi q \<le> R \<and> region_right q = hi q \<and> (target q = addr \<or> target q = addr + 1) \<and>
     (\<forall>i. is_match stabs ty L R i \<longrightarrow> i < lo q \<longrightarrow> n_value (stabs i) \<le> addr) \<and>
     (\<forall>i. is_match stabs ty L R i \<longrightarrow> hi q < i \<longrightarrow> addr < n_value (stabs i)) \<and>
     (hi q = R \<or> is_match stabs ty L R (hi q + 1)) \<and>
     (region_left q = L \<or> is_match stabs ty L R (region_left q) \<and> n_value (stabs (region_left q)) \<le> addr) \<and>
     (\<not> any_matches q \<longrightarrow> hi q = R \<and> (\<forall>i. is_match stabs ty L R i \<longrightarrow> lo q \<le> i))"

lemma below_next: "x < addr + 1 \<Longrightarrow> x \<le> addr" "addr + 1 < x \<Longrightarrow> addr < x" if "addr \<noteq> 0xFFFFFFFF" for x addr :: u32
proof -
  have "unat addr \<noteq> unat (0xFFFFFFFF :: u32)" using that by (metis unsigned_word_eqI)
  then have "unat (addr + 1) = unat addr + 1" using unat_lt_4G [of addr] by (simp add: unat_word_ariths)
  then show "x < addr + 1 \<Longrightarrow> x \<le> addr" "addr + 1 < x \<Longrightarrow> addr < x" by (simp_all add: word_less_nat_alt word_le_nat_alt)
qed

lemma search_step_inv:
  assumes ok: "table_ok stabs ty L R addr" and inv: "search_inv stabs ty L R addr q" and le: "lo q \<le> hi q"
  shows "search_inv stabs ty L R addr (search_step stabs ty q)"
proof -
  let ?t = "half (lo q + hi q)" and ?m = "match_from stabs ty (lo q) (half (lo q + hi q))" and ?M = "is_match stabs ty L R"
  have t: "lo q \<le> ?t" "?t \<le> hi q" using half_between [OF le] by simp_all
  have m: "?m \<le> ?t" "lo q \<le> ?m \<Longrightarrow> n_type (stabs ?m) = ty" "\<And>i. ?m < i \<Longrightarrow> lo q \<le> i \<Longrightarrow> i \<le> ?t \<Longrightarrow> n_type (stabs i) \<noteq> ty"
    using match_from_spec [of stabs ty "lo q" ?t] by blast+
  have gap: "i \<le> ?m" if "?M i" "lo q \<le> i" "i \<le> ?t" for i using m(3) [of i] that by (force simp: is_match_def)
  have bounds: "L \<le> lo q" "hi q \<le> R" using inv by (simp_all add: search_inv_def)
  have M: "?M ?m" if "lo q \<le> ?m" using that m t bounds by (simp add: is_match_def)
  have sorted: "n_value (stabs i) \<le> n_value (stabs j)" if "?M i" "?M j" "i \<le> j" for i j using ok that by (simp add: table_ok_def)
  have next_ne: "n_value (stabs i) \<noteq> addr + 1" if "?M i" for i using ok that by (simp add: table_ok_def)
  have top: "addr \<noteq> 0xFFFFFFFF" using ok by (simp add: table_ok_def)
  consider "?m < lo q" | "lo q \<le> ?m" "n_value (stabs ?m) < target q" | "lo q \<le> ?m" "target q < n_value (stabs ?m)"
    | "lo q \<le> ?m" "n_value (stabs ?m) = target q" by fastforce
  then show ?thesis
  proof cases
    case 1
    then have "\<not> (?M i \<and> lo q \<le> i \<and> i \<le> ?t)" for i using gap [of i] by auto
    then have c: "i < lo q" if "?M i" "i < ?t + 1" for i using that by (metis not_less zle_add1_eq_le)
    then have g: "?t + 1 \<le> i" if "?M i" "lo q \<le> i" for i using that by (metis not_less)
    have n: "\<not> any_matches q \<longrightarrow> ?M i \<longrightarrow> ?t + 1 \<le> i" for i using inv g [of i] unfolding search_inv_def by blast
    have s: "search_step stabs ty q = q\<lparr>lo := ?t + 1\<rparr>" using 1 by (simp add: search_step_def Let_def)
    show ?thesis unfolding s search_inv_def using inv t c n unfolding search_inv_def by (cases "any_matches q") simp_all
  next
    case 2
    have v: "n_value (stabs ?m) \<le> addr" using 2 inv below_next(1) [OF top] by (auto simp: search_inv_def)
    have "n_value (stabs i) \<le> addr" if "?M i" "i < ?t + 1" for i
    proof (cases "i < lo q")
      case False
      then have "i \<le> ?m" using gap that by simp
      then show ?thesis using sorted [OF that(1) M] 2(1) v by simp
    qed (use inv that in \<open>simp add: search_inv_def\<close>)
    then show ?thesis using inv 2 t v M by (simp add: search_inv_def search_step_def Let_def)
  next
    case 3
    have v: "addr < n_value (stabs ?m)" using 3 inv below_next(2) [OF top] by (auto simp: search_inv_def)
    have c: "addr < n_value (stabs i)" if "?M i" "?m - 1 < i" for i
      using sorted [OF M that(1)] 3(1) that v by simp
    have s: "search_step stabs ty q = q\<lparr>any_matches := True, region_right := ?m - 1, hi := ?m - 1\<rparr>"
      using 3 by (simp add: search_step_def Let_def)
    have le: "?m - 1 \<le> R" using m(1) t bounds by linarith
    show ?thesis unfolding s search_inv_def using inv c M [OF 3(1)] le unfolding search_inv_def by simp
  next
    case 4
    have a: "target q = addr" using inv 4 next_ne [OF M] by (auto simp: search_inv_def)
    have "n_value (stabs i) \<le> addr" if "?M i" "i < ?m" for i using sorted [OF that(1) M] 4 that a by simp
    then show ?thesis using inv 4 a M bounds by (simp add: search_inv_def search_step_def Let_def)
  qed
qed


lemma rightmost_spec:
  "left \<le> l \<Longrightarrow> left \<le> rightmost stabs ty left l \<and> rightmost stabs ty left l \<le> l \<and>
   (\<forall>i. rightmost stabs ty left l < i \<longrightarrow> i \<le> l \<longrightarrow> n_type (stabs i) \<noteq> ty) \<and>
   (n_type (stabs (rightmost stabs ty left l)) = ty \<or> rightmost stabs ty left l = left)"
proof (induction stabs ty left l rule: rightmost.induct)
  case (1 stabs ty left l)
  show ?case
  proof (cases "left < l \<and> n_type (stabs l) \<noteq> ty")
    case True
    have "n_type (stabs i) \<noteq> ty" if "i \<le> l" "\<not> i \<le> l - 1" for i
    proof -
      have "i = l" using that by simp
      then show ?thesis using True by simp
    qed
    then show ?thesis using 1 True unfolding rightmost.simps [of stabs ty left l] if_P [OF True] by fastforce
  next
    case False
    then show ?thesis using 1(2) unfolding rightmost.simps [of stabs ty left l] if_not_P [OF False] by auto
  qed
qed

text \<open>What the search finds: the last entry of the type at or below the address, and the index before the next entry of the type.\<close>

definition brackets :: "(int \<Rightarrow> Stab) \<Rightarrow> u8 \<Rightarrow> int \<Rightarrow> int \<Rightarrow> u32 \<Rightarrow> int \<Rightarrow> int \<Rightarrow> bool" where
  "brackets stabs ty L R addr l r \<longleftrightarrow>
     is_match stabs ty L R l \<and> n_value (stabs l) \<le> addr \<and> l \<le> r \<and> r \<le> R \<and>
     (r = R \<or> is_match stabs ty L R (r + 1)) \<and>
     (\<forall>i. is_match stabs ty L R i \<longrightarrow> i \<noteq> l \<longrightarrow> i < l \<and> n_value (stabs i) \<le> addr \<or> r < i \<and> addr < n_value (stabs i))"

lemma search_finished:
  assumes inv: "search_inv stabs ty L R addr q" and fin: "hi q < lo q"
    and i: "is_match stabs ty L R i" "n_value (stabs i) \<le> addr"
  shows "\<exists>l r. search_result stabs ty q = (l, r) \<and> brackets stabs ty L R addr l r"
proof -
  let ?M = "is_match stabs ty L R" and ?l = "rightmost stabs ty (region_left q) (hi q)"
  have above: "addr < n_value (stabs j)" if "?M j" "hi q < j" for j using inv that by (simp add: search_inv_def)
  have below: "n_value (stabs j) \<le> addr" if "?M j" "j \<le> hi q" for j using inv that fin by (simp add: search_inv_def)
  have ih: "i \<le> hi q" using above [OF i(1)] i(2) by (meson not_less)
  have any: "any_matches q" using inv fin i(1) ih by (force simp: search_inv_def)
  have L: "L \<le> i" using i by (simp add: is_match_def)
  have lh: "region_left q \<le> hi q"
    using inv above [of "region_left q"] L ih by (auto simp: search_inv_def)
  note r = rightmost_spec [OF lh, of stabs ty]
  have "n_type (stabs ?l) = ty"
  proof (rule ccontr)
    assume n: "n_type (stabs ?l) \<noteq> ty"
    then have e: "?l = region_left q" using r by blast
    then have "region_left q = L" using inv n by (auto simp: search_inv_def is_match_def)
    then have "i = L \<or> ?l < i" using L e by auto
    then show False using r ih i(1) n e \<open>region_left q = L\<close> by (auto simp: is_match_def)
  qed
  moreover have "L \<le> region_left q" using inv by (auto simp: search_inv_def is_match_def)
  ultimately have M: "?M ?l" using r inv by (auto simp: is_match_def search_inv_def)
  have others: "j < ?l \<or> hi q < j" if "?M j" "j \<noteq> ?l" for j
  proof -
    have "\<not> (?l < j \<and> j \<le> hi q)" using r that(1) by (auto simp: is_match_def)
    then show ?thesis using that(2) by linarith
  qed
  have "brackets stabs ty L R addr ?l (hi q)"
    unfolding brackets_def using M below [OF M] r inv others below above by (auto simp: search_inv_def)
  then show ?thesis using any inv by (auto simp: search_result_def search_inv_def)
qed

text \<open>
  \<^bold>\<open>C24.\<close> The search in the symbol table always ends, on every table and every interval, sorted or not, although a
  hit does not shorten the interval. If the entries of the type are sorted, some entry is at or
  below the address and none lies exactly one above it, the result is the last entry at or below the
  address together with the end of its range.
\<close>

theorem stab_binsearch_total:
  "\<exists>l r. stab_binsearch stabs L R ty addr = Some (l, r) \<and>
     (table_ok stabs ty L R addr \<and> (\<exists>i. is_match stabs ty L R i \<and> n_value (stabs i) \<le> addr) \<longrightarrow>
      brackets stabs ty L R addr l r)"
proof -
  let ?q = "\<lparr>lo = L, hi = R, any_matches = False, region_left = L, region_right = R, target = addr\<rparr>"
  obtain l r where y: "stab_binsearch stabs L R ty addr = Some (l, r)" using stab_binsearch_returns [of stabs L R ty addr] by auto
  then obtain q where q: "while_option (\<lambda>q. lo q \<le> hi q) (search_step stabs ty) ?q = Some q" "search_result stabs ty q = (l, r)"
    by (auto simp: stab_binsearch_def)
  have "brackets stabs ty L R addr l r" if ok: "table_ok stabs ty L R addr" and i: "is_match stabs ty L R i" "n_value (stabs i) \<le> addr" for i
  proof -
    have "search_inv stabs ty L R addr ?q" by (auto simp: search_inv_def is_match_def)
    then have "search_inv stabs ty L R addr q"
      using while_option_rule [where P = "search_inv stabs ty L R addr", OF _ q(1)] search_step_inv [OF ok] by blast
    moreover have "hi q < lo q" using while_option_stop [OF q(1)] by simp
    ultimately show ?thesis using search_finished i q(2) by (metis Pair_inject)
  qed
  then show ?thesis using y by blast
qed


text \<open>The table of the comment in the source, and the address it looks for.\<close>

definition comment_stabs :: "int \<Rightarrow> Stab" where
  "comment_stabs i =
     (case map_of [(0, 0xf0100000), (13, 0xf0100040), (117, 0xf0100176), (118, 0xf0100178), (555, 0xf0100652),
                   (556, 0xf0100654), (657, 0xf0100849)] i of
        Some v \<Rightarrow> \<lparr>n_strx = 0, n_type = N_SO, n_other = 0, n_desc = 0, n_value = v\<rparr>
      | None \<Rightarrow> \<lparr>n_strx = 0, n_type = N_SLINE, n_other = 0, n_desc = 0, n_value = 0\<rparr>)"

lemma comment_stabs_match:
  "is_match comment_stabs N_SO 0 657 i \<longleftrightarrow> i = 0 \<or> i = 13 \<or> i = 117 \<or> i = 118 \<or> i = 555 \<or> i = 556 \<or> i = 657"
  by (auto simp: is_match_def comment_stabs_def N_SO_def N_SLINE_def)

lemma comment_stabs_values:
  "n_value (comment_stabs 0) = 0xf0100000" "n_value (comment_stabs 13) = 0xf0100040" "n_value (comment_stabs 117) = 0xf0100176"
  "n_value (comment_stabs 118) = 0xf0100178" "n_value (comment_stabs 555) = 0xf0100652" "n_value (comment_stabs 556) = 0xf0100654"
  "n_value (comment_stabs 657) = 0xf0100849"
  by (simp_all add: comment_stabs_def)

lemma comment_stabs_ok: "table_ok comment_stabs N_SO 0 657 0xf0100184"
  unfolding table_ok_def comment_stabs_match by (auto simp: comment_stabs_values)

theorem stab_binsearch_total_witness:
  "\<exists>l r. stab_binsearch comment_stabs 0 657 N_SO 0xf0100184 = Some (l, r) \<and> brackets comment_stabs N_SO 0 657 0xf0100184 l r"
proof -
  have "is_match comment_stabs N_SO 0 657 118 \<and> n_value (comment_stabs 118) \<le> 0xf0100184"
    by (simp add: comment_stabs_match comment_stabs_values)
  then show ?thesis using stab_binsearch_total [of comment_stabs 0 657 N_SO "0xf0100184"] comment_stabs_ok by blast
qed

text \<open>
  The condition that no entry lies exactly one above the address is needed: with lines at the offsets 0
  and 1 the search for offset 0 goes on to the entry at 1.
\<close>

definition adjacent_lines :: "int \<Rightarrow> Stab" where
  "adjacent_lines i = \<lparr>n_strx = 0, n_type = N_SLINE, n_other = 0, n_desc = 0, n_value = (if i = 1 then 1 else 0)\<rparr>"

lemma stab_binsearch_adjacent: "stab_binsearch adjacent_lines 0 1 N_SLINE 0 = Some (1, 1)"
  by code_simp

lemma stab_binsearch_comment: "stab_binsearch comment_stabs 0 657 N_SO 0xf0100184 = Some (118, 554)"
  by code_simp

text \<open>
  When every matching entry lies above the address, the interval that comes back is not empty: it is the
  single index before the first entry, although no entry contains the address.
\<close>

definition late_stabs :: "int \<Rightarrow> Stab" where
  "late_stabs = (\<lambda>_. \<lparr>n_strx = 0, n_type = N_SO, n_other = 0, n_desc = 0, n_value = 100\<rparr>)"

lemma stab_binsearch_above: "stab_binsearch late_stabs 0 0 N_SO 50 = Some (-1, -1)"
  by code_simp

end
