(* ===== verification/Lib_Fork_Spec.thy ===== *)
theory Lib_Fork_Spec
  imports Lib_Fork
begin

text \<open>
  Copy-on-write is invisible. The view of a page is the contents behind an address of an environment;
  \<^const>\<open>duppage\<close> and \<^const>\<open>pgfault\<close> keep all views, the first gives the child the parent's view, and the
  second makes the page of the faulting environment private and writable.
\<close>

unbundle bit_operations_syntax

subsection \<open>Entries and views\<close>

definition page_view :: "kstate \<Rightarrow> nat \<Rightarrow> nat \<Rightarrow> (nat \<Rightarrow> u32) option" where
  "page_view s e v = map_option (\<lambda>pte i. if i < 1024 then mem s (unat (PGNUM pte) * 1024 + i) else 0)
     (aspace (mem s) (env_dir s e) v)"

lemma bit_page2pa: "n < 12 \<Longrightarrow> \<not> bit (page2pa p) n"
  unfolding page2pa_def by (simp add: bit_push_bit_iff)

lemma entry_bits: "n < 12 \<Longrightarrow> 0 < n \<Longrightarrow> bit (page2pa p OR PTE_P OR perm) n \<longleftrightarrow> bit perm n"
  using bit_page2pa [of n p] by (simp add: bit_or_iff PTE_P_def bit_1_iff)

lemma and_bit: "x AND PTE_W = 0 \<longleftrightarrow> \<not> bit x 1" "x AND PTE_U = 0 \<longleftrightarrow> \<not> bit x 2" "x AND PTE_P = 0 \<longleftrightarrow> \<not> bit x 0"
  using and_exp_eq_0_iff_not_bit [of x 1] and_exp_eq_0_iff_not_bit [of x 2] and_exp_eq_0_iff_not_bit [of x 0]
  by (simp_all add: pte_defs)

lemma entry_flags:
  "(page2pa p OR PTE_P OR perm) AND PTE_W = 0 \<longleftrightarrow> perm AND PTE_W = 0"
  "(page2pa p OR PTE_P OR perm) AND PTE_U = 0 \<longleftrightarrow> perm AND PTE_U = 0"
  unfolding and_bit by (simp_all add: entry_bits)

lemma entry_page: "p < 1048576 \<Longrightarrow> perm AND NOT PTE_SYSCALL = 0 \<Longrightarrow> unat (PGNUM (page2pa p OR PTE_P OR perm)) = p"
  using new_pte_page [of p perm, OF _ perm_lt] by (simp add: pte_page_Some)

text \<open>Views survive as long as entries keep their pages and data pages their contents.\<close>

lemma view_eq:
  assumes "kern_inv K t xs fl" "e \<in> live t" "v < user_vpns"
    and "aspace (mem t) (env_dir t e) v = Some pte'" "aspace (mem s) (env_dir s d) w = Some pte" "unat (PGNUM pte') = unat (PGNUM pte)"
    and same: "\<And>i. unat (PGNUM pte') \<notin> pt_pages (mem t) (dirs K t) \<Longrightarrow> i < 1024 \<Longrightarrow>
      mem t (unat (PGNUM pte') * 1024 + i) = mem s (unat (PGNUM pte) * 1024 + i)"
  shows "page_view t e v = page_view s d w"
proof -
  have "mapped (mem t) (env_dir t e) v = Some (unat (PGNUM pte'))" using assms(3,4) by (simp add: aspace_mapped)
  then have "unat (PGNUM pte') \<notin> pt_pages (mem t) (dirs K t)"
    using vm_invD(8) [OF kern_invD(1) [OF assms(1)] kern_invD(11) [OF assms(1,2)] assms(3)] by blast
  then show ?thesis using same assms(4-6) by (simp add: page_view_def fun_eq_iff)
qed

lemma frame_live: "vm_frame s t \<Longrightarrow> live t = live s \<and> env_dir t = env_dir s \<and> dirs K t = dirs K s \<and> curenv t = curenv s \<and> envs t = envs s"
  by (simp add: live_def env_dir_def dirs_def fun_eq_iff vm_frameD)

lemma entry_mapped:
  assumes "kern_inv K s xs fl" "e \<in> live s" "aspace (mem s) (env_dir s e) v = Some pte"
  shows "v < user_vpns" "unat (PGNUM pte) < 65536" "unat (PGNUM pte) \<notin> set xs" "unat (PGNUM pte) \<notin> pt_pages (mem s) (dirs K s)"
    "table (mem s) (env_dir s e) (v div 1024) \<noteq> None"
proof -
  show v: "v < user_vpns" using assms(3) by (auto simp: aspace_def split: if_splits)
  then have m: "mapped (mem s) (env_dir s e) v = Some (unat (PGNUM pte))" using assms(3) by (simp add: aspace_mapped)
  note I = kern_invD [OF assms(1)]
  show "unat (PGNUM pte) < 65536" "unat (PGNUM pte) \<notin> pt_pages (mem s) (dirs K s)"
    using vm_invD(8) [OF I(1) I(11) [OF assms(2)] v m] I(4) by auto
  show "unat (PGNUM pte) \<notin> set xs" by (rule mapped_ref(2) [OF I(1) I(11) [OF assms(2)] v m])
  show "table (mem s) (env_dir s e) (v div 1024) \<noteq> None"
    using assms(3) by (auto simp: aspace_def pte_at_def split: if_splits option.splits)
qed

subsection \<open>Mapping a page\<close>

lemma map_page:
  assumes inv: "kern_inv K s xs fl" and se: "envid2env a True s = Ret (0, Some se) s" "se \<in> live s"
    and de: "envid2env b True s = Ret (0, Some de) s" "de \<in> live s"
    and va: "srcva < UTOP" "PGOFF srcva = 0" "dstva < UTOP" "PGOFF dstva = 0" "\<not> bad_perm perm"
    and pte: "aspace (mem s) (env_dir s se) (vpn srcva) = Some pte" "perm AND PTE_W = 0 \<or> pte AND PTE_W \<noteq> 0"
      "pp_ref (pages s (unat (PGNUM pte))) \<noteq> 0xFFFF"
    and room: "table (mem s) (env_dir s de) (unat (PDX dstva)) \<noteq> None \<or> xs \<noteq> []"
  obtains t ys where "sys_page_map a srcva b dstva perm s = Ret 0 t" "kern_inv K t ys fl" "vm_frame s t"
    "set_entry (dirs K s) (env_dir s de) (vpn dstva) (Some (page2pa (unat (PGNUM pte)) OR PTE_P OR perm)) s t"
    "data_frame (dirs K s) s t"
    "\<forall>q. q \<notin> pt_pages (mem t) (dirs K s) \<longrightarrow> pp_ref (pages t q) =
       insert_refs (mapped (mem s) (env_dir s de) (vpn dstva)) (unat (PGNUM pte)) (\<lambda>q. pp_ref (pages s q)) q"
proof -
  have b: "sys_page_map a srcva b dstva perm s = lookup_and_map se srcva de dstva perm s"
    using va(2,4,5) se(1) de(1) va(1,3) [folded not_le] by (simp add: sys_page_map_def with_env_def)
  have pm: "perm AND NOT PTE_SYSCALL = 0" using va(5) by (auto simp: bad_perm_def Let_def)
  have rf: "can_share se srcva s" using pte by (simp add: can_share_def)
  from inv se(2) de(2) va(1,3) pm rf show thesis
  proof (cases rule: lookup_and_map_cases)
    case (mapd s' xs' pte')
    have "pte' = pte" using mapd(5) pte(1) by simp
    then show thesis using that [OF _ mapd(2,3) _ mapd(4)] mapd(1,7,9) b by simp
  next
    case refused
    then show thesis using pte(1,2) by auto
  next
    case (full pte')
    then show thesis using room by simp
  qed
qed


lemma page_addr:
  assumes "pn < user_vpns"
  shows "vpn (word_of_nat pn * PGSIZE) = pn" "PGOFF (word_of_nat pn * PGSIZE) = 0" "word_of_nat pn * PGSIZE < UTOP"
    "unat (PDX (word_of_nat pn * PGSIZE)) = pn div 1024"
proof -
  have u: "unat (word_of_nat pn * PGSIZE :: u32) = pn * 4096" using assms by (simp add: unat_word_ariths unat_of_nat PGSIZE_def)
  show "word_of_nat pn * PGSIZE < UTOP" using assms u by (simp add: word_less_nat_alt layout_defs)
  show v: "vpn (word_of_nat pn * PGSIZE) = pn" using u by (simp add: vpn_def word_arith)
  show "PGOFF (word_of_nat pn * PGSIZE) = 0" using u by (simp add: word_unat_eq_iff word_arith)
  show "unat (PDX (word_of_nat pn * PGSIZE)) = pn div 1024" using vpn_split(1) [of "word_of_nat pn * PGSIZE"] v by simp
qed

lemma set_entry_at:
  assumes "set_entry (dirs K s) (env_dir s d) v x s t" "kern_inv K s xs fl" "d \<in> live s" "e \<in> live s"
  shows "aspace (mem t) (env_dir s e) w = (if e = d \<and> w = v then x else aspace (mem s) (env_dir s e) w)"
proof -
  note I = kern_invD [OF assms(2)]
  have "env_dir s e = env_dir s d \<longleftrightarrow> e = d" using I(5) assms(3,4) by (auto dest: inj_onD)
  then show ?thesis using assms(1) I(11) [OF assms(4)] by (auto simp: set_entry_def)
qed

text \<open>Mapping a page that keeps the frame of the entry, or fills an entry, changes no other view.\<close>

lemma map_views:
  assumes inv: "kern_inv K s xs fl" "kern_inv K t ys fl" and fr: "vm_frame s t" and df: "data_frame (dirs K s) s t"
    and se: "set_entry (dirs K s) (env_dir s d) v (Some pte') s t" and d: "d \<in> live s" and e: "e \<in> live s"
    and src: "c \<in> live s" "aspace (mem s) (env_dir s c) u = Some pte" "unat (PGNUM pte') = unat (PGNUM pte)" and v: "v < user_vpns"
  shows "page_view t e w = (if e = d \<and> w = v then page_view s c u else page_view s e w)"
proof -
  note F = frame_live [OF fr, of K]
  have at: "aspace (mem t) (env_dir t e) w = (if e = d \<and> w = v then Some pte' else aspace (mem s) (env_dir s e) w)"
    using set_entry_at [OF se inv(1) d e] F by simp
  have same: "mem t (q * 1024 + i) = mem s (q * 1024 + i)" if "q \<notin> pt_pages (mem t) (dirs K t)" "i < 1024" for q i
    using df that F by (simp add: data_frame_def)
  have et: "e \<in> live t" using e F by simp
  show ?thesis
  proof (cases "e = d \<and> w = v")
    case True
    then have "page_view t e w = page_view s c u"
      using view_eq [OF inv(2) et _ _ src(2,3), of w] at same src(3) v by simp
    then show ?thesis using True by simp
  next
    case False
    show ?thesis
    proof (cases "aspace (mem s) (env_dir s e) w")
      case None
      then show ?thesis unfolding if_not_P [OF False] using at False by (auto simp: page_view_def)
    next
      case (Some q)
      have "page_view t e w = page_view s e w"
        using view_eq [OF inv(2) et entry_mapped(1) [OF inv(1) e Some] _ Some refl] at same Some False by simp
      then show ?thesis unfolding if_not_P [OF False] .
    qed
  qed
qed


subsection \<open>duppage\<close>

text \<open>What sharing page \<open>v\<close> of \<open>c\<close> with \<open>d\<close> achieves.\<close>

definition shared :: "nat \<Rightarrow> nat \<Rightarrow> nat \<Rightarrow> kstate \<Rightarrow> kstate \<Rightarrow> bool" where
  "shared c d v s t \<longleftrightarrow>
     (\<forall>e \<in> live s. \<forall>w. page_view t e w = (if e = d \<and> w = v then page_view s c v else page_view s e w))"

definition read_only :: "kstate \<Rightarrow> nat \<Rightarrow> nat \<Rightarrow> bool" where
  "read_only s e v \<longleftrightarrow> (\<exists>pte. aspace (mem s) (env_dir s e) v = Some pte \<and> pte AND PTE_W = 0)"

lemma cow_perms: "\<not> bad_perm (PTE_P OR PTE_U OR PTE_COW)" "\<not> bad_perm (PTE_P OR PTE_U)" "\<not> bad_perm (PTE_P OR PTE_W OR PTE_U)"
  "(PTE_P OR PTE_U OR PTE_COW) AND PTE_W = 0" "(PTE_P OR PTE_U) AND PTE_W = 0"
  "PTE_U AND PTE_W = 0" "(PTE_U OR PTE_COW) AND PTE_W = 0"
  by (simp_all add: bad_perm_def Let_def pte_defs PTE_SYSCALL_def PTE_COW_def)

lemma share_perm:
  assumes "pte AND PTE_U \<noteq> 0" "pte AND PTE_P \<noteq> 0"
  shows "\<not> bad_perm (pte AND PTE_SYSCALL)" "(pte AND PTE_SYSCALL) AND PTE_W = 0 \<or> pte AND PTE_W \<noteq> 0"
proof -
  have "(pte AND PTE_SYSCALL) AND (PTE_U OR PTE_P) = PTE_U OR PTE_P"
  proof (rule bit_word_eqI)
    fix n
    have "bit (PTE_U OR PTE_P) n \<longleftrightarrow> n = 0 \<or> n = 2" "bit PTE_SYSCALL 0" "bit PTE_SYSCALL 2" for n
      by (simp_all add: pte_defs PTE_SYSCALL_def bit_or_iff bit_numeral_rec bit_1_iff split: nat.split) (auto simp: bit_numeral_iff)
    then show "bit ((pte AND PTE_SYSCALL) AND (PTE_U OR PTE_P)) n = bit (PTE_U OR PTE_P) n"
      using assms by (auto simp: bit_and_iff and_bit)
  qed
  moreover have "(pte AND PTE_SYSCALL) AND NOT PTE_SYSCALL = 0" by (simp add: and.assoc)
  ultimately show "\<not> bad_perm (pte AND PTE_SYSCALL)" by (simp add: bad_perm_def)
  show "(pte AND PTE_SYSCALL) AND PTE_W = 0 \<or> pte AND PTE_W \<noteq> 0" unfolding and_bit by (simp add: bit_and_iff)
qed

lemma self_env: "curenv s = Some c \<Longrightarrow> envid2env 0 p s = Ret (0, Some c) s"
  by (simp add: envid2env_def)


lemma map_child:
  assumes inv: "kern_inv K s xs fl" and c: "curenv s = Some c" "c \<in> live s"
    and d: "envid2env eid True s = Ret (0, Some d) s" "d \<in> live s"
    and pte: "aspace (mem s) (env_dir s c) v = Some pte" "perm AND PTE_W = 0 \<or> pte AND PTE_W \<noteq> 0" "\<not> bad_perm perm"
    and refs: "pp_ref (pages s (unat (PGNUM pte))) \<noteq> 0xFFFF"
    and room: "table (mem s) (env_dir s d) (v div 1024) \<noteq> None \<or> xs \<noteq> []"
  obtains t ys where "sys_page_map 0 (word_of_nat v * PGSIZE) eid (word_of_nat v * PGSIZE) perm s = Ret 0 t"
    "kern_inv K t ys fl" "vm_frame s t" "shared c d v s t"
    "\<And>e w. e \<in> live s \<Longrightarrow> aspace (mem t) (env_dir s e) w =
      (if e = d \<and> w = v then Some (page2pa (unat (PGNUM pte)) OR PTE_P OR perm) else aspace (mem s) (env_dir s e) w)"
    "pp_ref (pages t (unat (PGNUM pte))) = insert_refs (mapped (mem s) (env_dir s d) v) (unat (PGNUM pte)) (\<lambda>q. pp_ref (pages s q)) (unat (PGNUM pte))"
proof -
  note M = entry_mapped [OF inv c(2) pte(1)] and A = page_addr
  have pm: "perm AND NOT PTE_SYSCALL = 0" using pte(3) by (auto simp: bad_perm_def Let_def)
  have pg: "unat (PGNUM (page2pa (unat (PGNUM pte)) OR PTE_P OR perm)) = unat (PGNUM pte)"
    using M(2) by (intro entry_page [OF _ pm]) simp
  note [simp] = A(1,2,4) [OF M(1)]
  obtain t ys where t: "sys_page_map 0 (word_of_nat v * PGSIZE) eid (word_of_nat v * PGSIZE) perm s = Ret 0 t"
    "kern_inv K t ys fl" "vm_frame s t"
    "set_entry (dirs K s) (env_dir s d) v (Some (page2pa (unat (PGNUM pte)) OR PTE_P OR perm)) s t"
    "data_frame (dirs K s) s t"
    "\<forall>q. q \<notin> pt_pages (mem t) (dirs K s) \<longrightarrow> pp_ref (pages t q) =
       insert_refs (mapped (mem s) (env_dir s d) v) (unat (PGNUM pte)) (\<lambda>q. pp_ref (pages s q)) q"
    using map_page [OF inv self_env [OF c(1)] c(2) d A(3) [OF M(1)] _ A(3) [OF M(1)] _ pte(3), of pte] pte(1,2) refs room by auto
  note F = frame_live [OF t(3), of K]
  have at: "aspace (mem t) (env_dir s e) w =
      (if e = d \<and> w = v then Some (page2pa (unat (PGNUM pte)) OR PTE_P OR perm) else aspace (mem s) (env_dir s e) w)" if "e \<in> live s" for e w
    using set_entry_at [OF t(4) inv d(2) that] .
  have "unat (PGNUM pte) \<notin> pt_pages (mem t) (dirs K s)"
    using entry_mapped(4) [OF t(2), of d v] at [OF d(2)] d(2) F pg by simp
  then have r: "pp_ref (pages t (unat (PGNUM pte))) = insert_refs (mapped (mem s) (env_dir s d) v) (unat (PGNUM pte)) (\<lambda>q. pp_ref (pages s q)) (unat (PGNUM pte))"
    using t(6) by blast
  have sh: "shared c d v s t" unfolding shared_def
    using map_views [OF inv t(2,3,5,4) d(2) _ c(2) pte(1) pg M(1)] by blast
  show thesis by (rule that [OF t(1-3) sh at r])
qed

lemma max_word_step: "r \<noteq> 0xFFFE \<Longrightarrow> r + 1 \<noteq> (0xFFFF :: u16)"
proof
  assume r: "r \<noteq> 0xFFFE" "r + 1 = (0xFFFF :: u16)"
  then have "r = 0xFFFF - 1" unfolding eq_diff_eq by simp
  then show False using r(1) by simp
qed

text \<open>A writable page is mapped copy-on-write in the child first, and then in the parent.\<close>

lemma map_both:
  assumes inv: "kern_inv K s xs fl" and c: "curenv s = Some c" "c \<in> live s"
    and d: "envid2env eid True s = Ret (0, Some d) s" "d \<in> live s" "d \<noteq> c" and pte: "aspace (mem s) (env_dir s c) v = Some pte"
    and refs: "pp_ref (pages s (unat (PGNUM pte))) \<notin> {0xFFFE, 0xFFFF}"
    and room: "table (mem s) (env_dir s d) (v div 1024) \<noteq> None \<or> xs \<noteq> []"
  obtains t u zs where "sys_page_map 0 (word_of_nat v * PGSIZE) eid (word_of_nat v * PGSIZE) (PTE_P OR PTE_U OR PTE_COW) s = Ret 0 t"
    "sys_page_map 0 (word_of_nat v * PGSIZE) 0 (word_of_nat v * PGSIZE) (PTE_P OR PTE_U OR PTE_COW) t = Ret 0 u"
    "kern_inv K u zs fl" "shared c d v s u" "read_only u c v" "read_only u d v"
proof -
  let ?cow = "PTE_P OR PTE_U OR PTE_COW" and ?p = "unat (PGNUM pte)" and ?a = "word_of_nat v * PGSIZE"
  have rf: "pp_ref (pages s ?p) \<noteq> 0xFFFF" using refs by simp
  show thesis
  proof (rule map_child [OF inv c d(1,2) pte disjI1 [OF cow_perms(4)] cow_perms(1) rf room])
    fix t ys
    assume t: "sys_page_map 0 ?a eid ?a ?cow s = Ret 0 t" "kern_inv K t ys fl" "vm_frame s t" "shared c d v s t"
      and at: "\<And>e w. e \<in> live s \<Longrightarrow> aspace (mem t) (env_dir s e) w =
        (if e = d \<and> w = v then Some (page2pa ?p OR PTE_P OR ?cow) else aspace (mem s) (env_dir s e) w)"
      and r: "pp_ref (pages t ?p) = insert_refs (mapped (mem s) (env_dir s d) v) ?p (\<lambda>q. pp_ref (pages s q)) ?p"
    note F = frame_live [OF t(3), of K]
    have ct: "curenv t = Some c" "c \<in> live t" "d \<in> live t" using c d F by simp_all
    have pt: "aspace (mem t) (env_dir t c) v = Some pte" using at [OF c(2), of v] pte d(3) F by simp
    have rt: "pp_ref (pages t ?p) \<noteq> 0xFFFF" using r refs by (simp add: insert_refs_def max_word_step)
    have tb: "table (mem t) (env_dir t c) (v div 1024) \<noteq> None \<or> ys \<noteq> []" using entry_mapped(5) [OF t(2) ct(2) pt] by simp
    show thesis
    proof (rule map_child [OF t(2) ct(1,2) self_env [OF ct(1)] ct(2) pt disjI1 [OF cow_perms(4)] cow_perms(1) rt tb])
      fix u zs
      assume u: "sys_page_map 0 ?a 0 ?a ?cow t = Ret 0 u" "kern_inv K u zs fl" "vm_frame t u" "shared c c v t u"
        and au: "\<And>e w. e \<in> live t \<Longrightarrow> aspace (mem u) (env_dir t e) w =
          (if e = c \<and> w = v then Some (page2pa ?p OR PTE_P OR ?cow) else aspace (mem t) (env_dir t e) w)"
      have "page_view u e w = page_view t e w" if "e \<in> live s" for e w using u(4) F that by (auto simp: shared_def)
      then have sh: "shared c d v s u" using t(4) by (simp add: shared_def)
      have "read_only u c v" "read_only u d v"
        using au [OF ct(2), of v] au [OF ct(3), of v] at [OF d(2), of v] F frame_live [OF u(3), of K] d(3) cow_perms(4,7)
        by (simp_all add: read_only_def entry_flags)
      with sh show thesis by (rule that [OF t(1) u(1,2)])
    qed
  qed
qed

text \<open>
  \<^bold>\<open>C21.\<close> \<^verbatim>\<open>duppage\<close> of a mapped user page of the current environment \<open>c\<close> to another environment \<open>d\<close>
  that it may change, with room for a page table and for two more references: it returns 0 and keeps the
  kernel's invariant. The child sees at that page what the parent saw, and every other view of memory, of
  every environment, is what it was, the parent's included. Unless the page is \<^verbatim>\<open>PTE_SHARE\<close>, both are
  left with a read-only entry, so that neither can write without a fault.
\<close>

theorem duppage_shared:
  assumes inv: "kern_inv K s xs fl" and c: "curenv s = Some c" "c \<in> live s"
    and d: "envid2env eid True s = Ret (0, Some d) s" "d \<in> live s" "d \<noteq> c"
    and pte: "aspace (mem s) (env_dir s c) v = Some pte" "pte AND PTE_U \<noteq> 0"
    and refs: "pp_ref (pages s (unat (PGNUM pte))) \<notin> {0xFFFE, 0xFFFF}"
    and room: "table (mem s) (env_dir s d) (v div 1024) \<noteq> None \<or> xs \<noteq> []"
  shows "\<exists>t ys. duppage eid v s = Ret 0 t \<and> kern_inv K t ys fl \<and> shared c d v s t \<and>
    (pte AND PTE_SHARE = 0 \<longrightarrow> read_only t c v \<and> read_only t d v)"
proof -
  have P: "pte AND PTE_P \<noteq> 0" "uvpt c v s = pte" using pte(1) by (auto simp: aspace_def uvpt_def split: if_splits)
  have rf: "pp_ref (pages s (unat (PGNUM pte))) \<noteq> 0xFFFF" using refs by simp
  note mc = map_child [OF inv c d(1,2) pte(1) _ _ rf room]
  consider "pte AND PTE_SHARE \<noteq> 0" | "pte AND PTE_SHARE = 0" "pte AND PTE_W \<noteq> 0 \<or> pte AND PTE_COW \<noteq> 0"
    | "pte AND PTE_SHARE = 0" "pte AND PTE_W = 0" "pte AND PTE_COW = 0" by blast
  then show ?thesis
  proof cases
    case 1
    show ?thesis
    proof (rule mc [OF share_perm(2,1) [OF pte(2) P(1)]])
      fix t ys
      assume t: "sys_page_map 0 (word_of_nat v * PGSIZE) eid (word_of_nat v * PGSIZE) (pte AND PTE_SYSCALL) s = Ret 0 t"
        "kern_inv K t ys fl" "shared c d v s t"
      have "duppage eid v s = Ret 0 t" using 1 c P(2) t(1) by (simp add: duppage_def with_curenv_def Let_def)
      then show ?thesis using 1 t(2,3) by blast
    qed
  next
    case 3
    show ?thesis
    proof (rule mc [OF disjI1 [OF cow_perms(5)] cow_perms(2)])
      fix t ys
      assume t: "sys_page_map 0 (word_of_nat v * PGSIZE) eid (word_of_nat v * PGSIZE) (PTE_P OR PTE_U) s = Ret 0 t"
        "kern_inv K t ys fl" "vm_frame s t" "shared c d v s t"
        and at: "\<And>e w. e \<in> live s \<Longrightarrow> aspace (mem t) (env_dir s e) w =
          (if e = d \<and> w = v then Some (page2pa (unat (PGNUM pte)) OR PTE_P OR (PTE_P OR PTE_U)) else aspace (mem s) (env_dir s e) w)"
      note F = frame_live [OF t(3), of K]
      have "read_only t c v" "read_only t d v"
        using at [OF c(2), of v] at [OF d(2), of v] pte(1) d(3) 3(2) F cow_perms(5,6) by (simp_all add: read_only_def entry_flags)
      moreover have "duppage eid v s = Ret 0 t"
        using 3 c P(2) t(1) by (simp add: duppage_def with_curenv_def Let_def)
      ultimately show ?thesis using t(2,4) by blast
    qed
  next
    case 2
    obtain t u zs where u: "sys_page_map 0 (word_of_nat v * PGSIZE) eid (word_of_nat v * PGSIZE) (PTE_P OR PTE_U OR PTE_COW) s = Ret 0 t"
      "sys_page_map 0 (word_of_nat v * PGSIZE) 0 (word_of_nat v * PGSIZE) (PTE_P OR PTE_U OR PTE_COW) t = Ret 0 u"
      "kern_inv K u zs fl" "shared c d v s u" "read_only u c v" "read_only u d v"
      by (rule map_both [OF inv c d pte(1) refs room])
    have "duppage eid v s = Ret 0 u"
      using 2 c P(2) u(1,2) by (simp add: duppage_def with_curenv_def Let_def)
    then show ?thesis using u(3-6) by blast
  qed
qed


subsection \<open>pgfault\<close>

text \<open>The first \<open>k\<close> words of page \<open>p\<close> overwritten with those of page \<open>q\<close>.\<close>

definition copied :: "nat \<Rightarrow> nat \<Rightarrow> nat \<Rightarrow> kstate \<Rightarrow> kstate" where
  "copied p q k s = s\<lparr>mem := (\<lambda>a. if a div 1024 = p \<and> a mod 1024 < k then mem s (q * 1024 + a mod 1024) else mem s a)\<rparr>"

lemma copied_mem:
  assumes "i < 1024"
  shows "mem (copied p q k s) (r * 1024 + i) = (if r = p \<and> i < k then mem s (q * 1024 + i) else mem s (r * 1024 + i))"
  using assms by (simp add: copied_def)

lemma copied_frame: "vm_frame s (copied p q k s)"
  by (simp add: vm_frame_def copied_def)

lemma copied_Suc:
  assumes "k < 1024" "q \<noteq> p"
  shows "(copied p q k s)\<lparr>mem := (mem (copied p q k s))(p * 1024 + k := mem (copied p q k s) (q * 1024 + k))\<rparr> = copied p q (Suc k) s"
proof -
  have "(a = p * 1024 + k) = (a div 1024 = p \<and> a mod 1024 = k)" for a
    using slot_eq [of "a mod 1024" k "a div 1024" p] assms(1) by simp
  then have "(\<lambda>a. if a div 1024 = p \<and> a mod 1024 < k then mem s (q * 1024 + a mod 1024) else mem s a)(p * 1024 + k := mem s (q * 1024 + k)) =
      (\<lambda>a. if a div 1024 = p \<and> a mod 1024 < Suc k then mem s (q * 1024 + a mod 1024) else mem s a)"
    by (auto simp: fun_eq_iff less_Suc_eq)
  then show ?thesis using assms copied_mem [OF assms(1), of p q k s q] by (simp add: copied_def)
qed

text \<open>Writing to a page that is not a page table keeps the invariant and the address spaces.\<close>

lemma data_write:
  assumes inv: "kern_inv K s xs fl" and p: "p \<notin> pt_pages (mem s) (dirs K s)"
    and m: "\<And>P i. i < 1024 \<Longrightarrow> P \<noteq> p \<Longrightarrow> m (P * 1024 + i) = mem s (P * 1024 + i)"
  shows "kern_inv K (s\<lparr>mem := m\<rparr>) xs fl" "P \<in> dirs K s \<Longrightarrow> aspace m P = aspace (mem s) P"
    "pt_pages m (dirs K s) = pt_pages (mem s) (dirs K s)"
proof -
  let ?t = "s\<lparr>mem := m\<rparr>"
  note I = vm_invD [OF kern_invD(1) [OF inv]]
  note W = page_write [OF p, of m, OF m]
  have E: "Q \<in> dirs K s \<Longrightarrow> u < user_vpns \<Longrightarrow> pte_at m Q u = pte_at (mem s) Q u" for Q u by (rule W(2)) linarith+
  show "P \<in> dirs K s \<Longrightarrow> aspace m P = aspace (mem s) P" using E by (auto simp: aspace_def fun_eq_iff)
  show "pt_pages m (dirs K s) = pt_pages (mem s) (dirs K s)" using W(1) by (rule pt_pages_cong)
  have us: "uses m (dirs K s) r = uses (mem s) (dirs K s) r" for r by (rule uses_cong [OF E])
  have "vm_inv ?t (dirs K s) xs"
  proof (rule vm_inv_same_tables [OF kern_invD(1) [OF inv]])
    show "table (mem ?t) P x = table (mem s) P x" if "P \<in> dirs K s" "x < 1024" for P x using W(1) that by simp
    show "page_inv ?t xs" using I(1) page_inv_cong [of ?t s] by simp
    show "r < unat (npages s) \<and> r \<notin> pt_pages (mem s) (dirs K s)"
      if "P \<in> dirs K s" "v < user_vpns" "mapped (mem ?t) P v = Some r" for P v r
      using that I(8) E by (simp add: mapped_def)
  qed (use I us in simp_all)
  then show "kern_inv K ?t xs fl" by (rule kern_inv_vm [OF inv]) (simp add: vm_frame_def)
qed

lemma copied_inv:
  assumes "kern_inv K s xs fl" "p \<notin> pt_pages (mem s) (dirs K s)"
  shows "kern_inv K (copied p q k s) xs fl" "P \<in> dirs K s \<Longrightarrow> aspace (mem (copied p q k s)) P = aspace (mem s) P"
    "pt_pages (mem (copied p q k s)) (dirs K s) = pt_pages (mem s) (dirs K s)"
proof -
  have m: "i < 1024 \<Longrightarrow> P \<noteq> p \<Longrightarrow> mem (copied p q k s) (P * 1024 + i) = mem s (P * 1024 + i)" for P i by (simp add: copied_mem)
  have c: "s\<lparr>mem := mem (copied p q k s)\<rparr> = copied p q k s" by (simp add: copied_def)
  note D = data_write [OF assms, of "mem (copied p q k s)", unfolded c]
  show "kern_inv K (copied p q k s) xs fl" by (rule D(1)) (rule m)
  show "P \<in> dirs K s \<Longrightarrow> aspace (mem (copied p q k s)) P = aspace (mem s) P" by (rule D(2)) (rule m)
  show "pt_pages (mem (copied p q k s)) (dirs K s) = pt_pages (mem s) (dirs K s)" by (rule D(3)) (rule m)
qed

lemma page_word:
  assumes "PGOFF va = 0" "i < 1024"
  shows "vpn (va + 4 * word_of_nat i) = vpn va" "unat (PGOFF (va + 4 * word_of_nat i)) div 4 = i"
proof -
  have "unat va mod 4096 = 0" using assms(1) by (simp add: word_unat_eq_iff word_arith)
  then obtain b where b: "unat va = b * 4096" by (metis dvd_def mod_eq_0_iff_dvd mult.commute)
  then have "b < 1048576" using unat_lt_4G [of va] by simp
  then have u: "unat (va + 4 * word_of_nat i) = b * 4096 + 4 * i" using assms(2) b by (simp add: unat_word_ariths unat_of_nat)
  have "(b * 4096 + 4 * i) div 4096 = b + 4 * i div 4096" "(b * 4096 + 4 * i) mod 4096 = 4 * i mod 4096"
    by (rule div_mult_self3, simp) (rule mod_mult_self3)
  then have "unat (va + 4 * word_of_nat i) div 4096 = unat va div 4096" "unat (va + 4 * word_of_nat i) mod 4096 = 4 * i"
    using u b assms(2) by simp_all
  then show "vpn (va + 4 * word_of_nat i) = vpn va" "unat (PGOFF (va + 4 * word_of_nat i)) div 4 = i"
    by (simp_all add: vpn_def word_arith)
qed

lemma copy_page_copied:
  assumes inv: "kern_inv K s xs fl" and c: "curenv s = Some c" "c \<in> live s" and va: "PGOFF dst = 0" "PGOFF src = 0"
    and ps: "aspace (mem s) (env_dir s c) (vpn src) = Some ps" "ps AND PTE_U \<noteq> 0"
    and pd: "aspace (mem s) (env_dir s c) (vpn dst) = Some pd" "pd AND PTE_U \<noteq> 0" "pd AND PTE_W \<noteq> 0"
    and ne: "unat (PGNUM ps) \<noteq> unat (PGNUM pd)"
  shows "copy_page dst src s = Ret () (copied (unat (PGNUM pd)) (unat (PGNUM ps)) 1024 s)"
proof -
  let ?p = "unat (PGNUM pd)" and ?q = "unat (PGNUM ps)"
  let ?f = "\<lambda>i. andthen (user_load (src + 4 * word_of_nat i)) (user_store (dst + 4 * word_of_nat i))"
  have p: "?p \<notin> pt_pages (mem s) (dirs K s)" by (rule entry_mapped(4) [OF inv c(2) pd(1)])
  have d: "env_dir s c \<in> dirs K s" by (rule kern_invD(11) [OF inv c(2)])
  have t: "curenv (copied ?p ?q k s) = Some c" "aspace (mem (copied ?p ?q k s)) (env_dir (copied ?p ?q k s) c) = aspace (mem s) (env_dir s c)" for k
    using c(1) copied_inv(2) [OF inv p d] frame_live [OF copied_frame] by simp_all
  have "each ?f [0..<k] s = Ret () (copied ?p ?q k s)" if "k \<le> 1024" for k
    using that
  proof (induction k)
    case 0
    then show ?case by (simp add: copied_def ret_def)
  next
    case (Suc k)
    then have k: "k < 1024" by simp
    have l: "user_load (src + 4 * word_of_nat k) (copied ?p ?q k s) = Ret (mem (copied ?p ?q k s) (?q * 1024 + k)) (copied ?p ?q k s)"
      using t ps page_word [OF va(2) k] by (simp add: user_load_def with_curenv_def user_word_def)
    have st: "user_store (dst + 4 * word_of_nat k) w (copied ?p ?q k s) = Ret () ((copied ?p ?q k s)\<lparr>mem := (mem (copied ?p ?q k s))(?p * 1024 + k := w)\<rparr>)" for w
      using t pd page_word [OF va(1) k] by (simp add: user_store_def with_curenv_def user_word_def)
    have "?f k (copied ?p ?q k s) = Ret () (copied ?p ?q (Suc k) s)"
      unfolding andthen_def l using st copied_Suc [OF k ne, of s] by simp
    then show ?case using Suc by (simp add: each_append)
  qed
  then show ?thesis unfolding copy_page_def by simp
qed

lemma view_keep:
  assumes "kern_inv K t ys fl" "e \<in> live t" "aspace (mem t) (env_dir t e) w = aspace (mem s) (env_dir s e) w"
    and same: "\<And>pte i. aspace (mem s) (env_dir s e) w = Some pte \<Longrightarrow> unat (PGNUM pte) \<notin> pt_pages (mem t) (dirs K t) \<Longrightarrow> i < 1024 \<Longrightarrow>
      mem t (unat (PGNUM pte) * 1024 + i) = mem s (unat (PGNUM pte) * 1024 + i)"
  shows "page_view t e w = page_view s e w"
proof (cases "aspace (mem s) (env_dir s e) w")
  case None
  then show ?thesis using assms(3) by (simp add: page_view_def)
next
  case (Some pte)
  then have t: "aspace (mem t) (env_dir t e) w = Some pte" using assms(3) by simp
  show ?thesis by (rule view_eq [OF assms(1,2) entry_mapped(1) [OF assms(1,2) t] t Some refl]) (rule same [OF Some])
qed

lemma own_env:
  assumes "kern_inv K s xs fl" "curenv s = Some c" "c \<in> live s"
  shows "envid2env (env_id (envs s c)) True s = Ret (0, Some c) s"
  using kern_invD(8,9) [OF assms(1,3)] assms(2,3) by (auto simp: envid2env_def live_def Let_def)

lemma round_page:
  "PGOFF (ROUNDDOWN addr PGSIZE) = 0" "vpn (ROUNDDOWN addr PGSIZE) = vpn addr" "addr < UTOP \<Longrightarrow> ROUNDDOWN addr PGSIZE < UTOP"
  "PDX (ROUNDDOWN addr PGSIZE) = PDX addr"
proof -
  show "PGOFF (ROUNDDOWN addr PGSIZE) = 0" by (simp add: word_unat_eq_iff word_arith)
  show v: "vpn (ROUNDDOWN addr PGSIZE) = vpn addr" by (simp add: vpn_def word_arith)
  show "PDX (ROUNDDOWN addr PGSIZE) = PDX addr" using v vpn_split(1) by (metis word_unat_eq_iff)
  have "unat (ROUNDDOWN addr PGSIZE) \<le> unat addr" by (simp add: word_arith)
  then show "addr < UTOP \<Longrightarrow> ROUNDDOWN addr PGSIZE < UTOP" by (simp add: word_less_nat_alt)
qed

lemma PFTEMP_addr: "PFTEMP < UTOP" "PGOFF PFTEMP = 0"
  by (simp_all add: layout_defs PGOFF_def)

text \<open>The temporary page: allocated at \<^const>\<open>PFTEMP\<close> and filled with the contents of page \<open>v\<close>.\<close>

lemma temp_copy:
  assumes inv: "kern_inv K s xs fl" and c: "curenv s = Some c" "c \<in> live s"
    and pte: "aspace (mem s) (env_dir s c) (vpn addr) = Some pte" "pte AND PTE_U \<noteq> 0" and ne: "vpn addr \<noteq> vpn PFTEMP"
    and room: "1 < length xs \<or> xs \<noteq> [] \<and> table (mem s) (env_dir s c) (unat (PDX PFTEMP)) \<noteq> None"
  obtains pp s1 t ys where "sys_page_alloc (env_id (envs s c)) PFTEMP (PTE_P OR PTE_W OR PTE_U) s = Ret 0 s1"
    "copy_page PFTEMP (ROUNDDOWN addr PGSIZE) s1 = Ret () t" "kern_inv K t ys fl" "vm_frame s t" "pp \<in> set xs" "pp_ref (pages t pp) = 1"
    "\<And>e w. e \<in> live s \<Longrightarrow> aspace (mem t) (env_dir s e) w =
      (if e = c \<and> w = vpn PFTEMP then Some (page2pa pp OR PTE_P OR (PTE_P OR PTE_W OR PTE_U)) else aspace (mem s) (env_dir s e) w)"
    "page_view t c (vpn PFTEMP) = page_view s c (vpn addr)"
    "\<And>e w. e \<in> live s \<Longrightarrow> \<not> (e = c \<and> w = vpn PFTEMP) \<Longrightarrow> page_view t e w = page_view s e w"
proof -
  let ?perm = "PTE_P OR PTE_W OR PTE_U" and ?u = "vpn PFTEMP" and ?q = "unat (PGNUM pte)"
  have pm: "?perm AND NOT PTE_SYSCALL = 0" using cow_perms(3) by (auto simp: bad_perm_def Let_def)
  have al: "sys_page_alloc (env_id (envs s c)) PFTEMP ?perm s = alloc_and_map c PFTEMP ?perm s"
    using own_env [OF inv c] PFTEMP_addr(1) [folded not_le] PFTEMP_addr(2) cow_perms(3) by (simp add: sys_page_alloc_def with_env_def)
  note M = entry_mapped [OF inv c(2) pte(1)]
  from inv c(2) PFTEMP_addr(1) pm show thesis
  proof (cases rule: alloc_and_map_cases)
    case (oom s')
    then show thesis using room by auto
  next
    case (mapd s1 ys pp)
    let ?N = "page2pa pp OR PTE_P OR ?perm" and ?t = "copied pp ?q 1024 s1"
    note F = frame_live [OF mapd(3), of K]
    have c1: "curenv s1 = Some c" "c \<in> live s1" using c F by simp_all
    have at1: "aspace (mem s1) (env_dir s1 e) w = (if e = c \<and> w = ?u then Some ?N else aspace (mem s) (env_dir s e) w)"
      if "e \<in> live s" for e w using set_entry_at [OF mapd(5) inv c(2) that] F by simp
    have q1: "aspace (mem s1) (env_dir s1 c) (vpn (ROUNDDOWN addr PGSIZE)) = Some pte" "?q \<noteq> pp"
      using at1 [OF c(2), of "vpn addr"] ne pte(1) round_page(2) M(3) mapd(4) by auto
    have n1: "aspace (mem s1) (env_dir s1 c) ?u = Some ?N" using at1 [OF c(2), of ?u] by simp
    have pl: "pp < 1048576" using page_invD(5) [OF vm_invD(1) [OF kern_invD(1) [OF inv]] mapd(4)] by simp
    have pN: "unat (PGNUM ?N) = pp" by (rule entry_page [OF pl pm])
    have pg: "pp \<notin> pt_pages (mem s1) (dirs K s1)" using entry_mapped(4) [OF mapd(2) c1(2) n1] pN by simp
    have fl: "?N AND PTE_U \<noteq> 0" "?N AND PTE_W \<noteq> 0" unfolding entry_flags by (simp_all add: pte_defs)
    have cp: "copy_page PFTEMP (ROUNDDOWN addr PGSIZE) s1 = Ret () ?t"
      using copy_page_copied [OF mapd(2) c1 PFTEMP_addr(2) round_page(1) q1(1) pte(2) n1 fl] q1(2) unfolding pN .
    note C = copied_inv [OF mapd(2) pg, where q = ?q and k = 1024] and G = frame_live [OF copied_frame [of s1 pp ?q 1024], of K]
    have at2: "aspace (mem ?t) (env_dir ?t e) w = (if e = c \<and> w = ?u then Some ?N else aspace (mem s) (env_dir s e) w)"
      if "e \<in> live s" for e w using C(2) [OF kern_invD(11) [OF mapd(2), of e]] at1 that F G by simp
    have live: "e \<in> live ?t" if "e \<in> live s" for e using that F G by simp
    have data: "mem ?t (r * 1024 + i) = mem s (r * 1024 + i)" if "r \<noteq> pp" "r \<notin> pt_pages (mem ?t) (dirs K ?t)" "i < 1024" for r i
      using that mapd(9) C(3) F G by (simp add: copied_mem)
    have "mem ?t (pp * 1024 + i) = mem s (?q * 1024 + i)" if "i < 1024" for i
      using that mapd(9) q1(2) entry_mapped(4) [OF mapd(2) c1(2) q1(1)] F by (simp add: copied_mem)
    then have vu: "page_view ?t c ?u = page_view s c (vpn addr)"
      using at2 [OF c(2), of ?u] pte(1) pN by (simp add: page_view_def fun_eq_iff)
    have vw: "page_view ?t e w = page_view s e w" if e: "e \<in> live s" and w: "\<not> (e = c \<and> w = ?u)" for e w
    proof (rule view_keep [OF C(1) live [OF e]])
      show "aspace (mem ?t) (env_dir ?t e) w = aspace (mem s) (env_dir s e) w" using at2 [OF e] w by auto
      fix x and i :: nat
      assume "aspace (mem s) (env_dir s e) w = Some x" "unat (PGNUM x) \<notin> pt_pages (mem ?t) (dirs K ?t)" "i < 1024"
      moreover from this(1) have "unat (PGNUM x) \<noteq> pp" using entry_mapped(3) [OF inv e] mapd(4) by blast
      ultimately show "mem ?t (unat (PGNUM x) * 1024 + i) = mem s (unat (PGNUM x) * 1024 + i)" using data by blast
    qed
    have "pp_ref (pages ?t pp) = 1" using mapd(8) by (simp add: copied_def)
    then show thesis using at2 F G mapd(1) by (intro that [OF _ cp C(1) vm_frame_trans [OF mapd(3) copied_frame] mapd(4) _ _ vu vw]) (simp_all add: al)
  qed
qed

text \<open>An entry that can be written, and whose page no other entry of a live environment maps.\<close>

definition private_page :: "kstate \<Rightarrow> nat \<Rightarrow> nat \<Rightarrow> bool" where
  "private_page s c v \<longleftrightarrow> (\<exists>pte. aspace (mem s) (env_dir s c) v = Some pte \<and> pte AND PTE_U \<noteq> 0 \<and> pte AND PTE_W \<noteq> 0 \<and>
     (\<forall>e \<in> live s. \<forall>w pte'. aspace (mem s) (env_dir s e) w = Some pte' \<and> unat (PGNUM pte') = unat (PGNUM pte) \<longrightarrow> e = c \<and> w = v))"

text \<open>The page at \<^const>\<open>PFTEMP\<close> moves to the address of the fault.\<close>

lemma temp_moved:
  assumes inv: "kern_inv K s xs fl" and c: "curenv s = Some c" "c \<in> live s" and addr: "addr < UTOP"
    and pte: "aspace (mem s) (env_dir s c) (vpn addr) \<noteq> None" and N: "aspace (mem s) (env_dir s c) (vpn PFTEMP) = Some N" "N AND PTE_W \<noteq> 0"
    and r: "pp_ref (pages s (unat (PGNUM N))) \<noteq> 0xFFFF"
  obtains s' t ys where "sys_page_map (env_id (envs s c)) PFTEMP (env_id (envs s c)) (ROUNDDOWN addr PGSIZE) (PTE_P OR PTE_W OR PTE_U) s = Ret 0 s'"
    "sys_page_unmap (env_id (envs s c)) PFTEMP s' = Ret 0 t" "kern_inv K t ys fl" "vm_frame s t"
    "\<And>e w. e \<in> live s \<Longrightarrow> aspace (mem t) (env_dir t e) w = (if e = c \<and> w = vpn PFTEMP then None
       else if e = c \<and> w = vpn addr then Some (page2pa (unat (PGNUM N)) OR PTE_P OR (PTE_P OR PTE_W OR PTE_U)) else aspace (mem s) (env_dir s e) w)"
    "\<And>e w. e \<in> live s \<Longrightarrow> page_view t e w = (if e = c \<and> w = vpn PFTEMP then None
       else if e = c \<and> w = vpn addr then page_view s c (vpn PFTEMP) else page_view s e w)"
proof -
  let ?perm = "PTE_P OR PTE_W OR PTE_U" and ?u = "vpn PFTEMP" and ?v = "vpn addr" and ?id = "env_id (envs s c)" and ?va = "ROUNDDOWN addr PGSIZE"
  let ?M = "page2pa (unat (PGNUM N)) OR PTE_P OR ?perm"
  have tb: "table (mem s) (env_dir s c) (unat (PDX ?va)) \<noteq> None \<or> xs \<noteq> []"
    using entry_mapped(5) [OF inv c(2), of ?v] pte by (auto simp: vpn_split round_page)
  have pm: "?perm AND NOT PTE_SYSCALL = 0" using cow_perms(3) by (auto simp: bad_perm_def Let_def)
  have pM: "unat (PGNUM ?M) = unat (PGNUM N)"
    using entry_mapped(2) [OF inv c(2) N(1)] by (intro entry_page [OF _ pm]) simp
  note own = own_env [OF inv c]
  show thesis
  proof (rule map_page [OF inv own c(2) own c(2) PFTEMP_addr round_page(3) [OF addr] round_page(1) cow_perms(3) N(1) disjI2 [OF N(2)] r tb])
    fix s' zs
    assume s': "sys_page_map ?id PFTEMP ?id ?va ?perm s = Ret 0 s'" "kern_inv K s' zs fl" "vm_frame s s'"
      "set_entry (dirs K s) (env_dir s c) (vpn ?va) (Some ?M) s s'" "data_frame (dirs K s) s s'"
    note st = s'(4) [unfolded round_page]
    note F = frame_live [OF s'(3), of K]
    have c': "curenv s' = Some c" "c \<in> live s'" "env_id (envs s' c) = ?id" using c F by simp_all
    note views = map_views [OF inv s'(2,3,5) st c(2) _ c(2) N(1) pM vpn_user [OF addr]]
    show thesis
    proof (rule page_remove_env [OF s'(2) c'(2) PFTEMP_addr(1)])
      fix t us
      assume t: "page_remove (env_pgdir (envs s' c)) PFTEMP s' = Ret () t" "kern_inv K t us fl" "vm_frame s' t"
        "data_frame (dirs K s') s' t" "set_entry (dirs K s') (env_dir s' c) ?u None s' t"
      note H = frame_live [OF t(3), of K]
      have un: "sys_page_unmap ?id PFTEMP s' = Ret 0 t"
        using own_env [OF s'(2) c'(1,2)] c'(3) t(1) PFTEMP_addr(1) [folded not_le] PFTEMP_addr(2) by (simp add: sys_page_unmap_def with_env_def)
      have ut: "aspace (mem t) (env_dir t e) w = (if e = c \<and> w = ?u then None else aspace (mem s') (env_dir s' e) w)" if "e \<in> live s" for e w
        using set_entry_at [OF t(5) s'(2) c'(2), of e w] that F H by simp
      have vt: "page_view t e w = (if e = c \<and> w = ?u then None else page_view s' e w)" if e: "e \<in> live s" for e w
      proof (cases "e = c \<and> w = ?u")
        case True
        then show ?thesis using ut [OF e] by (simp add: page_view_def)
      next
        case False
        show ?thesis unfolding if_not_P [OF False] using e F H t(4) False ut [OF e]
          by (intro view_keep [OF t(2)]) (auto simp: data_frame_def)
      qed
      show thesis
        by (rule that [OF s'(1) un t(2) vm_frame_trans [OF s'(3) t(3)]])
           (simp_all add: ut vt views F c(2) set_entry_at [OF st inv c(2)])
    qed
  qed
qed

lemma pgfault_private:
  assumes inv: "kern_inv K s xs fl" and c: "curenv s = Some c" "c \<in> live s" and addr: "addr < UTOP" "vpn addr \<noteq> vpn PFTEMP"
    and pte: "aspace (mem s) (env_dir s c) (vpn addr) = Some pte" "pte AND PTE_U \<noteq> 0" "pte AND PTE_COW \<noteq> 0" and fec: "fec AND FEC_WR \<noteq> 0"
    and room: "1 < length xs \<or> xs \<noteq> [] \<and> table (mem s) (env_dir s c) (unat (PDX PFTEMP)) \<noteq> None"
  shows "\<exists>t ys. pgfault fec addr s = Ret () t \<and> kern_inv K t ys fl \<and> vm_frame s t \<and> private_page t c (vpn addr) \<and>
    (\<forall>e \<in> live s. \<forall>w. page_view t e w = (if e = c \<and> w = vpn PFTEMP then None else page_view s e w))"
proof (rule temp_copy [OF inv c pte(1,2) addr(2) room])
  let ?perm = "PTE_P OR PTE_W OR PTE_U" and ?u = "vpn PFTEMP" and ?v = "vpn addr" and ?id = "env_id (envs s c)" and ?va = "ROUNDDOWN addr PGSIZE"
  fix pp s1 s2 ys
  let ?N = "page2pa pp OR PTE_P OR ?perm"
  assume s1: "sys_page_alloc ?id PFTEMP ?perm s = Ret 0 s1" and s2: "copy_page PFTEMP ?va s1 = Ret () s2" "kern_inv K s2 ys fl" "vm_frame s s2"
    and pp: "pp \<in> set xs" "pp_ref (pages s2 pp) = 1"
    and at: "\<And>e w. e \<in> live s \<Longrightarrow> aspace (mem s2) (env_dir s e) w = (if e = c \<and> w = ?u then Some ?N else aspace (mem s) (env_dir s e) w)"
    and vu: "page_view s2 c ?u = page_view s c ?v"
    and vw: "\<And>e w. e \<in> live s \<Longrightarrow> \<not> (e = c \<and> w = ?u) \<Longrightarrow> page_view s2 e w = page_view s e w"
  note F = frame_live [OF s2(3), of K]
  have c2: "curenv s2 = Some c" "c \<in> live s2" "env_id (envs s2 c) = ?id" using c F by simp_all
  have pm: "?perm AND NOT PTE_SYSCALL = 0" using cow_perms(3) by (auto simp: bad_perm_def Let_def)
  have "pp < 1048576" using page_invD(5) [OF vm_invD(1) [OF kern_invD(1) [OF inv]] pp(1)] by simp
  then have pN: "unat (PGNUM ?N) = pp" by (rule entry_page [OF _ pm])
  have UN: "?N AND PTE_U \<noteq> 0" and WN: "?N AND PTE_W \<noteq> 0" unfolding entry_flags by (simp_all add: pte_defs)
  have n2: "aspace (mem s2) (env_dir s2 c) ?u = Some ?N" using at [OF c(2), of ?u] F by simp
  have v2: "aspace (mem s2) (env_dir s2 c) ?v \<noteq> None" using at [OF c(2), of ?v] F pte(1) addr(2) by simp
  have r2: "pp_ref (pages s2 (unat (PGNUM ?N))) \<noteq> 0xFFFF" unfolding pN using pp(2) by simp
  show ?thesis
  proof (rule temp_moved [OF s2(2) c2(1,2) addr(1) v2 n2 WN r2, unfolded pN c2(3)])
    fix s3 t zs
    assume t: "sys_page_map ?id PFTEMP ?id ?va ?perm s2 = Ret 0 s3" "sys_page_unmap ?id PFTEMP s3 = Ret 0 t" "kern_inv K t zs fl" "vm_frame s2 t"
      and att: "\<And>e w. e \<in> live s2 \<Longrightarrow> aspace (mem t) (env_dir t e) w = (if e = c \<and> w = ?u then None
        else if e = c \<and> w = ?v then Some ?N else aspace (mem s2) (env_dir s2 e) w)"
      and vt: "\<And>e w. e \<in> live s2 \<Longrightarrow> page_view t e w = (if e = c \<and> w = ?u then None
        else if e = c \<and> w = ?v then page_view s2 c ?u else page_view s2 e w)"
    note G = frame_live [OF t(4), of K]
    have "uvpt c ?v s = pte" using pte(1) by (auto simp: aspace_def uvpt_def split: if_splits)
    then have "pgfault fec addr s = Ret () t"
      using c(1) fec pte(3) s1 s2(1) t(1,2) by (simp add: pgfault_def with_curenv_def sys_getenvid_def)
    moreover have "page_view t e w = (if e = c \<and> w = ?u then None else page_view s e w)" if "e \<in> live s" for e w
      using vt [of e w] vu vw [OF that, of w] that F by auto
    moreover have "private_page t c ?v" unfolding private_page_def
    proof (intro exI conjI ballI allI impI)
      show "aspace (mem t) (env_dir t c) ?v = Some ?N" using att [OF c2(2), of ?v] addr(2) by simp
      fix e w x
      assume e: "e \<in> live t" and x: "aspace (mem t) (env_dir t e) w = Some x \<and> unat (PGNUM x) = unat (PGNUM ?N)"
      have "e \<in> live s" "e \<in> live s2" using e F G by simp_all
      then have "aspace (mem s) (env_dir s e) w \<noteq> Some x" using entry_mapped(3) [OF inv, of e w x] pp(1) x pN by auto
      then show "e = c" "w = ?v" using x att [OF \<open>e \<in> live s2\<close>, of w] at [OF \<open>e \<in> live s\<close>, of w] F by (auto split: if_splits)
    qed (rule UN WN)+
    ultimately show ?thesis using t(3) vm_frame_trans [OF s2(3) t(4)] by blast
  qed
qed

subsection \<open>A store to a private page\<close>

lemma store_private:
  assumes inv: "kern_inv K s xs fl" and c: "curenv s = Some c" "c \<in> live s" and pv: "private_page s c (vpn va)"
  shows "\<exists>t. user_store va x s = Ret () t \<and> kern_inv K t xs fl \<and> live t = live s \<and>
    (\<forall>e \<in> live s. \<forall>w. page_view t e w =
      (if e = c \<and> w = vpn va then map_option (\<lambda>p. p(unat (PGOFF va) div 4 := x)) (page_view s e w) else page_view s e w))"
proof -
  obtain pte where pte: "aspace (mem s) (env_dir s c) (vpn va) = Some pte" "pte AND PTE_U \<noteq> 0" "pte AND PTE_W \<noteq> 0"
    and sole: "\<And>e w pte'. e \<in> live s \<Longrightarrow> aspace (mem s) (env_dir s e) w = Some pte' \<Longrightarrow> unat (PGNUM pte') = unat (PGNUM pte) \<Longrightarrow> e = c \<and> w = vpn va"
    using pv unfolding private_page_def by blast
  let ?p = "unat (PGNUM pte)" and ?k = "unat (PGOFF va) div 4"
  let ?m = "(mem s)(?p * 1024 + ?k := x)" and ?t = "s\<lparr>mem := (mem s)(unat (PGNUM pte) * 1024 + unat (PGOFF va) div 4 := x)\<rparr>"
  have k: "?k < 1024" by (simp add: word_arith less_mult_imp_div_less)
  note [simp] = slot_eq [OF _ k]
  note D = data_write [OF inv entry_mapped(4) [OF inv c(2) pte(1)], of ?m]
  have inv': "kern_inv K ?t xs fl" by (rule D(1)) simp
  have fr: "vm_frame s ?t" by (simp add: vm_frame_def)
  note F = frame_live [OF fr, of K]
  have at: "aspace (mem ?t) (env_dir ?t e) w = aspace (mem s) (env_dir s e) w" if "e \<in> live s" for e w
    using D(2) [OF _ kern_invD(11) [OF inv that]] F by simp
  have "page_view ?t e w = (if e = c \<and> w = vpn va then map_option (\<lambda>p. p(?k := x)) (page_view s e w) else page_view s e w)"
    if e: "e \<in> live s" for e w
  proof (cases "e = c \<and> w = vpn va")
    case True
    then show ?thesis using at [OF e, of w] pte(1) k by (auto simp: page_view_def fun_eq_iff)
  next
    case False
    have "page_view ?t e w = page_view s e w"
      by (rule view_keep [OF inv' _ at [OF e]]) (use e F False sole [OF e] in auto)
    then show ?thesis unfolding if_not_P [OF False] .
  qed
  moreover have "user_store va x s = Ret () ?t" using c(1) pte by (simp add: user_store_def with_curenv_def user_word_def)
  ultimately show ?thesis using inv' F by blast
qed

text \<open>
  \<^bold>\<open>C20.\<close> Copy on write. \<^verbatim>\<open>pgfault\<close> for a write to a user page marked \<^verbatim>\<open>PTE_COW\<close>, with memory for the
  copy: it returns with the kernel's invariant and no view of memory changed, of any environment, except
  that \<^verbatim>\<open>PFTEMP\<close> of the faulting environment is unmapped; the page is now writable and no other entry of
  any environment leads to it. The store that faulted then succeeds; it changes that one word of the
  faulting environment's own view and nothing that any other environment can see.
\<close>

theorem pgfault_copy_on_write:
  assumes inv: "kern_inv K s xs fl" and c: "curenv s = Some c" "c \<in> live s" and addr: "addr < UTOP" "vpn addr \<noteq> vpn PFTEMP"
    and pte: "aspace (mem s) (env_dir s c) (vpn addr) = Some pte" "pte AND PTE_U \<noteq> 0" "pte AND PTE_COW \<noteq> 0" and fec: "fec AND FEC_WR \<noteq> 0"
    and room: "1 < length xs \<or> xs \<noteq> [] \<and> table (mem s) (env_dir s c) (unat (PDX PFTEMP)) \<noteq> None"
  shows "\<exists>t u ys. pgfault fec addr s = Ret () t \<and> kern_inv K t ys fl \<and> private_page t c (vpn addr) \<and>
    (\<forall>e \<in> live s. \<forall>w. page_view t e w = (if e = c \<and> w = vpn PFTEMP then None else page_view s e w)) \<and>
    user_store addr x t = Ret () u \<and> kern_inv K u ys fl \<and>
    (\<forall>e \<in> live s. \<forall>w. page_view u e w =
      (if e = c \<and> w = vpn addr then map_option (\<lambda>p. p(unat (PGOFF addr) div 4 := x)) (page_view s e w) else page_view t e w))"
proof -
  obtain t ys where t: "pgfault fec addr s = Ret () t" "kern_inv K t ys fl" "vm_frame s t" "private_page t c (vpn addr)"
    and v: "\<forall>e \<in> live s. \<forall>w. page_view t e w = (if e = c \<and> w = vpn PFTEMP then None else page_view s e w)"
    using pgfault_private [OF inv c addr pte fec room] by blast
  have F: "live t = live s" "curenv t = Some c" "c \<in> live t" using frame_live [OF t(3), of K] c by simp_all
  obtain u where u: "user_store addr x t = Ret () u" "kern_inv K u ys fl"
    and vu: "\<forall>e \<in> live t. \<forall>w. page_view u e w =
      (if e = c \<and> w = vpn addr then map_option (\<lambda>p. p(unat (PGOFF addr) div 4 := x)) (page_view t e w) else page_view t e w)"
    using store_private [OF t(2) F(2,3) t(4)] by blast
  have vc: "page_view t c (vpn addr) = page_view s c (vpn addr)" using v c(2) addr(2) by simp
  have "\<forall>e \<in> live s. \<forall>w. page_view u e w =
      (if e = c \<and> w = vpn addr then map_option (\<lambda>p. p(unat (PGOFF addr) div 4 := x)) (page_view s e w) else page_view t e w)"
    using vu F(1) vc by simp
  then show ?thesis using t(1,2,4) v u by blast
qed

subsection \<open>A parent and a child\<close>

text \<open>A machine with one more free page, two environments of which the first is current and the parent of the second.\<close>

definition fork_machine :: kstate where
  "fork_machine = set_curenv (Some 0) (alloc_state 1 3 1 0x1000 (alloc_state 0 2 1 0
     (boot_machine\<lparr>pages := (pages boot_machine)(4 := \<lparr>pp_link = Some 6, pp_ref = 0\<rparr>)\<rparr>)))"

lemma kern_inv_roomy: "kern_inv 1 (boot_machine\<lparr>pages := (pages boot_machine)(4 := \<lparr>pp_link = Some 6, pp_ref = 0\<rparr>)\<rparr>) [2, 3, 4, 6] [0 ..< NENV]"
  (is "kern_inv 1 ?s _ _")
proof -
  have l: "live ?s = {}" "live boot_machine = {}" by (auto simp: live_def boot_machine_def zero_env_def)
  then have d: "dirs 1 ?s = {1}" "dirs 1 boot_machine = {1}" by (simp_all add: dirs_def)
  have p: "page_inv ?s [2, 3, 4, 6]"
    by (simp add: page_inv_def pl.is_list_def page_links_def boot_machine_def small_machine_def)
  have "mem ?s = (\<lambda>_. 0)" "npages ?s = 16" "pp_ref (pages ?s 1) = 1" by (simp_all add: boot_machine_def small_machine_def)
  then have "vm_inv ?s {1} [2, 3, 4, 6]" using p by (simp add: vm_inv_def tables_ok_def uses_def)
  moreover have "env_inv ?s [0 ..< NENV]" using kern_invD(2) [OF kern_inv_boot]
    by (simp add: env_inv_def el.is_list_def env_links_def)
  ultimately show ?thesis using kern_invD(3,4,14) [OF kern_inv_boot] unfolding kern_inv_def l d by simp
qed

lemma kern_inv_fork: "kern_inv 1 fork_machine [4, 6] [2 ..< NENV]" "live fork_machine = {0, 1}"
proof -
  have u: "[0 ..< NENV] = 0 # 1 # [2 ..< NENV]" using upt_conv_Cons [of 0 NENV] upt_conv_Cons [of 1 NENV] by (simp add: NENV_def numeral_2_eq_2)
  note A = env_alloc_inv [OF kern_inv_roomy [unfolded u], where par = 0]
  note B = env_alloc_inv [OF A(2), where par = "0x1000"]
  have "live (boot_machine\<lparr>pages := (pages boot_machine)(4 := \<lparr>pp_link = Some 6, pp_ref = 0\<rparr>)\<rparr>) = {}"
    by (auto simp: live_def boot_machine_def zero_env_def)
  then have "live (alloc_state 1 3 1 0x1000 (alloc_state 0 2 1 0 (boot_machine\<lparr>pages := (pages boot_machine)(4 := \<lparr>pp_link = Some 6, pp_ref = 0\<rparr>)\<rparr>))) = {0, 1}"
    using A(3) B(3) by auto
  moreover have "live fork_machine = live (alloc_state 1 3 1 0x1000 (alloc_state 0 2 1 0 (boot_machine\<lparr>pages := (pages boot_machine)(4 := \<lparr>pp_link = Some 6, pp_ref = 0\<rparr>)\<rparr>)))"
    by (simp add: fork_machine_def set_curenv_def live_def)
  ultimately show "live fork_machine = {0, 1}" by simp
  show "kern_inv 1 fork_machine [4, 6] [2 ..< NENV]"
    using B(2) by (subst kern_inv_cong) (simp_all add: fork_machine_def set_curenv_def)
qed

lemma fork_machine_fields:
  "curenv fork_machine = Some 0" "env_id (envs fork_machine 0) = 0x1000" "env_id (envs fork_machine 1) = 0x1001"
  "env_parent_id (envs fork_machine 1) = 0x1000" "env_status (envs fork_machine 1) = ENV_RUNNABLE"
  "npages fork_machine = 16" "pp_ref (pages fork_machine 5) = 0" "mem fork_machine = setup_mem 3 1 (setup_mem 2 1 (\<lambda>_. 0))"
  by (simp_all add: fork_machine_def set_curenv_def curenv_def alloc_env_def new_env_id_def env_generation_def NENV_def)
     (simp_all add: boot_machine_def small_machine_def zero_env_def setup_state_fields)

lemma fork_machine_free: "5 \<notin> pt_pages (mem fork_machine) (dirs 1 fork_machine)"
proof -
  have d: "dirs 1 fork_machine = {1, 2, 3}"
    unfolding dirs_def kern_inv_fork(2) env_dir_def
    by (simp add: fork_machine_def set_curenv_def alloc_env_def page_kva_def page2pa_def KERNBASE_def PADDR_def vpn_def PGNUM_def)
  have "(5 :: nat) \<notin> {1, 2, 3}" by simp
  moreover have "table (mem fork_machine) P x \<noteq> Some 5" if "P \<in> {1, 2, 3}" "x < 1024" for P x
    using that unfolding fork_machine_fields(8) table_def pde_at_def
    by (auto simp: setup_mem_def Let_def page2pa_def pte_defs pte_page_def PGNUM_def)
  ultimately show ?thesis unfolding d pt_pages_def by blast
qed

text \<open>Page 5 in the parent at address \<open>0x400000\<close>.\<close>

lemma fork_page:
  assumes "perm AND NOT PTE_SYSCALL = 0"
  obtains s xs where "page_insert (env_pgdir (envs fork_machine 0)) 5 0x400000 perm fork_machine = Ret 0 s"
    "kern_inv 1 s xs [2 ..< NENV]" "xs \<noteq> []" "vm_frame fork_machine s"
    "aspace (mem s) (env_dir s 0) 0x400 = Some (page2pa 5 OR PTE_P OR perm)" "pp_ref (pages s 5) \<in> {0, 1}"
proof -
  have l: "0 \<in> live fork_machine" using kern_inv_fork(2) by simp
  have a: "(0x400000 :: u32) < UTOP" "vpn 0x400000 = 0x400" by (simp_all add: layout_defs vpn_def PGNUM_def)
  have p: "5 < unat (npages fork_machine)" "5 \<notin> set [4, 6 :: nat]" "pp_ref (pages fork_machine 5) \<noteq> 0xFFFF"
    by (simp_all add: fork_machine_fields)
  show thesis
  proof (rule page_insert_env [OF kern_inv_fork(1) l a(1) assms p(1) fork_machine_free p(2,3)])
    fix s xs
    assume s: "page_insert (env_pgdir (envs fork_machine 0)) 5 0x400000 perm fork_machine = Ret 0 s" "kern_inv 1 s xs [2 ..< NENV]"
      "vm_frame fork_machine s" "5 \<notin> pt_pages (mem s) (dirs 1 fork_machine)"
      and e: "set_entry (dirs 1 fork_machine) (env_dir fork_machine 0) (vpn 0x400000) (Some (page2pa 5 OR PTE_P OR perm)) fork_machine s"
      and r: "\<forall>q. q \<notin> pt_pages (mem s) (dirs 1 fork_machine) \<longrightarrow> pp_ref (pages s q) =
         insert_refs (mapped (mem fork_machine) (env_dir fork_machine 0) (vpn 0x400000)) 5 (\<lambda>q. pp_ref (pages fork_machine q)) q"
      and n: "length [4, 6 :: nat] \<le> Suc (length xs)"
    have "aspace (mem s) (env_dir s 0) 0x400 = Some (page2pa 5 OR PTE_P OR perm)"
      using set_entry_at [OF e kern_inv_fork(1) l l, of "0x400"] frame_live [OF s(3), of 1] a(2) by simp
    moreover have "pp_ref (pages s 5) \<in> {0, 1}" using r s(4) by (simp add: insert_refs_def fork_machine_fields)
    moreover have "xs \<noteq> []" using n by auto
    ultimately show thesis using that s(1-3) by blast
  qed simp
qed

theorem duppage_shared_witness:
  "\<exists>s t. page_insert (env_pgdir (envs fork_machine 0)) 5 0x400000 (PTE_U OR PTE_W) fork_machine = Ret 0 s \<and>
     duppage 0x1001 0x400 s = Ret 0 t \<and> page_view t 1 0x400 = page_view s 0 0x400 \<and> page_view t 0 0x400 = page_view s 0 0x400 \<and>
     page_view s 0 0x400 \<noteq> None \<and> read_only t 0 0x400 \<and> read_only t 1 0x400"
proof (rule fork_page [of "PTE_U OR PTE_W"])
  fix s xs
  assume s: "page_insert (env_pgdir (envs fork_machine 0)) 5 0x400000 (PTE_U OR PTE_W) fork_machine = Ret 0 s"
    "kern_inv 1 s xs [2 ..< NENV]" "xs \<noteq> []" "vm_frame fork_machine s"
    and e: "aspace (mem s) (env_dir s 0) 0x400 = Some (page2pa 5 OR PTE_P OR (PTE_U OR PTE_W))" and r: "pp_ref (pages s 5) \<in> {0, 1}"
  note F = frame_live [OF s(4), of 1]
  have c: "curenv s = Some 0" "0 \<in> live s" "1 \<in> live s" using F kern_inv_fork(2) fork_machine_fields(1) by simp_all
  have d: "envid2env 0x1001 True s = Ret (0, Some 1) s"
    using F fork_machine_fields c(1) by (simp add: envid2env_def ENVX_def NENV_def Let_def)
  have f: "page2pa 5 OR PTE_P OR (PTE_U OR PTE_W) = 0x5007" by (simp add: page2pa_def pte_defs)
  have g: "(0x5007 :: u32) AND PTE_U \<noteq> 0" "(0x5007 :: u32) AND PTE_SHARE = 0" "unat (PGNUM 0x5007) = 5"
    by (simp_all add: pte_defs PTE_SHARE_def PGNUM_def)
  have "\<exists>t ys. duppage 0x1001 0x400 s = Ret 0 t \<and> kern_inv 1 t ys [2 ..< NENV] \<and> shared 0 1 0x400 s t \<and>
    ((0x5007 :: u32) AND PTE_SHARE = 0 \<longrightarrow> read_only t 0 0x400 \<and> read_only t 1 0x400)"
    by (rule duppage_shared [OF s(2) c(1,2) d c(3) _ e [unfolded f] g(1)]) (use s(3) g(3) r in auto)
  then obtain t where t: "duppage 0x1001 0x400 s = Ret 0 t" "shared 0 1 0x400 s t" "read_only t 0 0x400" "read_only t 1 0x400"
    using g(2) by blast
  have "page_view t 1 0x400 = page_view s 0 0x400" "page_view t 0 0x400 = page_view s 0 0x400" "page_view s 0 0x400 \<noteq> None"
    using t(2) c(2,3) e by (simp_all add: shared_def page_view_def)
  then show ?thesis using s(1) t by blast
qed (simp add: pte_defs PTE_SYSCALL_def)

theorem pgfault_copy_on_write_witness:
  "\<exists>s t u. page_insert (env_pgdir (envs fork_machine 0)) 5 0x400000 (PTE_U OR PTE_COW) fork_machine = Ret 0 s \<and>
     pgfault 2 0x400010 s = Ret () t \<and> private_page t 0 0x400 \<and> page_view t 0 0x400 = page_view s 0 0x400 \<and>
     user_store 0x400010 42 t = Ret () u \<and>
     page_view u 0 0x400 = map_option (\<lambda>p. p(4 := 42)) (page_view s 0 0x400) \<and> page_view s 0 0x400 \<noteq> None \<and>
     (\<forall>w. page_view u 1 w = page_view s 1 w)"
proof (rule fork_page [of "PTE_U OR PTE_COW"])
  fix s xs
  assume s: "page_insert (env_pgdir (envs fork_machine 0)) 5 0x400000 (PTE_U OR PTE_COW) fork_machine = Ret 0 s"
    "kern_inv 1 s xs [2 ..< NENV]" "xs \<noteq> []" "vm_frame fork_machine s"
    and e: "aspace (mem s) (env_dir s 0) 0x400 = Some (page2pa 5 OR PTE_P OR (PTE_U OR PTE_COW))"
  note F = frame_live [OF s(4), of 1]
  have c: "curenv s = Some 0" "0 \<in> live s" "1 \<in> live s" using F kern_inv_fork(2) fork_machine_fields(1) by simp_all
  have v: "vpn 0x400010 = 0x400" "vpn PFTEMP = 0x7FF" "unat (PDX PFTEMP) = 1" "unat (PGOFF 0x400010) div 4 = 4" "(0x400010 :: u32) < UTOP"
    "(2 :: u32) AND FEC_WR \<noteq> 0"
    by (simp_all add: vpn_def PGNUM_def layout_defs PDX_def PGOFF_def FEC_WR_def)
  have f: "page2pa 5 OR PTE_P OR (PTE_U OR PTE_COW) = 0x5805" by (simp add: page2pa_def pte_defs PTE_COW_def)
  have g: "(0x5805 :: u32) AND PTE_U \<noteq> 0" "(0x5805 :: u32) AND PTE_COW \<noteq> 0" by (simp_all add: pte_defs PTE_COW_def)
  have tb: "table (mem s) (env_dir s 0) (unat (PDX PFTEMP)) \<noteq> None" using entry_mapped(5) [OF s(2) c(2) e] v(3) by simp
  obtain t u where t: "pgfault 2 0x400010 s = Ret () t" "private_page t 0 (vpn 0x400010)" "user_store 0x400010 42 t = Ret () u"
    and vt: "\<forall>e \<in> live s. \<forall>w. page_view t e w = (if e = 0 \<and> w = vpn PFTEMP then None else page_view s e w)"
    and vu: "\<forall>e \<in> live s. \<forall>w. page_view u e w = (if e = 0 \<and> w = vpn 0x400010
      then map_option (\<lambda>p. p(unat (PGOFF 0x400010) div 4 := 42)) (page_view s e w) else page_view t e w)"
    using pgfault_copy_on_write [OF s(2) c(1,2) v(5) _ _ g v(6), of 42] e f v(1,2) tb s(3) by auto
  have "page_view t 0 0x400 = page_view s 0 0x400" "page_view u 0 0x400 = map_option (\<lambda>p. p(4 := 42)) (page_view s 0 0x400)"
    "page_view s 0 0x400 \<noteq> None" "\<forall>w. page_view u 1 w = page_view s 1 w"
    using vt vu c(2,3) e v(1,2,4) by (simp_all add: page_view_def)
  then show ?thesis using s(1) t v(1) by auto
qed (simp add: pte_defs PTE_SYSCALL_def PTE_COW_def)

end
