(* ===== verification/Lib_Pipe.thy ===== *)
theory Lib_Pipe
  imports Ring_Buffers JOS_Loops
begin

text \<open>
  Pipes between two environments (\<^verbatim>\<open>lib/pipe.c\<close>). The buffer lies in a page that both map; reader and
  writer run \<^verbatim>\<open>devpipe_read\<close> and \<^verbatim>\<open>devpipe_write\<close> at the same time, without a lock. The model executes
  them one access to the shared page at a time in any order, and the theorem is that the reader gets the
  bytes of the writer, all of them and in their order.
\<close>

subsection \<open>The shared page\<close>

definition PIPEBUFSIZ :: nat where "PIPEBUFSIZ = 32"

record Pipe =
  p_rpos :: u32
  p_wpos :: u32
  p_buf :: "nat \<Rightarrow> u8"

text \<open>
  The index \<^verbatim>\<open>pos % PIPEBUFSIZ\<close> is a signed remainder; a position that has become negative leads outside
  of the buffer.
\<close>

definition pipe_slot :: "u32 \<Rightarrow> nat option" where
  "pipe_slot pos = (let k = int_mod pos PIPEBUFSIZ in if k < 0 then None else Some (nat k))"

text \<open>
  \<^verbatim>\<open>_pipeisclosed\<close> compares the reference counts of its descriptor page and of the pipe until the
  environment was not descheduled in between; each sample is \<^verbatim>\<open>env_runs\<close> before, the two counts, and
  \<^verbatim>\<open>env_runs\<close> after. The list holds the samples of as many rounds as there are.
\<close>

fun pipeisclosed_loop :: "(u32 \<times> u32 \<times> u32 \<times> u32) list \<Rightarrow> bool option" where
  "pipeisclosed_loop [] = None"
| "pipeisclosed_loop ((n, fd, p, nn) # rest) = (let ret = (fd = p) in if n = nn then Some ret else pipeisclosed_loop rest)"

subsection \<open>Reader and writer\<close>

text \<open>
  Where \<^verbatim>\<open>devpipe_read\<close> is: at the head of the loop, waiting for data, about to take the byte, about to
  advance the position, returned, or outside of the buffer; likewise \<^verbatim>\<open>devpipe_write\<close>.
\<close>

datatype read_pc = R_for | R_wait | R_take | R_next | R_ret nat | R_wild
datatype write_pc = W_for | W_wait | W_put | W_next | W_ret nat | W_wild

text \<open>
  \<open>r_past\<close> and \<open>w_past\<close> are the bytes of earlier calls, for the theorem only.
\<close>

record pipe_sys =
  the_pipe :: Pipe
  r_pc :: read_pc
  r_n :: nat
  r_i :: nat
  r_buf :: "u8 list"
  r_past :: "u8 list"
  w_pc :: write_pc
  w_i :: nat
  w_buf :: "u8 list"
  w_past :: "u8 list"

text \<open>One step of each; \<open>closed\<close> is what \<^verbatim>\<open>_pipeisclosed\<close> answers if it is asked.\<close>

definition devpipe_read :: "bool \<Rightarrow> pipe_sys \<Rightarrow> pipe_sys" where
  "devpipe_read closed s =
     (let p = the_pipe s in
      case r_pc s of
        R_for \<Rightarrow> s\<lparr>r_pc := if r_i s < r_n s then R_wait else R_ret (r_i s)\<rparr>
      | R_wait \<Rightarrow>
          if p_rpos p = p_wpos p
          then if 0 < r_i s then s\<lparr>r_pc := R_ret (r_i s)\<rparr> else if closed then s\<lparr>r_pc := R_ret 0\<rparr> else s
          else s\<lparr>r_pc := R_take\<rparr>
      | R_take \<Rightarrow>
          (case pipe_slot (p_rpos p) of
             None \<Rightarrow> s\<lparr>r_pc := R_wild\<rparr>
           | Some k \<Rightarrow> s\<lparr>r_buf := r_buf s @ [p_buf p k], r_pc := R_next\<rparr>)
      | R_next \<Rightarrow> s\<lparr>the_pipe := p\<lparr>p_rpos := p_rpos p + 1\<rparr>, r_i := r_i s + 1, r_pc := R_for\<rparr>
      | _ \<Rightarrow> s)"

definition devpipe_write :: "bool \<Rightarrow> pipe_sys \<Rightarrow> pipe_sys" where
  "devpipe_write closed s =
     (let p = the_pipe s in
      case w_pc s of
        W_for \<Rightarrow> s\<lparr>w_pc := if w_i s < length (w_buf s) then W_wait else W_ret (w_i s)\<rparr>
      | W_wait \<Rightarrow>
          if p_rpos p + word_of_nat PIPEBUFSIZ \<le> p_wpos p
          then if closed then s\<lparr>w_pc := W_ret 0\<rparr> else s
          else s\<lparr>w_pc := W_put\<rparr>
      | W_put \<Rightarrow>
          (case pipe_slot (p_wpos p) of
             None \<Rightarrow> s\<lparr>w_pc := W_wild\<rparr>
           | Some k \<Rightarrow> s\<lparr>the_pipe := p\<lparr>p_buf := (p_buf p)(k := w_buf s ! w_i s)\<rparr>, w_pc := W_next\<rparr>)
      | W_next \<Rightarrow> s\<lparr>the_pipe := p\<lparr>p_wpos := p_wpos p + 1\<rparr>, w_i := w_i s + 1, w_pc := W_for\<rparr>
      | _ \<Rightarrow> s)"

text \<open>The programs call again after a return.\<close>

definition call_read :: "nat \<Rightarrow> pipe_sys \<Rightarrow> pipe_sys" where
  "call_read n s = s\<lparr>r_past := r_past s @ r_buf s, r_buf := [], r_n := n, r_i := 0, r_pc := R_for\<rparr>"

definition call_write :: "u8 list \<Rightarrow> pipe_sys \<Rightarrow> pipe_sys" where
  "call_write bs s = s\<lparr>w_past := w_past s @ take (w_i s) (w_buf s), w_buf := bs, w_i := 0, w_pc := W_for\<rparr>"

inductive pipe_step :: "pipe_sys \<Rightarrow> pipe_sys \<Rightarrow> bool" where
  reader: "pipe_step s (devpipe_read closed s)"
| writer: "pipe_step s (devpipe_write closed s)"
| reader_call: "r_pc s = R_ret k \<Longrightarrow> pipe_step s (call_read n s)"
| writer_call: "w_pc s = W_ret k \<Longrightarrow> pipe_step s (call_write bs s)"

inductive_cases pipe_stepE: "pipe_step s t"

text \<open>A new pipe: the page of \<^verbatim>\<open>sys_page_alloc\<close> is zero, and nobody has called yet.\<close>

definition fresh_pipe :: pipe_sys where
  "fresh_pipe = \<lparr>the_pipe = \<lparr>p_rpos = 0, p_wpos = 0, p_buf = (\<lambda>_. 0)\<rparr>, r_pc = R_ret 0, r_n = 0, r_i = 0, r_buf = [],
     r_past = [], w_pc = W_ret 0, w_i = 0, w_buf = [], w_past = []\<rparr>"

text \<open>What the writer has put in so far, what the reader has taken out, and what is in between.\<close>

definition accepted :: "pipe_sys \<Rightarrow> u8 list" where
  "accepted s = w_past s @ take (w_i s) (w_buf s)"

definition delivered_bytes :: "pipe_sys \<Rightarrow> u8 list" where
  "delivered_bytes s = r_past s @ take (r_i s) (r_buf s)"

definition held :: "Pipe \<Rightarrow> u8 list" where
  "held p = ring PIPEBUFSIZ (p_buf p) (unat (p_rpos p)) (unat (p_wpos p) - unat (p_rpos p))"

subsection \<open>The invariant\<close>

definition pipe_ok :: "Pipe \<Rightarrow> bool" where
  "pipe_ok p \<longleftrightarrow> unat (p_rpos p) \<le> unat (p_wpos p) \<and> unat (p_wpos p) \<le> unat (p_rpos p) + PIPEBUFSIZ"

fun reader_ok :: "read_pc \<Rightarrow> pipe_sys \<Rightarrow> bool" where
  "reader_ok R_take s \<longleftrightarrow> length (r_buf s) = r_i s \<and> r_i s < r_n s \<and> p_rpos (the_pipe s) \<noteq> p_wpos (the_pipe s)"
| "reader_ok R_next s \<longleftrightarrow> (\<exists>b bs. r_buf s = take (r_i s) (r_buf s) @ [b] \<and> length (r_buf s) = r_i s + 1 \<and> r_i s < r_n s \<and> held (the_pipe s) = b # bs)"
| "reader_ok (R_ret k) s \<longleftrightarrow> length (r_buf s) = r_i s \<and> k = r_i s \<and> k \<le> r_n s"
| "reader_ok R_wait s \<longleftrightarrow> length (r_buf s) = r_i s \<and> r_i s < r_n s"
| "reader_ok R_for s \<longleftrightarrow> length (r_buf s) = r_i s \<and> r_i s \<le> r_n s"
| "reader_ok R_wild s \<longleftrightarrow> False"

fun writer_ok :: "write_pc \<Rightarrow> pipe_sys \<Rightarrow> bool" where
  "writer_ok W_put s \<longleftrightarrow> w_i s < length (w_buf s) \<and> length (held (the_pipe s)) < PIPEBUFSIZ"
| "writer_ok W_next s \<longleftrightarrow> w_i s < length (w_buf s) \<and> length (held (the_pipe s)) < PIPEBUFSIZ \<and>
     p_buf (the_pipe s) (unat (p_wpos (the_pipe s)) mod PIPEBUFSIZ) = w_buf s ! w_i s"
| "writer_ok W_wait s \<longleftrightarrow> w_i s < length (w_buf s)"
| "writer_ok W_for s \<longleftrightarrow> w_i s \<le> length (w_buf s)"
| "writer_ok (W_ret k) s \<longleftrightarrow> w_i s \<le> length (w_buf s)"
| "writer_ok W_wild s \<longleftrightarrow> False"

definition pipe_inv :: "pipe_sys \<Rightarrow> bool" where
  "pipe_inv s \<longleftrightarrow> pipe_ok (the_pipe s) \<and> reader_ok (r_pc s) s \<and> writer_ok (w_pc s) s \<and>
     unat (p_rpos (the_pipe s)) = length (delivered_bytes s) \<and> unat (p_wpos (the_pipe s)) = length (accepted s) \<and>
     delivered_bytes s @ held (the_pipe s) = accepted s"

lemma pipe_slot_small: "unat pos < 2147483648 \<Longrightarrow> pipe_slot pos = Some (unat pos mod PIPEBUFSIZ)"
  by (simp add: pipe_slot_def int_mod_small)

lemma length_held [simp]: "length (held p) = unat (p_wpos p) - unat (p_rpos p)"
  by (simp add: held_def)

lemma PIPEBUFSIZ_pos: "0 < PIPEBUFSIZ"
  by (simp add: PIPEBUFSIZ_def)

lemma unat_next: "unat (a :: u32) < 2147483648 \<Longrightarrow> unat (a + 1) = unat a + 1"
  by (simp add: unat_word_ariths)

lemma held_take:
  assumes "pipe_ok p" "p_rpos p \<noteq> p_wpos p" "unat (p_wpos p) < 2147483648"
  shows "held p = p_buf p (unat (p_rpos p) mod PIPEBUFSIZ) # held (p\<lparr>p_rpos := p_rpos p + 1\<rparr>)"
    "pipe_ok (p\<lparr>p_rpos := p_rpos p + 1\<rparr>)" "unat (p_rpos p + 1) = unat (p_rpos p) + 1"
proof -
  have lt: "unat (p_rpos p) < unat (p_wpos p)" using assms(1,2) by (auto simp: pipe_ok_def le_less word_unat_eq_iff)
  then show u: "unat (p_rpos p + 1) = unat (p_rpos p) + 1" using assms(3) by (intro unat_next) simp
  show "pipe_ok (p\<lparr>p_rpos := p_rpos p + 1\<rparr>)" using assms(1) lt u by (auto simp: pipe_ok_def)
  show "held p = p_buf p (unat (p_rpos p) mod PIPEBUFSIZ) # held (p\<lparr>p_rpos := p_rpos p + 1\<rparr>)"
    using ring_get [of "unat (p_wpos p) - unat (p_rpos p)"] lt u by (simp add: held_def)
qed

lemma held_put:
  assumes "pipe_ok p" "length (held p) < PIPEBUFSIZ"
  shows "held (p\<lparr>p_buf := (p_buf p)(unat (p_wpos p) mod PIPEBUFSIZ := x)\<rparr>) = held p"
proof -
  let ?n = "unat (p_wpos p) - unat (p_rpos p)" and ?buf = "(p_buf p)(unat (p_wpos p) mod PIPEBUFSIZ := x)"
  have w: "unat (p_rpos p) + ?n = unat (p_wpos p)" using assms(1) by (simp add: pipe_ok_def)
  have "ring PIPEBUFSIZ ?buf (unat (p_rpos p)) (Suc ?n) = held p @ [x]"
    using ring_put [of ?n PIPEBUFSIZ "p_buf p" "unat (p_rpos p)" x] assms(2) w by (simp add: held_def)
  then show ?thesis by (simp add: held_def ring_def)
qed

lemma held_next:
  assumes "pipe_ok p" "length (held p) < PIPEBUFSIZ" "unat (p_wpos p) + 1 < 2147483648"
  shows "held (p\<lparr>p_wpos := p_wpos p + 1\<rparr>) = held p @ [p_buf p (unat (p_wpos p) mod PIPEBUFSIZ)]"
    "pipe_ok (p\<lparr>p_wpos := p_wpos p + 1\<rparr>)" "unat (p_wpos p + 1) = unat (p_wpos p) + 1"
proof -
  show u: "unat (p_wpos p + 1) = unat (p_wpos p) + 1" using assms(3) by (intro unat_next) simp
  show "pipe_ok (p\<lparr>p_wpos := p_wpos p + 1\<rparr>)" using assms(1,2) u by (auto simp: pipe_ok_def)
  have w: "unat (p_rpos p) + (unat (p_wpos p) - unat (p_rpos p)) = unat (p_wpos p)" using assms(1) by (simp add: pipe_ok_def)
  then show "held (p\<lparr>p_wpos := p_wpos p + 1\<rparr>) = held p @ [p_buf p (unat (p_wpos p) mod PIPEBUFSIZ)]"
    using assms(1) u by (simp add: held_def ring_def Suc_diff_le pipe_ok_def)
qed

lemma pipe_full:
  assumes "pipe_ok p" "unat (p_wpos p) < 2147483648"
  shows "p_rpos p + word_of_nat PIPEBUFSIZ \<le> p_wpos p \<longleftrightarrow> length (held p) = PIPEBUFSIZ"
proof -
  have "unat (p_rpos p + word_of_nat PIPEBUFSIZ) = unat (p_rpos p) + PIPEBUFSIZ"
    using assms by (simp add: unat_word_ariths PIPEBUFSIZ_def pipe_ok_def)
  then show ?thesis using assms(1) by (auto simp: word_le_nat_alt pipe_ok_def)
qed

subsection \<open>Every step keeps it\<close>

lemma pipe_invD:
  assumes "pipe_inv s"
  shows "pipe_ok (the_pipe s)" "reader_ok (r_pc s) s" "writer_ok (w_pc s) s"
    "unat (p_rpos (the_pipe s)) = length (delivered_bytes s)" "unat (p_wpos (the_pipe s)) = length (accepted s)"
    "delivered_bytes s @ held (the_pipe s) = accepted s"
  using assms by (simp_all add: pipe_inv_def)

text \<open>The writer's side does not look at what the reader changes, and conversely.\<close>

lemma writer_ok_cong:
  assumes "writer_ok pc s" "w_i t = w_i s" "w_buf t = w_buf s" "p_buf (the_pipe t) = p_buf (the_pipe s)" "p_wpos (the_pipe t) = p_wpos (the_pipe s)"
    and "length (held (the_pipe t)) \<le> length (held (the_pipe s))"
  shows "writer_ok pc t"
  using assms by (cases pc) auto

lemma reader_ok_cong:
  assumes "reader_ok pc s" "r_i t = r_i s" "r_n t = r_n s" "r_buf t = r_buf s" "held (the_pipe t) = held (the_pipe s) @ bs"
    and "p_rpos (the_pipe s) \<noteq> p_wpos (the_pipe s) \<Longrightarrow> p_rpos (the_pipe t) \<noteq> p_wpos (the_pipe t)"
  shows "reader_ok pc t"
  using assms by (cases pc) auto

lemma read_inv:
  assumes inv: "pipe_inv s" and b: "length (accepted s) < 2147483648"
  shows "pipe_inv (devpipe_read closed s)" "accepted (devpipe_read closed s) = accepted s"
proof -
  note I = pipe_invD [OF inv]
  let ?t = "devpipe_read closed s" and ?p = "the_pipe s"
  have W: "unat (p_wpos ?p) < 2147483648" "unat (p_rpos ?p) < 2147483648" using I(1,5) b by (auto simp: pipe_ok_def)
  show a: "accepted ?t = accepted s"
    by (simp add: devpipe_read_def Let_def accepted_def split: read_pc.split option.split)
  show "pipe_inv ?t"
  proof (cases "r_pc s")
    case R_for
    then show ?thesis using I
      by (auto simp: pipe_inv_def devpipe_read_def delivered_bytes_def accepted_def intro: writer_ok_cong [OF I(3)])
  next
    case R_wait
    then show ?thesis using I
      by (auto simp: pipe_inv_def devpipe_read_def delivered_bytes_def accepted_def Let_def intro: writer_ok_cong [OF I(3)])
  next
    case R_take
    have h: "held ?p = p_buf ?p (unat (p_rpos ?p) mod PIPEBUFSIZ) # held (?p\<lparr>p_rpos := p_rpos ?p + 1\<rparr>)"
      using held_take(1) I(1,2) W(1) R_take by simp
    show ?thesis using I R_take h pipe_slot_small [OF W(2)]
      by (auto simp: pipe_inv_def devpipe_read_def delivered_bytes_def accepted_def Let_def intro: writer_ok_cong [OF I(3)])
  next
    case R_next
    then obtain b bs where n: "r_buf s = take (r_i s) (r_buf s) @ [b]" "length (r_buf s) = r_i s + 1" "r_i s < r_n s" "held ?p = b # bs"
      using I(2) by auto
    have "p_rpos ?p \<noteq> p_wpos ?p" using n(4) by (metis diff_self_eq_0 length_held list.size(3) list.distinct(1) length_0_conv)
    note H = held_take [OF I(1) this W(1)]
    have "delivered_bytes ?t = delivered_bytes s @ [b]" using n R_next by (simp add: devpipe_read_def delivered_bytes_def Let_def)
    moreover have "held (the_pipe ?t) = bs" using H(1) n(4) R_next by (simp add: devpipe_read_def Let_def)
    moreover have "writer_ok (w_pc s) ?t"
      using R_next H(3) by (intro writer_ok_cong [OF I(3)]) (auto simp: devpipe_read_def Let_def)
    ultimately show ?thesis using I H n R_next a by (simp add: pipe_inv_def devpipe_read_def Let_def)
  next
    case (R_ret k)
    then show ?thesis using inv by (simp add: devpipe_read_def Let_def)
  next
    case R_wild
    then show ?thesis using I(2) by simp
  qed
qed

lemma write_inv:
  assumes inv: "pipe_inv s" and b: "length (accepted (devpipe_write closed s)) < 2147483648"
  shows "pipe_inv (devpipe_write closed s)"
proof -
  note I = pipe_invD [OF inv]
  let ?t = "devpipe_write closed s" and ?p = "the_pipe s"
  have "length (accepted s) \<le> length (accepted ?t)"
    by (simp add: devpipe_write_def Let_def accepted_def split: write_pc.split option.split)
  then have W: "unat (p_wpos ?p) < 2147483648" using I(5) b by simp
  show "pipe_inv ?t"
  proof (cases "w_pc s")
    case W_for
    then show ?thesis using I
      by (auto simp: pipe_inv_def devpipe_write_def delivered_bytes_def accepted_def intro: reader_ok_cong [OF I(2), of _ "[]"])
  next
    case W_wait
    have "length (held ?p) \<le> PIPEBUFSIZ" using I(1) by (auto simp: pipe_ok_def)
    then show ?thesis using I W_wait pipe_full [OF I(1) W]
      by (auto simp: pipe_inv_def devpipe_write_def delivered_bytes_def accepted_def Let_def intro: reader_ok_cong [OF I(2), of _ "[]"])
  next
    case W_put
    let ?q = "?p\<lparr>p_buf := (p_buf ?p)(unat (p_wpos ?p) mod PIPEBUFSIZ := w_buf s ! w_i s)\<rparr>"
    have t: "?t = s\<lparr>the_pipe := ?q, w_pc := W_next\<rparr>" using W_put pipe_slot_small [OF W] by (simp add: devpipe_write_def Let_def)
    have h: "held ?q = held ?p" using held_put I(1,3) W_put by simp
    have "reader_ok (r_pc s) ?t" using h by (intro reader_ok_cong [OF I(2), of _ "[]"]) (simp_all add: t)
    moreover have "accepted ?t = accepted s" "delivered_bytes ?t = delivered_bytes s" by (simp_all add: t accepted_def delivered_bytes_def)
    moreover have "pipe_ok ?q" using I(1) by (simp add: pipe_ok_def)
    ultimately show ?thesis using I W_put h unfolding pipe_inv_def by (simp add: t)
  next
    case W_next
    let ?q = "?p\<lparr>p_wpos := p_wpos ?p + 1\<rparr>"
    have t: "?t = s\<lparr>the_pipe := ?q, w_i := w_i s + 1, w_pc := W_for\<rparr>" using W_next by (simp add: devpipe_write_def Let_def)
    have w: "w_i s < length (w_buf s)" "length (held ?p) < PIPEBUFSIZ" "p_buf ?p (unat (p_wpos ?p) mod PIPEBUFSIZ) = w_buf s ! w_i s"
      using I(3) W_next by simp_all
    have a: "accepted ?t = accepted s @ [w_buf s ! w_i s]" using w(1) by (simp add: t accepted_def take_Suc_conv_app_nth)
    then have "unat (p_wpos ?p) + 1 < 2147483648" using I(5) b by simp
    note H = held_next [OF I(1) w(2) this, unfolded w(3)]
    have "p_rpos ?p \<noteq> p_wpos ?p + 1" using I(1) H(3) by (auto simp: pipe_ok_def word_unat_eq_iff)
    then have "reader_ok (r_pc s) ?t" using H(1) by (intro reader_ok_cong [OF I(2)]) (simp_all add: t)
    then show ?thesis using I W_next H a w(1) by (simp add: pipe_inv_def t delivered_bytes_def)
  next
    case (W_ret k)
    then show ?thesis using inv by (simp add: devpipe_write_def Let_def)
  next
    case W_wild
    then show ?thesis using I(3) by simp
  qed
qed

lemma call_read_inv:
  assumes "pipe_inv s" "r_pc s = R_ret k"
  shows "pipe_inv (call_read n s)" "accepted (call_read n s) = accepted s"
proof -
  note I = pipe_invD [OF assms(1)]
  show "pipe_inv (call_read n s)" using I assms(2)
    by (auto simp: pipe_inv_def call_read_def delivered_bytes_def accepted_def intro: writer_ok_cong [OF I(3)])
qed (simp add: call_read_def accepted_def)

lemma call_write_inv:
  assumes "pipe_inv s" "w_pc s = W_ret k"
  shows "pipe_inv (call_write bs s)" "accepted (call_write bs s) = accepted s"
proof -
  note I = pipe_invD [OF assms(1)]
  show "pipe_inv (call_write bs s)" using I assms(2)
    by (auto simp: pipe_inv_def call_write_def delivered_bytes_def accepted_def intro: reader_ok_cong [OF I(2), of _ "[]"])
qed (simp add: call_write_def accepted_def)

lemma accepted_grows: "pipe_step s t \<Longrightarrow> length (accepted s) \<le> length (accepted t)"
  by (erule pipe_stepE)
     (simp_all add: devpipe_read_def devpipe_write_def call_read_def call_write_def Let_def accepted_def
        split: read_pc.split write_pc.split option.split)

lemma pipe_inv_step:
  assumes "pipe_step s t" "pipe_inv s" "length (accepted t) < 2147483648"
  shows "pipe_inv t"
proof -
  have "length (accepted s) < 2147483648" using accepted_grows [OF assms(1)] assms(3) by simp
  with assms show ?thesis by cases (auto intro: read_inv write_inv call_read_inv call_write_inv)
qed

lemma pipe_inv_reachable:
  assumes "pipe_step\<^sup>*\<^sup>* s t" "pipe_inv s" "length (accepted t) < 2147483648"
  shows "pipe_inv t"
  using assms
proof (induction rule: rtranclp_induct)
  case (step t u)
  then show ?case using accepted_grows [OF step(2)] pipe_inv_step by simp
qed

lemma pipe_inv_fresh: "pipe_inv fresh_pipe"
  by (simp add: pipe_inv_def fresh_pipe_def pipe_ok_def delivered_bytes_def accepted_def held_def)

text \<open>
  \<^bold>\<open>C13.\<close> A pipe is a queue although nobody locks it. However the steps of reader and writer interleave, over
  any number of calls and whatever \<^verbatim>\<open>_pipeisclosed\<close> answers, the bytes the reader has taken followed by
  those in the buffer are exactly the bytes the writer has put in; at most 32 are on the way, neither side
  ever leaves the buffer, and a call of read returns the number of bytes it has stored. The writer must not
  have put in \<open>2\<^sup>3\<^sup>1\<close> bytes: the positions are signed.
\<close>

theorem pipe_fifo:
  assumes "pipe_step\<^sup>*\<^sup>* fresh_pipe s" "length (accepted s) < 2147483648"
  shows "delivered_bytes s @ held (the_pipe s) = accepted s \<and> length (held (the_pipe s)) \<le> PIPEBUFSIZ \<and>
    r_pc s \<noteq> R_wild \<and> w_pc s \<noteq> W_wild \<and> (\<forall>k. r_pc s = R_ret k \<longrightarrow> k = length (r_buf s) \<and> k \<le> r_n s)"
proof -
  note I = pipe_invD [OF pipe_inv_reachable [OF assms(1) pipe_inv_fresh assms(2)]]
  have "length (held (the_pipe s)) \<le> PIPEBUFSIZ" using I(1) by (auto simp: pipe_ok_def)
  moreover have "r_pc s \<noteq> R_wild" "w_pc s \<noteq> W_wild" using I(2,3) by auto
  moreover have "\<forall>k. r_pc s = R_ret k \<longrightarrow> k = length (r_buf s) \<and> k \<le> r_n s" using I(2) by auto
  ultimately show ?thesis using I(6) by blast
qed

subsection \<open>One transfer\<close>

lemma put_byte:
  assumes "w_pc s = W_for" "w_i s < length (w_buf s)" "\<not> p_rpos (the_pipe s) + word_of_nat PIPEBUFSIZ \<le> p_wpos (the_pipe s)"
    and k: "pipe_slot (p_wpos (the_pipe s)) = Some k"
  shows "pipe_step\<^sup>*\<^sup>* s (s\<lparr>the_pipe := (the_pipe s)\<lparr>p_wpos := p_wpos (the_pipe s) + 1, p_buf := (p_buf (the_pipe s))(k := w_buf s ! w_i s)\<rparr>,
    w_i := w_i s + 1\<rparr>)" (is "pipe_step\<^sup>*\<^sup>* s ?t")
proof -
  let ?u = "s\<lparr>the_pipe := (the_pipe s)\<lparr>p_buf := (p_buf (the_pipe s))(k := w_buf s ! w_i s)\<rparr>, w_pc := W_next\<rparr>"
  have "devpipe_write False s = s\<lparr>w_pc := W_wait\<rparr>" "devpipe_write False (s\<lparr>w_pc := W_wait\<rparr>) = s\<lparr>w_pc := W_put\<rparr>"
    "devpipe_write False (s\<lparr>w_pc := W_put\<rparr>) = ?u" "devpipe_write False ?u = ?t"
    using assms by (simp_all add: devpipe_write_def Let_def)
  then show ?thesis by (metis writer converse_rtranclp_into_rtranclp rtranclp.rtrancl_refl)
qed

lemma get_byte:
  assumes "r_pc s = R_for" "r_i s < r_n s" "p_rpos (the_pipe s) \<noteq> p_wpos (the_pipe s)" and k: "pipe_slot (p_rpos (the_pipe s)) = Some k"
  shows "pipe_step\<^sup>*\<^sup>* s (s\<lparr>the_pipe := (the_pipe s)\<lparr>p_rpos := p_rpos (the_pipe s) + 1\<rparr>, r_i := r_i s + 1, r_buf := r_buf s @ [p_buf (the_pipe s) k]\<rparr>)"
    (is "pipe_step\<^sup>*\<^sup>* s ?t")
proof -
  let ?u = "s\<lparr>r_buf := r_buf s @ [p_buf (the_pipe s) k], r_pc := R_next\<rparr>"
  have "devpipe_read False s = s\<lparr>r_pc := R_wait\<rparr>" "devpipe_read False (s\<lparr>r_pc := R_wait\<rparr>) = s\<lparr>r_pc := R_take\<rparr>"
    "devpipe_read False (s\<lparr>r_pc := R_take\<rparr>) = ?u" "devpipe_read False ?u = ?t"
    using assms by (simp_all add: devpipe_read_def Let_def)
  then show ?thesis by (metis reader converse_rtranclp_into_rtranclp rtranclp.rtrancl_refl)
qed

definition one_byte :: pipe_sys where
  "one_byte = \<lparr>the_pipe = \<lparr>p_rpos = 1, p_wpos = 1, p_buf = (\<lambda>_. 0)(0 := 65)\<rparr>, r_pc = R_for, r_n = 5, r_i = 1,
     r_buf = [65], r_past = [], w_pc = W_for, w_i = 1, w_buf = [65, 66], w_past = []\<rparr>"

lemma one_byte_reachable: "pipe_step\<^sup>*\<^sup>* fresh_pipe one_byte"
proof -
  let ?w = "call_write [65, 66] fresh_pipe"
  let ?r = "call_read 5 ?w"
  let ?p = "?r\<lparr>the_pipe := \<lparr>p_rpos = 0, p_wpos = 1, p_buf = (\<lambda>_. 0)(0 := 65)\<rparr>, w_i := 1\<rparr>"
  note defs = fresh_pipe_def call_write_def call_read_def
  have k: "pipe_slot 0 = Some 0" by (simp add: pipe_slot_def int_mod_def)
  have "pipe_step fresh_pipe ?w" by (rule writer_call) (simp add: fresh_pipe_def)
  moreover have "pipe_step ?w ?r" by (rule reader_call) (simp add: defs)
  ultimately have "pipe_step\<^sup>*\<^sup>* fresh_pipe ?r" by (metis converse_rtranclp_into_rtranclp rtranclp.rtrancl_refl)
  moreover have "pipe_step\<^sup>*\<^sup>* ?r ?p" using put_byte [of ?r 0] k by (simp add: defs PIPEBUFSIZ_def)
  moreover have "pipe_step\<^sup>*\<^sup>* ?p one_byte" using get_byte [of ?p 0] k by (simp add: defs one_byte_def)
  ultimately show ?thesis by (metis rtranclp_trans)
qed

theorem pipe_fifo_witness: "delivered_bytes one_byte @ held (the_pipe one_byte) = [65] \<and> r_pc one_byte \<noteq> R_wild \<and> w_pc one_byte \<noteq> W_wild"
proof -
  have "accepted one_byte = [65]" by (simp add: one_byte_def accepted_def)
  then show ?thesis using pipe_fifo [OF one_byte_reachable] by simp
qed

text \<open>Behind \<open>2\<^sup>3\<^sup>1\<close> bytes the index is negative.\<close>

lemma pipe_slot_negative: "pipe_slot (0x80000001) = None"
  by (simp add: pipe_slot_def int_mod_def PIPEBUFSIZ_def)

end
