(* ===== verification/Lib_Args.thy ===== *)
theory Lib_Args
  imports JOS_Prelude "HOL-Library.Monad_Syntax"
begin

text \<open>
  Command-line flags (\<^verbatim>\<open>lib/args.c\<close>, \<^verbatim>\<open>inc/args.h\<close>). The routines take flags off the argument vector in
  place; the theorem says which flags come out and which arguments are left, by a specification over the
  whole vector. A C string is its list of characters, the vector the list of its first \<^verbatim>\<open>argc\<close> entries.
\<close>

record Argstate =
  argc :: nat
  argv :: "string list"
  curarg :: "string option"
  argvalue_field :: "string option"

definition argstart :: "string list \<Rightarrow> Argstate" where
  "argstart av = \<lparr>argc = length av, argv = av, curarg = (if 1 < length av then Some [] else None), argvalue_field = None\<rparr>"

text \<open>\<^verbatim>\<open>memmove\<close> of the entries from 2 on, with the null pointer behind the last, one down.\<close>

definition shift_args :: "Argstate \<Rightarrow> Argstate" where
  "shift_args a = a\<lparr>argv := take 1 (argv a) @ drop 2 (argv a), argc := argc a - 1\<rparr>"

definition take_flag :: "string \<Rightarrow> Argstate \<Rightarrow> int \<times> Argstate" where
  "take_flag cur a = (of_char (hd cur), a\<lparr>curarg := Some (tl cur)\<rparr>)"

definition endofargs :: "Argstate \<Rightarrow> int \<times> Argstate" where
  "endofargs a = (- 1, a\<lparr>curarg := None\<rparr>)"

definition is_flag :: "string \<Rightarrow> bool" where
  "is_flag s \<longleftrightarrow> s \<noteq> [] \<and> hd s = CHR ''-'' \<and> tl s \<noteq> []"

definition argnext :: "Argstate \<Rightarrow> int \<times> Argstate" where
  "argnext a =
     (let a = a\<lparr>argvalue_field := None\<rparr> in
      case curarg a of
        None \<Rightarrow> (- 1, a)
      | Some cur \<Rightarrow>
          if cur = []
          then if argc a = 1 \<or> \<not> is_flag (argv a ! 1) then endofargs a
               else let cur = tl (argv a ! 1); a = shift_args (a\<lparr>curarg := Some cur\<rparr>) in
                    if cur = ''-'' then endofargs a else take_flag cur a
          else take_flag cur a)"

definition argnextvalue :: "Argstate \<Rightarrow> string option \<times> Argstate" where
  "argnextvalue a =
     (case curarg a of
        None \<Rightarrow> (None, a)
      | Some cur \<Rightarrow>
          let a = (if cur \<noteq> [] then a\<lparr>argvalue_field := Some cur, curarg := Some []\<rparr>
                   else if 1 < argc a then shift_args (a\<lparr>argvalue_field := Some (argv a ! 1)\<rparr>)
                   else a\<lparr>argvalue_field := None, curarg := None\<rparr>)
          in (argvalue_field a, a))"

definition argvalue :: "Argstate \<Rightarrow> string option \<times> Argstate" where
  "argvalue a = (if argvalue_field a \<noteq> None then (argvalue_field a, a) else argnextvalue a)"

subsection \<open>All flags of a command line\<close>

definition args_ok :: "Argstate \<Rightarrow> bool" where
  "args_ok a \<longleftrightarrow> argc a = length (argv a) \<and> (curarg a \<noteq> None \<longrightarrow> 1 \<le> argc a)"

lemma args_ok_start: "args_ok (argstart av)"
  by (simp add: args_ok_def argstart_def)

text \<open>What is left to read: the rest of the current argument and all later ones.\<close>

definition args_measure :: "Argstate \<Rightarrow> nat" where
  "args_measure a = (case curarg a of None \<Rightarrow> 0 | Some cur \<Rightarrow> 1 + length cur + sum_list (map length (tl (argv a))))"

lemma argnext_cases:
  assumes "args_ok a" and "argnext a = (r, a')"
  shows "args_ok a'" and "r \<noteq> - 1 \<Longrightarrow> args_measure a' < args_measure a"
proof -
  obtain zero rest where v: "curarg a \<noteq> None \<Longrightarrow> argv a = zero # rest"
    using assms(1) by (cases "argv a") (auto simp: args_ok_def)
  have "args_ok a' \<and> (r \<noteq> - 1 \<longrightarrow> args_measure a' < args_measure a)"
  proof (cases "curarg a")
    case None
    then show ?thesis using assms by (auto simp: argnext_def args_ok_def args_measure_def)
  next
    case (Some cur)
    show ?thesis
    proof (cases "cur = [] \<and> argc a \<noteq> 1")
      case True
      then obtain x xs where "rest = x # xs" using v Some assms(1) by (cases rest) (auto simp: args_ok_def)
      then show ?thesis using assms v Some True
        by (cases x) (auto simp: argnext_def Let_def args_ok_def args_measure_def is_flag_def endofargs_def take_flag_def shift_args_def
            numeral_2_eq_2 split: if_splits)
    next
      case False
      then show ?thesis using assms v Some
        by (cases cur) (auto simp: argnext_def Let_def args_ok_def args_measure_def endofargs_def take_flag_def split: if_splits)
    qed
  qed
  then show "args_ok a'" "r \<noteq> - 1 \<Longrightarrow> args_measure a' < args_measure a" by blast+
qed

text \<open>The loop of a program that asks for all its flags.\<close>

partial_function (option) all_flags :: "Argstate \<Rightarrow> (int list \<times> Argstate) option" where
  "all_flags a =
     (case argnext a of (r, a) \<Rightarrow>
      if r < 0 then Some ([], a) else do { (fs, b) \<leftarrow> all_flags a; Some (r # fs, b) })"

text \<open>The flags at the head of an argument list, and the arguments behind them.\<close>

fun split_flags :: "string list \<Rightarrow> string \<times> string list" where
  "split_flags [] = ([], [])"
| "split_flags (x # xs) =
     (if \<not> is_flag x then ([], x # xs)
      else if x = ''--'' then ([], xs)
      else case split_flags xs of (fs, rest) \<Rightarrow> (tl x @ fs, rest))"

lemma all_flags_from:
  assumes "args_ok a" "curarg a = Some cur" "argv a = z # rest"
  shows "\<exists>b. all_flags a = Some (map of_char (cur @ fst (split_flags rest)), b) \<and> argv b = z # snd (split_flags rest) \<and> argc b = length (argv b)"
  using assms
proof (induction "args_measure a" arbitrary: a cur rest rule: less_induct)
  case less
  have n: "argc a = Suc (length rest)" using less.prems by (simp add: args_ok_def)
  have go: "\<exists>b. all_flags a = Some (of_char c # map of_char (cs @ fst (split_flags rest')), b) \<and> argv b = z # snd (split_flags rest') \<and> argc b = length (argv b)"
    if "argnext a = (of_char c, a')" "curarg a' = Some cs" "argv a' = z # rest'" for c cs rest' a'
  proof -
    note A = argnext_cases [OF less.prems(1) that(1)]
    have nn: "0 \<le> (of_char c :: int)" by (simp add: of_char_def)
    then have "args_measure a' < args_measure a" by (intro A(2)) linarith
    then show ?thesis using less.hyps [OF _ A(1) that(2,3)] that(1) nn by (subst all_flags.simps) auto
  qed
  show ?case
  proof (cases cur)
    case (Cons c cs)
    then have "argnext a = (of_char c, (a\<lparr>argvalue_field := None\<rparr>)\<lparr>curarg := Some cs\<rparr>)"
      using less.prems(2) by (simp add: argnext_def take_flag_def)
    then show ?thesis using go [of c _ cs rest] less.prems(3) Cons by auto
  next
    case Nil
    show ?thesis
    proof (cases "rest = [] \<or> \<not> is_flag (hd rest) \<or> hd rest = ''--''")
      case True
      then show ?thesis using less.prems Nil n
        by (subst all_flags.simps) (cases rest, auto simp: argnext_def endofargs_def shift_args_def Let_def is_flag_def numeral_2_eq_2)
    next
      case False
      then obtain c cs xs where rest: "rest = (CHR ''-'' # c # cs) # xs" "c # cs \<noteq> ''-''"
        by (cases rest; cases "hd rest"; cases "tl (hd rest)") (auto simp: is_flag_def)
      have f: "is_flag (CHR ''-'' # c # cs)" by (simp add: is_flag_def)
      let ?a = "(shift_args (a\<lparr>argvalue_field := None, curarg := Some (c # cs)\<rparr>))\<lparr>curarg := Some cs\<rparr>"
      have "argnext a = (of_char c, ?a)" using less.prems Nil n rest f by (auto simp: argnext_def take_flag_def Let_def)
      moreover have "argv ?a = z # xs" using less.prems(3) rest(1) by (simp add: shift_args_def numeral_2_eq_2)
      ultimately show ?thesis using go [of c ?a cs xs] f rest(2) Nil unfolding rest(1) by (auto split: prod.split)
    qed
  qed
qed

text \<open>
  A program that asks for flags until there are no more gets the letters of the flag arguments in their
  order, and is left with the arguments behind them; a \<^verbatim>\<open>--\<close> ends the flags and is dropped.
\<close>

theorem all_flags_spec:
  assumes "av \<noteq> []"
  shows "\<exists>a. all_flags (argstart av) = Some (map of_char (fst (split_flags (tl av))), a) \<and>
    argv a = hd av # snd (split_flags (tl av)) \<and> argc a = length (argv a)"
proof (cases "1 < length av")
  case True
  then show ?thesis using all_flags_from [OF args_ok_start, of av "[]" "hd av" "tl av"] assms by (simp add: argstart_def)
next
  case False
  then obtain z where "av = [z]" using assms by (cases av) auto
  then show ?thesis by (subst all_flags.simps) (simp add: argstart_def argnext_def)
qed

text \<open>The example of \<^verbatim>\<open>inc/args.h\<close>: the value of \<^verbatim>\<open>-f\<close> is the next argument.\<close>

lemma argvalue_example:
  "let (i, a) = argnext (argstart [''prog'', ''-rx'', ''-f'', ''foo'', ''--'', ''-r'', ''duh'']);
       (j, a) = argnext a; (k, a) = argnext a; (v, a) = argvalue a; (l, a) = argnext a
   in [i, j, k, l] = [of_char CHR ''r'', of_char CHR ''x'', of_char CHR ''f'', - 1] \<and> v = Some ''foo'' \<and> argv a = [''prog'', ''-r'', ''duh'']"
  by code_simp

end
