(* ===== verification/Spec2Isabelle.thy ===== *)
theory Spec2Isabelle
  imports Kern_Pmap_Check Kern_Trap_Frame Fs_Serv_Spec Fs_Open Lib_Printf Kern_Printf Kern_Kdebug Lib_Fork_Spec Lib_Printfmt_Spec Lib_Pipe Lib_Args
begin

text \<open>
  Verification of JOS: a small multiprocessor kernel, the file server that runs on it as a user
  environment, and the library user programs are linked with.

  \<^bold>\<open>The program.\<close> User environments enter the kernel through \<^verbatim>\<open>trap\<close>, which takes the big kernel lock and
  dispatches to the system calls, the page-fault path, the clock and the console. The system calls work on
  two tables, physical pages with reference counts and environments, and on the page tables, which are
  words of physical memory; every trap ends in \<^verbatim>\<open>env_run\<close> or \<^verbatim>\<open>sched_yield\<close>. The file server gets its
  requests as messages, keeps the disk in a demand-paged cache whose page-fault handler calls the disk
  driver, and maps a page per open file into its clients. The library builds \<^verbatim>\<open>fork\<close>, pipes and formatted
  output from system calls and shared pages.

  \<^bold>\<open>How it is modelled.\<close> An operation is a function from a state to an outcome: a result with the new state,
  a panic, or leaving for good to user mode, to the halted processor, or to another processor that holds
  the lock (\<^verbatim>\<open>JOS_Prelude\<close>). Words are machine words of their width, so arithmetic wraps; structures are
  records, tables are functions on indices, error codes are negative words. Constants and macros are in
  \<^verbatim>\<open>JOS_Types\<close>, loops with early returns and signed division in \<^verbatim>\<open>JOS_Loops\<close>, free lists in
  \<^verbatim>\<open>Linked_Lists\<close>, circular buffers in \<^verbatim>\<open>Ring_Buffers\<close>.

  \<^bold>\<open>Kernel.\<close> The state (\<^verbatim>\<open>Kern_State\<close>) has the global variables of \<^verbatim>\<open>kern/pmap.c\<close>, \<^verbatim>\<open>kern/env.c\<close> and
  \<^verbatim>\<open>kern/cpu.h\<close>, physical memory as an array of words, and the console.
  \<^item> \<^verbatim>\<open>Kern_Pmap\<close> is \<^verbatim>\<open>kern/pmap.c\<close>, \<^verbatim>\<open>Kern_Pmap_Check\<close> its self tests and \<^verbatim>\<open>mem_init\<close>. \<^verbatim>\<open>Kern_Pmap_List\<close>,
    \<^verbatim>\<open>Kern_Pmap_VM\<close>, \<^verbatim>\<open>Kern_Pmap_Walk\<close> and \<^verbatim>\<open>Kern_Pmap_Map\<close> show that page tables in raw memory behave as
    maps from virtual pages to entries: inserting and removing a page are updates at one point, reference
    counts and the free list stay consistent, and running out of memory changes nothing.
    \<^verbatim>\<open>Kern_Pmap_User\<close> says which ranges \<^verbatim>\<open>user_mem_check\<close> accepts.
  \<^item> \<^verbatim>\<open>Kern_Env\<close> is \<^verbatim>\<open>kern/env.c\<close> and \<^verbatim>\<open>kern/sched.c\<close>. \<^verbatim>\<open>Kern_Env_Ids\<close>, \<^verbatim>\<open>Kern_Env_VM\<close> and \<^verbatim>\<open>Kern_Env_Free\<close>
    treat identifiers, new address spaces and their release; \<^verbatim>\<open>Kern_Inv\<close> states the system invariant and
    that allocating and freeing environments keep it; \<^verbatim>\<open>Kern_Sched\<close> that scheduling does, and round robin.
  \<^item> \<^verbatim>\<open>Kern_Spinlock\<close> is \<^verbatim>\<open>kern/spinlock.c\<close>: mutual exclusion for any number of processors that interleave
    single memory accesses, and that the lock can always be had.
  \<^item> \<^verbatim>\<open>Kern_Syscall\<close> is \<^verbatim>\<open>kern/syscall.c\<close> and \<^verbatim>\<open>kern/time.c\<close>; \<^verbatim>\<open>Kern_Syscall_Inv\<close> shows that calls keep
    the system invariant, from every state that satisfies it. Two kinds of single calls are excluded, because the
    code does not guard against them: sharing a page that has 65535 references already, and sending a page
    to a receiver that declined pages by naming an address from \<^verbatim>\<open>UTOP\<close> on. \<^verbatim>\<open>Kern_Syscall_Spec\<close> says what
    the calls for memory and messages do, and what becomes of that page.
  \<^item> \<^verbatim>\<open>Kern_Trap\<close> is \<^verbatim>\<open>kern/trap.c\<close>; \<^verbatim>\<open>Kern_Trap_Inv\<close> shows the same, with the same two exclusions,
    for every trap from user mode and for the interrupts that wake a halted processor, and that each ends in
    a state in which the next one may come. \<^verbatim>\<open>Kern_Trap_Frame\<close> shows what a user page-fault handler finds on
    its stack, that each vector leads to its entry point, and which vectors programs may raise.
  \<^item> \<^verbatim>\<open>Kern_Console\<close> is \<^verbatim>\<open>kern/console.c\<close> and \<^verbatim>\<open>kern/picirq.c\<close>: input is a queue of what the serial port
    sends and of the characters the keyboard bytes stand for, and output stays on the screen.
    \<^verbatim>\<open>Kern_Printf\<close> is \<^verbatim>\<open>kern/printf.c\<close>, and \<^verbatim>\<open>Kern_Kdebug\<close> is \<^verbatim>\<open>kern/kdebug.c\<close> with the termination of its search.

  \<^bold>\<open>File server.\<close> \<^verbatim>\<open>Fs_Ide\<close> is \<^verbatim>\<open>fs/ide.c\<close> on a device with a stream of status bytes; \<^verbatim>\<open>Fs_Bc\<close> is
  \<^verbatim>\<open>fs/bc.c\<close>, and \<^verbatim>\<open>Fs_Bc_Spec\<close> shows that the cache is invisible. \<^verbatim>\<open>Fs_Fs\<close> is \<^verbatim>\<open>fs/fs.c\<close>; \<^verbatim>\<open>Fs_Bitmap\<close>,
  \<^verbatim>\<open>Fs_File\<close> and \<^verbatim>\<open>Fs_Rw\<close> refine its operations to byte arrays with holes. \<^verbatim>\<open>Fs_Serv\<close> is \<^verbatim>\<open>fs/serv.c\<close>;
  \<^verbatim>\<open>Fs_Serv_Spec\<close> and \<^verbatim>\<open>Fs_Open\<close> treat requests of clients and the table of open files.

  \<^bold>\<open>Library.\<close> \<^verbatim>\<open>Lib_String\<close> is \<^verbatim>\<open>lib/string.c\<close>, with both versions of the block routines, which
  \<^verbatim>\<open>Lib_String_Spec\<close> shows equal; \<^verbatim>\<open>Lib_Printfmt\<close> and \<^verbatim>\<open>Lib_Printf\<close> are \<^verbatim>\<open>lib/printfmt.c\<close> and
  \<^verbatim>\<open>lib/printf.c\<close>, with \<^verbatim>\<open>Lib_Printfmt_Spec\<close> (numbers are read back by \<^verbatim>\<open>strtol\<close>) and \<^verbatim>\<open>Lib_Printfmt_Safe\<close>
  (it returns, and stays in its buffer). \<^verbatim>\<open>Lib_Fork\<close> is \<^verbatim>\<open>lib/fork.c\<close> and \<^verbatim>\<open>lib/pgfault.c\<close>, as calls into
  the kernel of the model; \<^verbatim>\<open>Lib_Fork_Spec\<close> composes the contracts of the system calls to copy-on-write.
  \<^verbatim>\<open>Lib_Pipe\<close> is the transfer of \<^verbatim>\<open>lib/pipe.c\<close> under any interleaving, \<^verbatim>\<open>Lib_Args\<close> is \<^verbatim>\<open>lib/args.c\<close>.

  \<^bold>\<open>Interfaces.\<close> \<open>intrusive_list\<close> is provided by the page and the environment free lists, \<open>fifo\<close> by the input
  buffer of the console, \<open>client_buffer\<close> by the two places of a request page that hold data, and
  \<open>output_routine\<close> by the three ways to put a character: into a string, into the buffer of a program, and
  on the console.

  \<^bold>\<open>Bounds.\<close> Loops over tables are structural, other counting loops have termination proofs. Loops that end
  only for well-formed data (strings without a terminator, formats, the interval search) are partial
  functions or \<^verbatim>\<open>while_option\<close>, and returning is part of the theorems. The disk driver waits on a stream of
  status bytes, and is shown to return when the device becomes ready. The fault handler of the block cache
  faults itself when it looks at the bitmap; its model has fuel for three faults, one each for
  the block, the bitmap and the super block, and the theorems, which say that the accesses return, show
  that this is enough. The kernel invariant allows at most
  65536 pages of memory, the 256 MB that the kernel maps; reference counts have 16 bits, and the
  hypotheses on them exclude only the largest values.

  \<^bold>\<open>Not modelled.\<close> The boot loader and the assembly code (of the trap entry points only the numbers they push
  appear), the static page table used before
  \<^verbatim>\<open>mem_init\<close>, and the order of initialisation calls in \<^verbatim>\<open>kern/init.c\<close>; firmware tables
  (\<^verbatim>\<open>kern/mpconfig.c\<close>), the programming of the local interrupt controller beyond its acknowledgement, PCI
  and the network card, whose behaviour is that of hardware; the interactive monitor; the descriptor layer
  \<^verbatim>\<open>lib/fd.c\<close> with its device tables, \<^verbatim>\<open>malloc\<close>, \<^verbatim>\<open>spawn\<close> and the wrappers for messages; sockets, the network
  server and the third-party protocol stack under \<^verbatim>\<open>net/lwip\<close>; the user programs, the shell and the tools
  that run on the host. Caches of the processor and the reordering of memory accesses are not modelled
  either: the processors of the lock and the two sides of a pipe see one memory. Messages printed by the
  kernel on errors are not part of the outcomes.
\<close>

end
